(* ===== verification/Prelude.thy ===== *)
theory Prelude
  imports Main "HOL-Library.Word" "HOL-Library.Signed_Division"
begin

text \<open>
  Shared vocabulary of the GD32VW55x firmware models: the C integer types as words, byte
  buffers as lists, \<^emph>\<open>memcpy\<close> into a buffer (\<open>blit\<close>) and reading a window of it
  (\<open>window\<close>), and the interface locales that several components rely on:
  a checksum folded over bytes (\<open>checksum\<close>), an insertion into a list ordered by
  a comparison callback (\<open>ordered_insert\<close>), and steps whose cost is paid by a potential
  (\<open>paid_steps\<close>).
\<close>

unbundle bit_operations_syntax

named_theorems buffer_simps \<open>length and content of buffers after a copy\<close>

section \<open>C integers and byte buffers\<close>

type_synonym u8 = "8 word"
type_synonym u16 = "16 word"
type_synonym u32 = "32 word"
type_synonym bytes = "u8 list"

text \<open>
  \<open>window off n xs\<close> is the window of \<open>n\<close> elements at offset \<open>off\<close>;
  \<open>blit xs off ys\<close> is the buffer after \<^verbatim>\<open>memcpy(xs + off, ys, length ys)\<close>.
  Both are used only where the copy is inside the buffer; a model that lets the code copy
  past the end says so in its result type instead.
\<close>

definition window :: "nat \<Rightarrow> nat \<Rightarrow> 'a list \<Rightarrow> 'a list" where
  "window off n xs = take n (drop off xs)"

definition blit :: "'a list \<Rightarrow> nat \<Rightarrow> 'a list \<Rightarrow> 'a list" where
  "blit xs off ys = take off xs @ ys @ drop (off + length ys) xs"

lemma length_window [simp]: "length (window off n xs) = min n (length xs - off)"
  by (simp add: window_def min.commute)

lemma nth_window: "i < n \<Longrightarrow> off + i < length xs \<Longrightarrow> window off n xs ! i = xs ! (off + i)"
  by (simp add: window_def)

lemma window_0_all [simp]: "window 0 (length xs) xs = xs"
  by (simp add: window_def)

lemma length_blit [buffer_simps]:
  "off + length ys \<le> length xs \<Longrightarrow> length (blit xs off ys) = length xs"
  by (simp add: blit_def)

lemma nth_blit [buffer_simps]:
  assumes "off + length ys \<le> length xs" and "i < length xs"
  shows "blit xs off ys ! i =
    (if off \<le> i \<and> i < off + length ys then ys ! (i - off) else xs ! i)"
proof -
  have 1: "i - off - length ys + (off + length ys) = i" if "\<not> i < off + length ys"
    using that by linarith
  show ?thesis using assms
    by (auto simp: blit_def nth_append min_def 1 add.commute)
qed

lemma window_blit_same [buffer_simps]:
  "off + length ys \<le> length xs \<Longrightarrow> window off (length ys) (blit xs off ys) = ys"
  by (simp add: window_def blit_def)

lemma window_blit_disjoint [buffer_simps]:
  assumes "off + length ys \<le> length xs" and "a + n \<le> off \<or> off + length ys \<le> a"
  shows "window a n (blit xs off ys) = window a n xs"
proof (rule nth_equalityI)
  show "length (window a n (blit xs off ys)) = length (window a n xs)"
    using assms by (simp add: length_blit)
next
  fix i
  assume "i < length (window a n (blit xs off ys))"
  then have i: "i < n" "a + i < length xs"
    using assms by (auto simp: length_blit)
  then have "\<not> (off \<le> a + i \<and> a + i < off + length ys)"
    using assms(2) by linarith
  then show "window a n (blit xs off ys) ! i = window a n xs ! i"
    using i assms(1) by (auto simp: nth_window length_blit nth_blit)
qed

lemma window_append_split: "window a (m + n) xs = window a m xs @ window (a + m) n xs"
  by (simp add: window_def take_add add.commute)

section \<open>Words\<close>

lemma unat_u16_lt [simp]: "unat (w :: u16) < 65536"
  using unsigned_less [of w, where ?'a = nat] by simp

lemma unat_u8_lt [simp]: "unat (w :: u8) < 256"
  using unsigned_less [of w, where ?'a = nat] by simp

lemma unat_u8_le: "unat (w :: u8) \<le> 255"
  using unat_u8_lt [of w] by linarith

lemma unat_u32_lt [simp]: "unat (w :: u32) < 4294967296"
  using unsigned_less [of w, where ?'a = nat] by simp

lemma unat_less_exp: "take_bit n w = w \<Longrightarrow> unat (w :: 'a::len word) < 2 ^ n"
  by (metis take_bit_nat_less_exp unsigned_take_bit_eq)

lemma unat_of_nat_u8: "i < 256 \<Longrightarrow> unat (of_nat i :: u8) = i"
  by (simp add: unat_of_nat take_bit_nat_eq_self)

lemma unat_of_nat_u32: "i < 4294967296 \<Longrightarrow> unat (of_nat i :: u32) = i"
  by (simp add: unat_of_nat take_bit_nat_eq_self)

lemma xor_cancel_right [simp]: "a XOR c = b XOR c \<longleftrightarrow> a = (b :: 'a::len word)"
  by (metis xor.assoc xor.right_neutral xor_self_eq)

lemma xor_cancel_left [simp]: "c XOR a = c XOR b \<longleftrightarrow> a = (b :: 'a::len word)"
  by (metis xor.commute xor_cancel_right)

lemma and_255: "w AND 0xFF = take_bit 8 (w :: 'a::len word)"
  using take_bit_eq_mask [of 8 w] by (simp add: mask_numeral)

lemma ff_and [simp]: "(0xFF :: u8) AND w = w"
  using take_bit_word_eq_self [of 8 w] by (simp add: and_255 and.commute)

lemma ucast_inj:
  assumes "LENGTH('a) \<le> LENGTH('b)" and "ucast b = (ucast c :: 'b::len word)"
  shows "b = (c :: 'a::len word)"
proof (rule bit_word_eqI)
  fix n
  assume "n < LENGTH('a)"
  then show "bit b n = bit c n"
    using arg_cong [OF assms(2), of "\<lambda>w. bit w n"] assms(1) by (simp add: bit_ucast_iff)
qed

lemma ucast_back [simp]:
  "LENGTH('a) \<le> LENGTH('b) \<Longrightarrow> ucast (ucast (b :: 'a::len word) :: 'b::len word) = b"
  by (rule bit_word_eqI) (simp add: bit_ucast_iff)

lemma unat_ucast_up [simp]:
  assumes "LENGTH('a) \<le> LENGTH('b)"
  shows "unat (ucast (b :: 'a::len word) :: 'b::len word) = unat b"
proof -
  have "unat b < 2 ^ LENGTH('a)" by (rule unsigned_less)
  also have "\<dots> \<le> 2 ^ LENGTH('b)" using assms by simp
  finally show ?thesis by (simp add: unsigned_ucast_eq take_bit_nat_eq_self)
qed

lemma word_eq_by_parts:
  assumes "drop_bit k (s :: 'a::len word) = drop_bit k t"
    and "push_bit (LENGTH('a) - k) s = push_bit (LENGTH('a) - k) t"
  shows "s = t"
proof (rule bit_word_eqI)
  fix n
  assume n: "n < LENGTH('a)"
  show "bit s n = bit t n"
  proof (cases "k \<le> n")
    case True
    then show ?thesis
      using arg_cong [OF assms(1), of "\<lambda>w. bit w (n - k)"] by (simp add: bit_drop_bit_eq)
  next
    case False
    then have "n + (LENGTH('a) - k) < LENGTH('a)" using n by linarith
    then show ?thesis
      using arg_cong [OF assms(2), of "\<lambda>w. bit w (n + (LENGTH('a) - k))"]
      by (simp add: bit_push_bit_iff)
  qed
qed

section \<open>Little-endian fields\<close>

definition le16 :: "u8 \<Rightarrow> u8 \<Rightarrow> u16" where
  "le16 lo hi = ucast lo OR push_bit 8 (ucast hi)"

definition le16_bytes :: "u16 \<Rightarrow> bytes" where
  "le16_bytes w = [ucast (w AND 0xFF), ucast (drop_bit 8 w AND 0xFF)]"

definition le32 :: "bytes \<Rightarrow> u32" where
  "le32 bs = ucast (le16 (bs ! 0) (bs ! 1)) OR push_bit 16 (ucast (le16 (bs ! 2) (bs ! 3)))"

definition le32_bytes :: "u32 \<Rightarrow> bytes" where
  "le32_bytes w = le16_bytes (ucast w) @ le16_bytes (ucast (drop_bit 16 w))"

lemma length_le16_bytes [simp]: "length (le16_bytes w) = 2"
  by (simp add: le16_bytes_def)

lemma length_le32_bytes [simp]: "length (le32_bytes w) = 4"
  by (simp add: le32_bytes_def)

lemma le16_parts: "le16 (ucast (w AND 0xFF)) (ucast (drop_bit 8 w AND 0xFF)) = w"
  unfolding and_255
proof (rule bit_word_eqI)
  fix i
  assume "i < LENGTH(16)"
  then show "bit (le16 (ucast (take_bit 8 w)) (ucast (take_bit 8 (drop_bit 8 w)))) i = bit w i"
    by (cases "i < 8")
      (auto simp: le16_def bit_or_iff bit_ucast_iff bit_push_bit_iff bit_take_bit_iff bit_drop_bit_eq)
qed

lemma le16_le16_bytes [simp]: "le16 (le16_bytes w ! 0) (le16_bytes w ! Suc 0) = w"
  by (simp add: le16_bytes_def le16_parts)

lemma le32_le32_bytes [simp]: "le32 (le32_bytes w) = w"
proof (rule bit_word_eqI)
  fix i
  assume "i < LENGTH(32)"
  then show "bit (le32 (le32_bytes w)) i = bit w i"
    by (cases "i < 16")
      (auto simp: le32_def le32_bytes_def le16_bytes_def le16_parts bit_or_iff bit_ucast_iff
        bit_push_bit_iff bit_drop_bit_eq)
qed

lemma le16_bytes_le16 [simp]: "le16_bytes (le16 a b) = [a, b]"
proof -
  have "ucast (le16 a b AND 0xFF) = a" unfolding and_255
    by (rule bit_word_eqI)
      (auto simp: le16_def bit_ucast_iff bit_take_bit_iff bit_or_iff bit_push_bit_iff)
  moreover have "ucast (drop_bit 8 (le16 a b) AND 0xFF) = b" unfolding and_255
    by (rule bit_word_eqI)
      (auto simp: le16_def bit_ucast_iff bit_take_bit_iff bit_or_iff bit_push_bit_iff
        bit_drop_bit_eq dest: bit_imp_le_length)
  ultimately show ?thesis by (simp add: le16_bytes_def)
qed

lemma le32_bytes_le32 [simp]: "le32_bytes (le32 [a, b, c, d]) = [a, b, c, d]"
proof -
  have "ucast (le32 [a, b, c, d]) = le16 a b"
    by (rule bit_word_eqI) (auto simp: le32_def bit_ucast_iff bit_or_iff bit_push_bit_iff)
  moreover have "ucast (drop_bit 16 (le32 [a, b, c, d])) = le16 c d"
    by (rule bit_word_eqI)
      (auto simp: le32_def bit_ucast_iff bit_or_iff bit_push_bit_iff bit_drop_bit_eq dest: bit_imp_le_length)
  ultimately show ?thesis by (simp add: le32_bytes_def)
qed

section \<open>A checksum folded over bytes\<close>

text \<open>
  Both checksum routines of \<^verbatim>\<open>util/src/crc.c\<close> run one step per byte over an
  accumulator. Everything the users of the checksum rely on follows from two facts of the
  step: for a fixed byte it is injective in the accumulator, and for a fixed accumulator it
  is injective in the byte.
\<close>

locale checksum =
  fixes step :: "'s \<Rightarrow> 'b \<Rightarrow> 's"
  assumes step_state: "step s b = step t b \<Longrightarrow> s = t"
    and step_byte: "step s b = step s c \<Longrightarrow> b = c"
begin

lemma foldl_state: "foldl step s xs = foldl step t xs \<Longrightarrow> s = t"
  by (induction xs arbitrary: s t) (auto dest: step_state)

lemma detects_one_byte:
  assumes "b \<noteq> c"
  shows "foldl step s (xs @ b # ys) \<noteq> foldl step s (xs @ c # ys)"
proof
  assume "foldl step s (xs @ b # ys) = foldl step s (xs @ c # ys)"
  then have "step (foldl step s xs) b = step (foldl step s xs) c"
    by (simp add: foldl_state)
  then have "b = c" by (rule step_byte)
  with assms show False ..
qed

lemma detects_list_update:
  assumes "i < length xs" and "xs ! i \<noteq> c"
  shows "foldl step s (xs[i := c]) \<noteq> foldl step s xs"
  using detects_one_byte [of "xs ! i" c s "take i xs" "drop (Suc i) xs"] assms
  by (metis id_take_nth_drop upd_conv_take_nth_drop)

end

section \<open>Insertion before the first larger element\<close>

text \<open>
  \<^verbatim>\<open>list_insert\<close> of \<^verbatim>\<open>util/src/slist.c\<close> and the timeout queue of
  \<^verbatim>\<open>wifi_manager/wifi_eloop.c\<close> place an element in front of the first element
  that the comparison says is larger, or at the end.
\<close>

fun insert_before :: "('a \<Rightarrow> 'a \<Rightarrow> bool) \<Rightarrow> 'a \<Rightarrow> 'a list \<Rightarrow> 'a list" where
  "insert_before cmp x [] = [x]"
| "insert_before cmp x (y # ys) =
     (if cmp x y then x # y # ys else y # insert_before cmp x ys)"

lemma set_insert_before [simp]: "set (insert_before cmp x ys) = insert x (set ys)"
  by (induction ys) auto

lemma length_insert_before [simp]: "length (insert_before cmp x ys) = Suc (length ys)"
  by (induction ys) auto

locale ordered_insert =
  fixes cmp :: "'a \<Rightarrow> 'a \<Rightarrow> bool"
  assumes irrefl: "\<not> cmp x x"
    and trans: "cmp x y \<Longrightarrow> cmp y z \<Longrightarrow> cmp x z"
    and cotrans: "cmp x z \<Longrightarrow> cmp x y \<or> cmp y z"
begin

definition ordered :: "'a list \<Rightarrow> bool" where
  "ordered xs \<longleftrightarrow> sorted_wrt (\<lambda>x y. \<not> cmp y x) xs"

lemma ordered_Nil [simp]: "ordered []"
  by (simp add: ordered_def)

lemma ordered_insert_before: "ordered xs \<Longrightarrow> ordered (insert_before cmp x xs)"
proof (induction xs)
  case Nil
  then show ?case by (simp add: ordered_def)
next
  case (Cons y ys)
  from Cons.prems have ys: "ordered ys" and y: "\<forall>z\<in>set ys. \<not> cmp z y"
    by (simp_all add: ordered_def)
  show ?case
  proof (cases "cmp x y")
    case True
    then have "\<not> cmp y x" using irrefl trans by blast
    moreover have "\<not> cmp z x" if "z \<in> set ys" for z
      using that True y trans by blast
    ultimately show ?thesis
      using True Cons.prems by (simp add: ordered_def)
  next
    case False
    have "ordered (insert_before cmp x ys)" using ys by (rule Cons.IH)
    then show ?thesis using False y by (simp add: ordered_def)
  qed
qed

lemma ordered_hd_least:
  assumes "ordered (x # xs)" and "y \<in> set xs"
  shows "\<not> cmp y x"
  using assms by (simp add: ordered_def)

lemma ordered_filter: "ordered xs \<Longrightarrow> ordered (filter P xs)"
  by (simp add: ordered_def sorted_wrt_filter)

text \<open>Insertion is stable: the element goes after every element it is not smaller than.\<close>

lemma insert_before_stable:
  assumes "ordered xs"
  shows "insert_before cmp x xs =
    filter (\<lambda>y. \<not> cmp x y) xs @ x # filter (\<lambda>y. cmp x y) xs"
  using assms
proof (induction xs)
  case Nil
  then show ?case by simp
next
  case (Cons y ys)
  then have ys: "ordered ys" and y: "\<forall>z\<in>set ys. \<not> cmp z y"
    by (simp_all add: ordered_def)
  show ?case
  proof (cases "cmp x y")
    case True
    have "cmp x z" if "z \<in> set ys" for z
      using that True y cotrans by blast
    then show ?thesis using True by (simp add: filter_id_conv filter_empty_conv)
  next
    case False
    then show ?thesis using Cons.IH [OF ys] by simp
  qed
qed

end

section \<open>Kinds of authentication\<close>

text \<open>The bit numbers of \<^verbatim>\<open>enum mac_akm_suite\<close> that the Wi-Fi code uses.\<close>

definition MAC_AKM_NONE :: nat where "MAC_AKM_NONE = 0"
definition MAC_AKM_PRE_RSN :: nat where "MAC_AKM_PRE_RSN = 1"
definition MAC_AKM_PSK :: nat where "MAC_AKM_PSK = 3"
definition MAC_AKM_SAE :: nat where "MAC_AKM_SAE = 9"

section \<open>Steps paid for by a reserve\<close>

text \<open>A cost that only grows as far as a reserve is used up is bounded along every run.\<close>

locale paid_steps =
  fixes step :: "'s \<Rightarrow> 's \<Rightarrow> bool" and inv :: "'s \<Rightarrow> bool" and cost reserve :: "'s \<Rightarrow> nat"
  assumes keeps: "step s t \<Longrightarrow> inv s \<Longrightarrow> inv t"
    and pays: "step s t \<Longrightarrow> inv s \<Longrightarrow> cost t + reserve t \<le> cost s + reserve s"
begin

lemma run_pays:
  assumes "step\<^sup>*\<^sup>* s t" and "inv s"
  shows "inv t \<and> cost t + reserve t \<le> cost s + reserve s"
  using assms
proof (induction rule: rtranclp_induct)
  case (step t u)
  then show ?case using keeps [of t u] pays [of t u] by simp
qed simp

lemma cost_bound: "step\<^sup>*\<^sup>* s t \<Longrightarrow> inv s \<Longrightarrow> cost t \<le> cost s + reserve s"
  using run_pays [of s t] by simp

end

end
