(* ===== verification/Cyclic_Buffer.thy ===== *)
theory Cyclic_Buffer
  imports Prelude
begin

text \<open>
  The byte ring of \<^verbatim>\<open>MSDK/util/src/cyclic_buffer.c\<close>. A \<^verbatim>\<open>cyclic_buf_t *\<close> argument is
  an option (\<open>None\<close> is the null pointer), its \<^verbatim>\<open>buf\<close> member too. The index arithmetic
  is done in \<^verbatim>\<open>int\<close> after C's promotion of the 16-bit members; \<open>smod\<close> is C's
  remainder, and \<open>x smod 0 = x\<close> is what the RISC-V \<^verbatim>\<open>rem\<close> instruction returns.
  The allocator is a parameter (\<open>mem_ok\<close>: the allocation of the buffer succeeds).
  The refinement lemmas state every operation on \<open>cb_contents\<close>, the queued bytes in
  order, and the interface of a bounded byte queue is the locale \<open>byte_queue\<close>.
\<close>

section \<open>Model\<close>

record cyclic_buf_t =
  cb_read_idx :: u16
  cb_write_idx :: u16
  cb_len :: u16
  cb_buf :: "bytes option"

definition cyclic_buf_init :: "bool \<Rightarrow> cyclic_buf_t option \<Rightarrow> u16 \<Rightarrow> bool \<times> cyclic_buf_t option" where
  "cyclic_buf_init mem_ok cyclic len =
     (case cyclic of
        None \<Rightarrow> (False, None)
      | Some c \<Rightarrow>
          let b = (if mem_ok then Some (replicate (unat len) 0) else None);
              c' = c\<lparr>cb_read_idx := 0, cb_write_idx := 0, cb_len := len, cb_buf := b\<rparr>
          in (b \<noteq> None, Some c'))"

definition cyclic_buf_free :: "cyclic_buf_t option \<Rightarrow> cyclic_buf_t option" where
  "cyclic_buf_free cyclic =
     (case cyclic of
        None \<Rightarrow> None
      | Some c \<Rightarrow> Some (c\<lparr>cb_read_idx := 0, cb_write_idx := 0, cb_len := 0, cb_buf := None\<rparr>))"

definition cyclic_buf_count :: "cyclic_buf_t option \<Rightarrow> u16" where
  "cyclic_buf_count cyclic =
     (case cyclic of
        None \<Rightarrow> 0
      | Some c \<Rightarrow>
          (case cb_buf c of
             None \<Rightarrow> 0
           | Some b \<Rightarrow> word_of_int ((uint (cb_write_idx c) + uint (cb_len c)
               - uint (cb_read_idx c)) smod uint (cb_len c))))"

definition cyclic_buf_room :: "cyclic_buf_t option \<Rightarrow> u16" where
  "cyclic_buf_room cyclic =
     (case cyclic of
        None \<Rightarrow> 0
      | Some c \<Rightarrow>
          (case cb_buf c of
             None \<Rightarrow> 0
           | Some b \<Rightarrow> word_of_int ((uint (cb_read_idx c) + uint (cb_len c)
               - (uint (cb_write_idx c) + 1)) smod uint (cb_len c))))"

text \<open>
  The two copies \<^verbatim>\<open>peek\<close> and \<^verbatim>\<open>read\<close> make, and the read index they leave:
  one block when the window ends inside the buffer, two when it wraps.
\<close>

definition cb_copy_out :: "cyclic_buf_t \<Rightarrow> bytes \<Rightarrow> u16 \<Rightarrow> bytes" where
  "cb_copy_out c b len =
     (if uint (cb_read_idx c) + uint len \<le> uint (cb_len c)
      then window (unat (cb_read_idx c)) (unat len) b
      else let tlen = cb_len c - cb_read_idx c
           in window (unat (cb_read_idx c)) (unat tlen) b @ window 0 (unat len - unat tlen) b)"

definition cb_advance :: "cyclic_buf_t \<Rightarrow> u16 \<Rightarrow> u16 \<Rightarrow> u16" where
  "cb_advance c idx len =
     (let idx' = (if uint idx + uint len \<le> uint (cb_len c) then idx + len
                  else len - (cb_len c - idx))
      in idx' mod cb_len c)"

definition cyclic_buf_peek :: "cyclic_buf_t option \<Rightarrow> u16 \<Rightarrow> bytes option" where
  "cyclic_buf_peek cyclic len =
     (case cyclic of
        None \<Rightarrow> None
      | Some c \<Rightarrow>
          (case cb_buf c of
             None \<Rightarrow> None
           | Some b \<Rightarrow>
               if len > cyclic_buf_count cyclic then None
               else Some (cb_copy_out c b len)))"

definition cyclic_buf_read :: "cyclic_buf_t option \<Rightarrow> u16 \<Rightarrow> bytes option \<times> cyclic_buf_t option" where
  "cyclic_buf_read cyclic len =
     (case cyclic of
        None \<Rightarrow> (None, None)
      | Some c \<Rightarrow>
          (case cb_buf c of
             None \<Rightarrow> (None, Some c)
           | Some b \<Rightarrow>
               if len > cyclic_buf_count cyclic then (None, Some c)
               else (Some (cb_copy_out c b len),
                     Some (c\<lparr>cb_read_idx := cb_advance c (cb_read_idx c) len\<rparr>))))"

definition cyclic_buf_drop :: "cyclic_buf_t option \<Rightarrow> u16 \<Rightarrow> bool \<times> cyclic_buf_t option" where
  "cyclic_buf_drop cyclic len =
     (case cyclic of
        None \<Rightarrow> (False, None)
      | Some c \<Rightarrow>
          (case cb_buf c of
             None \<Rightarrow> (False, Some c)
           | Some b \<Rightarrow>
               if len > cyclic_buf_count cyclic then (False, Some c)
               else (True, Some (c\<lparr>cb_read_idx := cb_advance c (cb_read_idx c) len\<rparr>))))"

definition cyclic_buf_clear :: "cyclic_buf_t option \<Rightarrow> bool \<times> cyclic_buf_t option" where
  "cyclic_buf_clear cyclic =
     (case cyclic of
        None \<Rightarrow> (False, None)
      | Some c \<Rightarrow>
          (case cb_buf c of
             None \<Rightarrow> (False, Some c)
           | Some b \<Rightarrow> (True, Some (c\<lparr>cb_buf := Some (replicate (unat (cb_len c)) 0),
               cb_read_idx := 0, cb_write_idx := 0\<rparr>))))"

definition cyclic_buf_write :: "cyclic_buf_t option \<Rightarrow> bytes \<Rightarrow> u16 \<Rightarrow> bool \<times> cyclic_buf_t option" where
  "cyclic_buf_write cyclic data len =
     (case cyclic of
        None \<Rightarrow> (False, None)
      | Some c \<Rightarrow>
          (case cb_buf c of
             None \<Rightarrow> (False, Some c)
           | Some b \<Rightarrow>
               if cyclic_buf_room cyclic < len then (False, Some c)
               else
                 let w = unat (cb_write_idx c);
                     b' = (if uint (cb_write_idx c) + uint len \<le> uint (cb_len c)
                           then blit b w (window 0 (unat len) data)
                           else let tlen = unat (cb_len c - cb_write_idx c)
                                in blit (blit b w (window 0 tlen data)) 0
                                     (window tlen (unat len - tlen) data))
                 in (True, Some (c\<lparr>cb_buf := Some b',
                       cb_write_idx := cb_advance c (cb_write_idx c) len\<rparr>))))"

section \<open>Representation invariant and contents\<close>

definition cb_inv :: "cyclic_buf_t option \<Rightarrow> bool" where
  "cb_inv cyclic =
     (case cyclic of
        None \<Rightarrow> False
      | Some c \<Rightarrow> cb_len c > 0 \<and> cb_read_idx c < cb_len c \<and> cb_write_idx c < cb_len c
          \<and> (case cb_buf c of None \<Rightarrow> False | Some b \<Rightarrow> length b = unat (cb_len c)))"

definition cb_ncount :: "cyclic_buf_t \<Rightarrow> nat" where
  "cb_ncount c = (unat (cb_write_idx c) + unat (cb_len c) - unat (cb_read_idx c))
     mod unat (cb_len c)"

definition cb_contents :: "cyclic_buf_t option \<Rightarrow> bytes" where
  "cb_contents cyclic =
     (case cyclic of
        None \<Rightarrow> []
      | Some c \<Rightarrow>
          (case cb_buf c of
             None \<Rightarrow> []
           | Some b \<Rightarrow> map (\<lambda>i. b ! ((unat (cb_read_idx c) + i) mod unat (cb_len c)))
                        [0..<cb_ncount c]))"

lemma cb_invE:
  assumes "cb_inv cyclic"
  obtains c b where "cyclic = Some c" "cb_buf c = Some b" "length b = unat (cb_len c)"
    "0 < unat (cb_len c)" "unat (cb_read_idx c) < unat (cb_len c)"
    "unat (cb_write_idx c) < unat (cb_len c)"
  using assms by (auto simp: cb_inv_def word_less_nat_alt split: option.splits)

lemma cb_inv_Some:
  "cb_inv (Some c) \<longleftrightarrow> 0 < unat (cb_len c) \<and> unat (cb_read_idx c) < unat (cb_len c)
     \<and> unat (cb_write_idx c) < unat (cb_len c)
     \<and> (\<exists>b. cb_buf c = Some b \<and> length b = unat (cb_len c))"
  by (auto simp: cb_inv_def word_less_nat_alt split: option.splits)

lemma wrap_mod: "x < 2 * n \<Longrightarrow> x mod n = (if x < n then x else x - (n::nat))"
  by (auto simp: le_mod_geq)

lemma word_of_int_smod:
  assumes "0 < b" "b < 65536"
  shows "unat (word_of_int (int a smod int b) :: u16) = a mod b"
proof -
  have eq: "int a smod int b = int (a mod b)"
    by (simp add: smod_mod_positive zmod_int)
  have "a mod b < 65536"
    using assms mod_less_divisor less_trans by blast
  then show ?thesis
    unfolding eq by (simp add: unat_of_nat take_bit_nat_eq_self)
qed

lemma count_nat:
  assumes "cb_inv (Some c)"
  shows "unat (cyclic_buf_count (Some c)) = cb_ncount c"
proof -
  from assms obtain b where b: "cb_buf c = Some b" and n: "0 < unat (cb_len c)"
    and r: "unat (cb_read_idx c) < unat (cb_len c)"
    by (auto simp: cb_inv_Some)
  have "uint (cb_write_idx c) + uint (cb_len c) - uint (cb_read_idx c)
      = int (unat (cb_write_idx c) + unat (cb_len c) - unat (cb_read_idx c))"
    using r by (simp add: of_nat_diff)
  then show ?thesis
    using b n word_of_int_smod [of "unat (cb_len c)"]
    by (simp add: cyclic_buf_count_def cb_ncount_def)
qed

lemma room_nat:
  assumes "cb_inv (Some c)"
  shows "unat (cyclic_buf_room (Some c)) = unat (cb_len c) - 1 - cb_ncount c"
proof -
  from assms obtain b where b: "cb_buf c = Some b" and n: "0 < unat (cb_len c)"
    and r: "unat (cb_read_idx c) < unat (cb_len c)" and w: "unat (cb_write_idx c) < unat (cb_len c)"
    by (auto simp: cb_inv_Some)
  have "uint (cb_read_idx c) + uint (cb_len c) - (uint (cb_write_idx c) + 1)
      = int (unat (cb_read_idx c) + unat (cb_len c) - (unat (cb_write_idx c) + 1))"
    using w by (simp add: of_nat_diff)
  then have "unat (cyclic_buf_room (Some c)) =
      (unat (cb_read_idx c) + unat (cb_len c) - (unat (cb_write_idx c) + 1)) mod unat (cb_len c)"
    using b n word_of_int_smod [of "unat (cb_len c)"] by (simp add: cyclic_buf_room_def)
  then show ?thesis
    using r w by (auto simp: cb_ncount_def wrap_mod)
qed

lemma cb_ncount_if:
  assumes "cb_inv (Some c)"
  shows "cb_ncount c = (if unat (cb_read_idx c) \<le> unat (cb_write_idx c)
    then unat (cb_write_idx c) - unat (cb_read_idx c)
    else unat (cb_write_idx c) + unat (cb_len c) - unat (cb_read_idx c))"
  using assms by (auto simp: cb_inv_Some cb_ncount_def wrap_mod)

lemma cb_ncount_less: "cb_inv (Some c) \<Longrightarrow> cb_ncount c < unat (cb_len c)"
  by (simp add: cb_ncount_def cb_inv_Some)

lemma uint_add_le: "uint a + uint b \<le> uint c \<longleftrightarrow> unat a + unat b \<le> unat (c :: 'a::len word)"
  by (simp only: uint_nat of_nat_add [symmetric] of_nat_le_iff)

lemma advance_nat:
  assumes n: "unat idx < unat (cb_len c)" and len: "unat len \<le> unat (cb_len c)"
  shows "unat (cb_advance c idx len) = (unat idx + unat len) mod unat (cb_len c)"
proof (cases "unat idx + unat len \<le> unat (cb_len c)")
  case True
  then have "unat idx + unat len < 65536"
    using unat_u16_lt [of "cb_len c"] by linarith
  then have "unat (idx + len) = unat idx + unat len"
    by (simp add: unat_word_ariths)
  then show ?thesis
    using True by (simp add: cb_advance_def Let_def uint_add_le unat_mod_distrib)
next
  case False
  have "unat (cb_len c - idx) = unat (cb_len c) - unat idx"
    using n by (simp add: unat_sub word_le_nat_alt)
  moreover from this have "unat (len - (cb_len c - idx)) = unat len - (unat (cb_len c) - unat idx)"
    using False by (simp add: unat_sub word_le_nat_alt)
  ultimately show ?thesis
    using False n len by (simp add: cb_advance_def Let_def uint_add_le unat_mod_distrib wrap_mod)
qed

section \<open>Refinement of each operation\<close>

lemma length_cb_contents:
  "cb_inv (Some c) \<Longrightarrow> length (cb_contents (Some c)) = cb_ncount c"
  by (auto simp: cb_contents_def cb_inv_Some)

lemma nth_cb_contents:
  assumes "cb_buf c = Some b" and "i < cb_ncount c"
  shows "cb_contents (Some c) ! i = b ! ((unat (cb_read_idx c) + i) mod unat (cb_len c))"
  using assms by (simp add: cb_contents_def)

lemma copy_out_contents:
  assumes inv: "cb_inv (Some c)" and b: "cb_buf c = Some b" and len: "unat len \<le> cb_ncount c"
  shows "cb_copy_out c b len = take (unat len) (cb_contents (Some c))"
proof -
  let ?n = "unat (cb_len c)" and ?r = "unat (cb_read_idx c)" and ?k = "unat len"
  have lb: "length b = ?n" and r: "?r < ?n" using inv b by (auto simp: cb_inv_Some)
  have kn: "?k < ?n" using len cb_ncount_less [OF inv] by linarith
  have t: "unat (cb_len c - cb_read_idx c) = ?n - ?r"
    using r by (simp add: unat_sub word_le_nat_alt)
  have ln: "length (cb_copy_out c b len) = ?k"
    using lb r kn by (auto simp: cb_copy_out_def uint_add_le Let_def t)
  have "cb_copy_out c b len ! i = cb_contents (Some c) ! i" if i: "i < ?k" for i
  proof (cases "?r + ?k \<le> ?n")
    case True
    then show ?thesis
      using i len lb b by (simp add: cb_copy_out_def uint_add_le nth_window nth_cb_contents)
  next
    case False
    have rk: "?r + i < 2 * ?n" using r kn i by linarith
    show ?thesis
    proof (cases "?r + i < ?n")
      case True
      then have "i < ?n - ?r" by linarith
      then show ?thesis
        using False i len lb b True
        by (simp add: cb_copy_out_def uint_add_le Let_def t nth_append nth_window nth_cb_contents)
    next
      case ge: False
      have "\<not> i < ?n - ?r" using ge by linarith
      have idx: "i - (?n - ?r) = ?r + i - ?n" using ge r by linarith
      have "window 0 (?k - (?n - ?r)) b ! (i - (?n - ?r)) = b ! (?r + i - ?n)"
        using nth_window [of "i - (?n - ?r)" "?k - (?n - ?r)" 0 b] ge i lb kn idx by simp
      then show ?thesis
        using False i len lb b rk ge r \<open>\<not> i < ?n - ?r\<close>
        by (simp add: cb_copy_out_def uint_add_le Let_def t nth_append nth_cb_contents wrap_mod)
    qed
  qed
  moreover have "?k \<le> length (cb_contents (Some c))"
    using len length_cb_contents [OF inv] by simp
  ultimately show ?thesis using ln by (intro nth_equalityI) simp_all
qed

lemma advance_read_contents:
  assumes inv: "cb_inv (Some c)" and len: "unat len \<le> cb_ncount c"
  defines "c' \<equiv> c\<lparr>cb_read_idx := cb_advance c (cb_read_idx c) len\<rparr>"
  shows "cb_inv (Some c')" and "cb_contents (Some c') = drop (unat len) (cb_contents (Some c))"
proof -
  let ?n = "unat (cb_len c)" and ?r = "unat (cb_read_idx c)" and ?k = "unat len"
  from inv obtain b where b: "cb_buf c = Some b" and n0: "0 < ?n" and r: "?r < ?n"
    by (auto simp: cb_inv_Some)
  have kn: "?k < ?n" using len cb_ncount_less [OF inv] by linarith
  have r': "unat (cb_read_idx c') = (?r + ?k) mod ?n"
    using r kn by (simp add: c'_def advance_nat)
  show inv': "cb_inv (Some c')"
    using inv r' n0 by (auto simp: cb_inv_Some c'_def)
  have w: "unat (cb_write_idx c) < ?n" using inv by (simp add: cb_inv_Some)
  have nc: "cb_ncount c' = cb_ncount c - ?k"
    using len r kn w unfolding cb_ncount_if [OF inv] cb_ncount_if [OF inv'] r'
    by (auto simp: c'_def wrap_mod split: if_splits)
  show "cb_contents (Some c') = drop ?k (cb_contents (Some c))"
  proof (rule nth_equalityI)
    show "length (cb_contents (Some c')) = length (drop ?k (cb_contents (Some c)))"
      using nc by (simp add: length_cb_contents [OF inv] length_cb_contents [OF inv'])
  next
    fix i
    assume "i < length (cb_contents (Some c'))"
    then have i: "i < cb_ncount c'" by (simp add: length_cb_contents [OF inv'])
    have "cb_contents (Some c') ! i = b ! (((?r + ?k) mod ?n + i) mod ?n)"
      using i b r' by (simp add: nth_cb_contents [where b = b] c'_def)
    also have "\<dots> = b ! ((?r + (?k + i)) mod ?n)"
      by (simp add: mod_simps add.assoc)
    also have "\<dots> = cb_contents (Some c) ! (?k + i)"
      using i nc b by (simp add: nth_cb_contents)
    finally show "cb_contents (Some c') ! i = drop ?k (cb_contents (Some c)) ! i"
      using len by (simp add: length_cb_contents [OF inv])
  qed
qed

lemma cyclic_buf_read_refines:
  assumes inv: "cb_inv cyclic"
  shows "unat len \<le> length (cb_contents cyclic) \<Longrightarrow>
      \<exists>c'. cyclic_buf_read cyclic len = (Some (take (unat len) (cb_contents cyclic)), c')
        \<and> cb_inv c' \<and> cb_contents c' = drop (unat len) (cb_contents cyclic)"
    and "length (cb_contents cyclic) < unat len \<Longrightarrow> cyclic_buf_read cyclic len = (None, cyclic)"
proof -
  from inv obtain c b where c: "cyclic = Some c" and b: "cb_buf c = Some b"
    by (rule cb_invE)
  note ci = inv [unfolded c]
  have cnt: "len > cyclic_buf_count cyclic \<longleftrightarrow> length (cb_contents cyclic) < unat len"
    by (simp add: c word_less_nat_alt count_nat [OF ci] length_cb_contents [OF ci])
  show "unat len \<le> length (cb_contents cyclic) \<Longrightarrow>
      \<exists>c'. cyclic_buf_read cyclic len = (Some (take (unat len) (cb_contents cyclic)), c')
        \<and> cb_inv c' \<and> cb_contents c' = drop (unat len) (cb_contents cyclic)"
    using cnt b copy_out_contents [OF ci b, of len] advance_read_contents [OF ci, of len]
    by (auto simp: cyclic_buf_read_def c length_cb_contents [OF ci])
  show "length (cb_contents cyclic) < unat len \<Longrightarrow> cyclic_buf_read cyclic len = (None, cyclic)"
    using cnt b by (simp add: cyclic_buf_read_def c)
qed

lemma cyclic_buf_drop_refines:
  assumes inv: "cb_inv cyclic"
  shows "unat len \<le> length (cb_contents cyclic) \<Longrightarrow>
      \<exists>c'. cyclic_buf_drop cyclic len = (True, c')
        \<and> cb_inv c' \<and> cb_contents c' = drop (unat len) (cb_contents cyclic)"
    and "length (cb_contents cyclic) < unat len \<Longrightarrow> cyclic_buf_drop cyclic len = (False, cyclic)"
proof -
  from inv obtain c b where c: "cyclic = Some c" and b: "cb_buf c = Some b"
    by (rule cb_invE)
  note ci = inv [unfolded c]
  have cnt: "len > cyclic_buf_count cyclic \<longleftrightarrow> length (cb_contents cyclic) < unat len"
    by (simp add: c word_less_nat_alt count_nat [OF ci] length_cb_contents [OF ci])
  show "unat len \<le> length (cb_contents cyclic) \<Longrightarrow>
      \<exists>c'. cyclic_buf_drop cyclic len = (True, c')
        \<and> cb_inv c' \<and> cb_contents c' = drop (unat len) (cb_contents cyclic)"
    using cnt b advance_read_contents [OF ci, of len]
    by (auto simp: cyclic_buf_drop_def c length_cb_contents [OF ci])
  show "length (cb_contents cyclic) < unat len \<Longrightarrow> cyclic_buf_drop cyclic len = (False, cyclic)"
    using cnt b by (simp add: cyclic_buf_drop_def c)
qed

lemma cyclic_buf_peek_refines:
  assumes inv: "cb_inv cyclic"
  shows "cyclic_buf_peek cyclic len =
    (if unat len \<le> length (cb_contents cyclic) then Some (take (unat len) (cb_contents cyclic))
     else None)"
proof -
  from inv obtain c b where c: "cyclic = Some c" and b: "cb_buf c = Some b"
    by (rule cb_invE)
  note ci = inv [unfolded c]
  show ?thesis
    using b copy_out_contents [OF ci b, of len]
    by (auto simp: cyclic_buf_peek_def c word_less_nat_alt count_nat [OF ci]
        length_cb_contents [OF ci])
qed

text \<open>Writing: the new bytes land behind the queued ones and leave those alone.\<close>

definition cb_stored :: "cyclic_buf_t \<Rightarrow> bytes \<Rightarrow> bytes \<Rightarrow> u16 \<Rightarrow> bytes" where
  "cb_stored c b data len =
     (if uint (cb_write_idx c) + uint len \<le> uint (cb_len c)
      then blit b (unat (cb_write_idx c)) (window 0 (unat len) data)
      else let tlen = unat (cb_len c - cb_write_idx c)
           in blit (blit b (unat (cb_write_idx c)) (window 0 tlen data)) 0
                (window tlen (unat len - tlen) data))"

lemma nth_cb_stored:
  assumes inv: "cb_inv (Some c)" and b: "cb_buf c = Some b"
    and len: "unat len + cb_ncount c < unat (cb_len c)" and data: "unat len \<le> length data"
  shows "length (cb_stored c b data len) = unat (cb_len c)"
    and "i < unat len \<Longrightarrow>
      cb_stored c b data len ! ((unat (cb_write_idx c) + i) mod unat (cb_len c)) = data ! i"
    and "j < cb_ncount c \<Longrightarrow>
      cb_stored c b data len ! ((unat (cb_read_idx c) + j) mod unat (cb_len c)) =
      b ! ((unat (cb_read_idx c) + j) mod unat (cb_len c))"
proof -
  let ?n = "unat (cb_len c)" and ?r = "unat (cb_read_idx c)" and ?w = "unat (cb_write_idx c)"
  let ?k = "unat len"
  have lb: "length b = ?n" and r: "?r < ?n" and w: "?w < ?n" using inv b by (auto simp: cb_inv_Some)
  have t: "unat (cb_len c - cb_write_idx c) = ?n - ?w"
    using w by (simp add: unat_sub word_le_nat_alt)
  have at: "length (cb_stored c b data len) = ?n \<and> (m < ?n \<longrightarrow> cb_stored c b data len ! m =
      (if ?w \<le> m \<and> m < ?w + ?k then data ! (m - ?w)
       else if ?n + m < ?w + ?k then data ! (?n + m - ?w) else b ! m))" for m
  proof (cases "?w + ?k \<le> ?n")
    case True
    then show ?thesis
      using lb data by (auto simp: cb_stored_def uint_add_le length_blit nth_blit nth_window)
  next
    case False
    have lt: "length (blit b ?w (window 0 (?n - ?w) data)) = ?n"
      using lb w data False len by (simp add: length_blit)
    show ?thesis
      using False lb w data len lt
      by (auto simp: cb_stored_def uint_add_le Let_def t length_blit nth_blit nth_window)
  qed
  show "length (cb_stored c b data len) = ?n" using at by blast
  show "cb_stored c b data len ! ((?w + i) mod ?n) = data ! i" if "i < ?k"
    using at [of "(?w + i) mod ?n"] w len that by (auto simp: wrap_mod split: if_splits)
  show "cb_stored c b data len ! ((?r + j) mod ?n) = b ! ((?r + j) mod ?n)" if "j < cb_ncount c"
    using at [of "(?r + j) mod ?n"] w r len that cb_ncount_if [OF inv]
    by (auto simp: wrap_mod split: if_splits)
qed

lemma cyclic_buf_write_refines:
  assumes inv: "cb_inv cyclic" and data: "unat len \<le> length data"
  shows "unat len \<le> unat (cyclic_buf_room cyclic) \<Longrightarrow>
      \<exists>c'. cyclic_buf_write cyclic data len = (True, c') \<and> cb_inv c'
        \<and> cb_contents c' = cb_contents cyclic @ take (unat len) data"
    and "unat (cyclic_buf_room cyclic) < unat len \<Longrightarrow>
      cyclic_buf_write cyclic data len = (False, cyclic)"
proof -
  from inv obtain c b where c: "cyclic = Some c" and b: "cb_buf c = Some b"
    by (rule cb_invE)
  note ci = inv [unfolded c]
  let ?n = "unat (cb_len c)" and ?r = "unat (cb_read_idx c)" and ?w = "unat (cb_write_idx c)"
  have n0: "0 < ?n" and r: "?r < ?n" and w: "?w < ?n" using ci by (auto simp: cb_inv_Some)
  show "cyclic_buf_write cyclic data len = (False, cyclic)"
    if "unat (cyclic_buf_room cyclic) < unat len"
    using that b by (simp add: cyclic_buf_write_def c word_less_nat_alt)
  assume "unat len \<le> unat (cyclic_buf_room cyclic)"
  then have k: "unat len + cb_ncount c < ?n"
    using cb_ncount_less [OF ci] by (simp add: c room_nat [OF ci])
  define c' where "c' = c\<lparr>cb_buf := Some (cb_stored c b data len),
      cb_write_idx := cb_advance c (cb_write_idx c) len\<rparr>"
  have eq: "cyclic_buf_write cyclic data len = (True, Some c')"
    using \<open>unat len \<le> unat (cyclic_buf_room cyclic)\<close> b
    by (simp add: cyclic_buf_write_def c word_less_nat_alt cb_stored_def c'_def Let_def)
  have w': "unat (cb_write_idx c') = (?w + unat len) mod ?n"
    using w k by (simp add: c'_def advance_nat)
  note st = nth_cb_stored [OF ci b k data]
  have inv': "cb_inv (Some c')"
    using ci w' n0 st(1) by (simp add: cb_inv_Some c'_def)
  have nc: "cb_ncount c' = cb_ncount c + unat len"
    using k r w unfolding cb_ncount_if [OF ci] cb_ncount_if [OF inv'] w'
    by (auto simp: c'_def wrap_mod split: if_splits)
  have "cb_contents (Some c') = cb_contents (Some c) @ take (unat len) data"
  proof (rule nth_equalityI)
    show "length (cb_contents (Some c')) = length (cb_contents (Some c) @ take (unat len) data)"
      using data by (simp add: length_cb_contents [OF ci] length_cb_contents [OF inv'] nc)
  next
    fix i
    assume "i < length (cb_contents (Some c'))"
    then have i: "i < cb_ncount c + unat len" by (simp add: length_cb_contents [OF inv'] nc)
    have ni: "cb_contents (Some c') ! i = cb_stored c b data len ! ((?r + i) mod ?n)"
      using nth_cb_contents [of c' "cb_stored c b data len" i] i nc by (simp add: c'_def)
    show "cb_contents (Some c') ! i = (cb_contents (Some c) @ take (unat len) data) ! i"
    proof (cases "i < cb_ncount c")
      case True
      then show ?thesis
        using ni st(3) b by (simp add: nth_append length_cb_contents [OF ci] nth_cb_contents)
    next
      case False
      then have "(?r + i) mod ?n = (?w + (i - cb_ncount c)) mod ?n"
        using r w k i cb_ncount_if [OF ci] by (auto simp: wrap_mod split: if_splits)
      then show ?thesis
        using ni st(2) [of "i - cb_ncount c"] i False
        by (simp add: nth_append length_cb_contents [OF ci])
    qed
  qed
  then show "\<exists>c'. cyclic_buf_write cyclic data len = (True, c') \<and> cb_inv c'
        \<and> cb_contents c' = cb_contents cyclic @ take (unat len) data"
    using eq inv' c by auto
qed

section \<open>The bounded byte queue as an interface\<close>

text \<open>
  What a user of the ring relies on: a write that fits appends, one that does not is
  refused and changes nothing, a read takes from the front. \<open>cap\<close> is the first length
  that does not fit.
\<close>

locale byte_queue =
  fixes inv :: "'q \<Rightarrow> bool"
    and contents :: "'q \<Rightarrow> bytes"
    and cap :: "'q \<Rightarrow> nat"
    and enq :: "'q \<Rightarrow> bytes \<Rightarrow> u16 \<Rightarrow> bool \<times> 'q"
    and deq :: "'q \<Rightarrow> u16 \<Rightarrow> bytes option \<times> 'q"
  assumes enq_fits: "inv q \<Longrightarrow> unat n \<le> length d \<Longrightarrow> length (contents q) + unat n < cap q \<Longrightarrow>
      \<exists>q'. enq q d n = (True, q') \<and> inv q' \<and> contents q' = contents q @ take (unat n) d
        \<and> cap q' = cap q"
    and enq_full: "inv q \<Longrightarrow> unat n \<le> length d \<Longrightarrow> cap q \<le> length (contents q) + unat n \<Longrightarrow>
      enq q d n = (False, q)"
    and deq_enough: "inv q \<Longrightarrow> unat n \<le> length (contents q) \<Longrightarrow>
      \<exists>q'. deq q n = (Some (take (unat n) (contents q)), q') \<and> inv q'
        \<and> contents q' = drop (unat n) (contents q) \<and> cap q' = cap q"
begin

text \<open>Frames written one after the other, and read back with their lengths.\<close>

primrec put_frames :: "'q \<Rightarrow> bytes list \<Rightarrow> bool \<times> 'q" where
  "put_frames q [] = (True, q)"
| "put_frames q (f # fs) =
     (let (ok, q') = enq q f (of_nat (length f)); (oks, q'') = put_frames q' fs
      in (ok \<and> oks, q''))"

primrec get_frames :: "'q \<Rightarrow> nat list \<Rightarrow> bytes option list \<times> 'q" where
  "get_frames q [] = ([], q)"
| "get_frames q (n # ns) =
     (let (r, q') = deq q (of_nat n); (rs, q'') = get_frames q' ns in (r # rs, q''))"

lemma put_frames_ok:
  assumes "inv q" and "\<forall>f\<in>set fs. length f < 65536"
    and "length (contents q) + length (concat fs) < cap q"
  shows "\<exists>q'. put_frames q fs = (True, q') \<and> inv q' \<and> contents q' = contents q @ concat fs
    \<and> cap q' = cap q"
  using assms
proof (induction fs arbitrary: q)
  case Nil
  then show ?case by simp
next
  case (Cons f fs)
  have f: "unat (of_nat (length f) :: u16) = length f"
    using Cons.prems by (simp add: unat_of_nat take_bit_nat_eq_self)
  obtain q1 where q1: "enq q f (of_nat (length f)) = (True, q1)" "inv q1"
      "contents q1 = contents q @ f" "cap q1 = cap q"
    using enq_fits [of q "of_nat (length f)" f] Cons.prems f by auto
  moreover obtain q2 where "put_frames q1 fs = (True, q2)" "inv q2"
      "contents q2 = contents q1 @ concat fs" "cap q2 = cap q1"
    using Cons.IH [of q1] Cons.prems q1 by auto
  ultimately show ?case by auto
qed

lemma get_frames_ok:
  assumes "inv q" and "\<forall>f\<in>set fs. length f < 65536" and "contents q = concat fs @ rest"
  shows "\<exists>q'. get_frames q (map length fs) = (map Some fs, q') \<and> inv q' \<and> contents q' = rest
    \<and> cap q' = cap q"
  using assms
proof (induction fs arbitrary: q)
  case Nil
  then show ?case by simp
next
  case (Cons f fs)
  have f: "unat (of_nat (length f) :: u16) = length f"
    using Cons.prems by (simp add: unat_of_nat take_bit_nat_eq_self)
  obtain q1 where q1: "deq q (of_nat (length f)) = (Some f, q1)" "inv q1"
      "contents q1 = concat fs @ rest" "cap q1 = cap q"
    using deq_enough [of q "of_nat (length f)"] Cons.prems f by auto
  moreover obtain q2 where "get_frames q1 (map length fs) = (map Some fs, q2)" "inv q2"
      "contents q2 = rest" "cap q2 = cap q1"
    using Cons.IH [of q1] Cons.prems q1 by auto
  ultimately show ?case by auto
qed

end

definition cb_cap :: "cyclic_buf_t option \<Rightarrow> nat" where
  "cb_cap cyclic = (case cyclic of None \<Rightarrow> 0 | Some c \<Rightarrow> unat (cb_len c))"

lemma room_contents:
  "cb_inv cyclic \<Longrightarrow>
     unat (cyclic_buf_room cyclic) = cb_cap cyclic - 1 - length (cb_contents cyclic)
     \<and> length (cb_contents cyclic) < cb_cap cyclic"
  by (elim cb_invE) (auto simp: room_nat length_cb_contents cb_cap_def cb_inv_Some
      intro: cb_ncount_less)

lemma write_cap: "cb_cap (snd (cyclic_buf_write cyclic data len)) = cb_cap cyclic"
  by (auto simp: cyclic_buf_write_def cb_cap_def Let_def split: option.splits)

lemma read_cap: "cb_cap (snd (cyclic_buf_read cyclic len)) = cb_cap cyclic"
  by (auto simp: cyclic_buf_read_def cb_cap_def Let_def split: option.splits)

interpretation cb: byte_queue cb_inv cb_contents cb_cap cyclic_buf_write cyclic_buf_read
proof
  fix q :: "cyclic_buf_t option" and n :: u16 and d :: bytes
  assume inv: "cb_inv q" and d: "unat n \<le> length d"
  note room = room_contents [OF inv]
  show "\<exists>q'. cyclic_buf_write q d n = (True, q') \<and> cb_inv q'
      \<and> cb_contents q' = cb_contents q @ take (unat n) d \<and> cb_cap q' = cb_cap q"
    if "length (cb_contents q) + unat n < cb_cap q"
    using cyclic_buf_write_refines(1) [OF inv d] room that write_cap [of q d n] by fastforce
  show "cyclic_buf_write q d n = (False, q)" if "cb_cap q \<le> length (cb_contents q) + unat n"
    using cyclic_buf_write_refines(2) [OF inv d] room that by fastforce
next
  fix q :: "cyclic_buf_t option" and n :: u16
  assume inv: "cb_inv q" and n: "unat n \<le> length (cb_contents q)"
  show "\<exists>q'. cyclic_buf_read q n = (Some (take (unat n) (cb_contents q)), q') \<and> cb_inv q'
      \<and> cb_contents q' = drop (unat n) (cb_contents q) \<and> cb_cap q' = cb_cap q"
    using cyclic_buf_read_refines(1) [OF inv n] read_cap [of q n] by fastforce
qed

lemma cyclic_buf_init_ok:
  assumes "0 < len"
  shows "\<exists>c'. cyclic_buf_init True (Some c) len = (True, Some c') \<and> cb_inv (Some c')
    \<and> cb_contents (Some c') = [] \<and> cb_cap (Some c') = unat len"
  using assms
  by (auto simp: cyclic_buf_init_def Let_def cb_inv_Some cb_contents_def cb_ncount_def cb_cap_def
      unat_gt_0)

section \<open>Properties\<close>

text \<open>
  C27: \<open>cyclic_buf_write\<close> appends exactly the given bytes behind the queued ones when
  they fit (the ring holds at most one byte less than its size), and refuses and changes
  nothing otherwise; the indices stay inside the buffer either way.
\<close>

theorem cyclic_buf_write_correct:
  assumes "cb_inv q" and "unat len \<le> length data"
  shows "if length (cb_contents q) + unat len < cb_cap q
    then \<exists>q'. cyclic_buf_write q data len = (True, q') \<and> cb_inv q' \<and> cb_cap q' = cb_cap q
      \<and> cb_contents q' = cb_contents q @ take (unat len) data
    else cyclic_buf_write q data len = (False, q)"
  using cb.enq_fits [OF assms] cb.enq_full [OF assms] by auto

definition cb_sample :: "cyclic_buf_t option" where
  "cb_sample = Some \<lparr>cb_read_idx = 3, cb_write_idx = 1, cb_len = 5, cb_buf = Some [9, 8, 7, 6, 5]\<rparr>"

lemma cb_sample_inv: "cb_inv cb_sample"
  by (simp add: cb_sample_def cb_inv_def)

lemma cb_sample_contents: "cb_contents cb_sample = [6, 5, 9]" "cb_cap cb_sample = 5"
  by (simp_all add: cb_sample_def cb_contents_def cb_ncount_def cb_cap_def upt_rec)

theorem cyclic_buf_write_correct_witness:
  "\<exists>q'. cyclic_buf_write cb_sample [1] 1 = (True, q') \<and> cb_contents q' = [6, 5, 9, 1]"
  using cyclic_buf_write_correct [OF cb_sample_inv, of 1 "[1]"] by (auto simp: cb_sample_contents)

text \<open>
  \<open>cyclic_buf_read\<close> hands out the oldest bytes in the order they were written
  and removes exactly those, also when they wrap around the end of the buffer; asking for
  more than is queued fails and changes nothing.
\<close>

theorem cyclic_buf_read_correct:
  assumes "cb_inv q"
  shows "if unat len \<le> length (cb_contents q)
    then \<exists>q'. cyclic_buf_read q len = (Some (take (unat len) (cb_contents q)), q') \<and> cb_inv q'
      \<and> cb_cap q' = cb_cap q \<and> cb_contents q' = drop (unat len) (cb_contents q)
    else cyclic_buf_read q len = (None, q)"
  using cb.deq_enough [OF assms] cyclic_buf_read_refines(2) [OF assms] by auto

theorem cyclic_buf_read_correct_witness:
  "\<exists>q'. cyclic_buf_read cb_sample 3 = (Some [6, 5, 9], q') \<and> cb_contents q' = []"
  using cyclic_buf_read_correct [OF cb_sample_inv, of 3] by (auto simp: cb_sample_contents)

end
