(* ===== verification/Wakelock.thy ===== *)
theory Wakelock
  imports Prelude
begin

text \<open>
  The power-save veto mask of \<^verbatim>\<open>MSDK/plf/src/wakelock.c\<close>: one atomic 32-bit word, one bit
  per lock owner. Each operation is one atomic read-modify-write, so every interleaving of
  the owners is a sequence of operations; \<open>wakelock_run\<close> runs such a sequence. The shift
  \<^verbatim>\<open>0x01 << lock_id\<close> is defined for ids below 32 (the header declares 0 to 4).
\<close>

definition LOCK_ID_WLAN :: nat where "LOCK_ID_WLAN = 0"
definition LOCK_ID_USART :: nat where "LOCK_ID_USART = 1"
definition LOCK_ID_SYSTICK :: nat where "LOCK_ID_SYSTICK = 2"
definition LOCK_ID_BLE :: nat where "LOCK_ID_BLE = 3"
definition LOCK_ID_SPI :: nat where "LOCK_ID_SPI = 4"

definition sys_wakelock_acquire :: "nat \<Rightarrow> u32 \<Rightarrow> u32" where
  "sys_wakelock_acquire lock_id wake_lock = wake_lock OR push_bit lock_id 1"

definition sys_wakelock_release :: "nat \<Rightarrow> u32 \<Rightarrow> u32" where
  "sys_wakelock_release lock_id wake_lock = wake_lock AND NOT (push_bit lock_id 1)"

definition sys_wakelock_status_get :: "u32 \<Rightarrow> u32" where
  "sys_wakelock_status_get wake_lock = wake_lock"

definition systick_lock_acquire :: "u32 \<Rightarrow> u32" where
  "systick_lock_acquire wake_lock = sys_wakelock_acquire LOCK_ID_SYSTICK wake_lock"

definition systick_lock_release :: "u32 \<Rightarrow> u32" where
  "systick_lock_release wake_lock = sys_wakelock_release LOCK_ID_SYSTICK wake_lock"

datatype wakelock_op = Acquire nat | Release nat

fun wakelock_id :: "wakelock_op \<Rightarrow> nat" where
  "wakelock_id (Acquire i) = i"
| "wakelock_id (Release i) = i"

fun wakelock_step :: "wakelock_op \<Rightarrow> u32 \<Rightarrow> u32" where
  "wakelock_step (Acquire i) m = sys_wakelock_acquire i m"
| "wakelock_step (Release i) m = sys_wakelock_release i m"

definition wakelock_run :: "wakelock_op list \<Rightarrow> u32 \<Rightarrow> u32" where
  "wakelock_run ops m = fold wakelock_step ops m"

lemma bit_acquire:
  "i < 32 \<Longrightarrow> bit (sys_wakelock_acquire j m) i \<longleftrightarrow> i = j \<or> bit m i"
  by (auto simp: sys_wakelock_acquire_def bit_or_iff bit_exp_iff)

lemma bit_release:
  "i < 32 \<Longrightarrow> bit (sys_wakelock_release j m) i \<longleftrightarrow> i \<noteq> j \<and> bit m i"
  by (auto simp: sys_wakelock_release_def bit_and_iff bit_not_iff bit_exp_iff)

lemmas wakelock_bits = bit_acquire bit_release


text \<open>
  Which owners hold the lock after any interleaving: owner \<open>i\<close> holds it exactly when its
  own last operation was an acquire, or it made none and held it before. Nothing another
  owner does changes it.
\<close>

lemma wakelock_run_bit:
  assumes "i < 32"
  shows "bit (wakelock_run ops m) i \<longleftrightarrow>
    (let own = filter (\<lambda>op. wakelock_id op = i) ops
     in if own = [] then bit m i else last own = Acquire i)"
proof (induction ops rule: rev_induct)
  case Nil
  then show ?case by (simp add: wakelock_run_def)
next
  case (snoc op ops)
  then show ?case
    using assms by (cases op) (auto simp: wakelock_run_def Let_def wakelock_bits)
qed

lemma wakelock_zero_iff: "(m :: u32) = 0 \<longleftrightarrow> (\<forall>i<32. \<not> bit m i)"
  by (auto simp: bit_eq_iff bit_imp_le_length dest: bit_imp_le_length)

text \<open>
  Sleep is allowed (the veto word reads zero) exactly when every owner that ever
  touched its lock has released it last; no interleaving of the owners' calls can lose or
  invent a veto.
\<close>

theorem wakelock_status_zero_iff:
  "sys_wakelock_status_get (wakelock_run ops 0) = 0 \<longleftrightarrow>
     list_all (\<lambda>i. let own = filter (\<lambda>op. wakelock_id op = i) ops
                   in own = [] \<or> last own = Release i) [0..<32]"
proof -
  define own where "own i = filter (\<lambda>op. wakelock_id op = i) ops" for i
  have "wakelock_id (last (own i)) = i" if "own i \<noteq> []" for i
    using last_in_set [OF that] unfolding own_def by simp
  then have "last (own i) = Release i \<longleftrightarrow> last (own i) \<noteq> Acquire i" if "own i \<noteq> []" for i
    using that by (cases "last (own i)") fastforce+
  then have "\<not> bit (wakelock_run ops 0) i \<longleftrightarrow> own i = [] \<or> last (own i) = Release i"
    if "i < 32" for i
    using that by (cases "own i = []") (simp_all add: wakelock_run_bit own_def [symmetric])
  then show ?thesis
    by (simp add: sys_wakelock_status_get_def wakelock_zero_iff list_all_iff own_def Let_def
        atLeast0LessThan Ball_def)
qed

end
