(* ===== verification/Crc.thy ===== *)
theory Crc
  imports Prelude
begin

text \<open>
  The checksums of \<^verbatim>\<open>MSDK/util/src/crc.c\<close>: the byte-wise \<open>crc32\<close> that protects the NVDS
  page and element headers and the nibble-wise \<open>crc16\<close>. The buffer the C functions walk
  (\<^verbatim>\<open>addr\<close>, \<^verbatim>\<open>len\<close>) is the list of its bytes. Both step functions satisfy the
  \<open>checksum\<close> interface, so both detect any change of a single byte; \<open>crc16\<close> is shown
  equal to the bit-serial CRC-16 with polynomial \<open>0xA001\<close>.
\<close>

section \<open>Model\<close>

definition crc_table :: "u32 list" where
  "crc_table =
    [0x00000000, 0x77073096, 0xEE0E612C, 0x990951BA, 0x076DC419, 0x706AF48F,
     0xE963A535, 0x9E6495A3, 0x0EDB8832, 0x79DCB8A4, 0xE0D5E91E, 0x97D2D988,
     0x09B64C2B, 0x7EB17CBD, 0xE7B82D07, 0x90BF1D91, 0x1DB71064, 0x6AB020F2,
     0xF3B97148, 0x84BE41DE, 0x1ADAD47D, 0x6DDDE4EB, 0xF4D4B551, 0x83D385C7,
     0x136C9856, 0x646BA8C0, 0xFD62F97A, 0x8A65C9EC, 0x14015C4F, 0x63066CD9,
     0xFA0F3D63, 0x8D080DF5, 0x3B6E20C8, 0x4C69105E, 0xD56041E4, 0xA2677172,
     0x3C03E4D1, 0x4B04D447, 0xD20D85FD, 0xA50AB56B, 0x35B5A8FA, 0x42B2986C,
     0xDBBBC9D6, 0xACBCF940, 0x32D86CE3, 0x45DF5C75, 0xDCD60DCF, 0xABD13D59,
     0x26D930AC, 0x51DE003A, 0xC8D75180, 0xBFD06116, 0x21B4F4B5, 0x56B3C423,
     0xCFBA9599, 0xB8BDA50F, 0x2802B89E, 0x5F058808, 0xC60CD9B2, 0xB10BE924,
     0x2F6F7C87, 0x58684C11, 0xC1611DAB, 0xB6662D3D, 0x76DC4190, 0x01DB7106,
     0x98D220BC, 0xEFD5102A, 0x71B18589, 0x06B6B51F, 0x9FBFE4A5, 0xE8B8D433,
     0x7807C9A2, 0x0F00F934, 0x9609A88E, 0xE10E9818, 0x7F6A0DBB, 0x086D3D2D,
     0x91646C97, 0xE6635C01, 0x6B6B51F4, 0x1C6C6162, 0x856530D8, 0xF262004E,
     0x6C0695ED, 0x1B01A57B, 0x8208F4C1, 0xF50FC457, 0x65B0D9C6, 0x12B7E950,
     0x8BBEB8EA, 0xFCB9887C, 0x62DD1DDF, 0x15DA2D49, 0x8CD37CF3, 0xFBD44C65,
     0x4DB26158, 0x3AB551CE, 0xA3BC0074, 0xD4BB30E2, 0x4ADFA541, 0x3DD895D7,
     0xA4D1C46D, 0xD3D6F4FB, 0x4369E96A, 0x346ED9FC, 0xAD678846, 0xDA60B8D0,
     0x44042D73, 0x33031DE5, 0xAA0A4C5F, 0xDD0D7CC9, 0x5005713C, 0x270241AA,
     0xBE0B1010, 0xC90C2086, 0x5768B525, 0x206F85B3, 0xB966D409, 0xCE61E49F,
     0x5EDEF90E, 0x29D9C998, 0xB0D09822, 0xC7D7A8B4, 0x59B33D17, 0x2EB40D81,
     0xB7BD5C3B, 0xC0BA6CAD, 0xEDB88320, 0x9ABFB3B6, 0x03B6E20C, 0x74B1D29A,
     0xEAD54739, 0x9DD277AF, 0x04DB2615, 0x73DC1683, 0xE3630B12, 0x94643B84,
     0x0D6D6A3E, 0x7A6A5AA8, 0xE40ECF0B, 0x9309FF9D, 0x0A00AE27, 0x7D079EB1,
     0xF00F9344, 0x8708A3D2, 0x1E01F268, 0x6906C2FE, 0xF762575D, 0x806567CB,
     0x196C3671, 0x6E6B06E7, 0xFED41B76, 0x89D32BE0, 0x10DA7A5A, 0x67DD4ACC,
     0xF9B9DF6F, 0x8EBEEFF9, 0x17B7BE43, 0x60B08ED5, 0xD6D6A3E8, 0xA1D1937E,
     0x38D8C2C4, 0x4FDFF252, 0xD1BB67F1, 0xA6BC5767, 0x3FB506DD, 0x48B2364B,
     0xD80D2BDA, 0xAF0A1B4C, 0x36034AF6, 0x41047A60, 0xDF60EFC3, 0xA867DF55,
     0x316E8EEF, 0x4669BE79, 0xCB61B38C, 0xBC66831A, 0x256FD2A0, 0x5268E236,
     0xCC0C7795, 0xBB0B4703, 0x220216B9, 0x5505262F, 0xC5BA3BBE, 0xB2BD0B28,
     0x2BB45A92, 0x5CB36A04, 0xC2D7FFA7, 0xB5D0CF31, 0x2CD99E8B, 0x5BDEAE1D,
     0x9B64C2B0, 0xEC63F226, 0x756AA39C, 0x026D930A, 0x9C0906A9, 0xEB0E363F,
     0x72076785, 0x05005713, 0x95BF4A82, 0xE2B87A14, 0x7BB12BAE, 0x0CB61B38,
     0x92D28E9B, 0xE5D5BE0D, 0x7CDCEFB7, 0x0BDBDF21, 0x86D3D2D4, 0xF1D4E242,
     0x68DDB3F8, 0x1FDA836E, 0x81BE16CD, 0xF6B9265B, 0x6FB077E1, 0x18B74777,
     0x88085AE6, 0xFF0F6A70, 0x66063BCA, 0x11010B5C, 0x8F659EFF, 0xF862AE69,
     0x616BFFD3, 0x166CCF45, 0xA00AE278, 0xD70DD2EE, 0x4E048354, 0x3903B3C2,
     0xA7672661, 0xD06016F7, 0x4969474D, 0x3E6E77DB, 0xAED16A4A, 0xD9D65ADC,
     0x40DF0B66, 0x37D83BF0, 0xA9BCAE53, 0xDEBB9EC5, 0x47B2CF7F, 0x30B5FFE9,
     0xBDBDF21C, 0xCABAC28A, 0x53B39330, 0x24B4A3A6, 0xBAD03605, 0xCDD70693,
     0x54DE5729, 0x23D967BF, 0xB3667A2E, 0xC4614AB8, 0x5D681B02, 0x2A6F2B94,
     0xB40BBE37, 0xC30C8EA1, 0x5A05DF1B, 0x2D02EF8D]"

definition crc16_table :: "u16 list" where
  "crc16_table =
    [0x0000, 0xCC01, 0xD801, 0x1400, 0xF001, 0x3C00, 0x2800, 0xE401,
     0xA001, 0x6C00, 0x7800, 0xB401, 0x5000, 0x9C01, 0x8801, 0x4400]"

definition crc32_step :: "u32 \<Rightarrow> u8 \<Rightarrow> u32" where
  "crc32_step crc b = push_bit 8 crc XOR crc_table ! unat (drop_bit 24 crc XOR ucast b)"

definition crc32 :: "bytes \<Rightarrow> u32 \<Rightarrow> u32" where
  "crc32 buf crc = foldl crc32_step crc buf"

definition crc16_step :: "u16 \<Rightarrow> u8 \<Rightarrow> u16" where
  "crc16_step crc tmp =
     (let c1 = crc16_table ! unat ((ucast tmp XOR crc) AND 0xF) XOR drop_bit 4 crc
      in crc16_table ! unat ((drop_bit 4 (ucast tmp) XOR c1) AND 0xF) XOR drop_bit 4 c1)"

definition crc16 :: "bytes \<Rightarrow> u16 \<Rightarrow> u16" where
  "crc16 buf crc = foldl crc16_step crc buf"

section \<open>Tables\<close>

lemma length_crc_table: "length crc_table = 256"
  by (simp add: crc_table_def)

lemma crc_table_low_bytes:
  "map (\<lambda>w. unat (w AND 0xFF)) crc_table =
      [0, 150, 44, 186, 25, 143, 53, 163, 50, 164, 30, 136, 43, 189, 7, 145, 100, 242,
       72, 222, 125, 235, 81, 199, 86, 192, 122, 236, 79, 217, 99, 245, 200, 94, 228, 114,
       209, 71, 253, 107, 250, 108, 214, 64, 227, 117, 207, 89, 172, 58, 128, 22, 181, 35,
       153, 15, 158, 8, 178, 36, 135, 17, 171, 61, 144, 6, 188, 42, 137, 31, 165, 51,
       162, 52, 142, 24, 187, 45, 151, 1, 244, 98, 216, 78, 237, 123, 193, 87, 198, 80,
       234, 124, 223, 73, 243, 101, 88, 206, 116, 226, 65, 215, 109, 251, 106, 252, 70, 208,
       115, 229, 95, 201, 60, 170, 16, 134, 37, 179, 9, 159, 14, 152, 34, 180, 23, 129,
       59, 173, 32, 182, 12, 154, 57, 175, 21, 131, 18, 132, 62, 168, 11, 157, 39, 177,
       68, 210, 104, 254, 93, 203, 113, 231, 118, 224, 90, 204, 111, 249, 67, 213, 232, 126,
       196, 82, 241, 103, 221, 75, 218, 76, 246, 96, 195, 85, 239, 121, 140, 26, 160, 54,
       149, 3, 185, 47, 190, 40, 146, 4, 167, 49, 139, 29, 176, 38, 156, 10, 169, 63,
       133, 19, 130, 20, 174, 56, 155, 13, 183, 33, 212, 66, 248, 110, 205, 91, 225, 119,
       230, 112, 202, 92, 255, 105, 211, 69, 120, 238, 84, 194, 97, 247, 77, 219, 74, 220,
       102, 240, 83, 197, 127, 233, 28, 138, 48, 166, 5, 147, 41, 191, 46, 184, 2, 148,
       55, 161, 27, 141]"
  by (simp add: crc_table_def)

lemma crc_table_low_bytes_distinct: "distinct (map (\<lambda>w. unat (w AND 0xFF)) crc_table)"
  unfolding crc_table_low_bytes by simp

lemma length_crc16_table: "length crc16_table = 16"
  by (simp add: crc16_table_def)

lemma crc_table_low_inj:
  assumes "i < 256" "j < 256" and "crc_table ! i AND 0xFF = crc_table ! j AND 0xFF"
  shows "i = j"
  using nth_eq_iff_index_eq [OF crc_table_low_bytes_distinct, of i j] assms
  by (simp add: length_crc_table)

lemma crc16_table_high:
  "map (\<lambda>w. unat (drop_bit 12 w)) crc16_table =
     [0, 12, 13, 1, 15, 3, 2, 14, 10, 6, 7, 11, 5, 9, 8, 4]"
  by (simp add: crc16_table_def)

lemma crc16_table_high_inj:
  assumes "i < 16" "j < 16" and "drop_bit 12 (crc16_table ! i) = drop_bit 12 (crc16_table ! j)"
  shows "i = j"
proof -
  have "distinct (map (\<lambda>w. unat (drop_bit 12 w)) crc16_table)"
    unfolding crc16_table_high by simp
  from nth_eq_iff_index_eq [OF this, of i j] show ?thesis
    using assms by (simp add: length_crc16_table)
qed

section \<open>Both steps are checksums\<close>

lemma crc32_index: "unat (drop_bit 24 (crc :: u32) XOR ucast (b :: u8)) < 256"
proof -
  have "take_bit 8 (drop_bit 24 crc XOR ucast b) = drop_bit 24 crc XOR ucast b"
    by (rule bit_word_eqI) (auto simp: bit_take_bit_iff bit_xor_iff bit_drop_bit_eq bit_ucast_iff
        dest: bit_imp_le_length)
  from unat_less_exp [OF this] show ?thesis by simp
qed

lemma crc32_step_index_eq:
  assumes "crc32_step s b = crc32_step t c"
  shows "drop_bit 24 s XOR ucast b = (drop_bit 24 t XOR ucast c :: u32)"
proof -
  let ?i = "drop_bit 24 s XOR ucast b :: u32" and ?j = "drop_bit 24 t XOR ucast c :: u32"
  have low: "push_bit 8 (x :: u32) AND 0xFF = 0" for x
    using take_bit_eq_mask [of 8 "push_bit 8 x"]
    by (simp add: mask_numeral take_bit_push_bit)
  have "crc_table ! unat ?i AND 0xFF = crc_table ! unat ?j AND 0xFF"
    using arg_cong [OF assms, of "\<lambda>w. w AND 0xFF"]
    by (simp add: crc32_step_def low bit.conj_xor_distrib2)
  then have "unat ?i = unat ?j"
    using crc32_index by (intro crc_table_low_inj)
  then show ?thesis by (simp only: word_unat_eq_iff)
qed

interpretation crc32: checksum crc32_step
proof
  fix s t :: u32 and b :: u8
  assume eq: "crc32_step s b = crc32_step t b"
  then have "drop_bit 24 s XOR ucast b = (drop_bit 24 t XOR ucast b :: u32)"
    by (rule crc32_step_index_eq)
  moreover from this have "push_bit 8 s = push_bit 8 t"
    using eq by (simp add: crc32_step_def)
  ultimately show "s = t"
    using word_eq_by_parts [of 24 s t] by simp
next
  fix s :: u32 and b c :: u8
  assume "crc32_step s b = crc32_step s c"
  then have "drop_bit 24 s XOR ucast b = (drop_bit 24 s XOR ucast c :: u32)"
    by (rule crc32_step_index_eq)
  then have "ucast b = (ucast c :: u32)"
    by simp
  then show "b = c"
    by (rule ucast_inj [rotated]) simp
qed

text \<open>The nibble step of \<open>crc16\<close> and its bit-serial meaning.\<close>

definition crc16_nibble :: "u16 \<Rightarrow> u16" where
  "crc16_nibble c = crc16_table ! unat (c AND 0xF) XOR drop_bit 4 c"

definition crc16_bit :: "u16 \<Rightarrow> u16" where
  "crc16_bit c = (if bit c 0 then drop_bit 1 c XOR 0xA001 else drop_bit 1 c)"

definition crc16_ref :: "bytes \<Rightarrow> u16 \<Rightarrow> u16" where
  "crc16_ref buf crc = foldl (\<lambda>c b. (crc16_bit ^^ 8) (c XOR ucast b)) crc buf"

lemma crc16_bit_xor_even:
  assumes "\<not> bit y 0"
  shows "crc16_bit (x XOR y) = crc16_bit x XOR drop_bit 1 y"
  using assms by (simp add: crc16_bit_def bit_xor_iff drop_bit_xor ac_simps)

lemma drop_push_Suc:
  assumes "take_bit 12 y = (y :: u16)" and "k < 4"
  shows "drop_bit 1 (push_bit (Suc k) y) = push_bit k y"
proof (rule bit_word_eqI)
  fix n
  assume n: "n < LENGTH(16)"
  have "\<not> bit y m" if "12 \<le> m" for m
    using that arg_cong [OF assms(1), of "\<lambda>w. bit w m"] by (simp add: bit_take_bit_iff)
  then have "n - k < 12" if "bit y (n - k)"
    using that by (meson not_le)
  with n show "bit (drop_bit 1 (push_bit (Suc k) y)) n = bit (push_bit k y) n"
    using assms(2) by (auto simp: bit_drop_bit_eq bit_push_bit_iff simp del: push_bit_Suc)
qed

lemma crc16_bit4_xor:
  assumes "take_bit 12 y = y"
  shows "(crc16_bit ^^ 4) (x XOR push_bit 4 y) = (crc16_bit ^^ 4) x XOR y"
proof -
  have step: "crc16_bit (x XOR push_bit (Suc k) y) = crc16_bit x XOR push_bit k y" if "k < 4" for x k
    using crc16_bit_xor_even [of "push_bit (Suc k) y" x] drop_push_Suc [OF assms that]
    by (simp add: bit_push_bit_iff del: push_bit_Suc)
  have "crc16_bit (crc16_bit (crc16_bit (crc16_bit (x XOR push_bit (Suc 3) y)))) =
      crc16_bit (crc16_bit (crc16_bit (crc16_bit x))) XOR y"
    using step [of 3] step [of 2] step [of 1] step [of 0]
    by (simp add: numeral_3_eq_3 numeral_2_eq_2 del: push_bit_Suc)
  moreover have "(crc16_bit ^^ 4) z = crc16_bit (crc16_bit (crc16_bit (crc16_bit z)))" for z
    by (simp add: numeral_eq_Suc)
  moreover have "4 = Suc 3" by simp
  ultimately show ?thesis by (simp only:)
qed

lemma nibble_split: "(c :: u16) = (c AND 0xF) XOR push_bit 4 (drop_bit 4 c)"
proof (rule bit_word_eqI)
  fix n
  have m: "(0xF :: u16) = mask 4" by (simp add: mask_numeral)
  show "bit c n = bit ((c AND 0xF) XOR push_bit 4 (drop_bit 4 c)) n" if "n < LENGTH(16)"
    using that unfolding m
    by (cases "n < 4") (auto simp: bit_xor_iff bit_and_iff bit_mask_iff bit_push_bit_iff bit_drop_bit_eq)
qed

lemma and_F_bound: "unat ((c :: u16) AND 0xF) < 16"
proof -
  have "take_bit 4 (c AND 0xF) = c AND 0xF"
    by (simp add: take_bit_eq_mask mask_numeral ac_simps)
  from unat_less_exp [OF this] show ?thesis by simp
qed

lemma crc16_nibble_values:
  assumes "n < 16"
  shows "(crc16_bit ^^ 4) (of_nat n) = crc16_table ! n"
proof -
  have four: "(crc16_bit ^^ 4) z = crc16_bit (crc16_bit (crc16_bit (crc16_bit z)))" for z
    by (simp add: numeral_eq_Suc)
  have "n \<in> {0, 1, 2, 3, 4, 5, 6, 7, 8, 9, 10, 11, 12, 13, 14, 15}"
    using assms unfolding insert_iff empty_iff by presburger
  then show ?thesis
    unfolding four by (elim insertE emptyE; simp add: crc16_table_def crc16_bit_def)
qed

lemma crc16_nibble_bits: "crc16_nibble c = (crc16_bit ^^ 4) c"
proof -
  have "take_bit 12 (drop_bit 4 c) = drop_bit 4 c"
    by (rule bit_word_eqI) (auto simp: bit_take_bit_iff bit_drop_bit_eq dest: bit_imp_le_length)
  then have "(crc16_bit ^^ 4) c = (crc16_bit ^^ 4) (c AND 0xF) XOR drop_bit 4 c"
    by (metis crc16_bit4_xor nibble_split)
  also have "(crc16_bit ^^ 4) (c AND 0xF) = crc16_table ! unat (c AND 0xF)"
    using crc16_nibble_values [OF and_F_bound, of c] by simp
  finally show ?thesis by (simp add: crc16_nibble_def)
qed

lemma crc16_step_nibbles: "crc16_step c t = crc16_nibble (crc16_nibble (c XOR ucast t))"
proof -
  have "drop_bit 4 (drop_bit 4 (ucast t)) = (0 :: u16)"
    by (rule bit_word_eqI) (auto simp: bit_drop_bit_eq bit_ucast_iff dest: bit_imp_le_length)
  then show ?thesis
    by (simp add: crc16_step_def crc16_nibble_def Let_def drop_bit_xor ac_simps)
qed

lemma crc16_step_bits: "crc16_step c t = (crc16_bit ^^ 8) (c XOR ucast t)"
proof -
  have "(crc16_bit ^^ 8) (c XOR ucast t) = (crc16_bit ^^ (4 + 4)) (c XOR ucast t)" by simp
  also have "\<dots> = (crc16_bit ^^ 4) ((crc16_bit ^^ 4) (c XOR ucast t))"
    by (simp only: funpow_add o_apply)
  finally show ?thesis by (simp add: crc16_step_nibbles crc16_nibble_bits)
qed

lemma crc16_nibble_inj: "crc16_nibble c = crc16_nibble d \<Longrightarrow> c = d"
proof -
  assume eq: "crc16_nibble c = crc16_nibble d"
  have top: "drop_bit 12 (drop_bit 4 x) = (0 :: u16)" for x :: u16
    by (rule bit_word_eqI) (auto simp: bit_drop_bit_eq dest: bit_imp_le_length)
  have "drop_bit 12 (crc16_table ! unat (c AND 0xF)) = drop_bit 12 (crc16_table ! unat (d AND 0xF))"
    using arg_cong [OF eq, of "drop_bit 12"]
    by (simp only: crc16_nibble_def drop_bit_xor top xor.right_neutral)
  then have "unat (c AND 0xF) = unat (d AND 0xF)"
    by (intro crc16_table_high_inj and_F_bound)
  then have "c AND 0xF = d AND 0xF" by (simp only: word_unat_eq_iff)
  with eq nibble_split [of c] nibble_split [of d] show "c = d"
    by (simp add: crc16_nibble_def)
qed

interpretation crc16: checksum crc16_step
proof
  fix s t :: u16 and b c :: u8
  show "s = t" if "crc16_step s b = crc16_step t b"
    using that by (auto simp: crc16_step_nibbles dest!: crc16_nibble_inj)
  show "b = c" if "crc16_step s b = crc16_step s c"
    using that by (auto simp: crc16_step_nibbles dest!: crc16_nibble_inj intro: ucast_inj [rotated])
qed

lemma crc32_append: "crc32 (xs @ ys) c = crc32 ys (crc32 xs c)"
  by (simp add: crc32_def)

section \<open>Properties\<close>

text \<open>
  C31: the table-driven, nibble-at-a-time \<open>crc16\<close> computes the bit-serial CRC-16 with
  the reflected polynomial 0xA001 on every buffer and start value.
\<close>

theorem crc16_is_crc16_ref: "crc16 buf crc = crc16_ref buf crc"
  by (induction buf arbitrary: crc) (simp_all add: crc16_def crc16_ref_def crc16_step_bits)

text \<open>
  \<open>crc32\<close> detects the corruption of any single byte at any position, for every
  start value.
\<close>

theorem crc32_detects_byte_error:
  assumes "i < length buf" and "buf ! i \<noteq> c"
  shows "crc32 (buf[i := c]) crc \<noteq> crc32 buf crc"
  unfolding crc32_def using assms by (rule crc32.detects_list_update)

theorem crc32_detects_byte_error_witness: "crc32 [1, 2, 7] 0 \<noteq> crc32 [1, 2, 3] 0"
  using crc32_detects_byte_error [of 2 "[1, 2, 3]" 7 0] by simp

end
