(* ===== verification/Util_Strings.thy ===== *)
theory Util_Strings
  imports Prelude
begin

text \<open>
  C strings and the text parsers built on them: the hex decoding of
  \<^verbatim>\<open>MSDK/util/src/util.c\<close> and the address parsers \<^verbatim>\<open>cli_parse_ip4\<close> and
  \<^verbatim>\<open>cli_parse_macaddr\<close> of \<^verbatim>\<open>MSDK/app/cmd_shell.c\<close>. A C string is the list of its
  characters in front of the terminating NUL; reading the character at the end of the list
  is reading the NUL. The parsers cut their argument at separators by storing NULs in it, so
  every token is a C string again. \<open>atoi_digits\<close> and \<open>strtoul16\<close> are the library
  conversions as the parsers use them: a 32-bit \<^verbatim>\<open>long\<close>, saturating.
\<close>

section \<open>Model\<close>

definition util_char2num :: "u8 \<Rightarrow> int" where
  "util_char2num c =
     (if 48 \<le> c \<and> c \<le> 57 then uint c - 48
      else if 97 \<le> c \<and> c \<le> 102 then uint c - 97 + 10
      else if 65 \<le> c \<and> c \<le> 70 then uint c - 65 + 10
      else - 1)"

definition string_char :: "bytes \<Rightarrow> nat \<Rightarrow> u8" where
  "string_char s i = (if i < length s then s ! i else 0)"

definition util_hex2byte :: "bytes \<Rightarrow> int" where
  "util_hex2byte hex =
     (let a = util_char2num (string_char hex 0) in
      if a < 0 then - 1
      else let b = util_char2num (string_char hex 1) in
      if b < 0 then - 1
      else push_bit 4 a OR b)"

text \<open>The return code and the bytes stored into \<^verbatim>\<open>buf\<close> so far.\<close>

fun util_hexstr2bin :: "bytes \<Rightarrow> nat \<Rightarrow> int \<times> bytes" where
  "util_hexstr2bin hex 0 = (0, [])"
| "util_hexstr2bin hex (Suc n) =
     (let a = util_hex2byte hex in
      if a < 0 then (- 1, [])
      else let (rc, out) = util_hexstr2bin (drop 2 hex) n in (rc, word_of_int a # out))"

definition is_digit :: "u8 \<Rightarrow> bool" where
  "is_digit c \<longleftrightarrow> 48 \<le> c \<and> c \<le> 57"

definition is_hexdigit :: "u8 \<Rightarrow> bool" where
  "is_hexdigit c \<longleftrightarrow> 48 \<le> c \<and> c \<le> 57 \<or> 97 \<le> c \<and> c \<le> 102 \<or> 65 \<le> c \<and> c \<le> 70"

definition digits_val :: "nat \<Rightarrow> bytes \<Rightarrow> nat" where
  "digits_val base s = foldl (\<lambda>v c. base * v + nat (util_char2num c)) 0 s"

definition atoi_digits :: "bytes \<Rightarrow> u32" where
  "atoi_digits s = of_nat (min (digits_val 10 s) 0x7FFFFFFF)"

definition strtoul16 :: "bytes \<Rightarrow> u32" where
  "strtoul16 s = of_nat (min (digits_val 16 (takeWhile is_hexdigit s)) 0xFFFFFFFF)"

text \<open>
  \<open>str_cut c s\<close> is \<^verbatim>\<open>token = strchr(s, c); *token++ = 0\<close>: the string in front of the
  first \<open>c\<close> and the one behind it.
\<close>

definition str_cut :: "u8 \<Rightarrow> bytes \<Rightarrow> (bytes \<times> bytes) option" where
  "str_cut c s =
     (if c \<in> set s then Some (takeWhile (\<lambda>x. x \<noteq> c) s, tl (dropWhile (\<lambda>x. x \<noteq> c) s)) else None)"

record ip4_result =
  ip4_rc :: int
  ip4_ip :: "u32 option"
  ip4_mask :: "u32 option"

function parse_octets :: "nat \<Rightarrow> bytes \<Rightarrow> u32 \<Rightarrow> int \<times> u32" where
  "parse_octets i str ip =
     (if 4 \<le> i then (0, ip)
      else case (if i < 3 then str_cut 46 str else Some (str, [])) of
        None \<Rightarrow> (- 1, ip)
      | Some (s, token) \<Rightarrow>
          if \<not> list_all is_digit s then (- 1, ip)
          else let a = atoi_digits s in
            if a > 255 then (- 1, ip)
            else parse_octets (Suc i) token (ip + push_bit (i * 8) a))"
  by pat_completeness auto

termination parse_octets
  by (relation "measure (\<lambda>(i, _, _). 4 - i)") auto

declare parse_octets.simps [simp del]

text \<open>
  \<^verbatim>\<open>mask\<close> is written when the caller passes a pointer (\<open>want_mask\<close>). The shift
  \<^verbatim>\<open>1 << a\<close> with \<open>a = 32\<close> is undefined in C; the RISC-V shift uses the low five
  bits of its count, which is what the model computes.
\<close>

definition ip4_finish :: "u32 option \<Rightarrow> int \<times> u32 \<Rightarrow> ip4_result" where
  "ip4_finish m r = \<lparr>ip4_rc = fst r, ip4_ip = Some (snd r), ip4_mask = m\<rparr>"

definition cli_parse_ip4 :: "bytes \<Rightarrow> bool \<Rightarrow> ip4_result" where
  "cli_parse_ip4 str want_mask =
     (case (if want_mask then str_cut 47 str else None) of
        Some (s, token) \<Rightarrow>
          if \<not> list_all is_digit token then \<lparr>ip4_rc = - 1, ip4_ip = None, ip4_mask = None\<rparr>
          else let a = atoi_digits token in
            if a = 0 \<or> a > 32 then \<lparr>ip4_rc = - 1, ip4_ip = None, ip4_mask = None\<rparr>
            else ip4_finish (Some (push_bit (unat a mod 32) 1 - 1)) (parse_octets 0 s 0)
      | None \<Rightarrow>
          ip4_finish (if want_mask then Some 0xFFFFFFFF else None) (parse_octets 0 str 0))"

function parse_mac :: "nat \<Rightarrow> bytes \<Rightarrow> bytes \<Rightarrow> int \<times> bytes" where
  "parse_mac i str bssid =
     (if 6 \<le> i then (0, bssid)
      else case (if i < 5 then str_cut 58 str else Some (str, [])) of
        None \<Rightarrow> (- 1, bssid)
      | Some (s, token) \<Rightarrow>
          if \<not> (is_hexdigit (string_char s 0) \<and> is_hexdigit (string_char s 1)) then (- 1, bssid)
          else let a = strtoul16 s in
            if a > 255 then (- 1, bssid)
            else parse_mac (Suc i) token (bssid @ [ucast a]))"
  by pat_completeness auto

termination parse_mac
  by (relation "measure (\<lambda>(i, _, _). 6 - i)") auto

declare parse_mac.simps [simp del]

definition cli_parse_macaddr :: "bytes \<Rightarrow> int \<times> bytes" where
  "cli_parse_macaddr str = parse_mac 0 str []"

section \<open>Hex decoding\<close>

lemma util_char2num_neg: "util_char2num c < 0 \<longleftrightarrow> \<not> is_hexdigit c"
  by (auto simp: util_char2num_def is_hexdigit_def word_le_def)

lemma util_char2num_range: "util_char2num c < 16"
  by (auto simp: util_char2num_def word_le_def)

lemma not_hexdigit_0 [simp]: "\<not> is_hexdigit 0"
  by (simp add: is_hexdigit_def)

lemma string_char_hex: "is_hexdigit (string_char s i) \<longleftrightarrow> i < length s \<and> is_hexdigit (s ! i)"
  by (simp add: string_char_def)

lemma push_or_add:
  assumes "0 \<le> b" "b < 16"
  shows "push_bit 4 a OR b = 16 * a + (b :: int)"
proof -
  have "take_bit 4 b = b" using assms by (simp add: take_bit_int_eq_self)
  then have "push_bit 4 a AND b = 0"
    by (intro bit_eqI) (metis bit_0_eq bit_and_iff bit_push_bit_iff bit_take_bit_iff bot_apply
        bot_bool_def linorder_not_le)
  then have "push_bit 4 a OR b = push_bit 4 a + b"
    by (simp add: disjunctive_add_eq_or)
  then show ?thesis by (simp add: push_bit_eq_mult)
qed

lemma hex2byte_eq:
  "util_hex2byte hex =
     (if 2 \<le> length hex \<and> is_hexdigit (hex ! 0) \<and> is_hexdigit (hex ! 1)
      then 16 * util_char2num (hex ! 0) + util_char2num (hex ! 1) else - 1)"
proof (cases "2 \<le> length hex \<and> is_hexdigit (hex ! 0) \<and> is_hexdigit (hex ! 1)")
  case True
  then have "0 \<le> util_char2num (hex ! 0)" "0 \<le> util_char2num (hex ! 1)"
    by (simp_all add: util_char2num_neg flip: not_less)
  then show ?thesis
    using True push_or_add [OF _ util_char2num_range]
    by (auto simp: util_hex2byte_def string_char_def not_less [symmetric])
next
  case False
  then show ?thesis
    by (auto simp: util_hex2byte_def Let_def util_char2num_neg string_char_hex)
qed

lemma hex2byte_neg:
  "util_hex2byte hex < 0 \<longleftrightarrow> \<not> (2 \<le> length hex \<and> is_hexdigit (hex ! 0) \<and> is_hexdigit (hex ! 1))"
  using util_char2num_neg [of "hex ! 0"] util_char2num_neg [of "hex ! 1"]
  by (auto simp: hex2byte_eq not_less)

lemma hexstr2bin_rc:
  "fst (util_hexstr2bin hex n) = 0 \<longleftrightarrow> 2 * n \<le> length hex \<and> list_all is_hexdigit (take (2 * n) hex)"
proof (induction n arbitrary: hex)
  case 0
  then show ?case by simp
next
  case (Suc n)
  show ?case
  proof (cases "util_hex2byte hex < 0")
    case True
    then show ?thesis
      by (cases hex; cases "tl hex") (auto simp: hex2byte_neg)
  next
    case False
    then obtain a b r where "hex = a # b # r" "is_hexdigit a" "is_hexdigit b"
      unfolding hex2byte_neg by (cases hex; cases "tl hex") auto
    then show ?thesis
      using False Suc.IH [of r] by (auto simp: Let_def split: prod.splits)
  qed
qed

text \<open>Printing: two hex digits per byte, the upper nibble first.\<close>

definition hex_char :: "nat \<Rightarrow> u8" where
  "hex_char n = (if n < 10 then of_nat (48 + n) else of_nat (87 + n))"

definition hex_of :: "bytes \<Rightarrow> bytes" where
  "hex_of bs = concat (map (\<lambda>b. [hex_char (unat b div 16), hex_char (unat b mod 16)]) bs)"

lemma hex_char_ok:
  assumes "n < 16"
  shows "is_hexdigit (hex_char n)" and "util_char2num (hex_char n) = int n"
proof -
  have u: "unat (hex_char n) = (if n < 10 then 48 + n else 87 + n)"
    using assms by (simp add: hex_char_def unat_of_nat take_bit_nat_eq_self unat_word_ariths)
  have "uint (hex_char n) = int (unat (hex_char n))" by simp
  then have i: "uint (hex_char n) = (if n < 10 then 48 + int n else 87 + int n)"
    unfolding u by simp
  show "is_hexdigit (hex_char n)"
    using assms by (auto simp: is_hexdigit_def word_le_nat_alt u)
  show "util_char2num (hex_char n) = int n"
    using assms i by (simp add: util_char2num_def word_le_def)
qed

lemma hex2byte_print:
  "util_hex2byte (hex_char (unat b div 16) # hex_char (unat b mod 16) # r) = uint (b :: u8)"
proof -
  have d: "unat b div 16 < 16" "unat b mod 16 < 16"
    using unat_u8_lt [of b] by (simp_all add: less_mult_imp_div_less)
  have "16 * int (unat b div 16) + int (unat b mod 16) = int (unat b)"
    by (metis mult_div_mod_eq of_nat_add of_nat_mult of_nat_numeral)
  then show ?thesis by (simp add: hex2byte_eq hex_char_ok d)
qed

text \<open>
  \<open>util_hexstr2bin\<close> decodes the hex text of every byte string back to that byte
  string and reports success, whatever text follows.
\<close>

theorem util_hexstr2bin_roundtrip:
  "util_hexstr2bin (hex_of bs @ rest) (length bs) = (0, bs)"
proof (induction bs)
  case Nil
  then show ?case by (simp add: hex_of_def)
next
  case (Cons b bs)
  then show ?case
    by (simp add: hex_of_def hex2byte_print Let_def)
qed

section \<open>Addresses\<close>

text \<open>Decimal text of a number.\<close>

fun dec_of :: "nat \<Rightarrow> bytes" where
  "dec_of n = (if n < 10 then [hex_char n] else dec_of (n div 10) @ [hex_char (n mod 10)])"

declare dec_of.simps [simp del]

lemma hex_char_digit: "n < 10 \<Longrightarrow> is_digit (hex_char n)"
  by (simp add: is_digit_def hex_char_def word_le_nat_alt unat_word_ariths unat_of_nat
      take_bit_nat_eq_self)

lemma dec_of_digits: "list_all is_digit (dec_of n)"
  by (induction n rule: dec_of.induct) (subst dec_of.simps, simp add: hex_char_digit)

lemma digits_val_dec_of: "digits_val 10 (dec_of n) = n"
proof (induction n rule: dec_of.induct)
  case (1 n)
  then show ?case
    by (subst dec_of.simps) (auto simp: digits_val_def hex_char_ok)
qed

lemma atoi_dec_of: "n < 2 ^ 31 \<Longrightarrow> unat (atoi_digits (dec_of n)) = n"
  by (simp add: atoi_digits_def digits_val_dec_of unat_of_nat take_bit_nat_eq_self)

lemma dec_of_no_sep: "c \<notin> {c. is_digit c} \<Longrightarrow> c \<notin> set (dec_of n)"
  using dec_of_digits [of n] by (auto simp: list_all_iff)

lemma str_cut_sep: "c \<notin> set s \<Longrightarrow> str_cut c (s @ c # t) = Some (s, t)"
  by (auto simp: str_cut_def takeWhile_append dropWhile_append)

lemma parse_octets_step:
  assumes "i < 3" and "a < 256"
  shows "parse_octets i (dec_of a @ 46 # t) ip = parse_octets (Suc i) t (ip + push_bit (i * 8) (of_nat a))"
proof -
  have "str_cut 46 (dec_of a @ 46 # t) = Some (dec_of a, t)"
    by (intro str_cut_sep dec_of_no_sep) (simp add: is_digit_def)
  moreover have "atoi_digits (dec_of a) = of_nat a"
    using assms by (simp add: word_unat_eq_iff atoi_dec_of unat_of_nat take_bit_nat_eq_self)
  moreover have "\<not> (of_nat a :: u32) > 255"
    using assms by (simp add: word_less_nat_alt unat_of_nat take_bit_nat_eq_self)
  ultimately show ?thesis
    using assms by (subst parse_octets.simps) (simp add: dec_of_digits)
qed

lemma parse_octets_last:
  assumes "a < 256"
  shows "parse_octets 3 (dec_of a) ip = (0, ip + push_bit 24 (of_nat a))"
proof -
  have "atoi_digits (dec_of a) = of_nat a"
    using assms by (simp add: word_unat_eq_iff atoi_dec_of unat_of_nat take_bit_nat_eq_self)
  moreover have "\<not> (of_nat a :: u32) > 255"
    using assms by (simp add: word_less_nat_alt unat_of_nat take_bit_nat_eq_self)
  ultimately show ?thesis
    by (subst parse_octets.simps) (simp add: dec_of_digits parse_octets.simps [of 4])
qed

definition ip4_text :: "nat \<Rightarrow> nat \<Rightarrow> nat \<Rightarrow> nat \<Rightarrow> bytes" where
  "ip4_text a b c d = dec_of a @ 46 # dec_of b @ 46 # dec_of c @ 46 # dec_of d"

definition ip4_word :: "nat \<Rightarrow> nat \<Rightarrow> nat \<Rightarrow> nat \<Rightarrow> u32" where
  "ip4_word a b c d = of_nat a + push_bit 8 (of_nat b) + push_bit 16 (of_nat c) + push_bit 24 (of_nat d)"

lemma parse_octets_text:
  assumes "a < 256" "b < 256" "c < 256" "d < 256"
  shows "parse_octets 0 (ip4_text a b c d) 0 = (0, ip4_word a b c d)"
proof -
  have "parse_octets (Suc (Suc (Suc 0))) (dec_of d) w = (0, w + push_bit 24 (of_nat d))" for w
    using parse_octets_last [OF assms(4)] by (simp add: numeral_3_eq_3)
  then show ?thesis
    using assms by (simp add: ip4_text_def ip4_word_def parse_octets_step ac_simps)
qed

lemma ip4_text_no_slash: "47 \<notin> set (ip4_text a b c d)"
  by (simp add: ip4_text_def dec_of_no_sep is_digit_def)

text \<open>
  C32: \<open>cli_parse_ip4\<close> reads the text \<^verbatim>\<open>a.b.c.d/e\<close> with a prefix length from 1 to 31 as
  that address (the first octet in the low byte) and a mask of \<open>e\<close> one bits from the low
  end.
\<close>

theorem cli_parse_ip4_roundtrip:
  assumes "a < 256" "b < 256" "c < 256" "d < 256" and "0 < e" "e < 32"
  shows "cli_parse_ip4 (ip4_text a b c d @ 47 # dec_of e) True =
    \<lparr>ip4_rc = 0, ip4_ip = Some (ip4_word a b c d), ip4_mask = Some (mask e)\<rparr>"
proof -
  have e: "unat (atoi_digits (dec_of e)) = e"
    using assms by (intro atoi_dec_of) simp
  then have "atoi_digits (dec_of e) \<noteq> 0" "\<not> atoi_digits (dec_of e) > 32"
    using assms by (auto simp: word_less_nat_alt)
  moreover have "push_bit e 1 - 1 = (mask e :: u32)"
    by (simp add: mask_eq_exp_minus_1 push_bit_eq_mult)
  ultimately show ?thesis
    using assms e
    by (simp add: cli_parse_ip4_def str_cut_sep ip4_text_no_slash dec_of_digits parse_octets_text
        ip4_finish_def)
qed

theorem cli_parse_ip4_roundtrip_witness:
  "cli_parse_ip4 (ip4_text 192 168 1 20 @ 47 # dec_of 24) True =
    \<lparr>ip4_rc = 0, ip4_ip = Some (ip4_word 192 168 1 20), ip4_mask = Some (mask 24)\<rparr>"
  by (rule cli_parse_ip4_roundtrip) simp_all

text \<open>
  With the prefix length 32, which the guard accepts, the mask comes out as zero
  instead of all ones: the shift count is the width of the operand.
\<close>

theorem cli_parse_ip4_prefix32:
  assumes "a < 256" "b < 256" "c < 256" "d < 256"
  shows "cli_parse_ip4 (ip4_text a b c d @ 47 # dec_of 32) True =
    \<lparr>ip4_rc = 0, ip4_ip = Some (ip4_word a b c d), ip4_mask = Some 0\<rparr>"
proof -
  have e: "unat (atoi_digits (dec_of 32)) = 32"
    by (rule atoi_dec_of) simp
  then have "atoi_digits (dec_of 32) = 32"
    by (simp add: word_unat_eq_iff)
  then show ?thesis
    using assms
    by (simp add: cli_parse_ip4_def str_cut_sep ip4_text_no_slash dec_of_digits parse_octets_text
        ip4_finish_def)
qed

theorem cli_parse_ip4_prefix32_witness:
  "ip4_mask (cli_parse_ip4 (ip4_text 10 0 0 1 @ 47 # dec_of 32) True) = Some 0"
  using cli_parse_ip4_prefix32 [of 10 0 0 1] by simp

text \<open>The text of a MAC address and its parse.\<close>

definition mac_text :: "bytes \<Rightarrow> bytes" where
  "mac_text m = hex_of [hd m] @ concat (map (\<lambda>b. 58 # hex_of [b]) (tl m))"

lemma hex_of_single: "hex_of [b] = [hex_char (unat b div 16), hex_char (unat b mod 16)]"
  by (simp add: hex_of_def)

lemma u8_nibbles: "unat (b :: u8) div 16 < 16" "unat b mod 16 < 16"
  using unat_u8_lt [of b] by (simp_all add: less_mult_imp_div_less)

lemma strtoul16_hex_of: "strtoul16 (hex_of [b]) = ucast b"
proof -
  have "digits_val 16 (takeWhile is_hexdigit (hex_of [b])) = 16 * (unat b div 16) + unat b mod 16"
    by (simp add: hex_of_single digits_val_def hex_char_ok u8_nibbles)
  then have "digits_val 16 (takeWhile is_hexdigit (hex_of [b])) = unat b"
    by simp
  moreover have "unat b \<le> 255" by (rule unat_u8_le)
  ultimately show ?thesis
    unfolding strtoul16_def by (simp add: min_def word_unat_eq_iff unat_of_nat
        take_bit_nat_eq_self)
qed

lemma hex_of_no_colon: "58 \<notin> set (hex_of [b])"
proof
  assume "58 \<in> set (hex_of [b])"
  then have "is_hexdigit 58"
    using hex_char_ok(1) [OF u8_nibbles(1), of b] hex_char_ok(1) [OF u8_nibbles(2), of b]
    by (auto simp: hex_of_single)
  then show False by (simp add: is_hexdigit_def)
qed

lemma mac_token_ok:
  "is_hexdigit (string_char (hex_of [b]) 0)" "is_hexdigit (string_char (hex_of [b]) 1)"
  "\<not> (ucast (b :: u8) :: u32) > 255"
  using unat_u8_le [of b]
  by (simp_all add: hex_of_single string_char_def hex_char_ok u8_nibbles word_less_nat_alt
      less_Suc_eq_le)

lemma parse_mac_step:
  "i < 5 \<Longrightarrow> parse_mac i (hex_of [b] @ 58 # t) out = parse_mac (Suc i) t (out @ [b])"
  by (subst parse_mac.simps)
    (simp add: str_cut_sep hex_of_no_colon mac_token_ok [simplified] strtoul16_hex_of Let_def)

lemma parse_mac_last: "parse_mac 5 (hex_of [b]) out = (0, out @ [b])"
  by (subst parse_mac.simps)
    (simp add: mac_token_ok [simplified] strtoul16_hex_of Let_def parse_mac.simps [of 6])

text \<open>
  \<open>cli_parse_macaddr\<close> reads the colon-separated hex text of every 6-byte address
  back to those bytes.
\<close>

theorem cli_parse_macaddr_roundtrip:
  "cli_parse_macaddr (mac_text [m0, m1, m2, m3, m4, m5]) = (0, [m0, m1, m2, m3, m4, m5])"
proof -
  have "parse_mac (Suc (Suc (Suc (Suc (Suc 0))))) (hex_of [b]) out = (0, out @ [b])" for b out
    using parse_mac_last by (simp add: numeral_eq_Suc)
  then show ?thesis
    by (simp add: cli_parse_macaddr_def mac_text_def parse_mac_step)
qed

end
