(* ===== verification/Cmd_Shell.thy ===== *)
theory Cmd_Shell
  imports Cyclic_Buffer Wakelock Util_Strings
begin

text \<open>
  The UART command shell, \<^verbatim>\<open>MSDK/app/cmd_shell.c\<close>: the receive interrupt edits a line in
  \<^verbatim>\<open>uart_buf\<close> and on carriage return posts a message and copies the line into the cyclic
  buffer; the CLI task takes the message, reads that many bytes back, cuts the command from
  its parameters, looks the command up in the registered modules and splits the parameters.
  The command buffer is the list of its bytes; a result \<open>None\<close> of a string operation means
  that it reads or writes outside the buffer. \<open>sys_queue_write\<close> is the bounded FIFO of the
  RTOS wrapper with a zero timeout. The heap hands the command buffer out with arbitrary
  content (\<open>fresh\<close>; \<open>None\<close> is a failed allocation); command handlers and the callbacks
  of the modules are parameters.
\<close>

section \<open>Model\<close>

definition UART_BUFFER_SIZE :: nat where "UART_BUFFER_SIZE = 128"
definition MAX_ARGC :: nat where "MAX_ARGC = 16"
definition CLI_QUEUE_SIZE :: nat where "CLI_QUEUE_SIZE = 3"

record cmd_msg =
  msg_id :: u16
  msg_len :: u16

record shell =
  uart_cyc_buf :: "cyclic_buf_t option"
  uart_buf :: bytes
  uart_index :: u32
  cmd_queue :: "cmd_msg list"
  sh_wake_lock :: u32
  sh_echo :: bytes

definition sys_queue_write :: "nat \<Rightarrow> 'm list \<Rightarrow> 'm \<Rightarrow> int \<times> 'm list" where
  "sys_queue_write cap q m = (if length q < cap then (0, q @ [m]) else (1, q))"

definition CMD_MSG_ID :: "u16 \<Rightarrow> u16 \<Rightarrow> u16" where
  "CMD_MSG_ID ty idx = push_bit 12 ty OR (idx AND 0xFFF)"

definition cmd_info_send :: "u16 \<Rightarrow> u16 \<Rightarrow> shell \<Rightarrow> int \<times> shell" where
  "cmd_info_send i len s =
     (let (rc, q) = sys_queue_write CLI_QUEUE_SIZE (cmd_queue s)
            \<lparr>msg_id = CMD_MSG_ID 0 i, msg_len = len\<rparr>
      in (rc, s\<lparr>cmd_queue := q\<rparr>))"

definition uart_cmd_rx_indicate :: "shell \<Rightarrow> shell" where
  "uart_cmd_rx_indicate s =
     (let len = ucast (uart_index s + 1); (rc, s') = cmd_info_send 0x23 len s in
      if rc = 0
      then let (ok, cyc) = cyclic_buf_write (uart_cyc_buf s') (uart_buf s') len
           in s'\<lparr>uart_cyc_buf := cyc, uart_index := 0\<rparr>
      else s'\<lparr>uart_index := 0\<rparr>)"

definition rx_char :: "u8 \<Rightarrow> shell \<Rightarrow> shell" where
  "rx_char ch s =
     (let i = unat (uart_index s) in
      if 0x20 \<le> ch then
        let n = uart_index s + 1 in
        s\<lparr>uart_buf := (uart_buf s)[i := ch],
          uart_index := (if of_nat UART_BUFFER_SIZE \<le> n then 0 else n),
          sh_echo := sh_echo s @ [ch]\<rparr>
      else if ch = 13 then
        let s1 = s\<lparr>uart_buf := (uart_buf s)[i := 0], sh_echo := sh_echo s @ [13, 10]\<rparr>;
            s2 = (if 0 < uart_index s1 then uart_cmd_rx_indicate s1
                  else s1\<lparr>sh_echo := sh_echo s1 @ [35, 32]\<rparr>)
        in s2\<lparr>sh_wake_lock := sys_wakelock_release LOCK_ID_USART (sh_wake_lock s2)\<rparr>
      else if ch = 8 then
        (if 0 < uart_index s
         then s\<lparr>uart_buf := (uart_buf s)[i - 1 := 0], uart_index := uart_index s - 1\<rparr> else s)
      else s)"

text \<open>
  One receive interrupt: \<open>rx\<close> are the characters the USART has ready. A NUL ends the
  loop; the characters behind it wait for the next interrupt.
\<close>

fun log_uart_rx_irq_hdl :: "bytes \<Rightarrow> shell \<Rightarrow> bytes \<times> shell" where
  "log_uart_rx_irq_hdl [] s = ([], s)"
| "log_uart_rx_irq_hdl (ch # rx) s =
     (if ch = 0 then (rx, s) else log_uart_rx_irq_hdl rx (rx_char ch s))"

definition log_uart_rx_init :: "bool \<Rightarrow> shell \<Rightarrow> shell" where
  "log_uart_rx_init mem_ok s =
     s\<lparr>uart_buf := replicate UART_BUFFER_SIZE 0, uart_index := 0,
       uart_cyc_buf := snd (cyclic_buf_init mem_ok (uart_cyc_buf s) (of_nat (4 * UART_BUFFER_SIZE)))\<rparr>"

text \<open>\<open>want\<close> is \<^verbatim>\<open>buf != NULL\<close>; the results are the bytes read, \<^verbatim>\<open>*len\<close> and the ring.\<close>

definition uart_cmd_rx_handle_done ::
    "cyclic_buf_t option \<Rightarrow> bool \<Rightarrow> u16 \<Rightarrow> bytes option \<times> u16 \<times> cyclic_buf_t option" where
  "uart_cmd_rx_handle_done cyc want len =
     (let len' = (if len > cyclic_buf_count cyc then cyclic_buf_count cyc else len) in
      if \<not> want then (None, len', snd (cyclic_buf_drop cyc len'))
      else let (r, cyc') = cyclic_buf_read cyc len' in (r, len', cyc'))"

text \<open>
  String operations on the command buffer. \<open>strchr_scan c xs\<close> is the offset of the first
  \<open>c\<close> in front of the NUL.
\<close>

fun strchr_scan :: "u8 \<Rightarrow> bytes \<Rightarrow> nat option option" where
  "strchr_scan c [] = None"
| "strchr_scan c (x # xs) =
     (if x = c then Some (Some 0) else if x = 0 then Some None
      else map_option (map_option Suc) (strchr_scan c xs))"

fun space_run :: "bytes \<Rightarrow> nat option" where
  "space_run [] = None"
| "space_run (x # xs) = (if x = 32 then map_option Suc (space_run xs) else Some 0)"

definition cstr :: "bytes \<Rightarrow> nat \<Rightarrow> bytes" where
  "cstr b p = takeWhile (\<lambda>x. x \<noteq> 0) (drop p b)"

definition get_next_param :: "bytes \<Rightarrow> nat option \<Rightarrow> (nat option \<times> nat option \<times> bytes) option" where
  "get_next_param b params =
     (case params of
        None \<Rightarrow> Some (None, None, b)
      | Some p \<Rightarrow>
          if length b \<le> p then None
          else
            let quoted = b ! p = 34 \<or> b ! p = 39;
                sep = (if quoted then b ! p else 32);
                ptr = (if quoted then p + 1 else p)
            in case strchr_scan sep (drop ptr b) of
                 None \<Rightarrow> None
               | Some None \<Rightarrow> Some (Some ptr, None, b)
               | Some (Some i) \<Rightarrow>
                   let b' = b[ptr + i := 0] in
                   (case space_run (drop (ptr + i + 1) b') of
                      None \<Rightarrow> None
                    | Some k \<Rightarrow>
                        let next = ptr + i + 1 + k in
                        Some (Some ptr, if b' ! next = 0 then None else Some next, b')))"

function parse_loop ::
    "bytes \<Rightarrow> nat list \<Rightarrow> nat option \<Rightarrow> nat option \<Rightarrow> (nat list \<times> bytes) option" where
  "parse_loop b argv param buf =
     (case param of
        None \<Rightarrow> Some (argv, b)
      | Some a \<Rightarrow>
          if length argv < MAX_ARGC
          then (case get_next_param b buf of
                  None \<Rightarrow> None
                | Some (param', buf', b') \<Rightarrow> parse_loop b' (argv @ [a]) param' buf')
          else Some (argv, b))"
  by pat_completeness auto

termination parse_loop
  by (relation "measure (\<lambda>(_, argv, _, _). MAX_ARGC - length argv)") auto

declare parse_loop.simps [simp del]

definition parse_cmd :: "bytes \<Rightarrow> nat option \<Rightarrow> (nat list \<times> bytes) option" where
  "parse_cmd b buf =
     (if buf = None then Some ([], b)
      else case get_next_param b buf of
        None \<Rightarrow> None
      | Some (param, buf', b') \<Rightarrow> parse_loop b' [] param buf')"

definition cmd_param_separate :: "bytes \<Rightarrow> nat \<Rightarrow> (nat option \<times> bytes) option" where
  "cmd_param_separate command command_len =
     (case strchr_scan 32 command of
        None \<Rightarrow> None
      | Some (Some i) \<Rightarrow>
          let b = command[i := 0] in
          map_option (\<lambda>k. (Some (i + 1 + k), b)) (space_run (drop (i + 1) b))
      | Some None \<Rightarrow>
          if command_len = 0 \<or> length command < command_len then None
          else Some (None, command[command_len - 1 := 0]))"

datatype cli_res = CLI_SUCCESS | CLI_ERROR | CLI_UNKWN_CMD | CLI_NO_RESP | CLI_SHOW_USAGE

record 'h cmd_module_reg_info =
  reg_prefix :: "bytes option"
  get_handle_cb :: "(bytes \<Rightarrow> cli_res \<times> 'h option) option"
  help_cb :: bool
  parse_cb :: "(bytes \<Rightarrow> nat option \<Rightarrow> (nat list \<times> bytes) option) option"

definition CMD_MODULE_MAX :: nat where "CMD_MODULE_MAX = 4"

text \<open>\<^verbatim>\<open>memcmp(command, prefix, strlen(prefix)) == 0\<close>, reading up to the first difference.\<close>

fun memcmp_prefix :: "bytes \<Rightarrow> bytes \<Rightarrow> bool option" where
  "memcmp_prefix b [] = Some True"
| "memcmp_prefix [] (p # ps) = None"
| "memcmp_prefix (x # b) (p # ps) = (if x = p then memcmp_prefix b ps else Some False)"

type_synonym 'h lookup =
  "cli_res \<times> 'h option \<times> (bytes \<Rightarrow> nat option \<Rightarrow> (nat list \<times> bytes) option)"

fun find_handler :: "bytes \<Rightarrow> 'h cmd_module_reg_info list \<Rightarrow> 'h lookup \<Rightarrow> 'h lookup option" where
  "find_handler b [] st = Some st"
| "find_handler b (m # ms) (res, h, pcb) =
     (case get_handle_cb m of
        None \<Rightarrow> find_handler b ms (res, h, pcb)
      | Some cb \<Rightarrow>
          (case (case reg_prefix m of None \<Rightarrow> Some True | Some p \<Rightarrow> memcmp_prefix b p) of
             None \<Rightarrow> None
           | Some False \<Rightarrow> find_handler b ms (res, h, pcb)
           | Some True \<Rightarrow>
               let (res', h0) = cb (cstr b 0); h' = (if h0 = None then h else h0) in
               if res' = CLI_SUCCESS
               then Some (res', h', case parse_cb m of None \<Rightarrow> pcb | Some p \<Rightarrow> p)
               else if res' = CLI_ERROR then Some (res', h', pcb)
               else find_handler b ms (res', h', pcb)))"

datatype 'h action =
    No_Buffer
  | Help "nat list"
  | Handle 'h "bytes list"
  | Unknown bytes
  | Cli_Error
  | Bad_Access
  | Argv_Overflow

text \<open>
  What the body of \<^verbatim>\<open>cmn_cmd_exec\<close> does with the command buffer. The parameters are
  stored at \<^verbatim>\<open>&argv[1]\<close> of an array of \<open>MAX_ARGC\<close> pointers, so the last of
  \<open>MAX_ARGC\<close> parameters lands outside it: \<open>Argv_Overflow\<close>.
\<close>

definition help_text :: bytes where "help_text = [104, 101, 108, 112]"

definition exec_command :: "'h cmd_module_reg_info list \<Rightarrow> bytes \<Rightarrow> nat \<Rightarrow> 'h action" where
  "exec_command infos command len =
     (case cmd_param_separate command len of
        None \<Rightarrow> Bad_Access
      | Some (param, b) \<Rightarrow>
          if cstr b 0 = help_text
          then Help (filter (\<lambda>i. help_cb (infos ! i)) [0..<length infos])
          else
            (case find_handler b infos (CLI_UNKWN_CMD, None, parse_cmd) of
               None \<Rightarrow> Bad_Access
             | Some (CLI_SUCCESS, h, pcb) \<Rightarrow>
                 (case pcb b param of
                    None \<Rightarrow> Bad_Access
                  | Some (args, b') \<Rightarrow>
                      if MAX_ARGC < 1 + length args then Argv_Overflow
                      else (case h of
                              None \<Rightarrow> Bad_Access
                            | Some f \<Rightarrow> Handle f (map (cstr b') (0 # args))))
             | Some (CLI_UNKWN_CMD, _, _) \<Rightarrow> Unknown (cstr b 0)
             | Some (_, _, _) \<Rightarrow> Cli_Error))"

definition cmn_cmd_exec ::
    "'h cmd_module_reg_info list \<Rightarrow> bytes option \<Rightarrow> cmd_msg \<Rightarrow> cyclic_buf_t option
       \<Rightarrow> 'h action \<times> cyclic_buf_t option" where
  "cmn_cmd_exec infos fresh msg cyc =
     (let (r, len, cyc') = uart_cmd_rx_handle_done cyc (fresh \<noteq> None) (msg_len msg) in
      case fresh of
        None \<Rightarrow> (No_Buffer, cyc')
      | Some junk \<Rightarrow>
          (exec_command infos (blit junk 0 (case r of None \<Rightarrow> [] | Some d \<Rightarrow> d)) (unat len), cyc'))"

fun cmd_common_handle :: "(bytes \<times> 'h) list \<Rightarrow> bytes \<Rightarrow> cli_res \<times> 'h option" where
  "cmd_common_handle [] d = (CLI_UNKWN_CMD, None)"
| "cmd_common_handle ((name, f) # table) d =
     (if d = name then (CLI_SUCCESS, Some f) else cmd_common_handle table d)"

definition cmd_module_reg ::
    "'h cmd_module_reg_info list \<Rightarrow> nat \<Rightarrow> 'h cmd_module_reg_info
       \<Rightarrow> cli_res \<times> 'h cmd_module_reg_info list" where
  "cmd_module_reg infos i info =
     (if CMD_MODULE_MAX \<le> i \<or> get_handle_cb info = None then (CLI_ERROR, infos)
      else (CLI_SUCCESS, infos[i := info]))"

section \<open>The line editor stays inside its buffer\<close>

definition shell_inv :: "shell \<Rightarrow> bool" where
  "shell_inv s \<longleftrightarrow> length (uart_buf s) = UART_BUFFER_SIZE \<and> unat (uart_index s) < UART_BUFFER_SIZE"

lemma index_next:
  assumes "unat (w :: u32) < 128"
  shows "unat (w + 1) = unat w + 1"
  using assms by (simp add: unat_word_ariths)

lemma indicate_fields:
  "uart_buf (uart_cmd_rx_indicate s) = uart_buf s" "uart_index (uart_cmd_rx_indicate s) = 0"
  by (simp_all add: uart_cmd_rx_indicate_def cmd_info_send_def Let_def split_def)

lemma rx_char_inv: "shell_inv s \<Longrightarrow> shell_inv (rx_char ch s)"
  by (auto simp: shell_inv_def rx_char_def Let_def indicate_fields UART_BUFFER_SIZE_def index_next
      word_le_nat_alt unat_sub word_less_nat_alt)

section \<open>Lines arrive intact\<close>

text \<open>What one character submits: the edited line with its NUL, if the queue has room.\<close>

definition submitted :: "u8 \<Rightarrow> shell \<Rightarrow> bytes list" where
  "submitted ch s =
     (if ch = 13 \<and> 0 < uart_index s \<and> length (cmd_queue s) < CLI_QUEUE_SIZE
      then [take (unat (uart_index s) + 1) ((uart_buf s)[unat (uart_index s) := 0])] else [])"

text \<open>
  The shell with its ghost history: the message the CLI task holds after taking it from the
  queue, the lines submitted so far and the results of the reads so far. Characters arrive
  between any two actions of the task. Lines are kept below 127 characters.
\<close>

record shell_sys =
  sys_shell :: shell
  sys_hand :: "cmd_msg option"
  sys_sent :: "bytes list"
  sys_got :: "bytes option list"

inductive shell_step :: "shell_sys \<Rightarrow> shell_sys \<Rightarrow> bool" where
  rx: "ch \<noteq> 0 \<Longrightarrow> unat (uart_index (sys_shell y)) \<le> 126 \<Longrightarrow>
    shell_step y (y\<lparr>sys_shell := rx_char ch (sys_shell y),
      sys_sent := sys_sent y @ submitted ch (sys_shell y)\<rparr>)"
| take: "sys_hand y = None \<Longrightarrow> cmd_queue (sys_shell y) = m # q \<Longrightarrow>
    shell_step y (y\<lparr>sys_shell := (sys_shell y)\<lparr>cmd_queue := q\<rparr>, sys_hand := Some m\<rparr>)"
| read: "sys_hand y = Some m \<Longrightarrow>
    uart_cmd_rx_handle_done (uart_cyc_buf (sys_shell y)) True (msg_len m) = (r, len, cyc) \<Longrightarrow>
    shell_step y (y\<lparr>sys_shell := (sys_shell y)\<lparr>uart_cyc_buf := cyc\<rparr>, sys_hand := None,
      sys_got := sys_got y @ [r]\<rparr>)"

inductive_simps shell_step_iff: "shell_step y z"

definition held :: "shell_sys \<Rightarrow> cmd_msg list" where
  "held y = (case sys_hand y of None \<Rightarrow> [] | Some m \<Rightarrow> [m]) @ cmd_queue (sys_shell y)"

definition sys_inv :: "bytes list \<Rightarrow> shell_sys \<Rightarrow> bool" where
  "sys_inv pend y \<longleftrightarrow> shell_inv (sys_shell y) \<and> cb_inv (uart_cyc_buf (sys_shell y))
     \<and> cb_cap (uart_cyc_buf (sys_shell y)) = 512 \<and> length (cmd_queue (sys_shell y)) \<le> 3
     \<and> sys_got y @ map Some pend = map Some (sys_sent y)
     \<and> cb_contents (uart_cyc_buf (sys_shell y)) = concat pend
     \<and> map length pend = map (\<lambda>m. unat (msg_len m)) (held y)
     \<and> (\<forall>f\<in>set pend. length f \<le> 127)"

lemma sum_le_mult: "(\<forall>f\<in>set fs. length f \<le> n) \<Longrightarrow> length (concat fs) \<le> length fs * n"
  by (induction fs) auto

text \<open>A submitted line extends the pending frames; other characters leave them alone.\<close>

lemma indicate_accepts:
  assumes "length (cmd_queue s) < 3"
  shows "uart_cmd_rx_indicate s = s\<lparr>cmd_queue := cmd_queue s @
      [\<lparr>msg_id = CMD_MSG_ID 0 0x23, msg_len = ucast (uart_index s + 1)\<rparr>],
    uart_cyc_buf := snd (cyclic_buf_write (uart_cyc_buf s) (uart_buf s) (ucast (uart_index s + 1))),
    uart_index := 0\<rparr>"
  using assms
  by (simp add: uart_cmd_rx_indicate_def cmd_info_send_def sys_queue_write_def CLI_QUEUE_SIZE_def
      split_def Let_def)

lemma indicate_refuses:
  assumes "\<not> length (cmd_queue s) < 3"
  shows "uart_cmd_rx_indicate s = s\<lparr>uart_index := 0\<rparr>"
  using assms
  by (simp add: uart_cmd_rx_indicate_def cmd_info_send_def sys_queue_write_def CLI_QUEUE_SIZE_def)

lemma rx_char_quiet:
  assumes "submitted ch s = []"
  shows "uart_cyc_buf (rx_char ch s) = uart_cyc_buf s" "cmd_queue (rx_char ch s) = cmd_queue s"
  using assms
  by (auto simp: rx_char_def submitted_def Let_def CLI_QUEUE_SIZE_def indicate_refuses
      split: if_splits)

lemma rx_char_submit:
  assumes "submitted ch s = [f]" and inv: "shell_inv s" and cb: "cb_inv (uart_cyc_buf s)"
    and room: "length (cb_contents (uart_cyc_buf s)) + length f < cb_cap (uart_cyc_buf s)"
  shows "cb_inv (uart_cyc_buf (rx_char ch s))"
    and "cb_cap (uart_cyc_buf (rx_char ch s)) = cb_cap (uart_cyc_buf s)"
    and "cb_contents (uart_cyc_buf (rx_char ch s)) = cb_contents (uart_cyc_buf s) @ f"
    and "\<exists>m. cmd_queue (rx_char ch s) = cmd_queue s @ [m] \<and> unat (msg_len m) = length f"
    and "length f = unat (uart_index s) + 1" and "length (cmd_queue s) < 3"
proof -
  let ?i = "unat (uart_index s)" and ?b = "(uart_buf s)[unat (uart_index s) := 0]"
  have ch: "ch = 13" "0 < uart_index s" and q: "length (cmd_queue s) < 3"
    and f: "f = take (?i + 1) ?b"
    using assms(1) by (auto simp: submitted_def CLI_QUEUE_SIZE_def split: if_splits)
  have i: "?i < 128" and lb: "length ?b = 128"
    using inv by (simp_all add: shell_inv_def UART_BUFFER_SIZE_def)
  have lf: "length f = ?i + 1" using f i lb by simp
  define n :: u16 where "n = ucast (uart_index s + 1)"
  have n: "unat n = ?i + 1"
    using i by (simp add: n_def unsigned_ucast_eq index_next take_bit_nat_eq_self)
  obtain c' where w: "cyclic_buf_write (uart_cyc_buf s) ?b n = (True, c')" "cb_inv c'"
      "cb_contents c' = cb_contents (uart_cyc_buf s) @ take (unat n) ?b"
      "cb_cap c' = cb_cap (uart_cyc_buf s)"
    using cb.enq_fits [OF cb, of n ?b] n i lb room lf by auto
  have rx: "uart_cyc_buf (rx_char ch s) = c'"
    "cmd_queue (rx_char ch s) = cmd_queue s @ [\<lparr>msg_id = CMD_MSG_ID 0 0x23, msg_len = n\<rparr>]"
    using ch q w(1) by (simp_all add: rx_char_def Let_def indicate_accepts n_def)
  show "cb_inv (uart_cyc_buf (rx_char ch s))"
    and "cb_cap (uart_cyc_buf (rx_char ch s)) = cb_cap (uart_cyc_buf s)"
    and "cb_contents (uart_cyc_buf (rx_char ch s)) = cb_contents (uart_cyc_buf s) @ f"
    and "\<exists>m. cmd_queue (rx_char ch s) = cmd_queue s @ [m] \<and> unat (msg_len m) = length f"
    and "length f = ?i + 1" and "length (cmd_queue s) < 3"
    using rx w n f lf q by auto
qed

lemma submitted_cases: "submitted ch s = [] \<or> (\<exists>f. submitted ch s = [f])"
  by (simp add: submitted_def)

lemma sys_inv_rx:
  assumes inv: "sys_inv pend y" and small: "unat (uart_index (sys_shell y)) \<le> 126"
  shows "\<exists>pend'. sys_inv pend' (y\<lparr>sys_shell := rx_char ch (sys_shell y),
      sys_sent := sys_sent y @ submitted ch (sys_shell y)\<rparr>)"
proof -
  let ?s = "sys_shell y"
  have s: "shell_inv ?s" using inv by (simp add: sys_inv_def)
  consider "submitted ch ?s = []" | f where "submitted ch ?s = [f]"
    using submitted_cases by blast
  then show ?thesis
  proof cases
    case 1
    then have "sys_inv pend (y\<lparr>sys_shell := rx_char ch ?s,
        sys_sent := sys_sent y @ submitted ch ?s\<rparr>)"
      using inv rx_char_inv [OF s, of ch] by (simp add: sys_inv_def held_def rx_char_quiet)
    then show ?thesis ..
  next
    case (2 f)
    have "length (held y) \<le> 4"
      using inv by (auto simp: sys_inv_def held_def split: option.splits)
    moreover have "length pend = length (held y)"
      using inv by (metis (no_types, lifting) length_map sys_inv_def)
    moreover have "length (concat pend) \<le> length pend * 127"
      using inv by (intro sum_le_mult) (simp add: sys_inv_def)
    moreover have q: "length (cmd_queue ?s) < 3"
      using 2 by (auto simp: submitted_def CLI_QUEUE_SIZE_def split: if_splits)
    moreover have "length f = unat (uart_index ?s) + 1"
      using 2 s by (auto simp: submitted_def shell_inv_def UART_BUFFER_SIZE_def split: if_splits)
    moreover have "length (held y) \<le> 3"
      using q by (auto simp: held_def split: option.splits)
    ultimately have room: "length (cb_contents (uart_cyc_buf ?s)) + length f < cb_cap (uart_cyc_buf ?s)"
      and f: "length f \<le> 127"
      using inv small by (auto simp: sys_inv_def)
    note sub = rx_char_submit [OF 2 s _ room]
    have cb: "cb_inv (uart_cyc_buf ?s)" using inv by (simp add: sys_inv_def)
    obtain m where m: "cmd_queue (rx_char ch ?s) = cmd_queue ?s @ [m]" "unat (msg_len m) = length f"
      using sub(4) [OF cb] by blast
    have "sys_inv (pend @ [f]) (y\<lparr>sys_shell := rx_char ch ?s,
        sys_sent := sys_sent y @ submitted ch ?s\<rparr>)"
      using inv rx_char_inv [OF s, of ch] sub [OF cb] m f 2 q
      by (auto simp: sys_inv_def held_def)
    then show ?thesis ..
  qed
qed

lemma handle_done_frame:
  assumes "cb_inv c" and "cb_contents c = f @ rest" and "unat len = length f"
  shows "\<exists>c'. uart_cmd_rx_handle_done c True len = (Some f, len, c') \<and> cb_inv c'
    \<and> cb_contents c' = rest \<and> cb_cap c' = cb_cap c"
proof -
  have "cyclic_buf_count c \<ge> len"
  proof -
    from assms(1) obtain d where d: "c = Some d" by (rule cb_invE)
    then show ?thesis
      using assms count_nat [of d] length_cb_contents [of d] by (simp add: word_le_nat_alt)
  qed
  moreover obtain c' where "cyclic_buf_read c len = (Some f, c')" "cb_inv c'"
      "cb_contents c' = rest" "cb_cap c' = cb_cap c"
    using cb.deq_enough [OF assms(1), of len] assms by auto
  ultimately show ?thesis by (auto simp: uart_cmd_rx_handle_done_def Let_def not_less)
qed

lemma sys_inv_step:
  assumes "shell_step y z" and "sys_inv pend y"
  shows "\<exists>pend'. sys_inv pend' z"
  using assms
proof cases
  case (rx ch)
  then show ?thesis using assms(2) sys_inv_rx by blast
next
  case (take m q)
  then have "sys_inv pend z"
    using assms(2) by (auto simp: sys_inv_def held_def shell_inv_def)
  then show ?thesis ..
next
  case (read m r len cyc)
  then obtain f fs where p: "pend = f # fs" "unat (msg_len m) = length f"
      "map length fs = map (\<lambda>m. unat (msg_len m)) (cmd_queue (sys_shell y))"
    using assms(2) by (auto simp: sys_inv_def held_def map_eq_Cons_conv)
  obtain c' where "uart_cmd_rx_handle_done (uart_cyc_buf (sys_shell y)) True (msg_len m)
      = (Some f, msg_len m, c')" "cb_inv c'" "cb_contents c' = concat fs"
      "cb_cap c' = cb_cap (uart_cyc_buf (sys_shell y))"
    using handle_done_frame [of "uart_cyc_buf (sys_shell y)" f "concat fs" "msg_len m"]
      assms(2) p by (auto simp: sys_inv_def)
  then have "sys_inv fs z"
    using assms(2) p read by (auto simp: sys_inv_def held_def shell_inv_def)
  then show ?thesis ..
qed

definition shell_start :: "shell_sys \<Rightarrow> bool" where
  "shell_start y \<longleftrightarrow> (\<exists>s c. uart_cyc_buf s = Some c \<and> sys_shell y = log_uart_rx_init True s \<and> cmd_queue s = [])
     \<and> sys_hand y = None \<and> sys_sent y = [] \<and> sys_got y = []"

lemma shell_start_inv: "shell_start y \<Longrightarrow> sys_inv [] y"
proof -
  assume "shell_start y"
  then obtain s c where s: "uart_cyc_buf s = Some c" "sys_shell y = log_uart_rx_init True s"
      "cmd_queue s = []" "sys_hand y = None" "sys_sent y = []" "sys_got y = []"
    by (auto simp: shell_start_def)
  then show ?thesis
    using cyclic_buf_init_ok [of 512 c]
    by (auto simp: sys_inv_def log_uart_rx_init_def shell_inv_def UART_BUFFER_SIZE_def held_def)
qed

text \<open>
  C15: whatever the interleaving of received characters and CLI task, as long as no line
  exceeds 126 characters, every read of the task returns exactly the next submitted line,
  complete and in order.
\<close>

theorem shell_delivers_lines:
  assumes "shell_start y0" and "shell_step\<^sup>*\<^sup>* y0 y"
  shows "sys_got y = map Some (take (length (sys_got y)) (sys_sent y))"
proof -
  from assms(2) have "\<exists>pend. sys_inv pend y"
    by (induction rule: rtranclp_induct) (use shell_start_inv [OF assms(1)] sys_inv_step in blast)+
  then obtain pend where "sys_got y @ map Some pend = map Some (sys_sent y)"
    by (auto simp: sys_inv_def)
  then have "sys_got y = take (length (sys_got y)) (map Some (sys_sent y))"
    by (metis append_eq_conv_conj)
  then show ?thesis by (simp add: take_map)
qed

text \<open>The concrete run of the witness: the line \<^verbatim>\<open>hi\<close> typed, taken and read back.\<close>

definition typed :: "bytes \<Rightarrow> shell_sys \<Rightarrow> shell_sys" where
  "typed cs y = foldl (\<lambda>y ch. y\<lparr>sys_shell := rx_char ch (sys_shell y),
      sys_sent := sys_sent y @ submitted ch (sys_shell y)\<rparr>) y cs"

definition raw_shell :: shell where
  "raw_shell =
     \<lparr>uart_cyc_buf = Some \<lparr>cb_read_idx = 0, cb_write_idx = 0, cb_len = 0, cb_buf = None\<rparr>,
      uart_buf = [], uart_index = 0, cmd_queue = [], sh_wake_lock = 0, sh_echo = []\<rparr>"

definition boot :: shell_sys where
  "boot = \<lparr>sys_shell = log_uart_rx_init True raw_shell, sys_hand = None, sys_sent = [],
     sys_got = []\<rparr>"

lemma boot_start: "shell_start boot"
  unfolding shell_start_def boot_def
  by (intro conjI exI [of _ raw_shell] exI [of _ "the (uart_cyc_buf raw_shell)"])
    (simp_all add: raw_shell_def)

lemma typed_steps:
  assumes "\<forall>c\<in>set cs. c \<noteq> 0" and "unat (uart_index (sys_shell y)) + length cs \<le> 127"
  shows "shell_step\<^sup>*\<^sup>* y (typed cs y)"
  using assms
proof (induction cs arbitrary: y)
  case Nil
  then show ?case by (simp add: typed_def)
next
  case (Cons c cs)
  let ?z = "y\<lparr>sys_shell := rx_char c (sys_shell y), sys_sent := sys_sent y @ submitted c (sys_shell y)\<rparr>"
  have "shell_step y ?z"
    using Cons.prems by (intro shell_step.rx) auto
  moreover have "unat (uart_index (sys_shell ?z)) \<le> unat (uart_index (sys_shell y)) + 1"
    using Cons.prems index_next [of "uart_index (sys_shell y)"]
    by (auto simp: rx_char_def Let_def indicate_fields unat_sub word_le_nat_alt word_less_nat_alt)
  then have "shell_step\<^sup>*\<^sup>* ?z (typed cs ?z)"
    using Cons.prems by (intro Cons.IH) auto
  ultimately show ?case
    by (simp add: typed_def converse_rtranclp_into_rtranclp)
qed

definition typed_hi :: shell_sys where
  "typed_hi = typed [104, 105, 13] boot"

lemma typed_hi_sent: "sys_sent typed_hi = [[104, 105, 0]]"
  by code_simp

lemma typed_hi_queue: "length (cmd_queue (sys_shell typed_hi)) = 1"
  by code_simp

lemma typed_hi_idle: "sys_hand typed_hi = None" "sys_got typed_hi = []"
  by code_simp+

theorem shell_delivers_lines_witness:
  "\<exists>y. shell_step\<^sup>*\<^sup>* boot y \<and> sys_got y = [Some [104, 105, 0]]"
proof -
  let ?s = "sys_shell typed_hi"
  obtain m where m: "cmd_queue ?s = [m]"
    using typed_hi_queue by (auto simp: length_Suc_conv)
  obtain r len cyc where rd: "uart_cmd_rx_handle_done (uart_cyc_buf ?s) True (msg_len m) = (r, len, cyc)"
    by (metis prod_cases3)
  let ?y1 = "typed_hi\<lparr>sys_shell := ?s\<lparr>cmd_queue := []\<rparr>, sys_hand := Some m\<rparr>"
  let ?y2 = "?y1\<lparr>sys_shell := (sys_shell ?y1)\<lparr>uart_cyc_buf := cyc\<rparr>, sys_hand := None,
    sys_got := sys_got ?y1 @ [r]\<rparr>"
  have "shell_step\<^sup>*\<^sup>* boot typed_hi"
    unfolding typed_hi_def by (rule typed_steps) (simp_all add: boot_def log_uart_rx_init_def)
  moreover have "shell_step typed_hi ?y1"
    using shell_step.take [of typed_hi m "[]"] m by (simp add: typed_hi_idle)
  moreover have "shell_step ?y1 ?y2"
    using shell_step.read [of ?y1 m r len cyc] rd by simp
  ultimately have run: "shell_step\<^sup>*\<^sup>* boot ?y2"
    by (meson rtranclp.rtrancl_into_rtrancl)
  have "sys_got ?y2 = [Some [104, 105, 0]]"
    using shell_delivers_lines [OF boot_start run] by (simp add: typed_hi_idle typed_hi_sent)
  with run show ?thesis by blast
qed

text \<open>
  The receive interrupt never leaves the line buffer: from any state with the index
  inside, any burst of characters keeps the index below the buffer size and the buffer at its
  length, whatever its content and length.
\<close>

theorem log_uart_rx_irq_in_bounds:
  assumes "shell_inv s"
  shows "shell_inv (snd (log_uart_rx_irq_hdl rx s))"
  using assms by (induction rx s rule: log_uart_rx_irq_hdl.induct) (auto intro: rx_char_inv)

theorem log_uart_rx_irq_in_bounds_witness:
  "shell_inv (snd (log_uart_rx_irq_hdl (replicate 300 65) (log_uart_rx_init True raw_shell)))"
  by (rule log_uart_rx_irq_in_bounds)
    (simp add: shell_inv_def log_uart_rx_init_def UART_BUFFER_SIZE_def)

section \<open>Splitting the parameters\<close>

text \<open>
  The specification: a parameter runs to the next space, or to the closing quote when it
  starts with one; the spaces behind it are skipped.
\<close>

definition next_param :: "bytes \<Rightarrow> bytes \<times> bytes option" where
  "next_param s =
     (let quoted = s \<noteq> [] \<and> (hd s = 34 \<or> hd s = 39);
          sep = (if quoted then hd s else 32);
          t = (if quoted then tl s else s);
          r = dropWhile (\<lambda>x. x = 32) (tl (dropWhile (\<lambda>x. x \<noteq> sep) t))
      in (takeWhile (\<lambda>x. x \<noteq> sep) t, if r = [] then None else Some r))"

fun split_params :: "nat \<Rightarrow> bytes option \<Rightarrow> bytes list" where
  "split_params 0 s = []"
| "split_params (Suc n) None = []"
| "split_params (Suc n) (Some s) = fst (next_param s) # split_params n (snd (next_param s))"

lemma length_split_params: "length (split_params n s) \<le> n"
  by (induction n s rule: split_params.induct) auto

lemma strchr_scan_eq:
  "0 \<notin> set s \<Longrightarrow> c \<noteq> 0 \<Longrightarrow> strchr_scan c (s @ 0 # t) =
     Some (if c \<in> set s then Some (length (takeWhile (\<lambda>x. x \<noteq> c) s)) else None)"
  by (induction s) auto

lemma space_run_eq: "space_run (s @ 0 # t) = Some (length (takeWhile (\<lambda>x. x = 32) s))"
  by (induction s) auto

lemma cstr_eq: "length pre = p \<Longrightarrow> 0 \<notin> set s \<Longrightarrow> cstr (pre @ s @ 0 # t) p = s"
  by (auto simp: cstr_def takeWhile_append)

lemma string_at:
  assumes "0 \<in> set (drop p b)"
  obtains pre t where "b = pre @ cstr b p @ 0 # t" "length pre = p" "0 \<notin> set (cstr b p)"
proof -
  have "p \<le> length b" using assms by (cases "p \<le> length b") auto
  have "dropWhile (\<lambda>x. x \<noteq> 0) (drop p b) \<noteq> []"
    using assms by (metis (mono_tags, lifting) dropWhile_eq_Nil_conv)
  then obtain x t where x: "dropWhile (\<lambda>x. x \<noteq> 0) (drop p b) = x # t"
    by (cases "dropWhile (\<lambda>x. x \<noteq> 0) (drop p b)") auto
  then have "x = 0" using hd_dropWhile [of "\<lambda>x. x \<noteq> 0" "drop p b"] by auto
  then have "b = take p b @ cstr b p @ 0 # t"
    using x by (metis append_take_drop_id cstr_def takeWhile_dropWhile_id)
  moreover have "0 \<notin> set (cstr b p)"
    by (auto simp: cstr_def dest: set_takeWhileD)
  ultimately show ?thesis
    using that [of "take p b" t] \<open>p \<le> length b\<close> by simp
qed

text \<open>
  One call of \<open>get_next_param\<close> on a terminated string: no access outside the buffer, the
  parameter is the one of the specification, everything in front of the string is untouched
  and the rest of the string starts behind the terminator of the parameter.
\<close>

definition param_step_ok :: "bytes \<Rightarrow> nat \<Rightarrow> nat \<Rightarrow> nat option \<Rightarrow> bytes \<Rightarrow> bool" where
  "param_step_ok b p a nx b' \<longleftrightarrow>
     length b' = length b \<and> take p b' = take p b \<and> p \<le> a
     \<and> 0 \<in> set (drop a b') \<and> cstr b' a = fst (next_param (cstr b p))
     \<and> (case nx of
          None \<Rightarrow> snd (next_param (cstr b p)) = None
        | Some q \<Rightarrow> snd (next_param (cstr b p)) = Some (cstr b' q) \<and> 0 \<in> set (drop q b')
            \<and> a + length (cstr b' a) < q)"

lemma next_param_found:
  assumes "0 \<notin> set u" "sep \<notin> set u" "0 \<notin> set v" "sep \<noteq> 0"
    and b: "b = pre @ u @ sep # v @ 0 # t" "length pre = ptr"
  shows "\<exists>k. strchr_scan sep (drop ptr b) = Some (Some (length u))
    \<and> b[ptr + length u := 0] = pre @ u @ 0 # v @ 0 # t
    \<and> space_run (drop (ptr + length u + 1) (b[ptr + length u := 0])) = Some k
    \<and> k = length (takeWhile (\<lambda>x. x = 32) v)
    \<and> (b[ptr + length u := 0]) ! (ptr + length u + 1 + k) = hd (dropWhile (\<lambda>x. x = 32) v @ [0])"
proof -
  let ?k = "length (takeWhile (\<lambda>x. x = 32) v)"
  have scan: "strchr_scan sep ((u @ sep # v) @ 0 # t) = Some (Some (length u))"
    using assms(1-4) strchr_scan_eq [of "u @ sep # v" sep t] by (simp add: takeWhile_append)
  have upd: "b[ptr + length u := 0] = pre @ u @ 0 # v @ 0 # t"
    using b by (simp add: list_update_append)
  have "v @ 0 # t = takeWhile (\<lambda>x. x = 32) v @ dropWhile (\<lambda>x. x = 32) v @ 0 # t"
    by (metis append.assoc takeWhile_dropWhile_id)
  then have "(v @ 0 # t) ! ?k = (dropWhile (\<lambda>x. x = 32) v @ 0 # t) ! 0"
    by (metis add.right_neutral nth_append_length_plus)
  moreover have "(d @ 0 # t) ! 0 = hd (d @ [0])" for d :: bytes
    by (cases d) simp_all
  ultimately have at: "(v @ 0 # t) ! ?k = hd (dropWhile (\<lambda>x. x = 32) v @ [0])"
    by (simp only:)
  have "(pre @ u @ 0 # v @ 0 # t) ! (ptr + length u + 1 + ?k) = (v @ 0 # t) ! ?k"
    using b(2) nth_append_length_plus [of "pre @ u @ [0]" "v @ 0 # t" ?k] by (simp add: ac_simps)
  moreover have "space_run (drop (ptr + length u + 1) (pre @ u @ 0 # v @ 0 # t)) = Some ?k"
    using b(2) space_run_eq [of v t] by simp
  moreover have "strchr_scan sep (drop ptr b) = Some (Some (length u))"
    using scan b by simp
  ultimately show ?thesis
    unfolding upd using at by simp
qed

text \<open>
  The two ways a parameter ends, for the text \<open>w\<close> of the parameter list behind an opening
  quote if there is one.
\<close>

lemma get_next_param_ok:
  assumes nul: "0 \<in> set (drop p b)"
  shows "\<exists>a nx b'. get_next_param b (Some p) = Some (Some a, nx, b') \<and> param_step_ok b p a nx b'"
proof -
  obtain pre t where b: "b = pre @ cstr b p @ 0 # t" "length pre = p" and s0: "0 \<notin> set (cstr b p)"
    using nul by (rule string_at)
  define s where "s = cstr b p"
  define quoted where "quoted = (b ! p = 34 \<or> b ! p = 39)"
  define sep where "sep = (if quoted then b ! p else 32)"
  define ptr where "ptr = (if quoted then p + 1 else p)"
  define w where "w = (if quoted then tl s else s)"
  define pre' where "pre' = (if quoted then pre @ [b ! p] else pre)"
  have bp: "b ! p = hd (s @ [0])"
    using b by (cases s) (auto simp: s_def [symmetric] nth_append)
  have q: "quoted \<longleftrightarrow> s \<noteq> [] \<and> (hd s = 34 \<or> hd s = 39)"
    unfolding quoted_def bp by (cases s) auto
  have bs: "pre @ s @ 0 # t = b" using b(1) unfolding s_def by (rule sym)
  have "pre' @ w @ 0 # t = b"
  proof (cases quoted)
    case True
    then have "s = b ! p # tl s" using q bp by auto
    then have "pre' @ w = pre @ s" using True by (auto simp: pre'_def w_def)
    with bs show ?thesis by (metis append.assoc)
  qed (simp add: pre'_def w_def bs)
  moreover have "length pre' = ptr" using b(2) by (simp add: pre'_def ptr_def)
  ultimately have bw: "b = pre' @ w @ 0 # t" "length pre' = ptr" by simp_all
  have w0: "0 \<notin> set w" using s0 by (cases s) (auto simp: w_def s_def [symmetric])
  have sep0: "sep \<noteq> 0" by (auto simp: sep_def quoted_def)
  have np: "next_param s = (takeWhile (\<lambda>x. x \<noteq> sep) w,
      let r = dropWhile (\<lambda>x. x = 32) (tl (dropWhile (\<lambda>x. x \<noteq> sep) w)) in if r = [] then None else Some r)"
  proof -
    have "sep = (if quoted then hd s else 32)" using bp q by (simp add: sep_def)
    then show ?thesis
      unfolding next_param_def Let_def q [symmetric] w_def by (simp only:)
  qed
  have "p < length b" by (subst bs [symmetric]) (simp add: b(2))
  moreover have "p \<le> ptr" by (simp add: ptr_def)
  ultimately have pl: "p < length b" "p \<le> ptr" .
  show ?thesis
  proof (cases "sep \<in> set w")
    case False
    then have "takeWhile (\<lambda>x. x \<noteq> sep) w = w" "dropWhile (\<lambda>x. x \<noteq> sep) w = []"
      by (auto simp: takeWhile_eq_all_conv)
    then have np': "next_param s = (w, None)"
      unfolding np by (simp only: list.sel dropWhile.simps Let_def simp_thms if_True)
    have "cstr b ptr = w" "0 \<in> set (drop ptr b)"
      unfolding bw(1) using cstr_eq [OF bw(2) w0, of t] bw(2) by simp_all
    then have "param_step_ok b p ptr None b"
      using np' pl by (simp add: param_step_ok_def s_def [symmetric])
    moreover have "strchr_scan sep (drop ptr b) = Some None"
      using False bw strchr_scan_eq [OF w0 sep0, of t] by simp
    then have "get_next_param b (Some p) = Some (Some ptr, None, b)"
      using pl by (simp add: get_next_param_def quoted_def [symmetric] sep_def [symmetric]
          ptr_def [symmetric])
    ultimately show ?thesis by blast
  next
    case True
    obtain u v where wv: "w = u @ sep # v" and us: "sep \<notin> set u"
      using split_list_first [OF True] by blast
    have u_def: "takeWhile (\<lambda>x. x \<noteq> sep) w = u"
      unfolding wv using us by (induction u) auto
    have u0: "0 \<notin> set u" "0 \<notin> set v" using w0 wv by auto
    define b' where "b' = pre' @ u @ 0 # v @ 0 # t"
    define r where "r = dropWhile (\<lambda>x. x = 32) v"
    define k where "k = length (takeWhile (\<lambda>x. x = 32) v)"
    define nx where "nx = (if r = [] then None else Some (ptr + length u + 1 + k))"
    have dv: "tl (dropWhile (\<lambda>x. x \<noteq> sep) w) = v"
      using wv us by (simp add: dropWhile_append)
    have "b = pre' @ u @ sep # v @ 0 # t" using bw wv by simp
    note found = next_param_found [OF u0(1) us u0(2) sep0 this bw(2)]
    have f2: "b[ptr + length u := 0] = b'" using found unfolding b'_def by blast
    have f1: "strchr_scan sep (drop ptr b) = Some (Some (length u))" using found by blast
    have f3: "space_run (drop (ptr + length u + 1) b') = Some k"
      and f4: "b' ! (ptr + length u + 1 + k) = hd (r @ [0])"
      using found unfolding f2 k_def r_def by blast+
    have r0: "0 \<notin> set r" using u0(2) unfolding r_def by (meson set_dropWhileD)
    then have rz: "hd (r @ [0]) = 0 \<longleftrightarrow> r = []" by (cases r) auto
    have "get_next_param b (Some p) = Some (Some ptr, nx, b')"
      using pl f1 f2 f3 f4 rz
      by (simp add: get_next_param_def quoted_def [symmetric] sep_def [symmetric]
          ptr_def [symmetric] nx_def Let_def)
    moreover have "param_step_ok b p ptr nx b'"
    proof -
      have len: "length b' = length b" unfolding f2 [symmetric] by simp
      have tk: "take p b' = take p b" unfolding f2 [symmetric] using pl(2) by simp
      have ca: "cstr b' ptr = u" using bw(2) u0 by (simp add: b'_def cstr_eq)
      have vr: "v = takeWhile (\<lambda>x. x = 32) v @ r" by (simp add: r_def)
      have "b' = (pre' @ u @ 0 # takeWhile (\<lambda>x. x = 32) v) @ r @ 0 # t"
        unfolding b'_def by (subst vr) simp
      then have cq: "cstr b' (ptr + length u + 1 + k) = r" "0 \<in> set (drop (ptr + length u + 1 + k) b')"
        using bw(2) r0 cstr_eq [of "pre' @ u @ 0 # takeWhile (\<lambda>x. x = 32) v" "ptr + length u + 1 + k" r t]
        by (auto simp: k_def)
      have "0 \<in> set (drop ptr b')" using bw(2) by (simp add: b'_def)
      then show ?thesis
        using len tk ca cq pl np dv
        by (auto simp: param_step_ok_def s_def [symmetric] u_def nx_def r_def [symmetric] Let_def)
    qed
    ultimately show ?thesis by blast
  qed
qed

text \<open>The loop: \<open>argv\<close> holds parameters in front of the current one, all terminated.\<close>

definition args_before :: "bytes \<Rightarrow> nat list \<Rightarrow> nat \<Rightarrow> bool" where
  "args_before b argv p \<longleftrightarrow> (\<forall>a\<in>set argv. a + length (cstr b a) < p)"

lemma cstr_take_cong:
  assumes "take p b' = take p b" and "a + length (cstr b a) < p" and "0 \<in> set (drop a b)"
  shows "cstr b' a = cstr b a"
proof -
  obtain pre t where b: "b = pre @ cstr b a @ 0 # t" "length pre = a" "0 \<notin> set (cstr b a)"
    using assms(3) by (rule string_at)
  let ?n = "a + length (cstr b a) + 1"
  have "take ?n b' = take ?n b"
    using assms(1,2) by (metis Suc_eq_plus1 Suc_leI min.absorb1 take_take)
  also have "\<dots> = take ?n (pre @ cstr b a @ 0 # t)"
    using b(1) by (rule arg_cong)
  also have "\<dots> = pre @ cstr b a @ [0]"
    using b(2) by simp
  finally have "b' = (pre @ cstr b a @ [0]) @ drop ?n b'"
    by (metis append_take_drop_id)
  then have "b' = pre @ cstr b a @ 0 # drop ?n b'" by simp
  then show ?thesis
    using cstr_eq [OF b(2,3)] by (metis)
qed

lemma parse_loop_ok:
  assumes "0 \<in> set (drop a b)" and "buf = None \<or> (\<exists>q. buf = Some q \<and> 0 \<in> set (drop q b) \<and> a + length (cstr b a) < q)"
    and "\<forall>x\<in>set argv. x + length (cstr b x) < a \<and> 0 \<in> set (drop x b)" and "length argv \<le> MAX_ARGC"
  shows "\<exists>av b'. parse_loop b argv (Some a) buf = Some (av, b') \<and> length b' = length b
    \<and> length av \<le> MAX_ARGC
    \<and> map (cstr b') av = map (cstr b) argv @ take (MAX_ARGC - length argv)
        (cstr b a # split_params (MAX_ARGC - length argv - 1) (map_option (cstr b) buf))"
  using assms
proof (induction "MAX_ARGC - length argv" arbitrary: b argv a buf)
  case 0
  then show ?case by (simp add: parse_loop.simps [of b argv "Some a"])
next
  case (Suc n)
  have lt: "length argv < MAX_ARGC" using Suc.hyps(2) by linarith
  have n: "MAX_ARGC - length (argv @ [a]) = n" "MAX_ARGC - length argv = Suc n"
    using Suc.hyps(2) by simp_all
  show ?case
  proof (cases buf)
    case None
    then show ?thesis
      using lt n by (cases n) (simp_all add: parse_loop.simps [of b argv "Some a"] get_next_param_def
        parse_loop.simps [of b "argv @ [a]" None])
  next
    case (Some q)
    then have q: "0 \<in> set (drop q b)" "a + length (cstr b a) < q" using Suc.prems(2) by auto
    obtain a' nx b' where g: "get_next_param b (Some q) = Some (Some a', nx, b')"
      and ok: "param_step_ok b q a' nx b'"
      using get_next_param_ok [OF q(1)] by blast
    have tk: "take q b' = take q b" and qa: "q \<le> a'" using ok by (auto simp: param_step_ok_def)
    have old: "cstr b' x = cstr b x \<and> x + length (cstr b' x) < a' \<and> 0 \<in> set (drop x b')"
      if "x \<in> set (argv @ [a])" for x
    proof -
      have x: "x + length (cstr b x) < q" "0 \<in> set (drop x b)"
        using that Suc.prems q by auto
      then have eq: "cstr b' x = cstr b x" using cstr_take_cong [OF tk] by blast
      obtain pre t where bb: "b = pre @ cstr b x @ 0 # t" "length pre = x"
        using x(2) by (rule string_at)
      have "b ! (x + length (cstr b x)) = 0"
        by (subst bb(1)) (simp add: nth_append bb(2))
      moreover have "b' ! (x + length (cstr b x)) = b ! (x + length (cstr b x))"
        using x(1) tk by (metis nth_take)
      moreover have "q \<le> length b'"
        using q(1) ok by (cases "q \<le> length b") (auto simp: param_step_ok_def)
      ultimately have "0 \<in> set (drop x b')"
        using x(1) nth_mem [of "length (cstr b x)" "drop x b'"] by simp
      then show ?thesis using eq x qa by simp
    qed
    have pre: "nx = None \<or> (\<exists>q. nx = Some q \<and> 0 \<in> set (drop q b') \<and> a' + length (cstr b' a') < q)"
      "0 \<in> set (drop a' b')"
      using ok by (auto simp: param_step_ok_def split: option.splits)
    have p3: "\<forall>x\<in>set (argv @ [a]). x + length (cstr b' x) < a' \<and> 0 \<in> set (drop x b')"
      using old by blast
    have p4: "length (argv @ [a]) \<le> MAX_ARGC" using lt by simp
    obtain av b2 where r: "parse_loop b' (argv @ [a]) (Some a') nx = Some (av, b2)"
      "length b2 = length b'" "length av \<le> MAX_ARGC"
      "map (cstr b2) av = map (cstr b') (argv @ [a]) @ take n
        (cstr b' a' # split_params (n - 1) (map_option (cstr b') nx))"
      using Suc.hyps(1) [OF n(1) [symmetric] pre(2,1) p3 p4] unfolding n(1) by blast
    have np: "cstr b' a' = fst (next_param (cstr b q))"
      "map_option (cstr b') nx = snd (next_param (cstr b q))"
      using ok by (auto simp: param_step_ok_def split: option.splits)
    have "take n (cstr b' a' # split_params (n - 1) (map_option (cstr b') nx)) =
      split_params n (Some (cstr b q))"
      by (cases n) (auto simp: np take_all length_split_params)
    then show ?thesis
      using r lt g old n Some ok
      by (simp add: parse_loop.simps [of b argv "Some a"] param_step_ok_def take_all length_split_params)
  qed
qed

text \<open>
  \<open>parse_cmd\<close> on any NUL-terminated parameter text stays inside the buffer, ends, and
  leaves at most \<open>MAX_ARGC\<close> pointers, which point at exactly the parameters of the text:
  split at spaces, or at the closing quote for a parameter that starts with a quote.
\<close>

theorem parse_cmd_correct:
  assumes "0 \<in> set (drop p b)"
  shows "\<exists>argv b'. parse_cmd b (Some p) = Some (argv, b') \<and> length b' = length b
    \<and> length argv \<le> MAX_ARGC \<and> map (cstr b') argv = split_params MAX_ARGC (Some (cstr b p))"
proof -
  obtain a nx b1 where g: "get_next_param b (Some p) = Some (Some a, nx, b1)"
    and ok: "param_step_ok b p a nx b1"
    using get_next_param_ok [OF assms] by blast
  have pre: "0 \<in> set (drop a b1)"
    "nx = None \<or> (\<exists>q. nx = Some q \<and> 0 \<in> set (drop q b1) \<and> a + length (cstr b1 a) < q)"
    and np: "cstr b1 a = fst (next_param (cstr b p))"
      "map_option (cstr b1) nx = snd (next_param (cstr b p))"
    using ok by (auto simp: param_step_ok_def split: option.splits)
  obtain av b' where r: "parse_loop b1 [] (Some a) nx = Some (av, b')" "length b' = length b1"
      "length av \<le> MAX_ARGC"
      "map (cstr b') av = take MAX_ARGC (cstr b1 a # split_params (MAX_ARGC - 1) (map_option (cstr b1) nx))"
    using parse_loop_ok [OF pre, of "[]"] by auto
  obtain n where n: "MAX_ARGC = Suc n" by (simp add: MAX_ARGC_def)
  have "take MAX_ARGC (cstr b1 a # split_params (MAX_ARGC - 1) (map_option (cstr b1) nx)) =
      split_params MAX_ARGC (Some (cstr b p))"
    unfolding n by (simp add: np length_split_params)
  with r g ok show ?thesis
    by (simp add: parse_cmd_def param_step_ok_def)
qed

text \<open>The text \<^verbatim>\<open>a "b c" d\<close> as the concrete input.\<close>

theorem parse_cmd_correct_witness:
  "\<exists>argv b'. parse_cmd [97, 32, 34, 98, 32, 99, 34, 32, 100, 0] (Some 0) = Some (argv, b')
     \<and> map (cstr b') argv = [[97], [98, 32, 99], [100]]"
proof -
  let ?b = "[97, 32, 34, 98, 32, 99, 34, 32, 100, 0] :: bytes"
  have "split_params MAX_ARGC (Some (cstr ?b 0)) = [[97], [98, 32, 99], [100]]"
    by code_simp
  with parse_cmd_correct [of 0 ?b] show ?thesis by auto
qed

text \<open>
  C40: a command with sixteen parameters overruns the argument vector of
  \<open>cmn_cmd_exec\<close>: \<open>parse_cmd\<close> may store \<open>MAX_ARGC\<close> pointers, but the array has
  only \<open>MAX_ARGC - 1\<close> slots behind the command name.
\<close>

definition long_command :: bytes where
  "long_command = 97 # concat (replicate 16 [32, 98]) @ [0]"


end
