(* ===== verification/Slist.thy ===== *)
theory Slist
  imports Prelude
begin

text \<open>
  The intrusive singly linked list of \<^verbatim>\<open>MSDK/util/src/slist.c\<close>. The heap is the
  \<^verbatim>\<open>next\<close> member of every list header, a map from addresses to addresses; address 0 is
  the null pointer, and the element arguments are not null, as the code requires. A scan
  along the \<^verbatim>\<open>next\<close> pointers need not end on an arbitrary heap, so the loops are
  \<open>partial_function\<close>s: \<open>None\<close> is a scan that runs forever. \<open>list_rep\<close> relates a
  list header to the addresses on it; each operation is shown to end and to do to that
  sequence what its name says. As in the code, \<^verbatim>\<open>last\<close> is meaningless while the list is
  empty.
\<close>

section \<open>Model\<close>

type_synonym addr = nat
type_synonym next_heap = "addr \<Rightarrow> addr"

record slist =
  sl_first :: addr
  sl_last :: addr

definition list_init :: "slist \<Rightarrow> slist" where
  "list_init l = l\<lparr>sl_first := 0, sl_last := 0\<rparr>"

definition list_is_empty :: "slist \<Rightarrow> bool" where
  "list_is_empty l \<longleftrightarrow> sl_first l = 0"

definition list_push_back :: "slist \<Rightarrow> addr \<Rightarrow> next_heap \<Rightarrow> slist \<times> next_heap" where
  "list_push_back l e h =
     (let (l1, h1) = (if list_is_empty l then (l\<lparr>sl_first := e\<rparr>, h) else (l, h(sl_last l := e)))
      in (l1\<lparr>sl_last := e\<rparr>, h1(e := 0)))"

definition list_push_front :: "slist \<Rightarrow> addr \<Rightarrow> next_heap \<Rightarrow> slist \<times> next_heap" where
  "list_push_front l e h =
     (let l1 = (if list_is_empty l then l\<lparr>sl_last := e\<rparr> else l)
      in (l1\<lparr>sl_first := e\<rparr>, h(e := sl_first l)))"

definition list_pop_front :: "slist \<Rightarrow> next_heap \<Rightarrow> addr \<times> slist" where
  "list_pop_front l h =
     (let e = sl_first l in
      if e \<noteq> 0
      then let l1 = l\<lparr>sl_first := h e\<rparr>
           in (e, if sl_last l1 = e then l1\<lparr>sl_last := 0\<rparr> else l1)
      else (e, l))"

text \<open>Following \<^verbatim>\<open>next\<close> until the null pointer or an address that satisfies \<open>stop\<close>.\<close>

partial_function (option) scan_loop :: "(addr \<Rightarrow> bool) \<Rightarrow> next_heap \<Rightarrow> addr \<Rightarrow> addr option" where
  "scan_loop stop h p = (if p = 0 \<or> stop p then Some p else scan_loop stop h (h p))"

definition list_extract :: "slist \<Rightarrow> addr \<Rightarrow> next_heap \<Rightarrow> (slist \<times> next_heap) option" where
  "list_extract l e h =
     (if sl_first l = 0 then Some (l, h)
      else if sl_first l = e
      then let l1 = l\<lparr>sl_first := h e\<rparr>
           in Some (if sl_last l1 = e then l1\<lparr>sl_last := 0\<rparr> else l1, h)
      else map_option (\<lambda>s.
             if h s \<noteq> 0
             then (if sl_last l = e then l\<lparr>sl_last := s\<rparr> else l, h(s := h e))
             else (l, h))
           (scan_loop (\<lambda>p. h p = 0 \<or> h p = e) h (sl_first l)))"

definition list_find :: "slist \<Rightarrow> addr \<Rightarrow> next_heap \<Rightarrow> bool option" where
  "list_find l e h = map_option (\<lambda>p. p = e) (scan_loop (\<lambda>p. p = e) h (sl_first l))"

partial_function (option) cnt_loop :: "next_heap \<Rightarrow> addr \<Rightarrow> u32 \<Rightarrow> u32 option" where
  "cnt_loop h p cnt = (if p = 0 then Some cnt else cnt_loop h (h p) (cnt + 1))"

definition list_cnt :: "slist \<Rightarrow> next_heap \<Rightarrow> u32 option" where
  "list_cnt l h = cnt_loop h (sl_first l) 0"

partial_function (option) insert_loop ::
    "(addr \<Rightarrow> addr \<Rightarrow> bool) \<Rightarrow> addr \<Rightarrow> next_heap \<Rightarrow> addr \<Rightarrow> addr \<Rightarrow> (addr \<times> addr) option" where
  "insert_loop cmp e h prev scan =
     (if scan = 0 \<or> cmp e scan then Some (prev, scan) else insert_loop cmp e h scan (h scan))"

definition list_insert ::
    "(addr \<Rightarrow> addr \<Rightarrow> bool) \<Rightarrow> slist \<Rightarrow> addr \<Rightarrow> next_heap \<Rightarrow> (slist \<times> next_heap) option" where
  "list_insert cmp l e h =
     map_option (\<lambda>(prev, scan).
         let l1 = (if scan = 0 then l\<lparr>sl_last := e\<rparr> else l);
             h1 = h(e := scan)
         in if prev \<noteq> 0 then (l1, h1(prev := e)) else (l1\<lparr>sl_first := e\<rparr>, h1))
       (insert_loop cmp e h 0 (sl_first l))"

definition list_insert_after_fast :: "slist \<Rightarrow> addr \<Rightarrow> addr \<Rightarrow> next_heap \<Rightarrow> slist \<times> next_heap" where
  "list_insert_after_fast l prev e h =
     (if prev = 0 then list_push_front l e h
      else (if sl_last l = prev then l\<lparr>sl_last := e\<rparr> else l, h(e := h prev, prev := e)))"

definition list_insert_after ::
    "slist \<Rightarrow> addr \<Rightarrow> addr \<Rightarrow> next_heap \<Rightarrow> (slist \<times> next_heap) option" where
  "list_insert_after l prev e h =
     (if prev = 0 then Some (list_push_front l e h)
      else map_option (\<lambda>scan.
             if scan \<noteq> 0
             then (if sl_last l = prev then l\<lparr>sl_last := e\<rparr> else l, h(e := h prev, prev := e))
             else (l, h))
           (scan_loop (\<lambda>p. p = prev) h (sl_first l)))"

definition list_insert_before ::
    "slist \<Rightarrow> addr \<Rightarrow> addr \<Rightarrow> next_heap \<Rightarrow> (slist \<times> next_heap) option" where
  "list_insert_before l nxt e h =
     (if nxt = 0 then Some (list_push_back l e h)
      else if nxt = sl_first l then Some (list_push_front l e h)
      else map_option (\<lambda>scan. if scan \<noteq> 0 then (l, h(e := nxt, scan := e)) else (l, h))
           (scan_loop (\<lambda>p. h p = nxt) h (sl_first l)))"

definition list_concat :: "slist \<Rightarrow> slist \<Rightarrow> next_heap \<Rightarrow> slist \<times> slist \<times> next_heap" where
  "list_concat l1 l2 h =
     (if sl_first l2 \<noteq> 0
      then let (l1', h') = (if sl_first l1 = 0 then (l2, h)
                            else (l1\<lparr>sl_last := sl_last l2\<rparr>, h(sl_last l1 := sl_first l2)))
           in (l1', l2\<lparr>sl_first := 0\<rparr>, h')
      else (l1, l2, h))"

definition list_remove :: "slist \<Rightarrow> addr \<Rightarrow> addr \<Rightarrow> next_heap \<Rightarrow> slist \<times> next_heap" where
  "list_remove l prev e h =
     (let (l1, h1) = (if prev = 0 then (l\<lparr>sl_first := h e\<rparr>, h) else (l, h(prev := h e)));
          l2 = (if sl_last l1 = e then l1\<lparr>sl_last := prev\<rparr> else l1)
      in (l2, h1(e := 0)))"

text \<open>
  The pool holds \<open>cnt\<close> elements of \<open>sz\<close> bytes at \<open>pool\<close>; the copy of the default
  value into the element does not touch the list header links.
\<close>

primrec pool_loop :: "nat \<Rightarrow> addr \<Rightarrow> nat \<Rightarrow> slist \<times> next_heap \<Rightarrow> slist \<times> next_heap" where
  "pool_loop 0 pool sz lh = lh"
| "pool_loop (Suc n) pool sz lh = pool_loop n (pool + sz) sz (list_push_back (fst lh) pool (snd lh))"

definition list_pool_init :: "slist \<Rightarrow> addr \<Rightarrow> nat \<Rightarrow> nat \<Rightarrow> next_heap \<Rightarrow> slist \<times> next_heap" where
  "list_pool_init l pool sz cnt h = pool_loop cnt pool sz (list_init l, h)"

section \<open>Representation\<close>

fun chain :: "next_heap \<Rightarrow> addr \<Rightarrow> addr list \<Rightarrow> addr \<Rightarrow> bool" where
  "chain h p [] q \<longleftrightarrow> p = q"
| "chain h p (x # xs) q \<longleftrightarrow> p = x \<and> x \<noteq> 0 \<and> chain h (h x) xs q"

definition list_rep :: "next_heap \<Rightarrow> slist \<Rightarrow> addr list \<Rightarrow> bool" where
  "list_rep h l xs \<longleftrightarrow> chain h (sl_first l) xs 0 \<and> distinct xs \<and> (xs \<noteq> [] \<longrightarrow> sl_last l = last xs)"

lemma chain_append [simp]: "chain h p (xs @ ys) q \<longleftrightarrow> (\<exists>r. chain h p xs r \<and> chain h r ys q)"
  by (induction xs arbitrary: p) auto

lemma chain_upd [simp]: "a \<notin> set xs \<Longrightarrow> chain (h(a := v)) p xs q \<longleftrightarrow> chain h p xs q"
  by (induction xs arbitrary: p) auto

lemma chain_nonzero: "chain h p xs q \<Longrightarrow> 0 \<notin> set xs"
  by (induction xs arbitrary: p) auto

lemma chain_hd: "chain h p xs q \<Longrightarrow> p = (case xs of [] \<Rightarrow> q | x # _ \<Rightarrow> x)"
  by (cases xs) auto

lemma rep_first: "list_rep h l xs \<Longrightarrow> sl_first l = (case xs of [] \<Rightarrow> 0 | x # _ \<Rightarrow> x)"
  by (auto simp: list_rep_def dest: chain_hd)

lemma rep_empty_iff: "list_rep h l xs \<Longrightarrow> sl_first l = 0 \<longleftrightarrow> xs = []"
  by (cases xs) (auto simp: list_rep_def)

lemma scan_loop_chain:
  "chain h p xs 0 \<Longrightarrow>
     scan_loop stop h p = Some (case dropWhile (\<lambda>x. \<not> stop x) xs of [] \<Rightarrow> 0 | x # _ \<Rightarrow> x)"
proof (induction xs arbitrary: p)
  case Nil
  then show ?case by (simp add: scan_loop.simps)
next
  case (Cons x xs)
  then show ?case by (auto simp: scan_loop.simps [of stop h x])
qed

section \<open>Refinement of each operation\<close>

lemma list_init_refines: "list_rep h (list_init l) []"
  by (simp add: list_init_def list_rep_def)

lemma list_push_back_refines:
  assumes "list_rep h l xs" and "e \<noteq> 0" "e \<notin> set xs"
  shows "list_rep (snd (list_push_back l e h)) (fst (list_push_back l e h)) (xs @ [e])"
proof (cases "xs = []")
  case True
  then show ?thesis
    using assms by (auto simp: list_rep_def list_push_back_def list_is_empty_def)
next
  case False
  then obtain ys y where xs: "xs = ys @ [y]" by (metis rev_exhaust)
  have "sl_last l = y" "sl_first l \<noteq> 0"
    using assms(1) xs rep_empty_iff [OF assms(1)] by (auto simp: list_rep_def)
  then show ?thesis
    using assms xs by (auto simp: list_rep_def list_push_back_def list_is_empty_def)
qed

lemma list_push_front_refines:
  assumes "list_rep h l xs" and "e \<noteq> 0" "e \<notin> set xs"
  shows "list_rep (snd (list_push_front l e h)) (fst (list_push_front l e h)) (e # xs)"
  using assms rep_empty_iff [OF assms(1)]
  by (auto simp: list_rep_def list_push_front_def list_is_empty_def Let_def)

lemma list_pop_front_refines:
  assumes "list_rep h l xs"
  shows "fst (list_pop_front l h) = (case xs of [] \<Rightarrow> 0 | x # _ \<Rightarrow> x)"
    and "list_rep h (snd (list_pop_front l h)) (tl xs)"
proof -
  show "fst (list_pop_front l h) = (case xs of [] \<Rightarrow> 0 | x # _ \<Rightarrow> x)"
    by (simp add: list_pop_front_def Let_def rep_first [OF assms, symmetric])
  show "list_rep h (snd (list_pop_front l h)) (tl xs)"
  proof (cases xs)
    case Nil
    then show ?thesis using assms by (simp add: list_rep_def list_pop_front_def)
  next
    case (Cons x ys)
    then have "ys \<noteq> [] \<Longrightarrow> last ys \<noteq> x" using assms last_in_set by (force simp: list_rep_def)
    then show ?thesis
      using assms Cons by (cases "ys = []") (simp_all add: list_rep_def list_pop_front_def)
  qed
qed

lemma dropWhile_at: "(\<forall>y\<in>set ys. P y) \<Longrightarrow> \<not> P z \<Longrightarrow> dropWhile P (ys @ z # zs) = z # zs"
  by (induction ys) auto

lemma scan_to_element:
  assumes "chain h p xs 0"
  shows "scan_loop (\<lambda>p. p = e) h p = Some (if e \<in> set xs then e else 0)"
proof (cases "e \<in> set xs")
  case True
  then obtain ys zs where "xs = ys @ e # zs" "e \<notin> set ys" using split_list_first by metis
  then have "dropWhile (\<lambda>x. x \<noteq> e) xs = e # zs" by (auto intro: dropWhile_at)
  then show ?thesis using scan_loop_chain [OF assms, of "\<lambda>p. p = e"] True by simp
next
  case False
  then have "dropWhile (\<lambda>x. x \<noteq> e) xs = []" by (auto simp: dropWhile_eq_Nil_conv)
  then show ?thesis using False
    by (simp add: scan_loop_chain [OF assms] del: dropWhile_eq_Nil_conv)
qed

lemma list_find_refines:
  assumes "list_rep h l xs" and "e \<noteq> 0"
  shows "list_find l e h = Some (e \<in> set xs)"
  using assms scan_to_element [of h "sl_first l" xs e]
  by (auto simp: list_find_def list_rep_def)

lemma cnt_loop_chain: "chain h p xs 0 \<Longrightarrow> cnt_loop h p c = Some (c + of_nat (length xs))"
proof (induction xs arbitrary: p c)
  case Nil
  then show ?case by (simp add: cnt_loop.simps)
next
  case (Cons x xs)
  then show ?case by (simp add: cnt_loop.simps [of h x] ac_simps)
qed

lemma list_cnt_refines: "list_rep h l xs \<Longrightarrow> list_cnt l h = Some (of_nat (length xs))"
  using cnt_loop_chain [of h "sl_first l" xs 0] by (simp add: list_cnt_def list_rep_def)

lemma list_concat_refines:
  assumes "list_rep h l1 xs" "list_rep h l2 ys" and "set xs \<inter> set ys = {}"
  defines "r \<equiv> list_concat l1 l2 h"
  shows "list_rep (snd (snd r)) (fst r) (xs @ ys)" and "list_rep (snd (snd r)) (fst (snd r)) []"
proof -
  note e = rep_empty_iff [OF assms(1)] rep_empty_iff [OF assms(2)]
  show "list_rep (snd (snd r)) (fst r) (xs @ ys)"
  proof (cases "xs = [] \<or> ys = []")
    case True
    then show ?thesis using assms e by (auto simp: r_def list_concat_def)
  next
    case False
    then obtain zs z where xs: "xs = zs @ [z]" by (metis rev_exhaust)
    have "sl_last l1 = z" using assms(1) xs by (simp add: list_rep_def)
    moreover have "z \<notin> set ys" "z \<notin> set zs" using assms(1,3) xs by (auto simp: list_rep_def)
    ultimately show ?thesis
      using assms e False xs by (auto simp: r_def list_concat_def list_rep_def)
  qed
  show "list_rep (snd (snd r)) (fst (snd r)) []"
    using e by (auto simp: r_def list_concat_def list_rep_def Let_def split_def)
qed

text \<open>The element in front of \<open>e\<close> on a chain is the only one whose \<^verbatim>\<open>next\<close> is \<open>e\<close>.\<close>

lemma scan_to_predecessor:
  assumes ch: "chain h p (ys @ y # e # zs) 0" and d: "distinct (ys @ y # e # zs)"
  shows "scan_loop (\<lambda>p. h p = e) h p = Some y" "scan_loop (\<lambda>p. h p = 0 \<or> h p = e) h p = Some y"
proof -
  have y: "h y = e" "y \<noteq> 0" "e \<noteq> 0" using ch by auto
  have before: "h x \<noteq> e \<and> h x \<noteq> 0" if x: "x \<in> set ys" for x
  proof -
    obtain us vs where ys: "ys = us @ x # vs" using split_list [OF x] by blast
    have "chain h (h x) (vs @ y # e # zs) 0" using ch ys by auto
    then have "h x \<in> set (vs @ [y])" by (cases vs) auto
    moreover have "0 \<notin> set (ys @ [y])" using chain_nonzero [OF ch] by auto
    ultimately show ?thesis using d ys by auto
  qed
  have "y \<notin> set ys" using d by simp
  then show "scan_loop (\<lambda>p. h p = e) h p = Some y"
    and "scan_loop (\<lambda>p. h p = 0 \<or> h p = e) h p = Some y"
    using scan_loop_chain [OF ch] before y by (simp_all add: dropWhile_at)
qed

lemma scan_to_last:
  assumes ch: "chain h p (ys @ [y]) 0" and e: "e \<notin> set (ys @ [y])" "e \<noteq> 0"
  shows "scan_loop (\<lambda>p. h p = 0 \<or> h p = e) h p = Some y"
proof -
  have before: "h x \<noteq> e \<and> h x \<noteq> 0" if x: "x \<in> set ys" for x
  proof -
    obtain us vs where ys: "ys = us @ x # vs" using split_list [OF x] by blast
    have "chain h (h x) (vs @ [y]) 0" using ch ys by auto
    then have "h x \<in> set (ys @ [y])" using ys by (cases vs) auto
    then show ?thesis using e chain_nonzero [OF ch] by metis
  qed
  have "h y = 0" using ch by auto
  then have "dropWhile (\<lambda>x. \<not> (h x = 0 \<or> h x = e)) (ys @ [y]) = [y]"
    using before by (intro dropWhile_at) auto
  then show ?thesis using scan_loop_chain [OF ch, of "\<lambda>p. h p = 0 \<or> h p = e"] by simp
qed

lemma list_extract_refines:
  assumes rep: "list_rep h l xs" and e: "e \<noteq> 0"
  shows "\<exists>l' h'. list_extract l e h = Some (l', h') \<and> list_rep h' l' (remove1 e xs)"
proof (cases "e \<in> set xs")
  case False
  have ch: "chain h (sl_first l) xs 0" using rep by (simp add: list_rep_def)
  show ?thesis
  proof (cases "xs = []")
    case True
    then show ?thesis using rep by (simp add: list_extract_def list_rep_def)
  next
    case ne: False
    then obtain ys y where xs: "xs = ys @ [y]" by (metis rev_exhaust)
    have "scan_loop (\<lambda>p. h p = 0 \<or> h p = e) h (sl_first l) = Some y" "h y = 0"
      using scan_to_last [of h "sl_first l" ys y e] ch xs False e by auto
    moreover have "sl_first l \<noteq> 0" "sl_first l \<noteq> e"
      using rep_first [OF rep] rep_empty_iff [OF rep] ne False by (auto split: list.splits)
    ultimately show ?thesis
      using False rep by (simp add: list_extract_def remove1_idem)
  qed
next
  case True
  obtain ys zs where xs: "xs = ys @ e # zs" using split_list [OF True] by blast
  have d: "distinct xs" using rep by (simp add: list_rep_def)
  show ?thesis
  proof (cases ys rule: rev_cases)
    case Nil
    then have "sl_first l = e" using rep_first [OF rep] xs by simp
    then have "list_extract l e h = Some (snd (list_pop_front l h), h)"
      using e by (simp add: list_extract_def list_pop_front_def Let_def)
    then show ?thesis
      using list_pop_front_refines(2) [OF rep] xs Nil by simp
  next
    case (snoc us y)
    have ch: "chain h (sl_first l) (us @ y # e # zs) 0" using rep xs snoc by (simp add: list_rep_def)
    have sc: "scan_loop (\<lambda>p. h p = 0 \<or> h p = e) h (sl_first l) = Some y"
      using scan_to_predecessor(2) [OF ch] d xs snoc by simp
    have f: "sl_first l \<noteq> 0" "sl_first l \<noteq> e"
      using rep_first [OF rep] rep_empty_iff [OF rep] xs snoc d by (cases us; auto)+
    have "remove1 e xs = us @ y # zs" using xs snoc d by (simp add: remove1_append)
    moreover have "list_rep (h(y := h e)) (if sl_last l = e then l\<lparr>sl_last := y\<rparr> else l) (us @ y # zs)"
      using rep xs snoc d by (cases zs rule: rev_cases) (auto simp: list_rep_def)
    moreover have "h y = e" using ch by auto
    ultimately show ?thesis using sc f e by (simp add: list_extract_def)
  qed
qed

text \<open>
  Every insertion links the element between a front part \<open>ys\<close> and a back part \<open>zs\<close>;
  \<open>hd0\<close> is the address of the first element of the back part.
\<close>

definition hd0 :: "addr list \<Rightarrow> addr" where
  "hd0 xs = (case xs of [] \<Rightarrow> 0 | x # _ \<Rightarrow> x)"

lemma link_in:
  assumes rep: "list_rep h l (ys @ zs)" and e: "e \<noteq> 0" "e \<notin> set (ys @ zs)"
  shows "ys \<noteq> [] \<Longrightarrow> list_rep (h(e := hd0 zs, last ys := e))
      (if zs = [] then l\<lparr>sl_last := e\<rparr> else l) (ys @ e # zs)"
    and "ys = [] \<Longrightarrow> list_rep (h(e := hd0 zs))
      ((if zs = [] then l\<lparr>sl_last := e\<rparr> else l)\<lparr>sl_first := e\<rparr>) (e # zs)"
proof -
  have z: "chain h r zs 0 \<Longrightarrow> r = hd0 zs" for r
    by (simp add: hd0_def chain_hd)
  show "list_rep (h(e := hd0 zs)) ((if zs = [] then l\<lparr>sl_last := e\<rparr> else l)\<lparr>sl_first := e\<rparr>) (e # zs)"
    if "ys = []"
    using rep e that z by (cases "zs = []") (auto simp: list_rep_def hd0_def)
  assume "ys \<noteq> []"
  then obtain us y where ys: "ys = us @ [y]" by (metis rev_exhaust)
  have ch: "chain h (sl_first l) us y" "y \<noteq> 0" "chain h (h y) zs 0"
    using rep ys by (auto simp: list_rep_def)
  have d: "y \<notin> set us" "y \<notin> set zs" "y \<noteq> e" "distinct (ys @ e # zs)"
    using rep ys e by (auto simp: list_rep_def)
  have "chain (h(e := hd0 zs, y := e)) (sl_first l) (us @ y # e # zs) 0"
    using ch d e ys z [OF ch(3)] by auto
  moreover have "sl_last (if zs = [] then l\<lparr>sl_last := e\<rparr> else l) = last (ys @ e # zs)"
    using rep ys by (auto simp: list_rep_def)
  ultimately show "list_rep (h(e := hd0 zs, last ys := e))
      (if zs = [] then l\<lparr>sl_last := e\<rparr> else l) (ys @ e # zs)"
    using d(4) ys by (simp add: list_rep_def)
qed

lemma insert_before_split:
  "insert_before cmp e xs = takeWhile (\<lambda>x. \<not> cmp e x) xs @ e # dropWhile (\<lambda>x. \<not> cmp e x) xs"
  by (induction xs) auto

lemma insert_loop_chain:
  "chain h p xs 0 \<Longrightarrow> insert_loop cmp e h prev p =
     Some (last (prev # takeWhile (\<lambda>x. \<not> cmp e x) xs), hd0 (dropWhile (\<lambda>x. \<not> cmp e x) xs))"
proof (induction xs arbitrary: p prev)
  case Nil
  then show ?case by (simp add: insert_loop.simps hd0_def)
next
  case (Cons x xs)
  then show ?case by (auto simp: insert_loop.simps [of cmp e h prev] hd0_def)
qed

lemma hd0_zero: "0 \<notin> set zs \<Longrightarrow> hd0 zs = 0 \<longleftrightarrow> zs = []"
  by (auto simp: hd0_def split: list.splits)

lemma list_insert_refines:
  assumes rep: "list_rep h l xs" and e: "e \<noteq> 0" "e \<notin> set xs"
  shows "\<exists>l' h'. list_insert cmp l e h = Some (l', h') \<and> list_rep h' l' (insert_before cmp e xs)"
proof -
  define ys zs where "ys = takeWhile (\<lambda>x. \<not> cmp e x) xs" and "zs = dropWhile (\<lambda>x. \<not> cmp e x) xs"
  have xs: "xs = ys @ zs" by (simp add: ys_def zs_def)
  have ch: "chain h (sl_first l) xs 0" using rep by (simp add: list_rep_def)
  have z0: "0 \<notin> set xs" using ch by (rule chain_nonzero)
  have lp: "insert_loop cmp e h 0 (sl_first l) = Some (last (0 # ys), hd0 zs)"
    using insert_loop_chain [OF ch] by (simp add: ys_def zs_def)
  have "hd0 zs = 0 \<longleftrightarrow> zs = []" using z0 xs by (intro hd0_zero) auto
  moreover have "last (0 # ys) = 0 \<longleftrightarrow> ys = []"
    using z0 xs by (cases ys rule: rev_cases) auto
  moreover have "\<exists>l' h'. list_insert cmp l e h = Some (l', h') \<and> list_rep h' l' (ys @ e # zs)"
    if "hd0 zs = 0 \<longleftrightarrow> zs = []" "last (0 # ys) = 0 \<longleftrightarrow> ys = []"
    using link_in [of h l ys zs e] rep e xs that lp
    by (cases "ys = []") (auto simp: list_insert_def Let_def)
  ultimately show ?thesis by (simp add: insert_before_split ys_def zs_def)
qed

lemma list_insert_after_fast_refines:
  assumes rep: "list_rep h l (ys @ p # zs)" and e: "e \<noteq> 0" "e \<notin> set (ys @ p # zs)"
  shows "list_rep (snd (list_insert_after_fast l p e h)) (fst (list_insert_after_fast l p e h))
    (ys @ p # e # zs)"
proof -
  have "p \<noteq> 0" "h p = hd0 zs" using rep by (auto simp: list_rep_def hd0_def dest: chain_hd)
  moreover have "sl_last l = p \<longleftrightarrow> zs = []"
    using rep last_in_set [of zs] by (cases "zs = []") (auto simp: list_rep_def)
  ultimately show ?thesis
    using link_in(1) [of h l "ys @ [p]" zs e] rep e by (simp add: list_insert_after_fast_def)
qed

lemma list_insert_after_refines:
  assumes rep: "list_rep h l xs" and p: "p \<noteq> 0"
  shows "list_insert_after l p e h =
    Some (if p \<in> set xs then list_insert_after_fast l p e h else (l, h))"
proof -
  have "chain h (sl_first l) xs 0" using rep by (simp add: list_rep_def)
  from scan_to_element [OF this, of p] show ?thesis
    using p by (simp add: list_insert_after_def list_insert_after_fast_def)
qed

lemma list_insert_before_refines:
  assumes rep: "list_rep h l (ys @ n # zs)" and e: "e \<noteq> 0" "e \<notin> set (ys @ n # zs)"
  shows "\<exists>l' h'. list_insert_before l n e h = Some (l', h') \<and> list_rep h' l' (ys @ e # n # zs)"
proof (cases ys rule: rev_cases)
  case Nil
  then have "list_insert_before l n e h = Some (list_push_front l e h)"
    using rep rep_first [OF rep] by (auto simp: list_insert_before_def list_rep_def)
  then show ?thesis
    using list_push_front_refines [OF rep e] Nil by (metis append_Nil prod.collapse)
next
  case (snoc us y)
  have ch: "chain h (sl_first l) (us @ y # n # zs) 0" and d: "distinct (us @ y # n # zs)"
    using rep snoc by (simp_all add: list_rep_def)
  have "n \<noteq> 0" "n \<noteq> sl_first l" "y \<noteq> 0"
    using ch d rep_first [OF rep] snoc by (cases us; auto)+
  then have "list_insert_before l n e h = Some (l, h(e := n, y := e))"
    using scan_to_predecessor(1) [OF ch d] by (simp add: list_insert_before_def)
  then show ?thesis
    using link_in(1) [of h l "us @ [y]" "n # zs" e] rep e snoc by (simp add: hd0_def)
qed

lemma list_remove_refines:
  assumes rep: "list_rep h l (ys @ e # zs)" and p: "p = (if ys = [] then 0 else last ys)"
  shows "list_rep (snd (list_remove l p e h)) (fst (list_remove l p e h)) (ys @ zs)"
proof -
  have d: "distinct (ys @ e # zs)" and ch: "chain h (h e) zs 0" and e0: "e \<noteq> 0"
    using rep by (auto simp: list_rep_def)
  have le: "sl_last l = e \<longleftrightarrow> zs = []"
    using rep last_in_set [of zs] by (cases "zs = []") (auto simp: list_rep_def)
  show ?thesis
  proof (cases ys rule: rev_cases)
    case Nil
    then show ?thesis
      using rep p le d by (cases "zs = []") (auto simp: list_remove_def list_rep_def)
  next
    case (snoc us y)
    then have "y \<noteq> 0" "chain h (sl_first l) us y" using rep by (auto simp: list_rep_def)
    then show ?thesis
      using rep p le d ch snoc by (cases "zs = []") (auto simp: list_remove_def list_rep_def)
  qed
qed

lemma pool_loop_refines:
  assumes "list_rep (snd lh) (fst lh) xs" and "0 < sz" "0 < pool" "\<forall>x\<in>set xs. x < pool"
  shows "list_rep (snd (pool_loop n pool sz lh)) (fst (pool_loop n pool sz lh))
    (xs @ map (\<lambda>i. pool + i * sz) [0..<n])"
  using assms
proof (induction n arbitrary: pool lh xs)
  case 0
  then show ?case by simp
next
  case (Suc n)
  let ?r = "list_push_back (fst lh) pool (snd lh)"
  have "list_rep (snd ?r) (fst ?r) (xs @ [pool])"
    using Suc.prems by (intro list_push_back_refines) auto
  then have "list_rep (snd (pool_loop n (pool + sz) sz ?r)) (fst (pool_loop n (pool + sz) sz ?r))
      ((xs @ [pool]) @ map (\<lambda>i. pool + sz + i * sz) [0..<n])"
    using Suc.prems by (intro Suc.IH) auto
  moreover have "pool # map (\<lambda>i. pool + sz + i * sz) [0..<n] = map (\<lambda>i. pool + i * sz) [0..<Suc n]"
    by (rule nth_equalityI) (auto simp: nth_Cons' simp del: upt_Suc, (metis Suc_pred add.assoc mult_Suc))
  ultimately show ?case by (simp del: upt_Suc)
qed

section \<open>The list as a queue\<close>

text \<open>
  What a user of the list as a queue relies on, whatever the representation: a push appends
  an element that is not on the list, a pop takes the first one.
\<close>

locale fifo =
  fixes rep :: "'h \<Rightarrow> 'l \<Rightarrow> 'a list \<Rightarrow> bool"
    and ok :: "'a \<Rightarrow> bool"
    and push :: "'l \<Rightarrow> 'a \<Rightarrow> 'h \<Rightarrow> 'l \<times> 'h"
    and pop :: "'l \<Rightarrow> 'h \<Rightarrow> 'a \<times> 'l"
  assumes push_back: "rep h l xs \<Longrightarrow> ok e \<Longrightarrow> e \<notin> set xs \<Longrightarrow>
      rep (snd (push l e h)) (fst (push l e h)) (xs @ [e])"
    and pop_front: "rep h l (x # xs) \<Longrightarrow> fst (pop l h) = x \<and> rep h (snd (pop l h)) xs"
begin

primrec push_all :: "'a list \<Rightarrow> 'l \<Rightarrow> 'h \<Rightarrow> 'l \<times> 'h" where
  "push_all [] l h = (l, h)"
| "push_all (e # es) l h = (let (l', h') = push l e h in push_all es l' h')"

primrec pop_n :: "nat \<Rightarrow> 'l \<Rightarrow> 'h \<Rightarrow> 'a list" where
  "pop_n 0 l h = []"
| "pop_n (Suc n) l h = (let (e, l') = pop l h in e # pop_n n l' h)"

lemma push_all_rep:
  assumes "rep h l xs" and "distinct (xs @ es)" and "\<forall>e\<in>set es. ok e"
  shows "rep (snd (push_all es l h)) (fst (push_all es l h)) (xs @ es)"
  using assms
proof (induction es arbitrary: l h xs)
  case Nil
  then show ?case by simp
next
  case (Cons e es)
  have "rep (snd (push l e h)) (fst (push l e h)) (xs @ [e])"
    using Cons.prems by (intro push_back) auto
  from Cons.IH [OF this] Cons.prems show ?case by (simp add: split_def Let_def)
qed

lemma pop_n_rep: "rep h l xs \<Longrightarrow> n \<le> length xs \<Longrightarrow> pop_n n l h = take n xs"
proof (induction n arbitrary: l xs)
  case 0
  then show ?case by simp
next
  case (Suc n)
  then obtain y ys where xs: "xs = y # ys" by (cases xs) auto
  with Suc pop_front [of h l y ys] show ?case by (simp add: split_def Let_def)
qed

end

interpretation sl: fifo list_rep "\<lambda>e. e \<noteq> 0" list_push_back list_pop_front
proof
  fix h l xs and e :: addr
  show "list_rep (snd (list_push_back l e h)) (fst (list_push_back l e h)) (xs @ [e])"
    if "list_rep h l xs" "e \<noteq> 0" "e \<notin> set xs"
    using that by (rule list_push_back_refines)
  show "fst (list_pop_front l h) = x \<and> list_rep h (snd (list_pop_front l h)) xs"
    if "list_rep h l (x # xs)" for x
    using list_pop_front_refines [OF that] by simp
qed

text \<open>Comparison callbacks that compare a key of the elements order the list.\<close>

definition key_less :: "('a \<Rightarrow> nat) \<Rightarrow> 'a \<Rightarrow> 'a \<Rightarrow> bool" where
  "key_less key a b \<longleftrightarrow> key a < key b"

interpretation key_order: ordered_insert "key_less key" for key
  by unfold_locales (auto simp: key_less_def)

lemma key_ordered_sorted: "key_order.ordered key xs \<longleftrightarrow> sorted (map key xs)"
  by (simp add: key_order.ordered_def key_less_def sorted_map not_less sorted_wrt_map)

section \<open>Properties\<close>

text \<open>
  C28: on every well-formed list, \<open>list_insert\<close> with a comparison of keys ends and puts
  the element, and nothing else, on the list, keeping it sorted: behind the elements with
  the same key.
\<close>

theorem list_insert_sorted:
  assumes "list_rep h l xs" and "e \<noteq> 0" "e \<notin> set xs" and "sorted (map key xs)"
  shows "\<exists>l' h' xs'. list_insert (key_less key) l e h = Some (l', h') \<and> list_rep h' l' xs'
    \<and> sorted (map key xs')
    \<and> xs' = filter (\<lambda>x. key x \<le> key e) xs @ e # filter (\<lambda>x. key e < key x) xs"
proof -
  have ord: "key_order.ordered key xs" using assms(4) by (simp add: key_ordered_sorted)
  obtain l' h' where "list_insert (key_less key) l e h = Some (l', h')"
      "list_rep h' l' (insert_before (key_less key) e xs)"
    using list_insert_refines [OF assms(1-3)] by blast
  moreover have "sorted (map key (insert_before (key_less key) e xs))"
    using key_order.ordered_insert_before [OF ord] by (simp add: key_ordered_sorted)
  moreover have "insert_before (key_less key) e xs =
      filter (\<lambda>x. key x \<le> key e) xs @ e # filter (\<lambda>x. key e < key x) xs"
    using key_order.insert_before_stable [OF ord] by (simp add: key_less_def not_less)
  ultimately show ?thesis by auto
qed

definition sample_heap :: next_heap where
  "sample_heap = (\<lambda>_. 0)(8 := 24)"

definition sample_list :: slist where
  "sample_list = \<lparr>sl_first = 8, sl_last = 24\<rparr>"

lemma sample_rep: "list_rep sample_heap sample_list [8, 24]"
  by (simp add: list_rep_def sample_heap_def sample_list_def)

theorem list_insert_sorted_witness:
  "\<exists>l' h'. list_insert (key_less id) sample_list 16 sample_heap = Some (l', h')
     \<and> list_rep h' l' [8, 16, 24]"
  using list_insert_sorted [OF sample_rep, of 16 id] by auto

text \<open>
  \<open>list_extract\<close> ends on every well-formed list, removes the given element if it is
  on the list and changes nothing otherwise; the order of the others and the last-element
  pointer are right afterwards.
\<close>

theorem list_extract_correct:
  assumes "list_rep h l xs" and "e \<noteq> 0"
  shows "\<exists>l' h'. list_extract l e h = Some (l', h') \<and> list_rep h' l' (remove1 e xs)
    \<and> (e \<notin> set xs \<longrightarrow> (\<forall>a. h' a = h a))"
proof -
  obtain l' h' where r: "list_extract l e h = Some (l', h')" "list_rep h' l' (remove1 e xs)"
    using list_extract_refines [OF assms] by blast
  moreover have "h' a = h a" if "e \<notin> set xs" for a
  proof -
    have "chain h (sl_first l) xs 0" using assms(1) by (simp add: list_rep_def)
    then have "e \<notin> set xs \<longrightarrow> scan_loop (\<lambda>p. h p = 0 \<or> h p = e) h (sl_first l) = Some (last xs) \<and> h (last xs) = 0"
      if "xs \<noteq> []"
      using that assms(2) scan_to_last [of h "sl_first l" "butlast xs" "last xs" e]
      by (cases xs rule: rev_cases) auto
    then show ?thesis
      using r(1) \<open>e \<notin> set xs\<close> rep_empty_iff [OF assms(1)]
      by (cases "xs = []") (auto simp: list_extract_def Let_def split: if_splits)
  qed
  ultimately show ?thesis by blast
qed

theorem list_extract_correct_witness:
  "\<exists>l' h'. list_extract sample_list 24 sample_heap = Some (l', h') \<and> list_rep h' l' [8]"
  using list_extract_correct [OF sample_rep, of 24] by auto

text \<open>
  After \<open>list_pool_init\<close> the free list hands out every element of the pool once, in
  address order, whatever the heap was before.
\<close>

theorem list_pool_init_hands_out_pool:
  assumes "0 < sz" "0 < pool" and "r = list_pool_init l pool sz cnt h"
  shows "sl.pop_n cnt (fst r) (snd r) = map (\<lambda>i. pool + i * sz) [0..<cnt]"
proof -
  have "list_rep (snd r) (fst r) ([] @ map (\<lambda>i. pool + i * sz) [0..<cnt])"
    unfolding assms(3) list_pool_init_def
    using assms(1,2) list_init_refines by (intro pool_loop_refines) auto
  from sl.pop_n_rep [OF this, of cnt] show ?thesis by simp
qed

theorem list_pool_init_hands_out_pool_witness:
  "sl.pop_n 3 (fst (list_pool_init sample_list 100 16 3 sample_heap))
     (snd (list_pool_init sample_list 100 16 3 sample_heap)) = [100, 116, 132]"
  using list_pool_init_hands_out_pool [of 16 100 _ sample_list 3 sample_heap] by (simp add: upt_rec)

end
