(* ===== verification/Dlinked.thy ===== *)
theory Dlinked
  imports Prelude
begin

text \<open>
  The circular doubly linked list of \<^verbatim>\<open>MSDK/util/src/dlist.c\<close>. The heap holds the
  \<^verbatim>\<open>next\<close> and \<^verbatim>\<open>prev\<close> members of every \<^verbatim>\<open>struct list_head\<close>; the stores are made
  in the order of the code, so that a head that is its own neighbour is handled as there.
  \<open>dl_rep h hd xs\<close> says that the ring through \<open>hd\<close> visits \<open>xs\<close>, in both
  directions.
\<close>

section \<open>Model\<close>

record dl_heap =
  dl_next :: "nat \<Rightarrow> nat"
  dl_prev :: "nat \<Rightarrow> nat"

definition set_next :: "nat \<Rightarrow> nat \<Rightarrow> dl_heap \<Rightarrow> dl_heap" where
  "set_next a v h = h\<lparr>dl_next := (dl_next h)(a := v)\<rparr>"

definition set_prev :: "nat \<Rightarrow> nat \<Rightarrow> dl_heap \<Rightarrow> dl_heap" where
  "set_prev a v h = h\<lparr>dl_prev := (dl_prev h)(a := v)\<rparr>"

definition INIT_DLIST_HEAD :: "nat \<Rightarrow> dl_heap \<Rightarrow> dl_heap" where
  "INIT_DLIST_HEAD p h = set_prev p p (set_next p p h)"

definition list_add :: "nat \<Rightarrow> nat \<Rightarrow> dl_heap \<Rightarrow> dl_heap" where
  "list_add node head h =
     (let prev = head; nxt = dl_next h head
      in set_next prev node (set_prev node prev (set_next node nxt (set_prev nxt node h))))"

definition list_add_tail :: "nat \<Rightarrow> nat \<Rightarrow> dl_heap \<Rightarrow> dl_heap" where
  "list_add_tail node head h =
     (let prev = dl_prev h head; nxt = head
      in set_next prev node (set_prev node prev (set_next node nxt (set_prev nxt node h))))"

definition list_del :: "nat \<Rightarrow> dl_heap \<Rightarrow> dl_heap" where
  "list_del entry h =
     (let prev = dl_prev h entry; nxt = dl_next h entry
      in set_next prev nxt (set_prev nxt prev h))"

definition list_del_init :: "nat \<Rightarrow> dl_heap \<Rightarrow> dl_heap" where
  "list_del_init entry h = INIT_DLIST_HEAD entry (list_del entry h)"

definition list_empty :: "nat \<Rightarrow> dl_heap \<Rightarrow> int" where
  "list_empty head h = (if dl_next h head = head then 1 else 0)"

definition list_splice :: "nat \<Rightarrow> nat \<Rightarrow> dl_heap \<Rightarrow> dl_heap" where
  "list_splice lst head h =
     (let first = dl_next h lst in
      if first \<noteq> lst
      then let last = dl_prev h lst; at = dl_next h head
           in set_prev at last (set_next last at (set_next head first (set_prev first head h)))
      else h)"

partial_function (option) len_loop :: "dl_heap \<Rightarrow> nat \<Rightarrow> nat \<Rightarrow> nat \<Rightarrow> nat option" where
  "len_loop h head pos count =
     (if pos = head then Some count else len_loop h head (dl_next h pos) (count + 1))"

definition list_len :: "nat \<Rightarrow> dl_heap \<Rightarrow> nat option" where
  "list_len head h = len_loop h head (dl_next h head) 0"

section \<open>Representation\<close>

fun linked :: "dl_heap \<Rightarrow> nat list \<Rightarrow> bool" where
  "linked h [] \<longleftrightarrow> True"
| "linked h [a] \<longleftrightarrow> True"
| "linked h (a # b # xs) \<longleftrightarrow> dl_next h a = b \<and> dl_prev h b = a \<and> linked h (b # xs)"

definition dl_rep :: "dl_heap \<Rightarrow> nat \<Rightarrow> nat list \<Rightarrow> bool" where
  "dl_rep h p xs \<longleftrightarrow> linked h (p # xs @ [p]) \<and> distinct (p # xs)"

lemmas dl_sets = set_next_def set_prev_def

lemma linked_append: "linked h (xs @ a # ys) \<longleftrightarrow> linked h (xs @ [a]) \<and> linked h (a # ys)"
proof (induction xs)
  case Nil
  then show ?case by simp
next
  case (Cons x xs)
  then show ?case by (cases xs) auto
qed

lemma linked_cong:
  assumes "\<forall>a\<in>set (butlast xs). dl_next h' a = dl_next h a"
    and "\<forall>b\<in>set (tl xs). dl_prev h' b = dl_prev h b"
  shows "linked h' xs \<longleftrightarrow> linked h xs"
  using assms by (induction h xs rule: linked.induct) (auto split: if_splits)

lemma linked_cut: "linked h (us @ a # b # vs) \<longleftrightarrow>
    linked h (us @ [a]) \<and> dl_next h a = b \<and> dl_prev h b = a \<and> linked h (b # vs)"
  using linked_append [of h us a "b # vs"] by simp

text \<open>
  The nodes of a ring as the open list from the head back to the head: each node occurs once
  as a source of \<^verbatim>\<open>next\<close> and once as a source of \<^verbatim>\<open>prev\<close>.
\<close>

definition ring :: "nat list \<Rightarrow> bool" where
  "ring c \<longleftrightarrow> distinct (butlast c) \<and> distinct (tl c)"

lemma dl_rep_ring: "dl_rep h p xs \<Longrightarrow> ring (p # xs @ [p])"
  by (auto simp: dl_rep_def ring_def butlast_append)

lemma ring_cut:
  assumes "ring (us @ a # b # vs)"
  shows "a \<notin> set us" "a \<notin> set (butlast (b # vs))" "b \<notin> set (tl (us @ [a]))" "b \<notin> set vs"
  using assms by (cases us; auto simp: ring_def butlast_append split: if_splits)+

text \<open>Unlinking and relinking at the cut: the segment \<open>ps\<close> goes between \<open>a\<close> and \<open>b\<close>.\<close>

lemma splice_link:
  assumes c: "linked h (us @ a # b # vs)" "ring (us @ a # b # vs)"
    and p: "linked h ps" "ps \<noteq> []" "distinct ps" "set ps \<inter> set (us @ a # b # vs) = {}"
    and n: "\<And>x. dl_next h' x = (if x = a then hd ps else if x = last ps then b else dl_next h x)"
    and q: "\<And>x. dl_prev h' x = (if x = b then last ps else if x = hd ps then a else dl_prev h x)"
  shows "linked h' (us @ a # ps @ b # vs)"
proof -
  note cut = ring_cut [OF c(2)]
  have ends: "hd ps \<in> set ps" "last ps \<in> set ps" using p(2) by auto
  have lc: "linked h (us @ [a])" "linked h (b # vs)" using c(1) by (simp_all add: linked_cut)
  have "x \<noteq> a \<and> x \<noteq> last ps" if "x \<in> set (butlast (us @ [a]))" for x
    using that cut(1) ends p(4) by auto
  moreover have "x \<noteq> b \<and> x \<noteq> hd ps" if "x \<in> set (tl (us @ [a]))" for x
  proof -
    have "x \<in> set (us @ [a])" using that by (cases us) auto
    then show ?thesis using that cut(3) ends p(4) by auto
  qed
  ultimately have front: "linked h' (us @ [a])"
    using lc(1) linked_cong [of "us @ [a]" h' h] by (simp add: n q)
  have "x \<noteq> a \<and> x \<noteq> last ps" if "x \<in> set (butlast (b # vs))" for x
    using cut(2) ends p(4) in_set_butlastD [OF that] that by auto
  moreover have "x \<noteq> b \<and> x \<noteq> hd ps" if "x \<in> set vs" for x
    using that cut(4) ends p(4) by auto
  ultimately have rear: "linked h' (b # vs)"
    using lc(2) linked_cong [of "b # vs" h' h] by (simp add: n q)
  have "x \<noteq> a \<and> x \<noteq> last ps" if "x \<in> set (butlast ps)" for x
    using that p(2-4) by (cases ps rule: rev_cases) auto
  moreover have "x \<noteq> b \<and> x \<noteq> hd ps" if "x \<in> set (tl ps)" for x
    using that p by (cases ps) auto
  ultimately have mid: "linked h' ps"
    using p(1) linked_cong [of ps h' h] by (simp add: n q)
  obtain z zs where ps: "ps = z # zs" using p(2) by (cases ps) auto
  have "linked h' (a # ps)"
    using mid ps ends p(4) by (auto simp: n q)
  moreover have "linked h' (last ps # b # vs)"
    using rear ends p(4) by (auto simp: n q)
  ultimately have "linked h' ((a # butlast ps) @ last ps # b # vs)"
    using p(2) linked_append [of h' "a # butlast ps" "last ps" "b # vs"] by simp
  moreover have "(a # butlast ps) @ last ps # b # vs = a # ps @ b # vs"
    using append_butlast_last_id [OF p(2)] by (metis append.assoc append_Cons append_Nil)
  ultimately have "linked h' (a # ps @ b # vs)" by (simp only:)
  with front show ?thesis using linked_append [of h' us a "ps @ b # vs"] by simp
qed

lemma unlink:
  assumes c: "linked h (us @ a # e # b # vs)" "ring (us @ a # e # b # vs)"
    and n: "\<And>x. dl_next h' x = (if x = a then b else dl_next h x)"
    and q: "\<And>x. dl_prev h' x = (if x = b then a else dl_prev h x)"
  shows "linked h' (us @ a # b # vs)"
proof -
  have r: "ring ((us @ [a]) @ e # b # vs)" using c(2) by simp
  have front: "linked h' (us @ [a])"
  proof -
    have "b \<notin> set (tl (us @ [a]))" using ring_cut(3) [OF r] by (cases us) auto
    moreover have "linked h (us @ [a])" using c(1) by (simp add: linked_cut)
    ultimately show ?thesis
      using linked_cong [of "us @ [a]" h' h] ring_cut(1) [OF c(2)] by (auto simp: n q)
  qed
  have "linked h (b # vs)" using c(1) linked_cut by simp
  moreover have "a \<notin> set (butlast (b # vs))" using ring_cut(2) [OF c(2)] by auto
  ultimately have rear: "linked h' (b # vs)"
    using linked_cong [of "b # vs" h' h] ring_cut(4) [OF r]
    by (simp add: n q del: butlast.simps)
  show ?thesis using front rear by (simp add: linked_cut n q)
qed

section \<open>Refinement of each operation\<close>

lemma init_refines: "dl_rep (INIT_DLIST_HEAD p h) p []"
  by (simp add: dl_rep_def INIT_DLIST_HEAD_def dl_sets)

lemma list_empty_refines: "dl_rep h p xs \<Longrightarrow> list_empty p h = (if xs = [] then 1 else 0)"
  by (cases xs) (auto simp: dl_rep_def list_empty_def)

lemma list_add_refines:
  assumes rep: "dl_rep h p xs" and n: "n \<noteq> p" "n \<notin> set xs"
  shows "dl_rep (list_add n p h) p (n # xs)"
proof -
  obtain b vs where bv: "xs @ [p] = b # vs" by (cases xs) auto
  have l: "linked h ([] @ p # b # vs)" and r: "ring ([] @ p # b # vs)"
    using rep dl_rep_ring [OF rep] bv by (auto simp: dl_rep_def)
  then have "dl_next h p = b" by simp
  moreover have "n \<notin> set (p # b # vs)" using n bv by (metis insert_iff list.simps(15) rotate1.simps(2) set_rotate1)
  ultimately have "linked (list_add n p h) ([] @ p # [n] @ b # vs)"
    using n by (intro splice_link [OF l r]) (auto simp: list_add_def dl_sets Let_def)
  then show ?thesis using rep n bv by (simp add: dl_rep_def)
qed

lemma list_add_tail_refines:
  assumes rep: "dl_rep h p xs" and n: "n \<noteq> p" "n \<notin> set xs"
  shows "dl_rep (list_add_tail n p h) p (xs @ [n])"
proof -
  obtain us a where ua: "p # xs = us @ [a]" by (metis list.distinct(1) rev_exhaust)
  have eq: "p # xs @ [p] = us @ a # [p]" using ua by (metis append.assoc append_Cons append_Nil)
  have l: "linked h (us @ a # p # [])" and r: "ring (us @ a # p # [])"
    using rep dl_rep_ring [OF rep] unfolding dl_rep_def eq by auto
  then have "dl_prev h p = a" using linked_cut by simp
  moreover have "n \<notin> set (us @ [a])" using n unfolding ua [symmetric] by simp
  ultimately have "linked (list_add_tail n p h) (us @ a # [n] @ p # [])"
    using n by (intro splice_link [OF l r]) (auto simp: list_add_tail_def dl_sets Let_def)
  moreover have "us @ a # [n] @ p # [] = p # (xs @ [n]) @ [p]"
    using ua by (metis append.assoc append_Cons append_Nil)
  ultimately have "linked (list_add_tail n p h) (p # (xs @ [n]) @ [p])" by (simp only:)
  then show ?thesis using rep n by (simp add: dl_rep_def)
qed

lemma list_del_refines:
  assumes rep: "dl_rep h p (ys @ e # zs)"
  shows "dl_rep (list_del e h) p (ys @ zs)"
proof -
  obtain us a where ua: "p # ys = us @ [a]" by (metis list.distinct(1) rev_exhaust)
  obtain b vs where bv: "zs @ [p] = b # vs" by (cases zs) auto
  have eq: "p # (ys @ e # zs) @ [p] = us @ a # e # b # vs"
    using ua bv by (metis append.assoc append_Cons append_Nil)
  have l: "linked h (us @ a # e # b # vs)" and r: "ring (us @ a # e # b # vs)"
    using rep dl_rep_ring [OF rep] unfolding dl_rep_def eq by blast+
  have "dl_prev h e = a" "dl_next h e = b" using l linked_cut by auto
  then have "linked (list_del e h) (us @ a # b # vs)"
    by (intro unlink [OF l r]) (auto simp: list_del_def dl_sets Let_def)
  moreover have "us @ a # b # vs = p # (ys @ zs) @ [p]"
    using ua bv by (metis append.assoc append_Cons append_Nil)
  ultimately have "linked (list_del e h) (p # (ys @ zs) @ [p])" by (simp only:)
  then show ?thesis using rep by (simp add: dl_rep_def)
qed

lemma list_splice_refines:
  assumes rep: "dl_rep h p xs" "dl_rep h q ys" and d: "set (p # xs) \<inter> set (q # ys) = {}"
  shows "dl_rep (list_splice q p h) p (ys @ xs)"
proof (cases "ys = []")
  case True
  then show ?thesis using rep by (simp add: list_splice_def dl_rep_def)
next
  case False
  obtain b vs where bv: "xs @ [p] = b # vs" by (cases xs) auto
  obtain y ys' where ys: "ys = y # ys'" using False by (cases ys) auto
  obtain us a where ua: "ys = us @ [a]" using False by (metis rev_exhaust)
  have l: "linked h ([] @ p # b # vs)" and r: "ring ([] @ p # b # vs)"
    using rep dl_rep_ring [OF rep(1)] bv by (auto simp: dl_rep_def)
  have "linked h ((q # us) @ a # [q])" using rep(2) ua by (simp add: dl_rep_def)
  then have q: "dl_prev h q = a" "linked h ys"
    using linked_cut [of h "q # us" a q "[]"] ua by (cases us; auto)+
  have f: "dl_next h q = y" "y \<noteq> q" using rep(2) ys by (auto simp: dl_rep_def)
  have b: "dl_next h p = b" using l by simp
  have sv: "set (p # b # vs) = set (p # xs)" using bv by (metis insert_absorb2 list.simps(15) rotate1.simps(2) set_rotate1)
  have y: "hd ys = y" "last ys = a" by (simp add: ys) (simp add: ua)
  have "a \<in> set ys" by (simp add: ua)
  moreover have "y \<in> set ys" by (simp add: ys)
  moreover have "b \<in> set (p # xs)" using sv by (metis list.set_intros(1,2))
  ultimately have ne: "a \<noteq> p" "y \<noteq> p" "b \<noteq> y" using d by auto
  have "linked (list_splice q p h) ([] @ p # ys @ b # vs)"
  proof (rule splice_link [OF l r q(2) False])
    show "distinct ys" using rep(2) by (simp add: dl_rep_def)
    show "set ys \<inter> set ([] @ p # b # vs) = {}" using d sv by auto
    show "dl_next (list_splice q p h) x = (if x = p then hd ys else if x = last ys then b else dl_next h x)" for x
      using f q b ne y by (auto simp: list_splice_def dl_sets Let_def)
    show "dl_prev (list_splice q p h) x = (if x = b then last ys else if x = hd ys then p else dl_prev h x)" for x
      using f q b ne y by (auto simp: list_splice_def dl_sets Let_def)
  qed
  then show ?thesis using rep d bv by (auto simp: dl_rep_def)
qed

lemma len_loop_linked:
  assumes "linked h (ys @ [p])" and "p \<notin> set ys" and "pos = hd (ys @ [p])"
  shows "len_loop h p pos c = Some (c + length ys)"
  using assms
proof (induction ys arbitrary: pos c)
  case Nil
  then show ?case by (simp add: len_loop.simps)
next
  case (Cons y ys)
  then have "dl_next h y = hd (ys @ [p])" "linked h (ys @ [p])" by (cases ys; auto)+
  then show ?case using Cons by (simp add: len_loop.simps [of h p y])
qed

lemma list_len_refines:
  assumes "dl_rep h p xs"
  shows "list_len p h = Some (length xs)"
proof -
  have "linked h (xs @ [p])" "p \<notin> set xs" "dl_next h p = hd (xs @ [p])"
    using assms by (cases xs; auto simp: dl_rep_def)+
  then show ?thesis using len_loop_linked [of h xs p] by (simp add: list_len_def)
qed

section \<open>Properties\<close>

text \<open>
  \<open>list_add_tail\<close> appends a node to the ring and \<open>list_add\<close> puts it first, in
  both directions of the links, also on the empty ring.
\<close>

theorem dlist_add_correct:
  assumes "dl_rep h p xs" and "n \<noteq> p" "n \<notin> set xs"
  shows "dl_rep (list_add_tail n p h) p (xs @ [n]) \<and> dl_rep (list_add n p h) p (n # xs)
    \<and> list_len p (list_add_tail n p h) = Some (Suc (length xs))"
  using list_add_tail_refines [OF assms] list_add_refines [OF assms] list_len_refines by fastforce

definition dl_sample :: dl_heap where
  "dl_sample = INIT_DLIST_HEAD 1 \<lparr>dl_next = (\<lambda>_. 0), dl_prev = (\<lambda>_. 0)\<rparr>"

theorem dlist_add_correct_witness: "dl_rep (list_add_tail 5 1 dl_sample) 1 [5]"
  using dlist_add_correct [of dl_sample 1 "[]" 5] by (simp add: dl_sample_def init_refines)

text \<open>
  \<open>list_del\<close> takes exactly the given node out of the ring it is on, and
  \<open>list_splice\<close> moves all nodes of one ring in front of those of another, in order.
\<close>

theorem dlist_del_splice_correct:
  assumes "dl_rep h p (ys @ e # zs)"
  shows "dl_rep (list_del e h) p (ys @ zs) \<and> dl_rep (list_del_init e h) e []
    \<and> (\<forall>q ws. dl_rep h q ws \<longrightarrow> set (p # ys @ e # zs) \<inter> set (q # ws) = {} \<longrightarrow>
         dl_rep (list_splice q p h) p (ws @ ys @ e # zs))"
  using list_del_refines [OF assms] list_splice_refines [OF assms]
  by (simp add: list_del_init_def init_refines)

theorem dlist_del_splice_correct_witness:
  "dl_rep (list_del 5 (list_add_tail 5 1 dl_sample)) 1 []"
proof -
  have "dl_rep (list_add_tail 5 1 dl_sample) 1 ([] @ [5])"
    by (rule list_add_tail_refines) (simp_all add: dl_sample_def init_refines)
  then show ?thesis using dlist_del_splice_correct [of _ 1 "[]" 5 "[]"] by simp
qed

end
