(* ===== verification/Blue_Courier_Link.thy ===== *)
theory Blue_Courier_Link
  imports Prelude
begin

text \<open>
  The link layer of the Wi-Fi provisioning service over BLE,
  \<^verbatim>\<open>MSDK/ble/app/app_blue_courier_link.c\<close>: messages of up to 512 bytes are cut into
  fragments with a header, a sequence number and a CRC, and put together again on the other
  side. Parameters stand for what is outside the file: the CRC routine of the BLE library
  (\<open>crc\<close>), the allocator (\<open>alloc n\<close>: an allocation of \<open>n\<close> bytes succeeds), the MTU
  the GATT server reports (\<open>gatt_mtu\<close>) and the protocol layer above
  (\<open>app\<close>, in the firmware the \<open>bcwp_msg_handler\<close> of the theory \<open>Blue_Courier_Prot\<close>).

  A run ends with \<open>Ok\<close> and the new state or with \<open>Bad\<close> when the code accesses memory
  outside the buffer at hand; \<open>None\<close> is a run that does not end. \<open>ntf_out\<close> collects
  the notifications handed to the GATT server.
\<close>

section \<open>Model\<close>

datatype 'a outcome = Ok 'a | Bad

type_synonym 'a run = "'a outcome option"

definition bind_run :: "'a run \<Rightarrow> ('a \<Rightarrow> 'b run) \<Rightarrow> 'b run" where
  "bind_run r f = (case r of None \<Rightarrow> None | Some Bad \<Rightarrow> Some Bad | Some (Ok x) \<Rightarrow> f x)"

lemma bind_run_simps [simp]:
  "bind_run None f = None" "bind_run (Some Bad) f = Some Bad" "bind_run (Some (Ok x)) f = f x"
  by (simp_all add: bind_run_def)

datatype ble_adv_state_t =
    BLE_ADV_STATE_IDLE | BLE_ADV_STATE_CREATING | BLE_ADV_STATE_CREATE | BLE_ADV_STATE_ADV_DATA_SET
  | BLE_ADV_STATE_SCAN_RSP_DATA_SET | BLE_ADV_STATE_PER_ADV_DATA_SET | BLE_ADV_STATE_START

record bcwl_env_t =
  bc_mode :: u8
  conn_id :: u8
  adv_idx :: u8
  remove_after_stop :: bool
  ntf_cfg :: u16
  adv_state :: ble_adv_state_t
  recv_seq :: u8
  send_seq :: u8
  recv_buf :: "bytes option"
  total_len :: u16
  offset :: u16
  frag_size :: u8
  peer_recv_size :: u16
  handshake_success :: bool
  ntf_out :: "bytes list"

definition BCW_VALUE_LEN :: nat where "BCW_VALUE_LEN = 512"
definition BCW_FRAG_MAX_LEN :: u32 where "BCW_FRAG_MAX_LEN = 256"

definition BCWL_FLAG_BEGIN_MASK :: u8 where "BCWL_FLAG_BEGIN_MASK = 1"
definition BCWL_FLAG_END_MASK :: u8 where "BCWL_FLAG_END_MASK = 2"
definition BCWL_FLAG_REQ_ACK_MASK :: u8 where "BCWL_FLAG_REQ_ACK_MASK = 4"

definition BCWL_OPCODE_GET_TYPE :: "u8 \<Rightarrow> u8" where
  "BCWL_OPCODE_GET_TYPE opcode = drop_bit 6 (opcode AND 0xC0)"

definition BCWL_OPCODE_GET_SUBTYPE :: "u8 \<Rightarrow> u8" where
  "BCWL_OPCODE_GET_SUBTYPE opcode = opcode AND 0x3F"

definition BCWL_OPCODE_BUILD :: "u8 \<Rightarrow> u8 \<Rightarrow> u8" where
  "BCWL_OPCODE_BUILD ty subtype = (push_bit 6 ty AND 0xC0) OR (subtype AND 0x3F)"

definition BCWL_ERR_PACKET_LEN_ERROR :: u8 where "BCWL_ERR_PACKET_LEN_ERROR = 1"
definition BCWL_ERR_UNKNOWN_OPCODE :: u8 where "BCWL_ERR_UNKNOWN_OPCODE = 2"
definition BCWL_ERR_SEND_NO_MEM :: u8 where "BCWL_ERR_SEND_NO_MEM = 3"
definition BCWL_ERR_RECV_NO_MEM :: u8 where "BCWL_ERR_RECV_NO_MEM = 4"
definition BCWL_ERR_NO_HANDSHAKE :: u8 where "BCWL_ERR_NO_HANDSHAKE = 7"
definition BCWL_ERR_SEQUENCE_ERROR :: u8 where "BCWL_ERR_SEQUENCE_ERROR = 8"
definition BCWL_ERR_CRC_CHECK :: u8 where "BCWL_ERR_CRC_CHECK = 9"
definition BCWL_ERR_RECV_ERROR :: u8 where "BCWL_ERR_RECV_ERROR = 11"

definition OP_HANDSHAKE :: u8 where "OP_HANDSHAKE = BCWL_OPCODE_BUILD 0 0"
definition OP_ACK :: u8 where "OP_ACK = BCWL_OPCODE_BUILD 0 1"
definition OP_ERROR_REPORT :: u8 where "OP_ERROR_REPORT = BCWL_OPCODE_BUILD 0 2"

definition bcwl_ntf_event_send :: "bytes \<Rightarrow> bcwl_env_t \<Rightarrow> bcwl_env_t" where
  "bcwl_ntf_event_send p_val s = (if ntf_cfg s = 0 then s else s\<lparr>ntf_out := ntf_out s @ [p_val]\<rparr>)"

text \<open>The common end of one round of the send loop: header, CRC, notification.\<close>

definition packet :: "(bytes \<Rightarrow> u16) \<Rightarrow> u8 \<Rightarrow> u8 \<Rightarrow> u8 \<Rightarrow> bytes \<Rightarrow> bytes" where
  "packet crc flag seq opcode payload =
     (let n = of_nat (length payload); body = seq # opcode # n # payload; c = crc body
      in flag # body @ [ucast (c AND 0xFF), ucast (drop_bit 8 c AND 0xFF)])"

definition emit :: "(bytes \<Rightarrow> u16) \<Rightarrow> u8 \<Rightarrow> u8 \<Rightarrow> bytes \<Rightarrow> bcwl_env_t \<Rightarrow> bcwl_env_t" where
  "emit crc flag opcode payload s =
     bcwl_ntf_event_send (packet crc flag (send_seq s) opcode payload) (s\<lparr>send_seq := send_seq s + 1\<rparr>)"

text \<open>
  The loop of \<open>bcwl_send\<close>. A failed allocation reports an error, which is a send of one
  byte, and returns; the copy of the start segment has the length \<^verbatim>\<open>data_len - 2\<close>, which
  is a huge unsigned number when the fragment size is below two.
\<close>

partial_function (option) send_loop ::
    "(bytes \<Rightarrow> u16) \<Rightarrow> (nat \<Rightarrow> bool) \<Rightarrow> u8 \<Rightarrow> bytes \<Rightarrow> u16 \<Rightarrow> u16 \<Rightarrow> bcwl_env_t \<Rightarrow> bcwl_env_t run" where
  "send_loop crc alloc opcode data len remain s =
     (if remain = 0 then Some (Ok s)
      else if ucast (frag_size s) < remain then
        (if \<not> alloc (4 + unat (frag_size s) + 2) then
           (if 1 > peer_recv_size s then Some (Ok s)
            else send_loop crc alloc OP_ERROR_REPORT [BCWL_ERR_SEND_NO_MEM] 1 1 s)
         else if remain = len then
           (if frag_size s < 2 then Some Bad
            else send_loop crc alloc opcode data len (remain - (ucast (frag_size s) - 2))
              (emit crc BCWL_FLAG_BEGIN_MASK opcode
                 (ucast (remain AND 0xFF) # ucast (drop_bit 8 remain AND 0xFF)
                    # window (unat (len - remain)) (unat (frag_size s) - 2) data) s))
         else send_loop crc alloc opcode data len (remain - ucast (frag_size s))
            (emit crc 0 opcode (window (unat (len - remain)) (unat (frag_size s)) data) s))
      else
        (if \<not> alloc (4 + unat remain + 2) then
           (if 1 > peer_recv_size s then Some (Ok s)
            else send_loop crc alloc OP_ERROR_REPORT [BCWL_ERR_SEND_NO_MEM] 1 1 s)
         else send_loop crc alloc opcode data len 0
            (emit crc ((if len \<le> ucast (frag_size s) then BCWL_FLAG_BEGIN_MASK else 0)
                 OR BCWL_FLAG_END_MASK) opcode
               (window (unat (len - remain)) (unat remain) data) s)))"

definition bcwl_send ::
    "(bytes \<Rightarrow> u16) \<Rightarrow> (nat \<Rightarrow> bool) \<Rightarrow> u8 \<Rightarrow> bytes \<Rightarrow> bcwl_env_t \<Rightarrow> bcwl_env_t run" where
  "bcwl_send crc alloc opcode data s =
     (let len = of_nat (length data) in
      if len > peer_recv_size s then Some (Ok s)
      else send_loop crc alloc opcode data len len s)"

definition bcwl_error_report ::
    "(bytes \<Rightarrow> u16) \<Rightarrow> (nat \<Rightarrow> bool) \<Rightarrow> u8 \<Rightarrow> bcwl_env_t \<Rightarrow> bcwl_env_t run" where
  "bcwl_error_report crc alloc reason s = bcwl_send crc alloc OP_ERROR_REPORT [reason] s"

definition bcwl_send_ack ::
    "(bytes \<Rightarrow> u16) \<Rightarrow> (nat \<Rightarrow> bool) \<Rightarrow> u8 \<Rightarrow> bcwl_env_t \<Rightarrow> bcwl_env_t run" where
  "bcwl_send_ack crc alloc seq s = bcwl_send crc alloc OP_ACK [seq] s"

definition co_min :: "u32 \<Rightarrow> u32 \<Rightarrow> u32" where
  "co_min a b = (if a < b then a else b)"

definition bcwl_handle_mgmt_handshake ::
    "(bytes \<Rightarrow> u16) \<Rightarrow> (nat \<Rightarrow> bool) \<Rightarrow> u16 \<Rightarrow> bytes \<Rightarrow> bcwl_env_t \<Rightarrow> bcwl_env_t run" where
  "bcwl_handle_mgmt_handshake crc alloc gatt_mtu data s =
     (if length data \<noteq> 4 then bcwl_error_report crc alloc BCWL_ERR_PACKET_LEN_ERROR s
      else
        let h_mtu = le16 (data ! 0) (data ! 1);
            h_recv_size = le16 (data ! 2) (data ! 3);
            rsp_mtu = ucast (co_min (co_min (ucast h_mtu) (ucast gatt_mtu)) BCW_FRAG_MAX_LEN) :: u16;
            s' = s\<lparr>peer_recv_size := ucast (co_min (ucast h_recv_size) (of_nat BCW_VALUE_LEN)),
                   frag_size := ucast (rsp_mtu - 4 - 3 - 2), handshake_success := True\<rparr>
        in bcwl_send crc alloc OP_HANDSHAKE (le16_bytes rsp_mtu @ le16_bytes (of_nat BCW_VALUE_LEN)) s')"

type_synonym app_handler = "u8 \<Rightarrow> bytes \<Rightarrow> bcwl_env_t \<Rightarrow> bcwl_env_t run"

definition bcwl_msg_handler ::
    "(bytes \<Rightarrow> u16) \<Rightarrow> (nat \<Rightarrow> bool) \<Rightarrow> u16 \<Rightarrow> app_handler \<Rightarrow> u8 \<Rightarrow> bytes \<Rightarrow> bcwl_env_t
       \<Rightarrow> bcwl_env_t run" where
  "bcwl_msg_handler crc alloc gatt_mtu app opcode data s =
     (if BCWL_OPCODE_GET_TYPE opcode = 0 then
        (if BCWL_OPCODE_GET_SUBTYPE opcode = 0
         then bcwl_handle_mgmt_handshake crc alloc gatt_mtu data s
         else if BCWL_OPCODE_GET_SUBTYPE opcode = 1 \<or> BCWL_OPCODE_GET_SUBTYPE opcode = 2
         then Some (Ok s)
         else bcwl_error_report crc alloc BCWL_ERR_UNKNOWN_OPCODE s)
      else if BCWL_OPCODE_GET_TYPE opcode = 1
      then app (BCWL_OPCODE_GET_SUBTYPE opcode) data s
      else bcwl_error_report crc alloc BCWL_ERR_UNKNOWN_OPCODE s)"

definition err_recv ::
    "(bytes \<Rightarrow> u16) \<Rightarrow> (nat \<Rightarrow> bool) \<Rightarrow> u8 \<Rightarrow> bcwl_env_t \<Rightarrow> bcwl_env_t run" where
  "err_recv crc alloc status s = bcwl_error_report crc alloc status (s\<lparr>offset := 0, recv_buf := None\<rparr>)"

definition copy_in :: "nat \<Rightarrow> bytes \<Rightarrow> bcwl_env_t \<Rightarrow> bcwl_env_t run" where
  "copy_in off bs s =
     (case recv_buf s of
        None \<Rightarrow> Some Bad
      | Some b \<Rightarrow>
          if off + length bs \<le> length b then Some (Ok (s\<lparr>recv_buf := Some (blit b off bs)\<rparr>))
          else Some Bad)"

text \<open>
  The part of \<open>bcwl_receive\<close> behind the sequence check. \<open>d\<close> are the bytes of the
  packet; the length byte of its header is not compared with the length of the packet, so
  the CRC may be read behind it. The buffer of the start segment holds \<open>total_len\<close> bytes,
  which its copy does not check either.
\<close>

definition receive_segment ::
    "(bytes \<Rightarrow> u16) \<Rightarrow> (nat \<Rightarrow> bool) \<Rightarrow> u16 \<Rightarrow> app_handler \<Rightarrow> bytes \<Rightarrow> bcwl_env_t \<Rightarrow> bcwl_env_t run" where
  "receive_segment crc alloc gatt_mtu app d s =
     (let flag = d ! 0; opcode = d ! 2; n = unat (d ! 3); payload = window 4 n d in
      if length d < 4 + n + 2 then Some Bad
      else if crc (window 1 (n + 3) d) \<noteq> le16 (d ! (4 + n)) (d ! (4 + n + 1))
      then err_recv crc alloc BCWL_ERR_CRC_CHECK s
      else if flag AND BCWL_FLAG_BEGIN_MASK \<noteq> 0 then
        (if flag AND BCWL_FLAG_END_MASK \<noteq> 0
         then bcwl_msg_handler crc alloc gatt_mtu app opcode payload s
         else if offset s \<noteq> 0 then err_recv crc alloc BCWL_ERR_RECV_ERROR s
         else
           let s1 = s\<lparr>total_len := le16 (d ! 4) (d ! 5)\<rparr> in
           if unat (total_len s1) > BCW_VALUE_LEN then err_recv crc alloc BCWL_ERR_RECV_ERROR s1
           else if \<not> alloc (unat (total_len s1))
           then err_recv crc alloc BCWL_ERR_RECV_NO_MEM (s1\<lparr>recv_buf := None\<rparr>)
           else if n < 2 then Some Bad
           else bind_run
             (copy_in 0 (window 6 (n - 2) d)
               (s1\<lparr>recv_buf := Some (replicate (unat (total_len s1)) 0)\<rparr>))
             (\<lambda>s2. Some (Ok (s2\<lparr>offset := of_nat (n - 2)\<rparr>))))
      else if flag AND BCWL_FLAG_END_MASK \<noteq> 0 then
        (if offset s = 0 \<or> unat (offset s) + n \<noteq> unat (total_len s)
         then err_recv crc alloc BCWL_ERR_RECV_ERROR s
         else bind_run (copy_in (unat (offset s)) payload s) (\<lambda>s1.
              bind_run (bcwl_msg_handler crc alloc gatt_mtu app opcode
                  (case recv_buf s1 of None \<Rightarrow> [] | Some b \<Rightarrow> window 0 (unat (total_len s1)) b) s1)
                (\<lambda>s2. Some (Ok (s2\<lparr>offset := 0, recv_buf := None\<rparr>)))))
      else
        (if offset s = 0 \<or> unat (total_len s) \<le> unat (offset s) + n
         then err_recv crc alloc BCWL_ERR_RECV_ERROR s
         else bind_run (copy_in (unat (offset s)) payload s)
              (\<lambda>s1. Some (Ok (s1\<lparr>offset := offset s1 + of_nat n\<rparr>)))))"

definition bcwl_receive ::
    "(bytes \<Rightarrow> u16) \<Rightarrow> (nat \<Rightarrow> bool) \<Rightarrow> u16 \<Rightarrow> app_handler \<Rightarrow> bytes \<Rightarrow> bcwl_env_t \<Rightarrow> bcwl_env_t run" where
  "bcwl_receive crc alloc gatt_mtu app d s =
     (if length d < 4 then bcwl_error_report crc alloc BCWL_ERR_PACKET_LEN_ERROR s
      else if \<not> handshake_success s \<and> d ! 2 \<noteq> OP_HANDSHAKE
      then bcwl_error_report crc alloc BCWL_ERR_NO_HANDSHAKE s
      else
        bind_run (if d ! 0 AND BCWL_FLAG_REQ_ACK_MASK \<noteq> 0 then bcwl_send_ack crc alloc (d ! 1) s
                  else Some (Ok s)) (\<lambda>s1.
          if d ! 1 \<noteq> recv_seq s1 then bcwl_error_report crc alloc BCWL_ERR_SEQUENCE_ERROR s1
          else receive_segment crc alloc gatt_mtu app d (s1\<lparr>recv_seq := recv_seq s1 + 1\<rparr>)))"

text \<open>A GATT write to one of the attributes of the service.\<close>

definition BCW_IDX_WRITE :: u8 where "BCW_IDX_WRITE = 2"
definition BCW_IDX_NTF_CFG :: u8 where "BCW_IDX_NTF_CFG = 5"

definition bcwl_gatts_msg_cb ::
    "(bytes \<Rightarrow> u16) \<Rightarrow> (nat \<Rightarrow> bool) \<Rightarrow> u16 \<Rightarrow> app_handler \<Rightarrow> u8 \<Rightarrow> u8 \<Rightarrow> bytes \<Rightarrow> bcwl_env_t
       \<Rightarrow> bcwl_env_t run" where
  "bcwl_gatts_msg_cb crc alloc gatt_mtu app conn_idx att_idx data s =
     (if conn_idx \<noteq> conn_id s then Some (Ok s)
      else if att_idx = BCW_IDX_WRITE then bcwl_receive crc alloc gatt_mtu app data s
      else if att_idx = BCW_IDX_NTF_CFG \<and> length data = 2
      then Some (Ok (s\<lparr>ntf_cfg := le16 (data ! 0) (data ! 1)\<rparr>))
      else Some (Ok s))"

text \<open>\<open>connected\<close>: the event is a state change to \<^verbatim>\<open>BLE_CONN_STATE_CONNECTED\<close>.\<close>

definition bcwl_conn_evt_handler :: "bool \<Rightarrow> u8 \<Rightarrow> u8 \<Rightarrow> bcwl_env_t \<Rightarrow> bcwl_env_t" where
  "bcwl_conn_evt_handler connected actv_idx conn_idx s =
     (if connected \<and> actv_idx = adv_idx s
      then s\<lparr>conn_id := conn_idx, ntf_cfg := 0, recv_seq := 0, send_seq := 0, total_len := 0,
             offset := 0, frag_size := 23 - 4 - 3 - 2, peer_recv_size := 23,
             handshake_success := False, recv_buf := None\<rparr>
      else s)"

section \<open>One packet through the receiver\<close>

lemma length_packet: "length (packet crc flag seq opcode payload) = length payload + 6"
  by (simp add: packet_def Let_def)

lemma packet_fields:
  assumes "length payload < 256" and d_def: "d = packet crc flag seq opcode payload"
  shows "d ! 0 = flag" "d ! 1 = seq" "d ! 2 = opcode" "unat (d ! 3) = length payload"
    and "window 4 (length payload) d = payload"
    and "crc (window 1 (length payload + 3) d) =
      le16 (d ! (4 + length payload)) (d ! (4 + length payload + 1))"
    and "a + n \<le> length payload \<Longrightarrow> window (4 + a) n d = window a n payload"
proof -
  let ?n = "length payload"
  define body where "body = seq # opcode # of_nat ?n # payload"
  have d: "d = flag # body @ le16_bytes (crc body)"
    by (simp add: d_def packet_def body_def Let_def le16_bytes_def)
  show "d ! 0 = flag" "d ! 1 = seq" "d ! 2 = opcode"
    by (simp_all add: d body_def)
  show "unat (d ! 3) = ?n"
    using assms(1) by (simp add: d body_def unat_of_nat take_bit_nat_eq_self)
  have dd: "drop 4 d = payload @ le16_bytes (crc body)"
    by (simp add: d body_def eval_nat_numeral)
  then show "window 4 ?n d = payload"
    by (simp add: window_def)
  have "drop (4 + a) d = drop a (drop 4 d)" by (simp add: add.commute)
  then show "window (4 + a) n d = window a n payload" if "a + n \<le> ?n"
    using that by (simp add: window_def dd)
  have "window 1 (?n + 3) d = body"
  proof -
    have "length body = ?n + 3" by (simp add: body_def)
    then show ?thesis unfolding d by (metis One_nat_def append_eq_conv_conj drop0 drop_Suc_Cons window_def)
  qed
  moreover have "d ! (4 + ?n + i) = le16_bytes (crc body) ! i" if "i < 2" for i
    using nth_append_length_plus [of "flag # body" "le16_bytes (crc body)" i] d
    by (simp add: body_def ac_simps)
  from this [of 0] this [of 1] have "d ! (4 + ?n) = le16_bytes (crc body) ! 0"
    "d ! (4 + ?n + 1) = le16_bytes (crc body) ! 1"
    by simp_all
  ultimately show "crc (window 1 (?n + 3) d) = le16 (d ! (4 + ?n)) (d ! (4 + ?n + 1))"
    by (simp add: le16_bytes_def le16_parts)
qed

text \<open>
  A packet with the expected sequence number and without a request for an acknowledgement
  goes straight to the segment handling.
\<close>

lemma receive_packet:
  assumes "handshake_success r \<or> opcode = OP_HANDSHAKE" and "recv_seq r = seq"
    and "flag AND BCWL_FLAG_REQ_ACK_MASK = 0" and "length payload < 256"
  shows "bcwl_receive crc alloc mtu app (packet crc flag seq opcode payload) r =
    receive_segment crc alloc mtu app (packet crc flag seq opcode payload) (r\<lparr>recv_seq := seq + 1\<rparr>)"
  using assms packet_fields [OF assms(4) refl]
  by (auto simp: bcwl_receive_def length_packet)

lemma segment_packet:
  assumes "length payload < 256" and d_def: "d = packet crc flag seq opcode payload"
  shows "flag = 3 \<Longrightarrow> receive_segment crc alloc mtu app d r =
      bcwl_msg_handler crc alloc mtu app opcode payload r"
    and "flag = 1 \<Longrightarrow> offset r = 0 \<Longrightarrow> payload = le16_bytes (of_nat tot) @ c \<Longrightarrow>
      tot \<le> 512 \<Longrightarrow> alloc tot \<Longrightarrow> length c \<le> tot \<Longrightarrow>
      receive_segment crc alloc mtu app d r = Some (Ok (r\<lparr>total_len := of_nat tot,
        recv_buf := Some (blit (replicate tot 0) 0 c), offset := of_nat (length c)\<rparr>))"
    and "flag = 0 \<Longrightarrow> offset r \<noteq> 0 \<Longrightarrow> unat (offset r) + length payload < unat (total_len r) \<Longrightarrow>
      recv_buf r = Some b \<Longrightarrow> length b = unat (total_len r) \<Longrightarrow>
      receive_segment crc alloc mtu app d r = Some (Ok (r\<lparr>
        recv_buf := Some (blit b (unat (offset r)) payload),
        offset := offset r + of_nat (length payload)\<rparr>))"
    and "flag = 2 \<Longrightarrow> offset r \<noteq> 0 \<Longrightarrow> unat (offset r) + length payload = unat (total_len r) \<Longrightarrow>
      recv_buf r = Some b \<Longrightarrow> length b = unat (total_len r) \<Longrightarrow>
      receive_segment crc alloc mtu app d r =
        bind_run (bcwl_msg_handler crc alloc mtu app opcode (blit b (unat (offset r)) payload)
            (r\<lparr>recv_buf := Some (blit b (unat (offset r)) payload)\<rparr>))
          (\<lambda>s2. Some (Ok (s2\<lparr>offset := 0, recv_buf := None\<rparr>)))"
proof -
  note f = packet_fields [OF assms]
  have l: "length d = length payload + 6" by (simp add: d_def length_packet)
  note step = receive_segment_def f(1,3,4,5) l f(6) [simplified] BCWL_FLAG_BEGIN_MASK_def
    BCWL_FLAG_END_MASK_def Let_def
  show "receive_segment crc alloc mtu app d r = bcwl_msg_handler crc alloc mtu app opcode payload r"
    if "flag = 3"
    using that by (simp add: step)
  show "receive_segment crc alloc mtu app d r = Some (Ok (r\<lparr>
        recv_buf := Some (blit b (unat (offset r)) payload),
        offset := offset r + of_nat (length payload)\<rparr>))"
    if "flag = 0" "offset r \<noteq> 0" "unat (offset r) + length payload < unat (total_len r)"
      "recv_buf r = Some b" "length b = unat (total_len r)"
    using that by (simp add: step copy_in_def)
  show "receive_segment crc alloc mtu app d r =
        bind_run (bcwl_msg_handler crc alloc mtu app opcode (blit b (unat (offset r)) payload)
            (r\<lparr>recv_buf := Some (blit b (unat (offset r)) payload)\<rparr>))
          (\<lambda>s2. Some (Ok (s2\<lparr>offset := 0, recv_buf := None\<rparr>)))"
    if "flag = 2" "offset r \<noteq> 0" "unat (offset r) + length payload = unat (total_len r)"
      "recv_buf r = Some b" "length b = unat (total_len r)"
  proof -
    have "window 0 (unat (total_len r)) (blit b (unat (offset r)) payload) =
        blit b (unat (offset r)) payload"
      using that by (simp add: window_def length_blit)
    then show ?thesis using that by (simp add: step copy_in_def)
  qed
  show "receive_segment crc alloc mtu app d r = Some (Ok (r\<lparr>total_len := of_nat tot,
        recv_buf := Some (blit (replicate tot 0) 0 c), offset := of_nat (length c)\<rparr>))"
    if "flag = 1" "offset r = 0" "payload = le16_bytes (of_nat tot) @ c" "tot \<le> 512"
      "alloc tot" "length c \<le> tot"
  proof -
    have p: "length payload = 2 + length c" using that(3) by (simp add: le16_bytes_def)
    have w0: "window 4 2 d = le16_bytes (of_nat tot)"
      using f(7) [of 0 2] that(3) by (simp add: window_def le16_bytes_def)
    have "d ! 4 = window 4 2 d ! 0" "d ! 5 = window 4 2 d ! 1"
      using l by (simp_all add: nth_window)
    then have "le16 (d ! 4) (d ! 5) = of_nat tot"
      unfolding w0 by (simp add: le16_bytes_def le16_parts)
    moreover have "window 6 (length c) d = c"
      using f(7) [of 2 "length c"] that(3) p by (simp add: window_def le16_bytes_def)
    moreover have "unat (of_nat tot :: u16) = tot"
      using that(4) by (simp add: unat_of_nat take_bit_nat_eq_self)
    moreover have "crc (window 1 (5 + length c) d) = le16 (d ! (6 + length c)) (d ! (7 + length c))"
      using f(6) unfolding p by (simp add: ac_simps)
    ultimately show ?thesis
      using that p by (simp add: step copy_in_def BCW_VALUE_LEN_def)
  qed
qed

section \<open>A message through both sides\<close>

text \<open>Delivering packets one after the other.\<close>

fun feed ::
    "(bytes \<Rightarrow> u16) \<Rightarrow> (nat \<Rightarrow> bool) \<Rightarrow> u16 \<Rightarrow> app_handler \<Rightarrow> bytes list \<Rightarrow> bcwl_env_t \<Rightarrow> bcwl_env_t run" where
  "feed crc alloc mtu app [] r = Some (Ok r)"
| "feed crc alloc mtu app (d # ds) r =
     bind_run (bcwl_receive crc alloc mtu app d r) (feed crc alloc mtu app ds)"

lemma feed_one: "feed crc alloc mtu app [d] r = bcwl_receive crc alloc mtu app d r"
  by (simp add: bind_run_def split: option.splits outcome.splits)

lemma send_loop_0 [simp]: "send_loop crc alloc opcode data len 0 s = Some (Ok s)"
  by (subst send_loop.simps) simp

lemma emit_fields:
  "ntf_cfg s \<noteq> 0 \<Longrightarrow> emit crc flag opcode p s =
     s\<lparr>send_seq := send_seq s + 1, ntf_out := ntf_out s @ [packet crc flag (send_seq s) opcode p]\<rparr>"
  by (simp add: emit_def bcwl_ntf_event_send_def)

lemma blit_prefix:
  assumes "take o' b = take o' xs" and "length b = length xs" and "o' + n \<le> length xs"
  shows "take (o' + n) (blit b o' (window o' n xs)) = take (o' + n) xs"
    and "length (blit b o' (window o' n xs)) = length xs"
proof -
  have l: "length (window o' n xs) = n" using assms(3) by simp
  have "take (o' + n) (blit b o' (window o' n xs)) = take o' xs @ window o' n xs"
    using assms l by (simp add: blit_def min_def)
  then show "take (o' + n) (blit b o' (window o' n xs)) = take (o' + n) xs"
    by (simp add: window_def take_add)
  show "length (blit b o' (window o' n xs)) = length xs"
    using assms l by (simp add: length_blit)
qed

text \<open>
  The sender behind the start segment with \<open>remain\<close> bytes to go, and a receiver that has
  the bytes so far: the remaining packets complete the message and hand it to the message
  handler.
\<close>

definition rx_ready :: "bytes \<Rightarrow> nat \<Rightarrow> u8 \<Rightarrow> bcwl_env_t \<Rightarrow> bool" where
  "rx_ready msg done seq r \<longleftrightarrow> recv_seq r = seq \<and> handshake_success r
     \<and> unat (offset r) = done \<and> unat (total_len r) = length msg
     \<and> (\<exists>b. recv_buf r = Some b \<and> length b = length msg \<and> take done b = take done msg)"

definition deliver ::
    "(bytes \<Rightarrow> u16) \<Rightarrow> (nat \<Rightarrow> bool) \<Rightarrow> u16 \<Rightarrow> app_handler \<Rightarrow> u8 \<Rightarrow> bytes \<Rightarrow> bcwl_env_t \<Rightarrow> bcwl_env_t run" where
  "deliver crc alloc mtu app opcode msg r =
     bind_run (bcwl_msg_handler crc alloc mtu app opcode msg r)
       (\<lambda>s2. Some (Ok (s2\<lparr>offset := 0, recv_buf := None\<rparr>)))"

lemma send_rest:
  fixes msg :: bytes and len remain :: u16
  assumes "len = of_nat (length msg)" "length msg \<le> 512"
    and "unat remain < length msg" "0 < unat remain"
    and "3 \<le> unat (frag_size s)" "unat (frag_size s) < length msg" "ntf_cfg s \<noteq> 0" "\<And>n. alloc n"
    and "rx_ready msg (length msg - unat remain) (send_seq s) r"
  shows "\<exists>pkts s' r'. send_loop crc alloc opcode msg len remain s = Some (Ok s')
    \<and> ntf_out s' = ntf_out s @ pkts
    \<and> feed crc alloc mtu app pkts r = deliver crc alloc mtu app opcode msg r'
    \<and> (\<exists>off. r' = r\<lparr>recv_seq := send_seq s', recv_buf := Some msg, offset := off\<rparr>)"
  using assms
proof (induction "unat remain" arbitrary: remain s r rule: less_induct)
  case less
  let ?L = "length msg" and ?f = "unat (frag_size s)" and ?m = "unat remain"
  have len: "unat len = ?L" using less.prems(1,2) by (simp add: unat_of_nat take_bit_nat_eq_self)
  have off: "unat (len - remain) = ?L - ?m"
    using less.prems(3) by (simp add: unat_sub word_le_nat_alt len)
  have ne: "remain \<noteq> 0" "remain \<noteq> len" using less.prems(3,4) len by auto
  have fl: "\<not> len \<le> ucast (frag_size s)" using less.prems(6) by (simp add: word_le_nat_alt len)
  obtain b where b: "recv_buf r = Some b" "length b = ?L" "take (?L - ?m) b = take (?L - ?m) msg"
    and r: "recv_seq r = send_seq s" "handshake_success r" "unat (offset r) = ?L - ?m"
      "unat (total_len r) = ?L"
    using less.prems(9) by (auto simp: rx_ready_def)
  have o0: "offset r \<noteq> 0" using r(3) less.prems(3) by (auto simp: unat_eq_zero)
  show ?case
  proof (cases "?f < ?m")
    case True
    let ?p = "window (?L - ?m) ?f msg"
    let ?s = "emit crc 0 opcode ?p s"
    let ?r = "r\<lparr>recv_seq := send_seq s + 1, recv_buf := Some (blit b (?L - ?m) ?p),
      offset := offset r + of_nat ?f\<rparr>"
    have rm: "unat (remain - ucast (frag_size s)) = ?m - ?f"
      using True by (simp add: unat_sub word_le_nat_alt)
    have p: "length ?p = ?f" "length ?p < 256" using True less.prems(3) by auto
    have "send_loop crc alloc opcode msg len remain s =
        send_loop crc alloc opcode msg len (remain - ucast (frag_size s)) ?s"
      using True ne less.prems(8) by (subst send_loop.simps) (simp add: word_less_nat_alt off)
    moreover have "unat (offset r + of_nat ?f) = ?L - ?m + ?f"
      using less.prems(2,3) True r(3)
      by (simp add: unat_word_ariths unat_of_nat take_bit_nat_eq_self)
    then have rd: "rx_ready msg (?L - (?m - ?f)) (send_seq ?s) ?r"
      using blit_prefix [OF b(3,2), of ?f] b r True less.prems(3,7)
      by (auto simp: rx_ready_def emit_fields)
    moreover have "bcwl_receive crc alloc mtu app (packet crc 0 (send_seq s) opcode ?p) r = Some (Ok ?r)"
      using receive_packet [of r opcode "send_seq s" 0 ?p crc alloc mtu app]
        segment_packet(3) [OF p(2) refl, of 0 "r\<lparr>recv_seq := send_seq s + 1\<rparr>" b crc alloc mtu app "send_seq s" opcode]
        r b o0 p True less.prems(3) by (simp add: BCWL_FLAG_REQ_ACK_MASK_def)
    moreover have h: "?m - ?f < ?L" "0 < ?m - ?f" using less.prems(3) True by linarith+
    moreover obtain pkts s' r' where
      "send_loop crc alloc opcode msg len (remain - ucast (frag_size s)) ?s = Some (Ok s')"
      "ntf_out s' = ntf_out ?s @ pkts"
      "feed crc alloc mtu app pkts ?r = deliver crc alloc mtu app opcode msg r'"
      "\<exists>off. r' = ?r\<lparr>recv_seq := send_seq s', recv_buf := Some msg, offset := off\<rparr>"
      using less.hyps [of "remain - ucast (frag_size s)" ?s ?r, unfolded rm] less.prems True rd h
      by (simp add: emit_fields) blast
    ultimately show ?thesis
      using less.prems(7)
      by (intro exI [of _ "packet crc 0 (send_seq s) opcode ?p # pkts"]) (auto simp: emit_fields)
  next
    case False
    let ?p = "window (?L - ?m) ?m msg"
    let ?s = "emit crc 2 opcode ?p s"
    have p: "length ?p = ?m" "length ?p < 256"
      using False less.prems(3) unat_u8_lt [of "frag_size s"] by (auto simp del: unat_u8_lt)
    have "blit b (?L - ?m) ?p = msg"
      using blit_prefix [OF b(3,2), of ?m] less.prems(3) by simp
    then have rc: "feed crc alloc mtu app [packet crc 2 (send_seq s) opcode ?p] r =
        deliver crc alloc mtu app opcode msg (r\<lparr>recv_seq := send_seq s + 1, recv_buf := Some msg\<rparr>)"
      unfolding feed_one
      using receive_packet [of r opcode "send_seq s" 2 ?p crc alloc mtu app]
        segment_packet(4) [OF p(2) refl, of 2 "r\<lparr>recv_seq := send_seq s + 1\<rparr>" b crc alloc mtu app "send_seq s" opcode]
        r b o0 p less.prems(3) by (simp add: BCWL_FLAG_REQ_ACK_MASK_def deliver_def)
    have sd: "send_loop crc alloc opcode msg len remain s = Some (Ok ?s)"
      using False ne fl less.prems(8)
      by (subst send_loop.simps)
        (simp add: word_less_nat_alt off BCWL_FLAG_END_MASK_def)
    have ns: "ntf_out ?s = ntf_out s @ [packet crc 2 (send_seq s) opcode ?p]"
      "send_seq ?s = send_seq s + 1"
      using less.prems(7) by (simp_all add: emit_fields)
    have "r\<lparr>recv_seq := send_seq s + 1, recv_buf := Some msg\<rparr> =
        r\<lparr>recv_seq := send_seq ?s, recv_buf := Some msg, offset := offset r\<rparr>"
      by (simp add: ns(2))
    with sd ns(1) rc show ?thesis by blast
  qed
qed

lemma word16_bytes: "length msg \<le> 512 \<Longrightarrow> unat (of_nat (length msg) :: u16) = length msg"
  by (simp add: unat_of_nat take_bit_nat_eq_self)

text \<open>The start segment and what the receiver holds after it.\<close>

lemma send_start:
  assumes len: "length msg \<le> 512" "unat (frag_size s) < length msg" and f: "3 \<le> unat (frag_size s)"
    and al: "\<And>n. alloc n" and n: "ntf_cfg s \<noteq> 0"
    and r: "handshake_success r" "recv_seq r = send_seq s" "offset r = 0"
  defines "L \<equiv> of_nat (length msg) :: u16" and "k \<equiv> unat (frag_size s) - 2"
  shows "\<exists>d r1. send_loop crc alloc opcode msg L L s =
      send_loop crc alloc opcode msg L (L - of_nat k)
        (s\<lparr>send_seq := send_seq s + 1, ntf_out := ntf_out s @ [d]\<rparr>)
    \<and> bcwl_receive crc alloc mtu app d r = Some (Ok r1)
    \<and> rx_ready msg k (send_seq s + 1) r1
    \<and> (\<exists>b off. r1 = r\<lparr>recv_seq := send_seq s + 1, total_len := L, recv_buf := b, offset := off\<rparr>)"
proof -
  have L: "unat L = length msg" using len(1) by (simp add: L_def word16_bytes)
  let ?c = "take k msg"
  let ?p = "le16_bytes L @ ?c"
  let ?d = "packet crc 1 (send_seq s) opcode ?p"
  let ?r = "r\<lparr>recv_seq := send_seq s + 1, total_len := L,
      recv_buf := Some (blit (replicate (length msg) 0) 0 ?c), offset := of_nat k\<rparr>"
  have k: "k < length msg" "0 < k" "k < 254"
    using len(2) f unat_u8_lt [of "frag_size s"] by (auto simp: k_def simp del: unat_u8_lt)
  have p: "length ?p < 256" using k by (simp add: le16_bytes_def)
  have uk: "unat (of_nat k :: u16) = k" using k by (simp add: unat_of_nat take_bit_nat_eq_self)
  have "ucast (frag_size s) - 2 = (of_nat k :: u16)"
    using f uk by (simp add: word_unat_eq_iff unat_sub word_le_nat_alt k_def)
  moreover have "\<not> frag_size s < 2" "L \<noteq> 0"
    using f L len k by (auto simp: word_less_nat_alt)
  ultimately have "send_loop crc alloc opcode msg L L s = send_loop crc alloc opcode msg L (L - of_nat k)
        (s\<lparr>send_seq := send_seq s + 1, ntf_out := ntf_out s @ [?d]\<rparr>)"
    using al n len(2) L
    by (subst send_loop.simps)
      (simp add: word_less_nat_alt emit_fields BCWL_FLAG_BEGIN_MASK_def window_def le16_bytes_def k_def)
  moreover have "bcwl_receive crc alloc mtu app ?d r = Some (Ok ?r)"
    using receive_packet [of r opcode "send_seq s" 1 ?p crc alloc mtu app]
      segment_packet(2) [OF p refl, of 1 "r\<lparr>recv_seq := send_seq s + 1\<rparr>" "length msg" ?c alloc crc mtu app]
      r p len(1) al k by (simp add: BCWL_FLAG_REQ_ACK_MASK_def L_def min_def)
  moreover have "rx_ready msg k (send_seq s + 1) ?r"
    using r(1) L uk k by (simp add: rx_ready_def blit_def)
  ultimately show ?thesis by blast
qed

text \<open>
  C9: a message of 1 to 512 bytes that a connected peer may receive is sent completely, and
  a receiver at the same sequence number, with no message half received, puts the packets
  together to exactly that message and hands it, once, to its message handler with the
  opcode; the sequence numbers agree again afterwards. This holds for every CRC routine and
  every fragment size from 3 up.
\<close>

theorem bcwl_fragmentation_roundtrip:
  assumes "0 < length msg" "length msg \<le> 512" "length msg \<le> unat (peer_recv_size s)"
    and "3 \<le> unat (frag_size s)" "ntf_cfg s \<noteq> 0" "\<And>n. alloc n"
    and "handshake_success r" "recv_seq r = send_seq s" "offset r = 0"
  shows "\<exists>pkts s'. bcwl_send crc alloc opcode msg s = Some (Ok s') \<and> ntf_out s' = ntf_out s @ pkts
    \<and> (if length msg \<le> unat (frag_size s)
       then feed crc alloc mtu app pkts r =
         bcwl_msg_handler crc alloc mtu app opcode msg (r\<lparr>recv_seq := send_seq s'\<rparr>)
       else \<exists>off. feed crc alloc mtu app pkts r =
         deliver crc alloc mtu app opcode msg (r\<lparr>recv_seq := send_seq s',
           total_len := of_nat (length msg), recv_buf := Some msg, offset := off\<rparr>))"
proof -
  define L :: u16 where "L = of_nat (length msg)"
  have L: "unat L = length msg" using assms(2) by (simp add: L_def word16_bytes)
  have start: "bcwl_send crc alloc opcode msg s = send_loop crc alloc opcode msg L L s"
    using assms(3) L by (simp add: bcwl_send_def L_def [symmetric] word_less_nat_alt)
  show ?thesis
  proof (cases "length msg \<le> unat (frag_size s)")
    case True
    let ?d = "packet crc 3 (send_seq s) opcode msg"
    have m: "length msg < 256" using True unat_u8_lt [of "frag_size s"] by (simp del: unat_u8_lt)
    have "send_loop crc alloc opcode msg L L s =
        Some (Ok (s\<lparr>send_seq := send_seq s + 1, ntf_out := ntf_out s @ [?d]\<rparr>))"
      using True L assms
      by (subst send_loop.simps)
        (auto simp: word_less_nat_alt word_le_nat_alt emit_fields BCWL_FLAG_BEGIN_MASK_def
          BCWL_FLAG_END_MASK_def window_def unat_eq_zero)
    moreover have "feed crc alloc mtu app [?d] r =
        bcwl_msg_handler crc alloc mtu app opcode msg (r\<lparr>recv_seq := send_seq s + 1\<rparr>)"
      unfolding feed_one
      using receive_packet [of r opcode "send_seq s" 3 msg crc alloc mtu app]
        segment_packet(1) [OF m refl, of 3 crc alloc mtu app "send_seq s" opcode] assms m
      by (simp add: BCWL_FLAG_REQ_ACK_MASK_def)
    ultimately show ?thesis using True start by auto
  next
    case False
    define k where "k = unat (frag_size s) - 2"
    define s1 where "s1 d = s\<lparr>send_seq := send_seq s + 1, ntf_out := ntf_out s @ [d]\<rparr>" for d
    obtain d r1 b off where d: "send_loop crc alloc opcode msg L L s =
          send_loop crc alloc opcode msg L (L - of_nat k) (s1 d)"
        "bcwl_receive crc alloc mtu app d r = Some (Ok r1)" "rx_ready msg k (send_seq s + 1) r1"
        "r1 = r\<lparr>recv_seq := send_seq s + 1, total_len := L, recv_buf := b, offset := off\<rparr>"
      using send_start [of msg s alloc r crc opcode mtu app] assms False
      unfolding L_def k_def s1_def by force
    have k: "k < length msg" "0 < k" "k < 256"
      using False assms(4) unat_u8_lt [of "frag_size s"] by (auto simp: k_def simp del: unat_u8_lt)
    then have rm: "unat (L - of_nat k) = length msg - k"
      by (simp add: unat_sub word_le_nat_alt L unat_of_nat take_bit_nat_eq_self)
    have "\<exists>pkts s' r'. send_loop crc alloc opcode msg L (L - of_nat k) (s1 d) = Some (Ok s')
        \<and> ntf_out s' = ntf_out (s1 d) @ pkts
        \<and> feed crc alloc mtu app pkts r1 = deliver crc alloc mtu app opcode msg r'
        \<and> (\<exists>off. r' = r1\<lparr>recv_seq := send_seq s', recv_buf := Some msg, offset := off\<rparr>)"
      using assms False k d(3) rm by (intro send_rest) (auto simp: L_def s1_def)
    then obtain pkts s' off' where p: "send_loop crc alloc opcode msg L (L - of_nat k) (s1 d) = Some (Ok s')"
        "ntf_out s' = ntf_out (s1 d) @ pkts"
        "feed crc alloc mtu app pkts r1 = deliver crc alloc mtu app opcode msg
          (r1\<lparr>recv_seq := send_seq s', recv_buf := Some msg, offset := off'\<rparr>)"
      by blast
    have "feed crc alloc mtu app (d # pkts) r = deliver crc alloc mtu app opcode msg
        (r\<lparr>recv_seq := send_seq s', total_len := L, recv_buf := Some msg, offset := off'\<rparr>)"
    proof -
      have "r1\<lparr>recv_seq := send_seq s', recv_buf := Some msg, offset := off'\<rparr> =
          r\<lparr>recv_seq := send_seq s', total_len := L, recv_buf := Some msg, offset := off'\<rparr>"
        unfolding d(4) by (rule bcwl_env_t.equality) simp_all
      then show ?thesis using p(3) d(2) by simp
    qed
    moreover have "ntf_out s' = ntf_out s @ d # pkts" using p(2) by (simp add: s1_def)
    ultimately show ?thesis
      using False start d(1) p(1) L_def by auto
  qed
qed

definition bc_idle :: bcwl_env_t where
  "bc_idle = \<lparr>bc_mode = 1, conn_id = 0, adv_idx = 0, remove_after_stop = False, ntf_cfg = 1,
     adv_state = BLE_ADV_STATE_START, recv_seq = 7, send_seq = 7, recv_buf = None, total_len = 0, offset = 0,
     frag_size = 14, peer_recv_size = 512, handshake_success = True, ntf_out = []\<rparr>"

theorem bcwl_fragmentation_roundtrip_witness:
  "\<exists>pkts s' off. bcwl_send (\<lambda>b. of_nat (length b)) (\<lambda>_. True) 0x40 (replicate 40 9) bc_idle = Some (Ok s')
     \<and> ntf_out s' = pkts
     \<and> feed (\<lambda>b. of_nat (length b)) (\<lambda>_. True) 23 (\<lambda>_ _ s. Some (Ok s)) pkts bc_idle =
       deliver (\<lambda>b. of_nat (length b)) (\<lambda>_. True) 23 (\<lambda>_ _ s. Some (Ok s)) 0x40 (replicate 40 9)
         (bc_idle\<lparr>recv_seq := send_seq s', total_len := 40, recv_buf := Some (replicate 40 9), offset := off\<rparr>)"
  using bcwl_fragmentation_roundtrip [where msg = "replicate 40 9" and s = bc_idle and r = bc_idle
      and alloc = "\<lambda>_. True" and crc = "\<lambda>b. of_nat (length b)" and opcode = "0x40" and mtu = 23
      and app = "\<lambda>_ _ s. Some (Ok s)"]
  by (auto simp: bc_idle_def)

section \<open>Sending ends, or not\<close>

lemma send_loop_ends:
  assumes "3 \<le> unat (frag_size s)" and "\<And>n. alloc n" and "unat remain \<le> unat len"
  shows "\<exists>q out. send_loop crc alloc opcode data len remain s = Some (Ok (s\<lparr>send_seq := q, ntf_out := out\<rparr>))"
  using assms
proof (induction "unat remain" arbitrary: remain s rule: less_induct)
  case less
  have em: "\<exists>q out. emit crc fl opcode p s = s\<lparr>send_seq := q, ntf_out := out\<rparr>" for fl p
  proof (cases "ntf_cfg s = 0")
    case True
    then have "emit crc fl opcode p s = s\<lparr>send_seq := send_seq s + 1, ntf_out := ntf_out s\<rparr>"
      by (simp add: emit_def bcwl_ntf_event_send_def)
    then show ?thesis by blast
  qed (use emit_fields in blast)
  define nx where "nx = (if remain = len then remain - (ucast (frag_size s) - 2) else remain - ucast (frag_size s))"
  show ?case
  proof (cases "remain = 0 \<or> \<not> ucast (frag_size s) < remain")
    case True
    have "s = s\<lparr>send_seq := send_seq s, ntf_out := ntf_out s\<rparr>" by simp
    moreover have "send_loop crc alloc opcode data len remain s =
        (if remain = 0 then Some (Ok s)
         else Some (Ok (emit crc ((if len \<le> ucast (frag_size s) then BCWL_FLAG_BEGIN_MASK else 0)
             OR BCWL_FLAG_END_MASK) opcode (window (unat (len - remain)) (unat remain) data) s)))"
    proof (cases "remain = 0")
      case False
      then have "\<not> ucast (frag_size s) < remain" using True by simp
      with False show ?thesis using less.prems(2) by (subst send_loop.simps) simp
    qed simp
    ultimately show ?thesis using em by metis
  next
    case False
    have f: "2 \<le> (ucast (frag_size s) :: u16)" "ucast (frag_size s) \<le> remain" "\<not> frag_size s < 2"
      using less.prems(1) False by (auto simp: word_le_nat_alt word_less_nat_alt)
    then have "unat (ucast (frag_size s) - 2 :: u16) = unat (frag_size s) - 2"
      by (simp add: unat_sub)
    then have nx: "unat nx < unat remain"
      using f less.prems(1) False
      by (auto simp: nx_def unat_sub word_le_nat_alt)
    have "\<exists>fl p. send_loop crc alloc opcode data len remain s =
        send_loop crc alloc opcode data len nx (emit crc fl opcode p s)"
    proof (cases "remain = len")
      case True
      then show ?thesis using False f(3) less.prems(2) unfolding nx_def
        by (subst send_loop.simps) auto
    next
      case ne: False
      then show ?thesis using False less.prems(2) unfolding nx_def
        by (subst send_loop.simps) auto
    qed
    then obtain fl p where st: "send_loop crc alloc opcode data len remain s =
        send_loop crc alloc opcode data len nx (emit crc fl opcode p s)" by blast
    obtain q out where e: "emit crc fl opcode p s = s\<lparr>send_seq := q, ntf_out := out\<rparr>"
      using em by blast
    show ?thesis
      using less.hyps [OF nx, of "s\<lparr>send_seq := q, ntf_out := out\<rparr>"] less.prems nx
      unfolding st e by fastforce
  qed
qed

text \<open>
  A handshake with MTUs of at least 12 on both sides is answered, and leaves a fragment
  size of at most 247 and at least 3, so that every later message can be fragmented, and a
  peer receive size of at most 512.
\<close>

theorem bcwl_handshake_negotiates:
  assumes "\<And>n. alloc n" and "12 \<le> unat h_mtu" "12 \<le> unat gatt_mtu"
  shows "\<exists>s'. bcwl_handle_mgmt_handshake crc alloc gatt_mtu (le16_bytes h_mtu @ le16_bytes h_size) s
      = Some (Ok s')
    \<and> handshake_success s' \<and> unat (frag_size s') = min (min (unat h_mtu) (unat gatt_mtu)) 256 - 9
    \<and> 3 \<le> unat (frag_size s') \<and> unat (frag_size s') \<le> 247
    \<and> unat (peer_recv_size s') = min (unat h_size) 512"
proof -
  define m where "m = min (min (unat h_mtu) (unat gatt_mtu)) 256"
  define rsp :: u16 where "rsp = ucast (co_min (co_min (ucast h_mtu) (ucast gatt_mtu)) BCW_FRAG_MAX_LEN)"
  have m: "12 \<le> m" "m \<le> 256" using assms(2,3) by (auto simp: m_def)
  have "unat (co_min (co_min (ucast h_mtu) (ucast gatt_mtu)) BCW_FRAG_MAX_LEN) = m"
    by (auto simp: co_min_def BCW_FRAG_MAX_LEN_def word_less_nat_alt m_def)
  then have rsp: "unat rsp = m"
    using m by (simp add: rsp_def unsigned_ucast_eq take_bit_nat_eq_self)
  then have fr: "unat (ucast (rsp - 4 - 3 - 2) :: u8) = m - 9"
    using m by (simp add: unsigned_ucast_eq unat_sub word_le_nat_alt take_bit_nat_eq_self)
  have pr: "unat (ucast (co_min (ucast h_size) (of_nat BCW_VALUE_LEN)) :: u16) = min (unat h_size) 512"
  proof -
    have "unat (co_min (ucast h_size) (of_nat BCW_VALUE_LEN)) = min (unat h_size) 512"
      by (auto simp: co_min_def BCW_VALUE_LEN_def word_less_nat_alt)
    then show ?thesis by (simp add: unsigned_ucast_eq take_bit_nat_eq_self)
  qed
  define s1 where "s1 = s\<lparr>peer_recv_size := ucast (co_min (ucast h_size) (of_nat BCW_VALUE_LEN)),
    frag_size := ucast (rsp - 4 - 3 - 2), handshake_success := True\<rparr>"
  have "bcwl_handle_mgmt_handshake crc alloc gatt_mtu (le16_bytes h_mtu @ le16_bytes h_size) s =
      bcwl_send crc alloc OP_HANDSHAKE (le16_bytes rsp @ le16_bytes (of_nat BCW_VALUE_LEN)) s1"
    by (simp add: bcwl_handle_mgmt_handshake_def le16_bytes_def le16_parts Let_def s1_def rsp_def)
  moreover have "3 \<le> unat (frag_size s1)" using fr m by (simp add: s1_def)
  then have "\<exists>q out. bcwl_send crc alloc opc d s1 = Some (Ok (s1\<lparr>send_seq := q, ntf_out := out\<rparr>))" for opc d
  proof (cases "of_nat (length d) > peer_recv_size s1")
    case True
    then have "bcwl_send crc alloc opc d s1 = Some (Ok (s1\<lparr>send_seq := send_seq s1, ntf_out := ntf_out s1\<rparr>))"
      by (simp add: bcwl_send_def)
    then show ?thesis by blast
  qed (simp add: bcwl_send_def Let_def send_loop_ends assms(1))
  ultimately obtain q out where
    "bcwl_handle_mgmt_handshake crc alloc gatt_mtu (le16_bytes h_mtu @ le16_bytes h_size) s =
      Some (Ok (s1\<lparr>send_seq := q, ntf_out := out\<rparr>))"
    by metis
  then show ?thesis using fr pr m by (auto simp: s1_def m_def)
qed

theorem bcwl_handshake_negotiates_witness:
  "\<exists>s'. bcwl_handle_mgmt_handshake (\<lambda>_. 0) (\<lambda>_. True) 247 (le16_bytes 185 @ le16_bytes 1024) bc_idle
     = Some (Ok s') \<and> unat (frag_size s') = 176 \<and> unat (peer_recv_size s') = 512"
  using bcwl_handshake_negotiates [where alloc = "\<lambda>_. True" and crc = "\<lambda>_. 0" and h_mtu = 185
      and h_size = 1024 and gatt_mtu = 247 and s = bc_idle]
  by auto

definition stuck :: "(nat \<Rightarrow> bool) \<Rightarrow> u16 \<Rightarrow> u16 \<Rightarrow> bcwl_env_t \<Rightarrow> bool" where
  "stuck alloc len remain s \<longleftrightarrow> (\<forall>n. alloc n) \<and> frag_size s = 2 \<and> remain = len \<and> 2 < unat len"

lemma send_loop_stuck:
  assumes "send_loop crc alloc opcode data len remain s = Some y"
  shows "\<not> stuck alloc len remain s"
proof (rule send_loop.raw_induct [where P = "\<lambda>_ alloc _ _ len remain s _. \<not> stuck alloc len remain s",
      OF _ assms])
  fix loop crc alloc opcode data len remain s y
  assume ih: "\<And>crc alloc opcode data len remain s y.
      loop crc alloc opcode data len remain s = Some y \<Longrightarrow> \<not> stuck alloc len remain s"
    and body: "(if remain = 0 then Some (Ok s)
      else if ucast (frag_size s) < remain then
        (if \<not> alloc (4 + unat (frag_size s) + 2) then
           (if 1 > peer_recv_size s then Some (Ok s)
            else loop crc alloc OP_ERROR_REPORT [BCWL_ERR_SEND_NO_MEM] 1 1 s)
         else if remain = len then
           (if frag_size s < 2 then Some Bad
            else loop crc alloc opcode data len (remain - (ucast (frag_size s) - 2))
              (emit crc BCWL_FLAG_BEGIN_MASK opcode
                 (ucast (remain AND 0xFF) # ucast (drop_bit 8 remain AND 0xFF)
                    # window (unat (len - remain)) (unat (frag_size s) - 2) data) s))
         else loop crc alloc opcode data len (remain - ucast (frag_size s))
            (emit crc 0 opcode (window (unat (len - remain)) (unat (frag_size s)) data) s))
      else
        (if \<not> alloc (4 + unat remain + 2) then
           (if 1 > peer_recv_size s then Some (Ok s)
            else loop crc alloc OP_ERROR_REPORT [BCWL_ERR_SEND_NO_MEM] 1 1 s)
         else loop crc alloc opcode data len 0
            (emit crc ((if len \<le> ucast (frag_size s) then BCWL_FLAG_BEGIN_MASK else 0)
                 OR BCWL_FLAG_END_MASK) opcode
               (window (unat (len - remain)) (unat remain) data) s))) = Some y"
  show "\<not> stuck alloc len remain s"
  proof
    assume st: "stuck alloc len remain s"
    have fr: "frag_size (emit crc fl op p s) = frag_size s" for fl op p
      by (simp add: emit_def bcwl_ntf_event_send_def)
    have "remain \<noteq> 0" "ucast (frag_size s) < remain" "\<not> frag_size s < 2" "remain = len" "alloc n" for n
      using st by (auto simp: stuck_def word_less_nat_alt)
    with body have "loop crc alloc opcode data len (remain - (ucast (frag_size s) - 2))
              (emit crc BCWL_FLAG_BEGIN_MASK opcode
                 (ucast (remain AND 0xFF) # ucast (drop_bit 8 remain AND 0xFF)
                    # window (unat (len - remain)) (unat (frag_size s) - 2) data) s) = Some y"
      by simp
    from ih [OF this] st show False by (simp add: stuck_def fr)
  qed
qed

text \<open>
  C33: the MTU of the peer is not checked from below. A handshake with MTU 11 sets the
  fragment size to 2, and then sending any message longer than that never ends: the start
  segment carries no byte of the message, so the loop makes no progress.
\<close>

theorem bcwl_send_diverges:
  assumes "frag_size s = 2" and "2 < length msg" "length msg \<le> unat (peer_recv_size s)" and "\<And>n. alloc n"
  shows "bcwl_send crc alloc opcode msg s = None"
proof -
  define L :: u16 where "L = of_nat (length msg)"
  have m: "length msg < 65536" using assms(3) unat_u16_lt [of "peer_recv_size s"] by linarith
  then have L: "unat L = length msg"
    by (simp add: L_def unat_of_nat take_bit_nat_eq_self)
  have "send_loop crc alloc opcode msg L L s \<noteq> Some y" for y
    using send_loop_stuck [of crc alloc opcode msg L L s y] assms L by (auto simp: stuck_def)
  then have "send_loop crc alloc opcode msg L L s = None"
    by (cases "send_loop crc alloc opcode msg L L s") auto
  then show ?thesis
    using assms(3) L by (simp add: bcwl_send_def L_def [symmetric] word_less_nat_alt)
qed

theorem bcwl_send_diverges_witness:
  "bcwl_send (\<lambda>_. 0) (\<lambda>_. True) 0x40 [1, 2, 3] (bc_idle\<lparr>frag_size := 2\<rparr>) = None"
  by (rule bcwl_send_diverges) (simp_all add: bc_idle_def)

text \<open>
  C38: the length of a start segment is not compared with the length it announces. A packet
  with the right CRC and sequence number that announces \<open>tot\<close> bytes and carries more
  makes the receiver write behind the buffer it allocated.
\<close>

theorem bcwl_receive_start_overflow:
  assumes "length c \<le> 253" "tot < length c" and "handshake_success r" "offset r = 0" and "\<And>n. alloc n"
  shows "bcwl_receive crc alloc mtu app
    (packet crc BCWL_FLAG_BEGIN_MASK (recv_seq r) opcode (le16_bytes (of_nat tot) @ c)) r = Some Bad"
proof -
  let ?p = "le16_bytes (of_nat tot) @ c"
  have p: "length ?p = 2 + length c" "length ?p < 256" using assms(1) by (simp_all add: le16_bytes_def)
  let ?d = "packet crc 1 (recv_seq r) opcode ?p"
  note f = packet_fields [where crc = crc and flag = 1 and seq = "recv_seq r" and opcode = opcode,
      OF p(2) refl]
  have l: "length ?d = length c + 8" by (simp add: length_packet p)
  have w0: "window 4 2 ?d = le16_bytes (of_nat tot)"
    using f(7) [of 0 2] p(1) by (simp add: window_def le16_bytes_def)
  have "?d ! 4 = window 4 2 ?d ! 0" "?d ! 5 = window 4 2 ?d ! 1"
    using l by (simp_all add: nth_window)
  then have "le16 (?d ! 4) (?d ! 5) = of_nat tot"
    unfolding w0 by (simp add: le16_bytes_def le16_parts)
  moreover have "unat (of_nat tot :: u16) = tot"
    using assms(1,2) by (simp add: unat_of_nat take_bit_nat_eq_self)
  moreover have "crc (window 1 (5 + length c) ?d) = le16 (?d ! (6 + length c)) (?d ! (7 + length c))"
    using f(6) unfolding p by (simp add: ac_simps)
  moreover have "length (window 6 (length c) ?d) = length c" using l by simp
  ultimately have "receive_segment crc alloc mtu app ?d (r\<lparr>recv_seq := recv_seq r + 1\<rparr>) = Some Bad"
    using assms l f(1,4)
    by (simp add: receive_segment_def Let_def p BCWL_FLAG_BEGIN_MASK_def BCWL_FLAG_END_MASK_def
        copy_in_def BCW_VALUE_LEN_def)
  then show ?thesis
    using receive_packet [of r opcode "recv_seq r" 1 ?p crc alloc mtu app] assms(3) p
    by (simp add: BCWL_FLAG_REQ_ACK_MASK_def BCWL_FLAG_BEGIN_MASK_def)
qed

theorem bcwl_receive_start_overflow_witness:
  "bcwl_receive (\<lambda>_. 0) (\<lambda>_. True) 23 (\<lambda>_ _ s. Some (Ok s))
     (packet (\<lambda>_. 0) BCWL_FLAG_BEGIN_MASK 7 0x40 (le16_bytes (of_nat 1) @ replicate 200 65)) bc_idle = Some Bad"
  using bcwl_receive_start_overflow [where c = "replicate 200 65" and tot = 1 and r = bc_idle
      and alloc = "\<lambda>_. True" and crc = "\<lambda>_. 0" and mtu = 23 and app = "\<lambda>_ _ s. Some (Ok s)"
      and opcode = "0x40"]
  by (simp add: bc_idle_def)

end
