(* ===== verification/Blue_Courier_Prot.thy ===== *)
theory Blue_Courier_Prot
  imports Blue_Courier_Link
begin

text \<open>
  The protocol layer of the provisioning service,
  \<^verbatim>\<open>MSDK/ble/app/app_blue_courier_prot.c\<close>, and the enabling of the profile with its
  advertising and adapter events (end of \<^verbatim>\<open>app_blue_courier_link.c\<close>).

  The Wi-Fi manager and the event loop are outside: every call to them is an entry of
  \<open>calls\<close>, and the parameter \<open>wm\<close> gives the return code of a call. The descrambling
  routine of the BLE library, \<^verbatim>\<open>ble_internal_decode\<close>, is the parameter \<open>decode\<close>. The
  received parameters are a list of bytes; reading behind it, and copying more bytes than a
  local array holds, is \<open>Bad\<close>.
\<close>

section \<open>Model\<close>

datatype wifi_auth = AUTH_MODE_OPEN | AUTH_MODE_WPA2 | AUTH_MODE_WPA3 | AUTH_MODE_WPA2_WPA3

datatype wifi_event =
  WIFI_MGMT_EVENT_DHCP_SUCCESS | WIFI_MGMT_EVENT_SCAN_DONE | WIFI_MGMT_EVENT_SCAN_FAIL

datatype call =
    Event_Register wifi_event
  | Event_Unregister wifi_event
  | Wifi_Scan
  | Wifi_Connect bytes "bytes option"
  | Wifi_Disconnect
  | Wifi_Ap_Start bytes "bytes option" u8 wifi_auth u8
  | Wifi_Ap_Stop

record bcwp =
  bc_link :: bcwl_env_t
  calls :: "call list"


definition MAC_SSID_LEN :: nat where "MAC_SSID_LEN = 32"
definition WPA_MAX_PSK_LEN :: nat where "WPA_MAX_PSK_LEN = 63"

definition call_out :: "call \<Rightarrow> bcwp \<Rightarrow> bcwp" where
  "call_out c s = s\<lparr>calls := calls s @ [c]\<rparr>"

definition respond ::
    "(bytes \<Rightarrow> u16) \<Rightarrow> (nat \<Rightarrow> bool) \<Rightarrow> u8 \<Rightarrow> bytes \<Rightarrow> bcwp \<Rightarrow> bcwp run" where
  "respond crc alloc subtype data s =
     bind_run (bcwl_send crc alloc (BCWL_OPCODE_BUILD 1 subtype) data (bc_link s))
       (\<lambda>l. Some (Ok (s\<lparr>bc_link := l\<rparr>)))"

definition bcwp_wifi_scan :: "(call \<Rightarrow> int) \<Rightarrow> bcwp \<Rightarrow> bcwp" where
  "bcwp_wifi_scan wm s =
     (let s1 = call_out Wifi_Scan (call_out (Event_Register WIFI_MGMT_EVENT_SCAN_FAIL)
            (call_out (Event_Register WIFI_MGMT_EVENT_SCAN_DONE) s))
      in if wm Wifi_Scan = - 1
         then call_out (Event_Unregister WIFI_MGMT_EVENT_SCAN_FAIL)
                (call_out (Event_Unregister WIFI_MGMT_EVENT_SCAN_DONE) s1)
         else s1)"

definition bcwp_cb_scan_fail :: "bcwp \<Rightarrow> bcwp" where
  "bcwp_cb_scan_fail s = call_out (Event_Unregister WIFI_MGMT_EVENT_SCAN_FAIL)
     (call_out (Event_Unregister WIFI_MGMT_EVENT_SCAN_DONE) s)"

text \<open>
  The scan list. A scan result is its RSSI byte, its key management suites (a bit mask) and
  its SSID; the packing stops at the first result that does not fit into the 512 bytes.
\<close>

record scan_result =
  sr_rssi :: u8
  sr_akm :: u32
  sr_ssid :: bytes

definition MAC_AKM_WAPI_CERT :: nat where "MAC_AKM_WAPI_CERT = 18"
definition MAC_AKM_WAPI_PSK :: nat where "MAC_AKM_WAPI_PSK = 19"

definition akm_mode :: "u32 \<Rightarrow> u8" where
  "akm_mode akm =
     (if bit akm MAC_AKM_NONE then 0
      else if akm = push_bit MAC_AKM_PRE_RSN 1 then 1
      else if bit akm MAC_AKM_WAPI_CERT \<or> bit akm MAC_AKM_WAPI_PSK then 2
      else if bit akm MAC_AKM_PRE_RSN then 3
      else 4)"

definition entry :: "scan_result \<Rightarrow> bytes" where
  "entry r = [of_nat (length (sr_ssid r)) + 2, sr_rssi r, akm_mode (sr_akm r)] @ sr_ssid r"

fun pack_scan :: "scan_result list \<Rightarrow> bytes \<Rightarrow> bytes" where
  "pack_scan [] out = out"
| "pack_scan (r # rs) out =
     (if sr_ssid r = [] then pack_scan rs out
      else if BCW_VALUE_LEN < length out + length (sr_ssid r) + 3 then out
      else pack_scan rs (out @ entry r))"

text \<open>\<open>results\<close>: \<open>None\<close> when the allocation or the query of the results fails.\<close>

definition bcwp_wifi_scan_list_get ::
    "(bytes \<Rightarrow> u16) \<Rightarrow> (nat \<Rightarrow> bool) \<Rightarrow> scan_result list option \<Rightarrow> bcwp \<Rightarrow> bcwp run" where
  "bcwp_wifi_scan_list_get crc alloc results s =
     (case results of
        None \<Rightarrow> Some (Ok s)
      | Some rs \<Rightarrow> respond crc alloc 1 (pack_scan rs []) s)"

definition bcwp_cb_scan_done ::
    "(bytes \<Rightarrow> u16) \<Rightarrow> (nat \<Rightarrow> bool) \<Rightarrow> scan_result list option \<Rightarrow> bcwp \<Rightarrow> bcwp run" where
  "bcwp_cb_scan_done crc alloc results s =
     bind_run (bcwp_wifi_scan_list_get crc alloc results s) (\<lambda>s1. Some (Ok (bcwp_cb_scan_fail s1)))"

definition bcwp_wifi_connect_success :: "(bytes \<Rightarrow> u16) \<Rightarrow> (nat \<Rightarrow> bool) \<Rightarrow> bcwp \<Rightarrow> bcwp run" where
  "bcwp_wifi_connect_success crc alloc s =
     respond crc alloc 2 [0] (call_out (Event_Unregister WIFI_MGMT_EVENT_DHCP_SUCCESS) s)"

text \<open>
  The common parse of \<open>bcwp_wifi_connect\<close> and \<open>bcwp_wifi_ap_start\<close>: SSID and password
  behind their length bytes and \<open>extra\<close> more bytes. \<open>Some None\<close> is the jump to the exit;
  \<open>None\<close> an access outside the data or the local arrays.
\<close>

definition parse_credentials :: "nat \<Rightarrow> bytes \<Rightarrow> (bytes \<times> bytes option \<times> nat) option option" where
  "parse_credentials extra d =
     (let len = length d; ssid_len = unat (d ! 0) in
      if len < ssid_len \<or> WPA_MAX_PSK_LEN < ssid_len then Some None
      else if len \<le> ssid_len + 1 then None
      else
        let password_len = unat (d ! (ssid_len + 1)) in
        if ssid_len + password_len + extra \<noteq> len \<or> WPA_MAX_PSK_LEN < password_len then Some None
        else if MAC_SSID_LEN + 1 < ssid_len + 1 then None
        else Some (Some (window 1 ssid_len d,
               if password_len \<noteq> 0 then Some (window (ssid_len + 2) password_len d) else None,
               ssid_len + password_len + 2)))"

definition bcwp_wifi_connect ::
    "(bytes \<Rightarrow> u16) \<Rightarrow> (nat \<Rightarrow> bool) \<Rightarrow> (call \<Rightarrow> int) \<Rightarrow> (bytes \<Rightarrow> u8 \<Rightarrow> bytes) \<Rightarrow> bytes \<Rightarrow> bcwp \<Rightarrow> bcwp run" where
  "bcwp_wifi_connect crc alloc wm decode data s =
     (if data = [] then respond crc alloc 2 [1] s
      else
        let d = decode (butlast data) (last data) @ [last data] in
        case parse_credentials 3 d of
          None \<Rightarrow> Some Bad
        | Some None \<Rightarrow> respond crc alloc 2 [1] s
        | Some (Some (ssid, password, _)) \<Rightarrow>
            let c = Wifi_Connect ssid password;
                s1 = call_out c (call_out (Event_Register WIFI_MGMT_EVENT_DHCP_SUCCESS) s)
            in if wm c \<noteq> 0 then respond crc alloc 2 [1] s1 else Some (Ok s1))"

definition bcwp_wifi_disconnect :: "(bytes \<Rightarrow> u16) \<Rightarrow> (nat \<Rightarrow> bool) \<Rightarrow> bcwp \<Rightarrow> bcwp run" where
  "bcwp_wifi_disconnect crc alloc s = respond crc alloc 3 [0] (call_out Wifi_Disconnect s)"

definition bcwp_wifi_ap_start ::
    "(bytes \<Rightarrow> u16) \<Rightarrow> (nat \<Rightarrow> bool) \<Rightarrow> (call \<Rightarrow> int) \<Rightarrow> (bytes \<Rightarrow> u8 \<Rightarrow> bytes) \<Rightarrow> bytes \<Rightarrow> bcwp \<Rightarrow> bcwp run" where
  "bcwp_wifi_ap_start crc alloc wm decode data s =
     (if data = [] then respond crc alloc 4 [1] s
      else
        let d = decode (butlast data) (last data) @ [last data] in
        case parse_credentials 6 d of
          None \<Rightarrow> Some Bad
        | Some None \<Rightarrow> respond crc alloc 4 [1] s
        | Some (Some (ssid, password, p)) \<Rightarrow>
            let auth = (if d ! (p + 1) = 0 then AUTH_MODE_OPEN
                        else if d ! (p + 1) = 1 then AUTH_MODE_WPA2
                        else if d ! (p + 1) = 2 then AUTH_MODE_WPA3 else AUTH_MODE_WPA2_WPA3);
                c = Wifi_Ap_Start ssid password (d ! p) auth (d ! (p + 2))
            in respond crc alloc 4 [if wm c \<noteq> 0 then 1 else 0] (call_out c s))"

definition bcwp_wifi_ap_stop ::
    "(bytes \<Rightarrow> u16) \<Rightarrow> (nat \<Rightarrow> bool) \<Rightarrow> (call \<Rightarrow> int) \<Rightarrow> bcwp \<Rightarrow> bcwp run" where
  "bcwp_wifi_ap_stop crc alloc wm s =
     respond crc alloc 5 [if wm Wifi_Ap_Stop = 0 then 0 else 1] (call_out Wifi_Ap_Stop s)"

text \<open>
  The debug print of custom data: the loop variable is 8 bits wide and is compared with the
  16-bit length. The model counts the bytes printed.
\<close>

partial_function (option) print_loop :: "u16 \<Rightarrow> u8 \<Rightarrow> nat \<Rightarrow> nat option" where
  "print_loop len i printed =
     (if ucast i < len then print_loop len (i + 1) (printed + 1) else Some printed)"

text \<open>
  The dispatcher. \<open>status\<close> is the content of \<^verbatim>\<open>bcwp_wifi_status_t\<close> as
  \<^verbatim>\<open>bcwp_wifi_status_get\<close> collects it from the Wi-Fi interface.
\<close>

definition bcwp_msg_handler ::
    "(bytes \<Rightarrow> u16) \<Rightarrow> (nat \<Rightarrow> bool) \<Rightarrow> (call \<Rightarrow> int) \<Rightarrow> (bytes \<Rightarrow> u8 \<Rightarrow> bytes) \<Rightarrow> bytes
       \<Rightarrow> u8 \<Rightarrow> bytes \<Rightarrow> bcwp \<Rightarrow> bcwp run" where
  "bcwp_msg_handler crc alloc wm decode status subtype data s =
     (if subtype = 1 then Some (Ok (bcwp_wifi_scan wm s))
      else if subtype = 2 then bcwp_wifi_connect crc alloc wm decode data s
      else if subtype = 3 then bcwp_wifi_disconnect crc alloc s
      else if subtype = 4 then bcwp_wifi_ap_start crc alloc wm decode data s
      else if subtype = 5 then bcwp_wifi_ap_stop crc alloc wm s
      else if subtype = 6 then respond crc alloc 6 status s
      else if subtype = 0
      then (case print_loop (of_nat (length data)) 0 0 of None \<Rightarrow> None | Some _ \<Rightarrow> Some (Ok s))
      else Some (Ok s))"

section \<open>Credentials\<close>

definition credentials :: "bytes \<Rightarrow> bytes \<Rightarrow> bytes \<Rightarrow> bytes" where
  "credentials ssid password rest =
     of_nat (length ssid) # ssid @ of_nat (length password) # password @ rest"

lemma parse_credentials_ok:
  assumes "length ssid \<le> 32" "length password \<le> 63"
  shows "parse_credentials (length rest + 2) (credentials ssid password rest) =
    Some (Some (ssid, if password = [] then None else Some password,
      length ssid + length password + 2))"
proof -
  let ?d = "credentials ssid password rest"
  have d0: "unat (?d ! 0) = length ssid"
    using assms by (simp add: credentials_def unat_of_nat take_bit_nat_eq_self)
  have "?d ! (length ssid + 1) = of_nat (length password)"
    by (simp add: credentials_def nth_append)
  then have d1: "unat (?d ! (length ssid + 1)) = length password"
    using assms by (simp add: unat_of_nat take_bit_nat_eq_self)
  have "window 1 (length ssid) ?d = ssid"
    by (simp add: credentials_def window_def)
  moreover have "window (length ssid + 2) (length password) ?d = password"
    by (simp add: credentials_def window_def)
  moreover have "length ?d = length ssid + length password + 2 + length rest"
    by (simp add: credentials_def)
  ultimately show ?thesis
    using assms d0 d1
    by (simp add: parse_credentials_def Let_def WPA_MAX_PSK_LEN_def MAC_SSID_LEN_def)
qed

text \<open>
  C30: for every descrambling routine, a connect request whose payload decodes to an SSID of
  up to 32 bytes and a password of up to 63 bytes with matching lengths asks the Wi-Fi
  manager to connect with exactly that SSID and password (no password when it is empty) after
  registering for the DHCP event, and answers only if the manager refuses.
\<close>

theorem bcwp_wifi_connect_parses:
  assumes "length ssid \<le> 32" "length password \<le> 63"
    and "decode (butlast data) (last data) @ [last data] = credentials ssid password [rnd]" "data \<noteq> []"
    and "c = Wifi_Connect ssid (if password = [] then None else Some password)"
    and "s1 = s\<lparr>calls := calls s @ [Event_Register WIFI_MGMT_EVENT_DHCP_SUCCESS, c]\<rparr>"
  shows "bcwp_wifi_connect crc alloc wm decode data s =
    (if wm c = 0 then Some (Ok s1) else respond crc alloc 2 [1] s1)"
proof -
  have "length [rnd] + 2 = 3" by simp
  from parse_credentials_ok [OF assms(1,2), of "[rnd]", unfolded this] show ?thesis
    using assms by (simp add: bcwp_wifi_connect_def Let_def call_out_def)
qed

definition bcwp_idle :: bcwp where
  "bcwp_idle = \<lparr>bc_link = bc_idle, calls = []\<rparr>"

theorem bcwp_wifi_connect_parses_witness:
  "bcwp_wifi_connect (\<lambda>_. 0) (\<lambda>_. True) (\<lambda>_. 0) (\<lambda>d _. d) (credentials [97, 112] [49, 50] [5]) bcwp_idle =
     Some (Ok (bcwp_idle\<lparr>calls := [Event_Register WIFI_MGMT_EVENT_DHCP_SUCCESS, Wifi_Connect [97, 112] (Some [49, 50])]\<rparr>))"
proof -
  have "butlast (credentials [97, 112] [49, 50] [5]) @ [last (credentials [97, 112] [49, 50] [5])] =
      credentials [97, 112] [49, 50] [5]"
    by (simp add: credentials_def)
  then show ?thesis
    using bcwp_wifi_connect_parses [of "[97, 112]" "[49, 50]" "\<lambda>d _. d" "credentials [97, 112] [49, 50] [5]" 5
        _ _ bcwp_idle "\<lambda>_. 0" "\<lambda>_. True" "\<lambda>_. 0"]
    by (simp add: credentials_def bcwp_idle_def)
qed

text \<open>
  C39: the SSID length is compared with the limit of the password (63), not with the 32 bytes
  of the SSID array: a well-formed request with an SSID of 33 to 63 bytes overruns the local
  array.
\<close>

theorem bcwp_wifi_connect_ssid_overflow:
  assumes "32 < length ssid" "length ssid \<le> 63" "length password \<le> 63"
    and "decode (butlast data) (last data) @ [last data] = credentials ssid password [rnd]" "data \<noteq> []"
  shows "bcwp_wifi_connect crc alloc wm decode data s = Some Bad"
proof -
  let ?d = "credentials ssid password [rnd]"
  have d0: "unat (?d ! 0) = length ssid"
    using assms by (simp add: credentials_def unat_of_nat take_bit_nat_eq_self)
  have "?d ! (length ssid + 1) = of_nat (length password)"
    by (simp add: credentials_def nth_append)
  then have d1: "unat (?d ! (length ssid + 1)) = length password"
    using assms by (simp add: unat_of_nat take_bit_nat_eq_self)
  have "parse_credentials 3 ?d = None"
    using assms d0 d1
    by (simp add: parse_credentials_def Let_def WPA_MAX_PSK_LEN_def MAC_SSID_LEN_def credentials_def)
  then show ?thesis using assms by (simp add: bcwp_wifi_connect_def)
qed

theorem bcwp_wifi_connect_ssid_overflow_witness:
  "bcwp_wifi_connect (\<lambda>_. 0) (\<lambda>_. True) (\<lambda>_. 0) (\<lambda>d _. d)
     (credentials (replicate 40 97) [] [5]) bcwp_idle = Some Bad"
  by (rule bcwp_wifi_connect_ssid_overflow [of "replicate 40 97" "[]" _ _ 5])
    (simp_all add: credentials_def butlast_append)

section \<open>Custom data\<close>

lemma print_loop_short:
  "n \<le> 255 \<Longrightarrow> unat i \<le> n \<Longrightarrow> print_loop (of_nat n) i p = Some (p + (n - unat i))"
proof (induction "n - unat i" arbitrary: i p)
  case 0
  then show ?case
    by (subst print_loop.simps) (simp add: word_less_nat_alt unat_of_nat take_bit_nat_eq_self)
next
  case (Suc k)
  then have i: "unat i < n" "unat (i + 1) = unat i + 1"
    by (simp_all add: unat_word_ariths)
  then have "print_loop (of_nat n) (i + 1) (p + 1) = Some (p + 1 + (n - unat (i + 1)))"
    using Suc.prems Suc.hyps(2) by (intro Suc.hyps(1)) auto
  moreover have "print_loop (of_nat n) i p = print_loop (of_nat n) (i + 1) (p + 1)"
    using i Suc.prems
    by (subst print_loop.simps) (simp add: word_less_nat_alt unat_of_nat take_bit_nat_eq_self)
  ultimately show ?case using i by simp
qed

lemma print_loop_stuck:
  assumes "print_loop len i p = Some q"
  shows "unat len < 256"
proof (rule print_loop.raw_induct [where P = "\<lambda>len _ _ _. unat len < 256", OF _ assms])
  fix loop :: "u16 \<Rightarrow> u8 \<Rightarrow> nat \<Rightarrow> nat option" and len i p q
  assume "\<And>len i p q. loop len i p = Some q \<Longrightarrow> unat len < 256"
    and "(if ucast i < len then loop len (i + 1) (p + 1) else Some p) = Some q"
  moreover have "unat i \<le> 255" by (rule unat_u8_le)
  ultimately show "unat len < 256"
    by (auto simp: word_less_nat_alt not_less split: if_splits)
qed

text \<open>
  C34: the handler of a custom data message returns exactly when the message has fewer than
  256 bytes; a longer one, which the link layer accepts, never leaves the print loop.
\<close>

theorem bcwp_custom_data_returns_iff:
  assumes "length data \<le> 512"
  shows "bcwp_msg_handler crc alloc wm decode status 0 data s = (if length data < 256 then Some (Ok s) else None)"
proof -
  have u: "unat (of_nat (length data) :: u16) = length data"
    using assms by (simp add: unat_of_nat take_bit_nat_eq_self)
  show ?thesis
  proof (cases "length data < 256")
    case True
    then show ?thesis
      using print_loop_short [of "length data" 0 0] by (simp add: bcwp_msg_handler_def)
  next
    case False
    then have "print_loop (of_nat (length data)) 0 0 \<noteq> Some q" for q
      using print_loop_stuck [of "of_nat (length data)" 0 0 q] u by auto
    then have "print_loop (of_nat (length data)) 0 0 = None"
      by (cases "print_loop (of_nat (length data)) 0 0") auto
    then show ?thesis using False by (simp add: bcwp_msg_handler_def)
  qed
qed

theorem bcwp_custom_data_returns_iff_witness:
  "bcwp_msg_handler (\<lambda>_. 0) (\<lambda>_. True) (\<lambda>_. 0) (\<lambda>d _. d) [] 0 (replicate 300 1) bcwp_idle = None"
  using bcwp_custom_data_returns_iff [where data = "replicate 300 1" and crc = "\<lambda>_. 0" and alloc = "\<lambda>_. True"
      and wm = "\<lambda>_. 0" and decode = "\<lambda>d _. d" and status = "[]" and s = bcwp_idle]
  by simp

section \<open>The scan list\<close>

lemma length_entry: "length (entry r) = length (sr_ssid r) + 3"
  by (simp add: entry_def)

lemma pack_scan_bound: "length out \<le> 512 \<Longrightarrow> length (pack_scan rs out) \<le> 512"
  by (induction rs out rule: pack_scan.induct) (auto simp: BCW_VALUE_LEN_def entry_def)

text \<open>Reading the packed list back: length, RSSI, mode and SSID of each entry.\<close>

fun unpack_scan :: "nat \<Rightarrow> bytes \<Rightarrow> (u8 \<times> u8 \<times> bytes) list" where
  "unpack_scan 0 bs = []"
| "unpack_scan (Suc n) bs =
     (if length bs < 3 then []
      else (bs ! 1, bs ! 2, window 3 (unat (bs ! 0) - 2) bs) # unpack_scan n (drop (unat (bs ! 0) + 1) bs))"

lemma pack_scan_entries:
  "\<exists>k. pack_scan rs out = out @ concat (map entry (take k (filter (\<lambda>r. sr_ssid r \<noteq> []) rs)))"
proof (induction rs out rule: pack_scan.induct)
  case (1 out)
  then show ?case by simp
next
  case (2 r rs out)
  show ?case
  proof (cases "sr_ssid r = [] \<or> BCW_VALUE_LEN < length out + length (sr_ssid r) + 3")
    case True
    then show ?thesis using 2 by (auto intro: exI [of _ 0])
  next
    case False
    then obtain k where "pack_scan rs (out @ entry r) =
        (out @ entry r) @ concat (map entry (take k (filter (\<lambda>r. sr_ssid r \<noteq> []) rs)))"
      using 2(2) by auto
    then show ?thesis
      using False by (intro exI [of _ "Suc k"]) simp
  qed
qed

lemma unpack_entry:
  assumes "length (sr_ssid r) \<le> 32"
  shows "unpack_scan (Suc n) (entry r @ bs) = (sr_rssi r, akm_mode (sr_akm r), sr_ssid r) # unpack_scan n bs"
proof -
  have u: "unat (of_nat (length (sr_ssid r)) + 2 :: u8) = length (sr_ssid r) + 2"
    using assms by (simp add: unat_word_ariths unat_of_nat take_bit_nat_eq_self)
  have "unat ((entry r @ bs) ! 0) = length (sr_ssid r) + 2"
    using u by (simp add: entry_def)
  moreover have "window 3 (length (sr_ssid r)) (entry r @ bs) = sr_ssid r"
    by (simp add: entry_def window_def)
  moreover have "drop (length (sr_ssid r) + 2 + 1) (entry r @ bs) = bs"
    by (simp add: entry_def)
  ultimately show ?thesis
    by (simp add: entry_def)
qed

lemma unpack_entries:
  "\<forall>r\<in>set rs. length (sr_ssid r) \<le> 32 \<Longrightarrow>
     unpack_scan (length rs) (concat (map entry rs)) = map (\<lambda>r. (sr_rssi r, akm_mode (sr_akm r), sr_ssid r)) rs"
  by (induction rs) (simp_all add: unpack_entry del: unpack_scan.simps(2))



section \<open>Enabling the profile\<close>

text \<open>
  The profile state around the link environment: whether the BLE stack is up, whether an
  enable request waits for it, and whether the connection callback is registered. The calls
  into the advertising manager are collected in \<open>adv_calls\<close>; the parameters give their
  results.
\<close>

datatype adv_call = Adv_Create | Adv_Start u8 | Adv_Stop u8 | Adv_Remove u8

record bcw_prf =
  prf_env :: bcwl_env_t
  ble_enabled :: bool
  bcwl_enable_pending :: bool
  conn_cb :: bool
  adv_calls :: "adv_call list"

definition adv_call :: "adv_call \<Rightarrow> bcw_prf \<Rightarrow> bcw_prf" where
  "adv_call c p = p\<lparr>adv_calls := adv_calls p @ [c]\<rparr>"

definition zero_env :: "bytes list \<Rightarrow> bcwl_env_t" where
  "zero_env out = \<lparr>bc_mode = 0, conn_id = 0, adv_idx = 0, remove_after_stop = False, ntf_cfg = 0,
     adv_state = BLE_ADV_STATE_IDLE, recv_seq = 0, send_seq = 0, recv_buf = None, total_len = 0,
     offset = 0, frag_size = 0, peer_recv_size = 0, handshake_success = False, ntf_out = out\<rparr>"

definition bcwl_adv_stop :: "int \<Rightarrow> bcw_prf \<Rightarrow> int \<times> bcw_prf" where
  "bcwl_adv_stop rc p =
     (let env = prf_env p in
      if adv_state env = BLE_ADV_STATE_START
      then (rc, adv_call (Adv_Stop (adv_idx env)) (p\<lparr>prf_env := env\<lparr>remove_after_stop := True\<rparr>\<rparr>))
      else if adv_state env \<noteq> BLE_ADV_STATE_IDLE
      then (rc, adv_call (Adv_Remove (adv_idx env)) p)
      else (0, p))"

text \<open>\<open>rc\<close> is the result of the call into the advertising manager, 0 for success.\<close>

definition bcw_prf_enable :: "int \<Rightarrow> u8 \<Rightarrow> bcw_prf \<Rightarrow> int \<times> bcw_prf" where
  "bcw_prf_enable rc enable p =
     (if bc_mode (prf_env p) = enable then (0, p)
      else if enable \<noteq> 0 then
        (if \<not> ble_enabled p then (0, p\<lparr>bcwl_enable_pending := True\<rparr>)
         else
           let p1 = adv_call Adv_Create (p\<lparr>prf_env := zero_env (ntf_out (prf_env p)), conn_cb := True\<rparr>) in
           if rc \<noteq> 0 then (rc, p1\<lparr>conn_cb := False\<rparr>)
           else (rc, p1\<lparr>prf_env := (prf_env p1)\<lparr>bc_mode := enable\<rparr>\<rparr>))
      else
        let (ret, p1) = bcwl_adv_stop rc p in
        if ret \<noteq> 0 then (ret, p1)
        else (ret, p1\<lparr>conn_cb := False, prf_env := (prf_env p1)\<lparr>bc_mode := enable\<rparr>\<rparr>))"

definition bcwl_adv_mgr_evt_hdlr :: "ble_adv_state_t \<Rightarrow> int \<Rightarrow> u8 \<Rightarrow> bcw_prf \<Rightarrow> bcw_prf" where
  "bcwl_adv_mgr_evt_hdlr state reason idx p =
     (let old_state = adv_state (prf_env p);
          p1 = p\<lparr>prf_env := (prf_env p)\<lparr>adv_state := state\<rparr>\<rparr>
      in if state = BLE_ADV_STATE_CREATE \<and> old_state = BLE_ADV_STATE_CREATING
         then adv_call (Adv_Start idx) (p1\<lparr>prf_env := (prf_env p1)\<lparr>adv_idx := idx\<rparr>\<rparr>)
         else if state = BLE_ADV_STATE_CREATE \<and> old_state = BLE_ADV_STATE_START
         then (if remove_after_stop (prf_env p1)
               then adv_call (Adv_Remove (adv_idx (prf_env p1)))
                      (p1\<lparr>prf_env := (prf_env p1)\<lparr>remove_after_stop := False\<rparr>\<rparr>)
               else p1)
         else if reason \<noteq> 0 \<and> state = BLE_ADV_STATE_IDLE \<and> old_state = BLE_ADV_STATE_CREATING
         then p1\<lparr>conn_cb := False, prf_env := (prf_env p1)\<lparr>bc_mode := 0\<rparr>\<rparr>
         else p1)"

datatype adp_evt = Enable_Cmpl bool | Disable_Cmpl bool | Adp_Other

fun bcwl_adp_evt_handler :: "int \<Rightarrow> adp_evt \<Rightarrow> bcw_prf \<Rightarrow> bcw_prf" where
  "bcwl_adp_evt_handler rc (Enable_Cmpl ok) p =
     (if ok
      then let p1 = p\<lparr>ble_enabled := True\<rparr>
           in if bcwl_enable_pending p1
              then snd (bcw_prf_enable rc 1 (p1\<lparr>bcwl_enable_pending := False\<rparr>)) else p1
      else p)"
| "bcwl_adp_evt_handler rc (Disable_Cmpl ok) p = (if ok then p\<lparr>ble_enabled := False\<rparr> else p)"
| "bcwl_adp_evt_handler rc Adp_Other p = p"

text \<open>The events of the profile, in any order and with any results.\<close>

inductive prf_step :: "bcw_prf \<Rightarrow> bcw_prf \<Rightarrow> bool" where
  enable: "prf_step p (snd (bcw_prf_enable rc e p))"
| adv: "prf_step p (bcwl_adv_mgr_evt_hdlr st reason idx p)"
| adp: "prf_step p (bcwl_adp_evt_handler rc evt p)"
| conn: "prf_step p (p\<lparr>prf_env := bcwl_conn_evt_handler c a i (prf_env p)\<rparr>)"

inductive_cases prf_stepE: "prf_step p q"

definition prf_inv :: "bcw_prf \<Rightarrow> bool" where
  "prf_inv p \<longleftrightarrow> (conn_cb p \<longleftrightarrow> bc_mode (prf_env p) \<noteq> 0)"

lemma enable_inv: "prf_inv p \<Longrightarrow> prf_inv (snd (bcw_prf_enable rc e p))"
  by (auto simp: prf_inv_def bcw_prf_enable_def bcwl_adv_stop_def adv_call_def zero_env_def Let_def)

lemma prf_step_inv: "prf_step p q \<Longrightarrow> prf_inv p \<Longrightarrow> prf_inv q"
proof (erule prf_stepE)
  fix rc evt
  assume "prf_inv p" "q = bcwl_adp_evt_handler rc evt p"
  then show "prf_inv q"
    using enable_inv [of "p\<lparr>ble_enabled := True, bcwl_enable_pending := False\<rparr>" rc 1]
    by (cases evt) (auto simp: prf_inv_def Let_def)
qed (auto simp: enable_inv, auto simp: prf_inv_def bcwl_adv_mgr_evt_hdlr_def adv_call_def Let_def
    bcwl_conn_evt_handler_def)

text \<open>
  Under every sequence of enable and disable requests, advertising, adapter and
  connection events, with every outcome of the calls into the stack, the connection callback
  is registered exactly while the profile mode is on.
\<close>

theorem bcw_prf_callback_iff_mode:
  assumes "prf_inv p0" and "prf_step\<^sup>*\<^sup>* p0 p"
  shows "conn_cb p \<longleftrightarrow> bc_mode (prf_env p) \<noteq> 0"
  using assms(2,1) by (induction rule: rtranclp_induct) (auto simp: prf_inv_def dest: prf_step_inv)

theorem bcw_prf_callback_iff_mode_witness:
  "conn_cb (snd (bcw_prf_enable 0 1 \<lparr>prf_env = zero_env [], ble_enabled = True,
     bcwl_enable_pending = False, conn_cb = False, adv_calls = []\<rparr>))"
proof -
  let ?p = "\<lparr>prf_env = zero_env [], ble_enabled = True, bcwl_enable_pending = False, conn_cb = False, adv_calls = []\<rparr>"
  have "prf_inv ?p" by (simp add: prf_inv_def zero_env_def)
  moreover have "prf_step\<^sup>*\<^sup>* ?p (snd (bcw_prf_enable 0 1 ?p))"
    using prf_step.enable [of ?p 0 1] by blast
  ultimately show ?thesis
    using bcw_prf_callback_iff_mode [of ?p "snd (bcw_prf_enable 0 1 ?p)"]
    by (simp add: bcw_prf_enable_def zero_env_def adv_call_def)
qed

end
