(* ===== verification/Raw_Flash.thy ===== *)
theory Raw_Flash
  imports Slist
begin

text \<open>
  The flash access layer \<^verbatim>\<open>MSDK/plf/src/raw_flash/raw_flash_api.c\<close>. The routines of the
  mask ROM (\<^verbatim>\<open>rom_flash_read\<close>, \<^verbatim>\<open>rom_flash_write\<close>, \<^verbatim>\<open>rom_flash_erase\<close>) and the
  continuous programming of the flash controller driver are parameters, the record
  \<open>rom_flash\<close> over an arbitrary device state; \<open>None\<close> is a failure code. What the code
  relies on is the hypothesis \<open>nor_rom\<close>: reads return the content, writes clear bits,
  erases set them; \<open>nor_device\<close> is a device that satisfies it.

  Sizes and offsets are 32-bit words as in the code; a length is the length of the buffer,
  at most \<open>2\<^sup>3\<^sup>1 - 1\<close>. The erase callbacks are kept on an intrusive list of the theory
  \<open>Slist\<close>; \<open>cb\<close> gives the callback of the item at an address.
\<close>

section \<open>Model\<close>

record 'd rom_flash =
  rom_flash_read :: "u32 \<Rightarrow> u32 \<Rightarrow> nat \<Rightarrow> 'd \<Rightarrow> bytes option"
  rom_flash_write :: "u32 \<Rightarrow> bytes \<Rightarrow> 'd \<Rightarrow> 'd option"
  rom_flash_erase :: "u32 \<Rightarrow> nat \<Rightarrow> 'd \<Rightarrow> 'd option"
  fmc_continuous_program :: "u32 \<Rightarrow> bytes \<Rightarrow> 'd \<Rightarrow> int \<times> 'd"

text \<open>The first argument of \<open>rom_flash_read\<close> is the address offset register in force.\<close>

definition FLASH_TOTAL_SIZE :: u32 where "FLASH_TOTAL_SIZE = 0x400000"
definition FLASH_BASE :: u32 where "FLASH_BASE = 0x08000000"

definition raw_flash_total_size :: u32 where
  "raw_flash_total_size = FLASH_TOTAL_SIZE"

definition raw_flash_is_valid_offset :: "u32 \<Rightarrow> bool" where
  "raw_flash_is_valid_offset off \<longleftrightarrow> off < raw_flash_total_size"

definition raw_flash_is_valid_addr :: "u32 \<Rightarrow> bool" where
  "raw_flash_is_valid_addr addr \<longleftrightarrow> FLASH_BASE \<le> addr \<and> addr < FLASH_BASE + raw_flash_total_size"

definition range_ok :: "u32 \<Rightarrow> nat \<Rightarrow> bool" where
  "range_ok off len \<longleftrightarrow> raw_flash_is_valid_offset off \<and> 0 < len
     \<and> raw_flash_is_valid_offset (off + of_nat len - 1)"

text \<open>\<open>ofvr\<close> is the value of \<^verbatim>\<open>FMC_OFVR\<close>; it is the same again when the function returns.\<close>

definition raw_flash_read :: "'d rom_flash \<Rightarrow> u32 \<Rightarrow> u32 \<Rightarrow> nat \<Rightarrow> 'd \<Rightarrow> bytes option" where
  "raw_flash_read rom ofvr off len d =
     (if \<not> range_ok off len then None
      else if 0 < ofvr then rom_flash_read rom 0 off len d
      else rom_flash_read rom ofvr off len d)"

definition raw_flash_write :: "'d rom_flash \<Rightarrow> u32 \<Rightarrow> bytes \<Rightarrow> 'd \<Rightarrow> int \<times> 'd" where
  "raw_flash_write rom off bs d =
     (if \<not> range_ok off (length bs) then (- 1, d)
      else case rom_flash_write rom off bs d of None \<Rightarrow> (- 1, d) | Some d' \<Rightarrow> (0, d'))"

datatype raw_erase_type_t = RAW_FLASH_ERASE_BLE_PRE_HANDLE | RAW_FLASH_ERASE_BLE_AFTER_HANDLE

text \<open>
  The walk over the callback list: the callbacks called, in order. \<open>cb\<close> maps an item to
  its callback, 0 is the null pointer.
\<close>

partial_function (option) handler_loop ::
    "(addr \<Rightarrow> nat) \<Rightarrow> raw_erase_type_t \<Rightarrow> next_heap \<Rightarrow> addr \<Rightarrow> (raw_erase_type_t \<times> nat) list
       \<Rightarrow> (raw_erase_type_t \<times> nat) list option" where
  "handler_loop cb ty h elt log =
     (if elt = 0 then Some log
      else handler_loop cb ty h (h elt) (if cb elt \<noteq> 0 then log @ [(ty, cb elt)] else log))"

definition raw_flash_erase_handler ::
    "(addr \<Rightarrow> nat) \<Rightarrow> raw_erase_type_t \<Rightarrow> slist \<Rightarrow> next_heap \<Rightarrow> (raw_erase_type_t \<times> nat) list
       \<Rightarrow> (raw_erase_type_t \<times> nat) list option" where
  "raw_flash_erase_handler cb ty l h log = handler_loop cb ty h (sl_first l) log"

record erase_cbs =
  raw_erase_cb_list :: slist
  cb_next :: next_heap
  cb_of :: "addr \<Rightarrow> nat"

definition raw_flash_erase_handler_register ::
    "addr option \<Rightarrow> nat \<Rightarrow> erase_cbs \<Rightarrow> (int \<times> erase_cbs) option" where
  "raw_flash_erase_handler_register fresh callback e =
     map_option (\<lambda>p.
         if p \<noteq> 0 then (0, e)
         else case fresh of
           None \<Rightarrow> (- 1, e)
         | Some a \<Rightarrow>
             let (l, h) = list_push_back (raw_erase_cb_list e) a (cb_next e)
             in (0, e\<lparr>raw_erase_cb_list := l, cb_next := h, cb_of := (cb_of e)(a := callback)\<rparr>))
       (scan_loop (\<lambda>p. cb_of e p = callback) (cb_next e) (sl_first (raw_erase_cb_list e)))"

partial_function (option) unregister_loop ::
    "(addr \<Rightarrow> nat) \<Rightarrow> nat \<Rightarrow> addr \<Rightarrow> addr \<Rightarrow> slist \<Rightarrow> next_heap \<Rightarrow> (slist \<times> next_heap) option" where
  "unregister_loop cb callback prev elt l h =
     (if elt = 0 then Some (l, h)
      else if cb elt \<noteq> 0 \<and> cb elt = callback
      then let (l', h') = list_remove l prev elt h
           in unregister_loop cb callback prev (if prev = 0 then sl_first l' else h' prev) l' h'
      else unregister_loop cb callback elt (h elt) l h)"

definition raw_flash_erase_handler_unregister :: "nat \<Rightarrow> erase_cbs \<Rightarrow> erase_cbs option" where
  "raw_flash_erase_handler_unregister callback e =
     map_option (\<lambda>(l, h). e\<lparr>raw_erase_cb_list := l, cb_next := h\<rparr>)
       (unregister_loop (cb_of e) callback 0 (sl_first (raw_erase_cb_list e))
          (raw_erase_cb_list e) (cb_next e))"

text \<open>The result code, the device and the callbacks called.\<close>

definition raw_flash_erase ::
    "'d rom_flash \<Rightarrow> erase_cbs \<Rightarrow> u32 \<Rightarrow> nat \<Rightarrow> 'd \<Rightarrow> (int \<times> 'd \<times> (raw_erase_type_t \<times> nat) list) option" where
  "raw_flash_erase rom e off len d =
     (if \<not> range_ok off len then Some (- 1, d, [])
      else
        case raw_flash_erase_handler (cb_of e) RAW_FLASH_ERASE_BLE_PRE_HANDLE
               (raw_erase_cb_list e) (cb_next e) [] of
          None \<Rightarrow> None
        | Some pre \<Rightarrow>
            let (rc, d') = (case rom_flash_erase rom off len d of None \<Rightarrow> (- 1, d) | Some d' \<Rightarrow> (0, d'))
            in map_option (\<lambda>log. (rc, d', log))
                 (raw_flash_erase_handler (cb_of e) RAW_FLASH_ERASE_BLE_AFTER_HANDLE
                    (raw_erase_cb_list e) (cb_next e) pre))"

text \<open>
  \<^verbatim>\<open>raw_flash_write_fast\<close>: head up to the next word boundary, whole words by continuous
  programming, tail. The code of the middle part is replaced by that of the tail.
\<close>

definition fast_head :: "u32 \<Rightarrow> nat" where
  "fast_head off = (let r = 4 - unat (off AND 3) in if r = 4 then 0 else r)"

definition fast_tail :: "u32 \<Rightarrow> nat \<Rightarrow> nat" where
  "fast_tail off len = unat ((off + of_nat len) AND 3)"

definition raw_flash_write_fast :: "'d rom_flash \<Rightarrow> u32 \<Rightarrow> bytes \<Rightarrow> 'd \<Rightarrow> int \<times> 'd" where
  "raw_flash_write_fast rom off bs d =
     (let len = length bs in
      if \<not> range_ok off len then (- 1, d)
      else if len \<le> 4 then raw_flash_write rom off bs d
      else
        let r = fast_head off; rr = fast_tail off len;
            (ret, d1) = (if r \<noteq> 0 then raw_flash_write rom off (take r bs) d else (0, d))
        in if ret \<noteq> 0 then (ret, d1)
           else
             let (ret2, d2) = fmc_continuous_program rom (FLASH_BASE + off + of_nat r)
                   (window r (len - r - rr) bs) d1
             in if rr \<noteq> 0 then raw_flash_write rom (off + of_nat len - of_nat rr) (drop (len - rr) bs) d2
                else (ret2, d2))"

section \<open>What the ROM routines promise\<close>

definition nor_rom :: "'d rom_flash \<Rightarrow> ('d \<Rightarrow> nat \<Rightarrow> u8) \<Rightarrow> bool" where
  "nor_rom rom byte \<longleftrightarrow>
     (\<forall>off n d. unat off + n \<le> 0x400000 \<longrightarrow>
        rom_flash_read rom 0 off n d = Some (map (byte d) [unat off..<unat off + n]))
   \<and> (\<forall>off bs d. unat off + length bs \<le> 0x400000 \<longrightarrow>
        (\<exists>d'. rom_flash_write rom off bs d = Some d' \<and>
          (\<forall>a. byte d' a = (if unat off \<le> a \<and> a < unat off + length bs
                              then byte d a AND bs ! (a - unat off) else byte d a))))
   \<and> (\<forall>off n d. unat off + n \<le> 0x400000 \<longrightarrow> 4096 dvd unat off \<longrightarrow> 4096 dvd n \<longrightarrow>
        (\<exists>d'. rom_flash_erase rom off n d = Some d' \<and>
          (\<forall>a. byte d' a = (if unat off \<le> a \<and> a < unat off + n then 0xFF else byte d a))))"

text \<open>A NOR device: a function from offsets to bytes.\<close>

definition nor_device :: "(nat \<Rightarrow> u8) rom_flash" where
  "nor_device = \<lparr>
     rom_flash_read = (\<lambda>ofvr off n d. Some (map d [unat off..<unat off + n])),
     rom_flash_write = (\<lambda>off bs d. Some (\<lambda>a. if unat off \<le> a \<and> a < unat off + length bs
        then d a AND bs ! (a - unat off) else d a)),
     rom_flash_erase = (\<lambda>off n d. Some (\<lambda>a. if unat off \<le> a \<and> a < unat off + n then 0xFF else d a)),
     fmc_continuous_program = (\<lambda>addr bs d. (0, \<lambda>a. if unat (addr - FLASH_BASE) \<le> a
        \<and> a < unat (addr - FLASH_BASE) + length bs then d a AND bs ! (a - unat (addr - FLASH_BASE)) else d a))\<rparr>"

lemma nor_device_ok: "nor_rom nor_device id"
  by (simp add: nor_rom_def nor_device_def)

lemma nor_read:
  "nor_rom rom byte \<Longrightarrow> unat off + n \<le> 0x400000 \<Longrightarrow>
     rom_flash_read rom 0 off n d = Some (map (byte d) [unat off..<unat off + n])"
  by (simp add: nor_rom_def)

lemma nor_write:
  assumes "nor_rom rom byte" and "unat off + length bs \<le> 0x400000"
  obtains d' where "rom_flash_write rom off bs d = Some d'"
    "\<And>a. byte d' a = (if unat off \<le> a \<and> a < unat off + length bs
       then byte d a AND bs ! (a - unat off) else byte d a)"
  using assms unfolding nor_rom_def by metis

lemma nor_erase:
  assumes "nor_rom rom byte" and "unat off + n \<le> 0x400000" "4096 dvd unat off" "4096 dvd n"
  obtains d' where "rom_flash_erase rom off n d = Some d'"
    "\<And>a. byte d' a = (if unat off \<le> a \<and> a < unat off + n then 0xFF else byte d a)"
  using assms unfolding nor_rom_def by metis

section \<open>Bounds\<close>

lemma range_ok_iff:
  assumes "len < 2 ^ 31"
  shows "range_ok off len \<longleftrightarrow> 0 < len \<and> unat off + len \<le> 0x400000"
proof (cases "0 < len \<and> unat off < 0x400000")
  case True
  then have "unat (off + of_nat len - 1) = unat off + len - 1"
    using assms by (simp add: unat_sub word_le_nat_alt unat_word_ariths unat_of_nat take_bit_nat_eq_self)
  then show ?thesis
    using True by (auto simp: range_ok_def raw_flash_is_valid_offset_def raw_flash_total_size_def
        FLASH_TOTAL_SIZE_def word_less_nat_alt)
next
  case False
  then show ?thesis
    by (auto simp: range_ok_def raw_flash_is_valid_offset_def raw_flash_total_size_def
        FLASH_TOTAL_SIZE_def word_less_nat_alt)
qed

section \<open>Properties\<close>

text \<open>
  On a NOR flash, a write to an erased range that lies inside the flash succeeds, is read
  back as written and leaves every other byte alone; a range outside is refused and nothing is
  written.
\<close>

theorem raw_flash_write_read:
  assumes "nor_rom rom byte" and "length bs < 2 ^ 31"
  shows "if bs \<noteq> [] \<and> unat off + length bs \<le> 0x400000
    then \<exists>d'. raw_flash_write rom off bs d = (0, d')
      \<and> ((\<forall>a\<in>{unat off..<unat off + length bs}. byte d a = 0xFF) \<longrightarrow>
           raw_flash_read rom ofvr off (length bs) d' = Some bs)
      \<and> (\<forall>a. a < unat off \<or> unat off + length bs \<le> a \<longrightarrow> byte d' a = byte d a)
    else raw_flash_write rom off bs d = (- 1, d)"
proof (cases "bs \<noteq> [] \<and> unat off + length bs \<le> 0x400000")
  case True
  obtain d' where d': "rom_flash_write rom off bs d = Some d'"
    "\<And>a. byte d' a = (if unat off \<le> a \<and> a < unat off + length bs
       then byte d a AND bs ! (a - unat off) else byte d a)"
    using nor_write [OF assms(1), of off bs d] True by blast
  have ok: "range_ok off (length bs)" using True range_ok_iff [OF assms(2)] by simp
  have "rom_flash_read rom 0 off (length bs) d' = Some (map (byte d') [unat off..<unat off + length bs])"
    using nor_read [OF assms(1)] True by blast
  moreover have "map (byte d') [unat off..<unat off + length bs] = bs"
    if "\<forall>a\<in>{unat off..<unat off + length bs}. byte d a = 0xFF"
  proof (rule nth_equalityI)
    fix i
    assume "i < length (map (byte d') [unat off..<unat off + length bs])"
    then show "map (byte d') [unat off..<unat off + length bs] ! i = bs ! i"
      using that by (simp add: d'(2))
  qed simp
  ultimately show ?thesis
    using True ok d' by (auto simp: raw_flash_write_def raw_flash_read_def word_gt_0)
next
  case False
  then show ?thesis
    using range_ok_iff [OF assms(2)] by (auto simp: raw_flash_write_def)
qed

theorem raw_flash_write_read_witness:
  "\<exists>d'. raw_flash_write nor_device 0x1000 [1, 2, 3] (\<lambda>_. 0xFF) = (0, d')
     \<and> raw_flash_read nor_device 0 0x1000 3 d' = Some [1, 2, 3]"
  using raw_flash_write_read [OF nor_device_ok, where bs = "[1, 2, 3]" and off = "0x1000"
      and d = "\<lambda>_. 0xFF" and ofvr = 0] by (auto simp: numeral_3_eq_3)

end
