(* ===== verification/Nvds_Layout.thy ===== *)
theory Nvds_Layout
  imports Crc
begin

text \<open>
  The on-flash format of the non-volatile data storage,
  \<^verbatim>\<open>MSDK/plf/src/nvds/nvds_type.h\<close> and the first part of
  \<^verbatim>\<open>nvds_flash.c\<close>: the element tag, the 32-byte entry (a union, so its bytes with an
  accessor per field), the page header, the two checksums, and the packed tables of entry states
  (two bits each) and of used namespace indices (one bit each).

  \<open>entry_state\<close> is ordered by the life of an entry, free, used, deleted; the library class
  \<open>linorder\<close> is instantiated with it. A change of state along that order only clears bits,
  which is what a NOR flash can do without an erase.
\<close>

section \<open>Model\<close>

datatype nvds_ret =
    NVDS_OK | NVDS_E_NOT_USE_FLASH | NVDS_E_FAIL | NVDS_E_INVAL_PARAM | NVDS_E_FLASH_IO_FAIL
  | NVDS_E_NOT_FOUND | NVDS_E_INVALID_LENGTH | NVDS_E_NO_SPACE | NVDS_E_SECUR_CFG_FAIL
  | NVDS_E_DECR_FAIL | NVDS_E_ENCR_FAIL

definition NVDS_FLASH_MAGIC :: u32 where "NVDS_FLASH_MAGIC = 0x4E564453"
definition NVDS_FLASH_VERSION :: u16 where "NVDS_FLASH_VERSION = 0xFFFF"

abbreviation (input) SPI_FLASH_SEC_SIZE :: nat where "SPI_FLASH_SEC_SIZE \<equiv> 4096"
abbreviation (input) ENTRY_SIZE :: nat where "ENTRY_SIZE \<equiv> 32"
abbreviation (input) ENTRY_COUNT_PER_PAGE :: nat where "ENTRY_COUNT_PER_PAGE \<equiv> 126"
abbreviation (input) ENTRY_STATES_TABLE_SIZE :: nat where "ENTRY_STATES_TABLE_SIZE \<equiv> 8"
abbreviation (input) KEY_NAME_MAX_SIZE :: nat where "KEY_NAME_MAX_SIZE \<equiv> 16"
abbreviation (input) PAGE_ENTRY_STATES_OFFSET :: nat where "PAGE_ENTRY_STATES_OFFSET \<equiv> 32"
abbreviation (input) PAGE_ENTRY_OFFSET :: nat where "PAGE_ENTRY_OFFSET \<equiv> 64"
abbreviation (input) ELEMENT_SMALL_MAX_SIZE :: nat where "ELEMENT_SMALL_MAX_SIZE \<equiv> 8"
abbreviation (input) ELEMENT_MIDDLE_MAX_SIZE :: nat where "ELEMENT_MIDDLE_MAX_SIZE \<equiv> 256"
abbreviation (input) ELEMENT_BULK_MAX_SIZE :: nat where "ELEMENT_BULK_MAX_SIZE \<equiv> 12800"
abbreviation (input) TAG_FRAG_NO_DEFAULT :: u8 where "TAG_FRAG_NO_DEFAULT \<equiv> 0x1F"
abbreviation (input) NAMESPACE_NULL_IDX :: u8 where "NAMESPACE_NULL_IDX \<equiv> 0xFE"
abbreviation (input) NAMESPACE_MAX_CNT :: u8 where "NAMESPACE_MAX_CNT \<equiv> 253"

text \<open>\<^verbatim>\<open>enum element_type\<close>; the three tag bits can also hold 4, 5 and 6.\<close>

abbreviation (input) ELEMENT_SMALL :: u8 where "ELEMENT_SMALL \<equiv> 0"
abbreviation (input) ELEMENT_MIDDLE :: u8 where "ELEMENT_MIDDLE \<equiv> 1"
abbreviation (input) ELEMENT_BULK :: u8 where "ELEMENT_BULK \<equiv> 2"
abbreviation (input) ELEMENT_BULKINFO :: u8 where "ELEMENT_BULKINFO \<equiv> 3"
abbreviation (input) ELEMENT_ANY :: u8 where "ELEMENT_ANY \<equiv> 7"

abbreviation (input) PAGE_UNINITIALIZED :: u16 where "PAGE_UNINITIALIZED \<equiv> 0xffff"
abbreviation (input) PAGE_ACTIVE :: u16 where "PAGE_ACTIVE \<equiv> 0xfffe"
abbreviation (input) PAGE_FULL :: u16 where "PAGE_FULL \<equiv> 0xfffc"
abbreviation (input) PAGE_CANDIDATE :: u16 where "PAGE_CANDIDATE \<equiv> 0xfff8"
abbreviation (input) PAGE_ERROR :: u16 where "PAGE_ERROR \<equiv> 0xfff0"
abbreviation (input) PAGE_INVALID :: u16 where "PAGE_INVALID \<equiv> 0"

subsection \<open>The tag\<close>

definition tag_namespace_get :: "u16 \<Rightarrow> u8" where
  "tag_namespace_get tag = ucast (tag AND 0xFF)"

definition tag_element_type_get :: "u16 \<Rightarrow> u8" where
  "tag_element_type_get tag = ucast (drop_bit 13 (tag AND push_bit 13 7))"

definition tag_fragno_get :: "u16 \<Rightarrow> u8" where
  "tag_fragno_get tag = ucast (drop_bit 8 (tag AND push_bit 8 0x1F))"

definition tag_set :: "u8 \<Rightarrow> u8 \<Rightarrow> u8 \<Rightarrow> u16" where
  "tag_set ns type fragno = ucast ns OR push_bit 13 (ucast type) OR push_bit 8 (ucast fragno)"

subsection \<open>Entries and page headers\<close>

definition entry_tag :: "bytes \<Rightarrow> u16" where "entry_tag e = le16 (e ! 0) (e ! 1)"
definition entry_length :: "bytes \<Rightarrow> u16" where "entry_length e = le16 (e ! 2) (e ! 3)"
definition entry_crc32 :: "bytes \<Rightarrow> u32" where "entry_crc32 e = le32 (window 4 4 e)"
definition entry_value :: "bytes \<Rightarrow> bytes" where "entry_value e = window 24 8 e"
definition entry_datacrc32 :: "bytes \<Rightarrow> u32" where "entry_datacrc32 e = le32 (window 28 4 e)"
definition entry_bulksize :: "bytes \<Rightarrow> u32" where "entry_bulksize e = le32 (window 28 4 e)"

text \<open>The C string at \<^verbatim>\<open>entry.key\<close>; without a terminator it runs on into the value.\<close>

definition entry_key :: "bytes \<Rightarrow> bytes" where
  "entry_key e = takeWhile (\<lambda>b. b \<noteq> 0) (window 8 24 e)"

definition element_header_crc32_calc :: "bytes \<Rightarrow> u32" where
  "element_header_crc32_calc e =
     crc32 (window 24 8 e) (crc32 (window 8 16 e) (crc32 (window 0 4 e) 0))"

definition element_data_crc32_calc :: "bytes \<Rightarrow> u32" where
  "element_data_crc32_calc data = crc32 data 0"

record page_header =
  magic :: u32
  version :: u16
  state :: u16
  seqno :: u32
  rsv :: bytes
  crc32_of :: u32

definition page_header_bytes :: "page_header \<Rightarrow> bytes" where
  "page_header_bytes h = le32_bytes (magic h) @ le16_bytes (version h) @ le16_bytes (state h)
     @ le32_bytes (seqno h) @ rsv h @ le32_bytes (crc32_of h)"

definition page_header_of :: "bytes \<Rightarrow> page_header" where
  "page_header_of bs = \<lparr>magic = le32 (window 0 4 bs), version = le16 (bs ! 4) (bs ! 5),
     state = le16 (bs ! 6) (bs ! 7), seqno = le32 (window 8 4 bs), rsv = window 12 16 bs,
     crc32_of = le32 (window 28 4 bs)\<rparr>"

definition page_header_crc32_calc :: "page_header \<Rightarrow> u32" where
  "page_header_crc32_calc h =
     crc32 (le32_bytes (seqno h) @ rsv h) (crc32 (le32_bytes (magic h) @ le16_bytes (version h)) 0)"

subsection \<open>The packed state tables\<close>

datatype entry_state = ENTRY_FREE | ENTRY_USED | ENTRY_UPDATED | ENTRY_ILLEGAL | ENTRY_ERROR

fun entry_state_val :: "entry_state \<Rightarrow> u32" where
  "entry_state_val ENTRY_FREE = 3"
| "entry_state_val ENTRY_USED = 2"
| "entry_state_val ENTRY_UPDATED = 0"
| "entry_state_val ENTRY_ILLEGAL = 1"
| "entry_state_val ENTRY_ERROR = 4"

definition entry_state_of :: "u32 \<Rightarrow> entry_state" where
  "entry_state_of w = (if w = 3 then ENTRY_FREE else if w = 2 then ENTRY_USED
     else if w = 0 then ENTRY_UPDATED else if w = 1 then ENTRY_ILLEGAL else ENTRY_ERROR)"

definition entry_state_get :: "u32 list \<Rightarrow> u8 \<Rightarrow> nvds_ret + entry_state" where
  "entry_state_get states idx =
     (let table_idx = unat idx div 16; bit_offset = (unat idx mod 16) * 2 in
      if ENTRY_COUNT_PER_PAGE \<le> unat idx then Inl NVDS_E_FAIL
      else Inr (entry_state_of (drop_bit bit_offset (states ! table_idx) AND 3)))"

definition entry_state_set :: "u32 list \<Rightarrow> u8 \<Rightarrow> entry_state \<Rightarrow> nvds_ret + u32 list" where
  "entry_state_set states idx st =
     (let table_idx = unat idx div 16; bit_offset = (unat idx mod 16) * 2 in
      if ENTRY_COUNT_PER_PAGE \<le> unat idx then Inl NVDS_E_FAIL
      else if st = ENTRY_ILLEGAL \<or> st = ENTRY_ERROR then Inl NVDS_E_FAIL
      else if ENTRY_STATES_TABLE_SIZE \<le> table_idx then Inl NVDS_E_FAIL
      else Inr (states[table_idx := (states ! table_idx AND NOT (push_bit bit_offset 3))
                                      OR push_bit bit_offset (entry_state_val st)]))"

definition ns_state_get :: "u32 list \<Rightarrow> u8 \<Rightarrow> bool" where
  "ns_state_get states idx \<longleftrightarrow> drop_bit (unat idx mod 32) (states ! (unat idx div 32)) AND 1 \<noteq> 0"

definition ns_state_set :: "u32 list \<Rightarrow> u8 \<Rightarrow> bool \<Rightarrow> u32 list" where
  "ns_state_set states idx b =
     states[unat idx div 32 := (states ! (unat idx div 32) AND NOT (push_bit (unat idx mod 32) 1))
                                 OR push_bit (unat idx mod 32) (if b then 1 else 0)]"

section \<open>The order of entry states\<close>

fun entry_rank :: "entry_state \<Rightarrow> nat" where
  "entry_rank ENTRY_FREE = 0"
| "entry_rank ENTRY_USED = 1"
| "entry_rank ENTRY_ILLEGAL = 2"
| "entry_rank ENTRY_UPDATED = 3"
| "entry_rank ENTRY_ERROR = 4"

lemma entry_rank_inj: "entry_rank a = entry_rank b \<Longrightarrow> a = b"
  by (cases a; cases b) simp_all

instantiation entry_state :: linorder
begin

definition less_eq_entry_state :: "entry_state \<Rightarrow> entry_state \<Rightarrow> bool" where
  "less_eq_entry_state a b \<longleftrightarrow> entry_rank a \<le> entry_rank b"

definition less_entry_state :: "entry_state \<Rightarrow> entry_state \<Rightarrow> bool" where
  "less_entry_state a b \<longleftrightarrow> entry_rank a < entry_rank b"

instance
  by standard (auto simp: less_eq_entry_state_def less_entry_state_def intro: entry_rank_inj)

end

lemmas entry_state_order = less_eq_entry_state_def less_entry_state_def

lemma entry_state_clears:
  assumes "old \<le> new" and "new \<noteq> ENTRY_ILLEGAL" and "new \<noteq> ENTRY_ERROR"
  shows "entry_state_val old AND entry_state_val new = entry_state_val new"
  using assms by (cases old; cases new) (simp_all add: entry_state_order)

section \<open>Bit fields\<close>

lemma field_same:
  assumes "take_bit m v = v" and "k + m \<le> LENGTH('a)"
  shows "take_bit m (drop_bit k ((w AND NOT (push_bit k (mask m))) OR push_bit k v)) = (v :: 'a::len word)"
proof (rule bit_word_eqI)
  fix n
  assume "n < LENGTH('a)"
  have "bit v n \<Longrightarrow> n < m"
    using assms(1) by (metis bit_take_bit_iff)
  then show "bit (take_bit m (drop_bit k ((w AND NOT (push_bit k (mask m))) OR push_bit k v))) n = bit v n"
    using assms(2) by (auto simp: bit_take_bit_iff bit_drop_bit_eq bit_or_iff bit_and_iff bit_not_iff
        bit_push_bit_iff bit_mask_iff)
qed

lemma field_other:
  assumes "take_bit m v = v" and "k + m \<le> j \<or> j + m \<le> k"
  shows "take_bit m (drop_bit j ((w AND NOT (push_bit k (mask m))) OR push_bit k v))
       = take_bit m (drop_bit j (w :: 'a::len word))"
proof (rule bit_word_eqI)
  fix n
  assume "n < LENGTH('a)"
  have "bit v i \<Longrightarrow> i < m" for i
    using assms(1) by (metis bit_take_bit_iff)
  then have "n < m \<Longrightarrow> \<not> (k \<le> j + n \<and> bit v (j + n - k))"
    using assms(2) by fastforce
  moreover have "n < m \<Longrightarrow> \<not> (k \<le> j + n \<and> j + n - k < m)"
    using assms(2) by linarith
  ultimately show "bit (take_bit m (drop_bit j ((w AND NOT (push_bit k (mask m))) OR push_bit k v))) n
      = bit (take_bit m (drop_bit j w)) n"
    by (auto simp: bit_take_bit_iff bit_drop_bit_eq bit_or_iff bit_and_iff bit_not_iff
        bit_push_bit_iff bit_mask_iff dest: bit_imp_le_length)
qed

lemma and_3: "w AND 3 = take_bit 2 (w :: 'a::len word)"
  using take_bit_eq_mask [of 2 w] by (simp add: mask_numeral)

lemma mask_2: "(3 :: u32) = mask 2"
  by (simp add: mask_numeral)

lemma take_bit_state_val: "st \<noteq> ENTRY_ERROR \<Longrightarrow> take_bit 2 (entry_state_val st) = entry_state_val st"
  by (cases st) (simp_all flip: and_3)

lemma entry_state_of_val: "st \<noteq> ENTRY_ERROR \<Longrightarrow> entry_state_of (entry_state_val st) = st"
  by (cases st) (simp_all add: entry_state_of_def)

section \<open>The state tables\<close>

lemma entry_state_set_ok:
  assumes "unat i < 126" and "st \<noteq> ENTRY_ILLEGAL" "st \<noteq> ENTRY_ERROR"
  shows "entry_state_set t i st = Inr (t[unat i div 16 := (t ! (unat i div 16)
           AND NOT (push_bit (unat i mod 16 * 2) (mask 2))) OR push_bit (unat i mod 16 * 2) (entry_state_val st)])"
  using assms by (auto simp: entry_state_set_def Let_def mask_2)

lemma entry_state_get_ok:
  "unat i < 126 \<Longrightarrow> entry_state_get t i =
     Inr (entry_state_of (take_bit 2 (drop_bit (unat i mod 16 * 2) (t ! (unat i div 16)))))"
  by (simp add: entry_state_get_def and_3)

lemma entry_state_get_set:
  assumes "length t = 8" and "entry_state_set t i st = Inr t'"
  shows "length t' = 8" and "unat i < 126" and "st \<noteq> ENTRY_ILLEGAL" and "st \<noteq> ENTRY_ERROR"
    and "entry_state_get t' j = (if j = i then Inr st else entry_state_get t j)"
proof -
  let ?k = "\<lambda>i :: u8. unat i mod 16 * 2" and ?d = "\<lambda>i :: u8. unat i div 16"
  show i: "unat i < 126" and st: "st \<noteq> ENTRY_ILLEGAL" "st \<noteq> ENTRY_ERROR"
    using assms(2) by (auto simp: entry_state_set_def Let_def split: if_splits)
  have t': "t' = t[?d i := (t ! ?d i AND NOT (push_bit (?k i) (mask 2)))
                              OR push_bit (?k i) (entry_state_val st)]"
    using entry_state_set_ok [OF i st] assms(2) by simp
  then show "length t' = 8" using assms(1) by simp
  have d: "?d i < length t" using i assms(1) by simp
  have v: "take_bit 2 (entry_state_val st) = entry_state_val st"
    using st by (simp add: take_bit_state_val)
  have "?k i + 2 \<le> LENGTH(32)" by simp
  from field_same [OF v this]
  have same: "take_bit 2 (drop_bit (?k i) (t' ! ?d i)) = entry_state_val st"
    using d t' by simp
  have other: "take_bit 2 (drop_bit (?k j) (t' ! ?d j)) = take_bit 2 (drop_bit (?k j) (t ! ?d j))"
    if "j \<noteq> i"
  proof (cases "?d j = ?d i")
    case True
    have "unat j mod 16 \<noteq> unat i mod 16"
      using that True by (metis div_mult_mod_eq unsigned_word_eqI)
    then have "?k i + 2 \<le> ?k j \<or> ?k j + 2 \<le> ?k i" by linarith
    from field_other [OF v this] show ?thesis using True d t' by simp
  next
    case False
    then show ?thesis using t' by simp
  qed
  show "entry_state_get t' j = (if j = i then Inr st else entry_state_get t j)"
  proof (cases "unat j < 126")
    case True
    then show ?thesis
      using same other st by (simp add: entry_state_get_ok entry_state_of_val)
  next
    case False
    then show ?thesis using i by (auto simp: entry_state_get_def)
  qed
qed

text \<open>Setting a later state only clears bits of the table.\<close>

lemma entry_state_set_clears:
  assumes "length t = 8" and "entry_state_set t i st = Inr t'"
    and "entry_state_get t i = Inr old" "old \<le> st"
  shows "map2 (AND) t t' = t'"
proof -
  let ?k = "unat i mod 16 * 2" and ?d = "unat i div 16"
  note ok = entry_state_get_set [OF assms(1,2)]
  define w v where "w = t ! ?d" and "v = entry_state_val st"
  have t': "t' = t[?d := (w AND NOT (push_bit ?k (mask 2))) OR push_bit ?k v]"
    using entry_state_set_ok [OF ok(2-4)] assms(2) by (simp add: w_def v_def)
  have old: "old = entry_state_of (take_bit 2 (drop_bit ?k w))"
    using assms(3) entry_state_get_ok [OF ok(2)] by (simp add: w_def)
  have tb: "take_bit 2 x \<in> {0, 1, 2, 3}" for x :: u32
  proof -
    have "unat (take_bit 2 x) < 4" using unat_less_exp [of 2 "take_bit 2 x"] by simp
    then have "unat (take_bit 2 x) = 0 \<or> unat (take_bit 2 x) = 1 \<or> unat (take_bit 2 x) = 2
        \<or> unat (take_bit 2 x) = 3" by linarith
    then show ?thesis using word_unat_eq_iff [of "take_bit 2 x"] by fastforce
  qed
  have "entry_state_val old = take_bit 2 (drop_bit ?k w)"
    using tb [of "drop_bit ?k w"] by (auto simp: old entry_state_of_def)
  then have c: "take_bit 2 (drop_bit ?k w) AND v = v"
    using entry_state_clears [OF assms(4) ok(3,4)] by (simp add: v_def)
  have v: "bit v n \<Longrightarrow> n < 2 \<and> bit w (?k + n)" for n
    using arg_cong [OF c, of "\<lambda>x. bit x n"]
    by (auto simp: bit_and_iff bit_take_bit_iff bit_drop_bit_eq)
  have "w AND ((w AND NOT (push_bit ?k (mask 2))) OR push_bit ?k v)
      = (w AND NOT (push_bit ?k (mask 2))) OR push_bit ?k v"
    by (rule bit_word_eqI)
      (auto simp: bit_and_iff bit_or_iff bit_not_iff bit_push_bit_iff dest: v)
  moreover have "?d < length t" using ok(2) assms(1) by linarith
  ultimately show ?thesis
    by (auto simp: t' w_def nth_list_update intro!: nth_equalityI)
qed

lemma erased_states_free:
  assumes "unat i < 126"
  shows "entry_state_get (replicate 8 0xFFFFFFFF) i = Inr ENTRY_FREE"
proof -
  have k: "unat i mod 16 * 2 + 2 \<le> 32" by linarith
  have "take_bit 2 (drop_bit (unat i mod 16 * 2) (mask 32 :: u32)) = mask 2"
    using k by (intro bit_word_eqI) (auto simp: bit_take_bit_iff bit_drop_bit_eq bit_mask_iff)
  moreover have "(0xFFFFFFFF :: u32) = mask 32" by (simp add: mask_numeral)
  ultimately show ?thesis
    using assms by (simp add: entry_state_get_ok entry_state_of_def mask_2 [symmetric])
qed

lemma ns_state_get_bit: "ns_state_get t i \<longleftrightarrow> bit (t ! (unat i div 32)) (unat i mod 32)"
  by (simp add: ns_state_get_def and_one_eq bit_iff_odd_drop_bit odd_iff_mod_2_eq_one)

lemma ns_state_get_set:
  assumes "length t = 8"
  shows "ns_state_get (ns_state_set t i b) j = (if j = i then b else ns_state_get t j)"
proof -
  have d: "unat i div 32 < length t" using assms unat_u8_lt [of i] by linarith
  show ?thesis
  proof (cases "unat j div 32 = unat i div 32")
    case True
    then have "unat j mod 32 = unat i mod 32 \<longleftrightarrow> j = i"
      by (metis div_mult_mod_eq unsigned_word_eqI)
    then show ?thesis
      using True d by (auto simp: ns_state_get_bit ns_state_set_def bit_or_iff bit_and_iff
          bit_not_iff bit_push_bit_iff bit_1_iff bit_exp_iff)
  next
    case False
    then show ?thesis by (auto simp: ns_state_get_bit ns_state_set_def)
  qed
qed

lemma length_ns_state_set [simp]: "length (ns_state_set t i b) = length t"
  by (simp add: ns_state_set_def)

section \<open>Tags and headers\<close>

lemma tag_roundtrip:
  assumes "take_bit 3 ty = ty" and "take_bit 5 frag = frag"
  shows "tag_namespace_get (tag_set ns ty frag) = ns"
    and "tag_element_type_get (tag_set ns ty frag) = ty"
    and "tag_fragno_get (tag_set ns ty frag) = frag"
proof -
  have ty: "bit ty n \<Longrightarrow> n < 3" for n using assms(1) by (metis bit_take_bit_iff)
  have frag: "bit frag n \<Longrightarrow> n < 5" for n using assms(2) by (metis bit_take_bit_iff)
  have m3: "(7 :: u16) = mask 3" and m5: "(0x1F :: u16) = mask 5" by (simp_all add: mask_numeral)
  note bits = tag_set_def bit_ucast_iff bit_and_iff bit_or_iff bit_push_bit_iff bit_drop_bit_eq
    bit_take_bit_iff bit_mask_iff
  show "tag_namespace_get (tag_set ns ty frag) = ns"
    unfolding tag_namespace_get_def and_255 by (rule bit_word_eqI) (auto simp: bits)
  show "tag_element_type_get (tag_set ns ty frag) = ty"
    unfolding tag_element_type_get_def m3
    by (rule bit_word_eqI) (auto simp: bits dest: ty frag bit_imp_le_length)
  show "tag_fragno_get (tag_set ns ty frag) = frag"
    unfolding tag_fragno_get_def m5
    by (rule bit_word_eqI) (auto simp: bits dest: ty frag bit_imp_le_length)
qed

lemma length_page_header_bytes [simp]:
  "length (rsv h) = 16 \<Longrightarrow> length (page_header_bytes h) = 32"
  by (simp add: page_header_bytes_def)

lemma window_append_left: "off + n \<le> length xs \<Longrightarrow> window off n (xs @ ys) = window off n xs"
  by (simp add: window_def)

lemma window_append_right: "length xs \<le> off \<Longrightarrow> window off n (xs @ ys) = window (off - length xs) n ys"
  by (simp add: window_def)

lemma window_all: "length xs = n \<Longrightarrow> window 0 n xs = xs"
  by (simp add: window_def)

lemma page_header_roundtrip:
  assumes "length (rsv h) = 16"
  shows "page_header_of (page_header_bytes h) = h"
  using assms
  by (intro page_header.equality)
    (simp_all add: page_header_of_def page_header_bytes_def window_append_left window_append_right
      window_all nth_append eval_nat_numeral)

end
