(* ===== verification/Nvds_Store.thy ===== *)
theory Nvds_Store
  imports Nvds_Layout Raw_Flash
begin

text \<open>
  The element store of \<^verbatim>\<open>MSDK/plf/src/nvds/nvds_flash.c\<close>.

  \<open>nvds_env\<close> is \<^verbatim>\<open>struct nvds_flash_env_tag\<close> together with the flash device it stands on.
  A page descriptor is referred to by the index of its sector, which is what
  \<^verbatim>\<open>pages_load\<close> allocates one descriptor for; \<open>pages\<close> is the heap of descriptors and the
  used and free page lists are lists of references (the theory \<open>Slist\<close> relates the linked
  lists of the code to such lists). Namespaces are an association list in list order.

  \<open>nvds_io\<close> collects what is outside: the ROM flash routines and the erase callbacks of
  \<^verbatim>\<open>raw_flash_erase\<close>, the value of the flash offset register, the AES block functions of
  mbedtls with the derived key (\<open>None\<close> is a failure code), and which allocations succeed.

  A reading operation is a function of the environment. A writing operation returns its code and
  the new environment, also when it fails half way. An operation that walks entries or lists
  returns an option: \<open>None\<close> means that it does not return, or that it accesses memory outside
  the object it works on. C conversions are kept: entry indices are 8-bit and wrap.
\<close>

section \<open>Model\<close>

type_synonym page_ref = nat

record 'd nvds_io =
  rom :: "'d rom_flash"
  cbs :: erase_cbs
  ofvr :: u32
  aes_enc :: "bytes \<Rightarrow> bytes option"
  aes_dec :: "bytes \<Rightarrow> bytes option"
  page_alloc :: "page_ref \<Rightarrow> bool"
  ns_alloc :: "nat \<Rightarrow> bool"

record page_env_tag =
  header :: page_header
  entry_states :: "u32 list"
  page_base :: u32
  entry_cnt_used :: u16
  next_free_idx :: u32

record namespace_info =
  ns_name :: bytes
  ns_index :: u8
  used_cnt :: u32

record 'd nvds_env =
  env_base :: u32
  env_length :: u32
  encrypted :: bool
  ns_list :: "namespace_info list"
  ns_states :: "u32 list"
  nvds_page_free :: "page_ref list"
  nvds_page_used :: "page_ref list"
  pages :: "page_ref \<Rightarrow> page_env_tag"
  dev :: 'd

definition upd_page :: "page_ref \<Rightarrow> (page_env_tag \<Rightarrow> page_env_tag) \<Rightarrow> 'd nvds_env \<Rightarrow> 'd nvds_env" where
  "upd_page p f e = e\<lparr>pages := (pages e)(p := f (pages e p))\<rparr>"

subsection \<open>Flash sections\<close>

definition nvds_flash_read :: "'d nvds_io \<Rightarrow> u32 \<Rightarrow> nat \<Rightarrow> 'd nvds_env \<Rightarrow> nvds_ret + bytes" where
  "nvds_flash_read io off len e =
     (if env_length e < off + of_nat len then Inl NVDS_E_INVAL_PARAM
      else case rom_flash_read (rom io) (ofvr io) (env_base e + off) len (dev e) of
        None \<Rightarrow> Inl NVDS_E_FLASH_IO_FAIL | Some bs \<Rightarrow> Inr bs)"

definition nvds_flash_write :: "'d nvds_io \<Rightarrow> u32 \<Rightarrow> bytes \<Rightarrow> 'd nvds_env \<Rightarrow> nvds_ret \<times> 'd nvds_env" where
  "nvds_flash_write io off bs e =
     (if env_length e < off + of_nat (length bs) then (NVDS_E_INVAL_PARAM, e)
      else case rom_flash_write (rom io) (env_base e + off) bs (dev e) of
        None \<Rightarrow> (NVDS_E_FLASH_IO_FAIL, e) | Some d \<Rightarrow> (NVDS_OK, e\<lparr>dev := d\<rparr>))"

definition nvds_flash_erase ::
    "'d nvds_io \<Rightarrow> u32 \<Rightarrow> nat \<Rightarrow> 'd nvds_env \<Rightarrow> (nvds_ret \<times> 'd nvds_env) option" where
  "nvds_flash_erase io off n e =
     (if env_length e < off + of_nat n then Some (NVDS_E_INVAL_PARAM, e)
      else case raw_flash_erase (rom io) (cbs io) (env_base e + off) n (dev e) of
        None \<Rightarrow> None
      | Some (rc, d, _) \<Rightarrow> Some (if rc \<noteq> 0 then NVDS_E_FLASH_IO_FAIL else NVDS_OK, e\<lparr>dev := d\<rparr>))"

subsection \<open>Entry states and page states\<close>

definition states_bytes :: "u32 list \<Rightarrow> bytes" where
  "states_bytes t = concat (map le32_bytes t)"

definition states_of :: "bytes \<Rightarrow> u32 list" where
  "states_of bs = map (\<lambda>i. le32 (window (4 * i) 4 bs)) [0..<8]"

definition entry_states_table_read :: "'d nvds_io \<Rightarrow> u32 \<Rightarrow> 'd nvds_env \<Rightarrow> nvds_ret + u32 list" where
  "entry_states_table_read io page_addr e =
     map_sum id states_of (nvds_flash_read io (page_addr + of_nat PAGE_ENTRY_STATES_OFFSET) ENTRY_SIZE e)"

definition entry_states_table_write ::
    "'d nvds_io \<Rightarrow> u32 \<Rightarrow> u32 list \<Rightarrow> 'd nvds_env \<Rightarrow> nvds_ret \<times> 'd nvds_env" where
  "entry_states_table_write io page_addr t e =
     nvds_flash_write io (page_addr + of_nat PAGE_ENTRY_STATES_OFFSET) (states_bytes t) e"

definition entry_state_alter ::
    "'d nvds_io \<Rightarrow> page_ref \<Rightarrow> u8 \<Rightarrow> entry_state \<Rightarrow> 'd nvds_env \<Rightarrow> nvds_ret \<times> 'd nvds_env" where
  "entry_state_alter io p entry_idx st e =
     (if ENTRY_COUNT_PER_PAGE \<le> unat entry_idx then (NVDS_E_FAIL, e)
      else if st = ENTRY_ILLEGAL \<or> st = ENTRY_ERROR then (NVDS_E_FAIL, e)
      else case entry_state_set (entry_states (pages e p)) entry_idx st of
        Inl r \<Rightarrow> (r, e)
      | Inr t \<Rightarrow> entry_states_table_write io (page_base (pages e p)) t
                  (upd_page p (entry_states_update (\<lambda>_. t)) e))"

fun alter_each ::
    "'d nvds_io \<Rightarrow> page_ref \<Rightarrow> u8 list \<Rightarrow> entry_state \<Rightarrow> 'd nvds_env \<Rightarrow> nvds_ret \<times> 'd nvds_env" where
  "alter_each io p [] st e = (NVDS_OK, e)"
| "alter_each io p (i # is) st e =
     (let (r, e') = entry_state_alter io p i st e
      in if r \<noteq> NVDS_OK then (r, e') else alter_each io p is st e')"

definition entry_state_range_alter ::
    "'d nvds_io \<Rightarrow> page_ref \<Rightarrow> u8 \<Rightarrow> u8 \<Rightarrow> entry_state \<Rightarrow> 'd nvds_env \<Rightarrow> nvds_ret \<times> 'd nvds_env" where
  "entry_state_range_alter io p first final st e =
     (if final < first \<or> ENTRY_COUNT_PER_PAGE \<le> unat final then (NVDS_E_FAIL, e)
      else alter_each io p (map of_nat [unat first..<Suc (unat final)]) st e)"

definition page_state_alter ::
    "'d nvds_io \<Rightarrow> page_ref \<Rightarrow> u16 \<Rightarrow> 'd nvds_env \<Rightarrow> nvds_ret \<times> 'd nvds_env" where
  "page_state_alter io p c_state e =
     (let (r, e') = nvds_flash_write io (page_base (pages e p) + 6) (le16_bytes c_state) e
      in if r \<noteq> NVDS_OK then (r, e')
         else (NVDS_OK, upd_page p (header_update (state_update (\<lambda>_. c_state))) e'))"

subsection \<open>Entries\<close>

function crypt_blocks :: "(bytes \<Rightarrow> bytes option) \<Rightarrow> bytes \<Rightarrow> bytes option" where
  "crypt_blocks f bs =
     (if bs = [] then Some []
      else case f (take 16 bs) of None \<Rightarrow> None
        | Some c \<Rightarrow> map_option (\<lambda>cs. c @ cs) (crypt_blocks f (drop 16 bs)))"
  by pat_completeness auto
termination by (relation "measure (length \<circ> snd)") auto

declare crypt_blocks.simps [simp del]

definition entry_address :: "page_env_tag \<Rightarrow> u32 \<Rightarrow> u32" where
  "entry_address pg i = page_base pg + of_nat PAGE_ENTRY_OFFSET + i * of_nat ENTRY_SIZE"

definition entry_read :: "'d nvds_io \<Rightarrow> page_ref \<Rightarrow> u8 \<Rightarrow> 'd nvds_env \<Rightarrow> nvds_ret + bytes" where
  "entry_read io p entry_idx e =
     (case nvds_flash_read io (entry_address (pages e p) (ucast entry_idx)) ENTRY_SIZE e of
        Inl r \<Rightarrow> Inl r
      | Inr bs \<Rightarrow>
          if encrypted e
          then (case crypt_blocks (aes_dec io) bs of None \<Rightarrow> Inl NVDS_E_DECR_FAIL | Some c \<Rightarrow> Inr c)
          else Inr bs)"

definition entry_write ::
    "'d nvds_io \<Rightarrow> page_ref \<Rightarrow> bytes \<Rightarrow> 'd nvds_env \<Rightarrow> nvds_ret \<times> 'd nvds_env" where
  "entry_write io p entry e =
     (if of_nat ENTRY_COUNT_PER_PAGE \<le> next_free_idx (pages e p) then (NVDS_E_FAIL, e)
      else case (if encrypted e then crypt_blocks (aes_enc io) entry else Some entry) of
        None \<Rightarrow> (NVDS_E_ENCR_FAIL, e)
      | Some c \<Rightarrow>
          let (r, e') = nvds_flash_write io (entry_address (pages e p) (next_free_idx (pages e p))) c e
          in if r \<noteq> NVDS_OK then (r, e')
             else (NVDS_OK, upd_page p (\<lambda>pg. pg\<lparr>next_free_idx := next_free_idx pg + 1,
                                                entry_cnt_used := entry_cnt_used pg + 1\<rparr>) e'))"

text \<open>
  With encryption the caller's buffer is overwritten by the cipher text of its whole slots;
  \<open>entry_data_write\<close> returns that buffer too, since a bulk element goes on using it.
\<close>

definition entry_data_write ::
    "'d nvds_io \<Rightarrow> u32 \<Rightarrow> bytes \<Rightarrow> 'd nvds_env \<Rightarrow> nvds_ret \<times> bytes \<times> 'd nvds_env" where
  "entry_data_write io address buf e =
     (if encrypted e then
        let round_len = length buf div ENTRY_SIZE * ENTRY_SIZE in
        case crypt_blocks (aes_enc io) (take round_len buf) of
          None \<Rightarrow> (NVDS_E_ENCR_FAIL, buf, e)
        | Some c \<Rightarrow>
            let buf' = c @ drop round_len buf;
                (r, e1) = (if round_len \<noteq> 0 then nvds_flash_write io address c e else (NVDS_OK, e))
            in if r \<noteq> NVDS_OK then (r, buf', e1)
               else if length buf mod ENTRY_SIZE = 0 then (NVDS_OK, buf', e1)
               else
                 let rest = drop round_len buf
                 in case crypt_blocks (aes_enc io) (rest @ replicate (ENTRY_SIZE - length rest) 0xFF) of
                      None \<Rightarrow> (NVDS_E_ENCR_FAIL, buf', e1)
                    | Some c2 \<Rightarrow>
                        let (r2, e2) = nvds_flash_write io (address + of_nat round_len) c2 e1
                        in (r2, buf', e2)
      else
        let (r, e1) = nvds_flash_write io address buf e in (r, buf, e1))"

text \<open>The slots of data after a header, and where the walk goes from an entry.\<close>

definition entry_cnt :: "bytes \<Rightarrow> nat" where
  "entry_cnt en = (unat (entry_length en) + ENTRY_SIZE - 1) div ENTRY_SIZE"

definition entry_type :: "bytes \<Rightarrow> u8" where
  "entry_type en = tag_element_type_get (entry_tag en)"

definition entry_next :: "u8 \<Rightarrow> bytes \<Rightarrow> u8" where
  "entry_next idx en =
     (if entry_type en = ELEMENT_MIDDLE \<or> entry_type en = ELEMENT_BULK
      then idx + 1 + of_nat (entry_cnt en) else idx + 1)"

definition entry_matches :: "u8 \<Rightarrow> bytes \<Rightarrow> u8 \<Rightarrow> entry_state \<Rightarrow> bytes \<Rightarrow> bool" where
  "entry_matches ns_idx key ty st en \<longleftrightarrow>
     st = ENTRY_USED \<and> ns_idx = tag_namespace_get (entry_tag en) \<and> key = entry_key en
     \<and> (ty = ELEMENT_ANY \<or> entry_type en = ty) \<and> entry_crc32 en = element_header_crc32_calc en"

partial_function (option) find_walk ::
    "'d nvds_io \<Rightarrow> u8 \<Rightarrow> bytes \<Rightarrow> u8 \<Rightarrow> 'd nvds_env \<Rightarrow> page_ref \<Rightarrow> u8 \<Rightarrow> (nvds_ret + u8 option) option" where
  "find_walk io ns_idx key ty e p idx =
     (if ENTRY_COUNT_PER_PAGE \<le> unat idx then Some (Inr None)
      else case entry_state_get (entry_states (pages e p)) idx of
        Inl r \<Rightarrow> Some (Inl r)
      | Inr st \<Rightarrow>
          if st = ENTRY_FREE then Some (Inr None)
          else case entry_read io p idx e of
            Inl r \<Rightarrow> Some (Inl r)
          | Inr en \<Rightarrow>
              if entry_matches ns_idx key ty st en then Some (Inr (Some idx))
              else find_walk io ns_idx key ty e p (entry_next idx en))"

fun find_pages ::
    "'d nvds_io \<Rightarrow> u8 \<Rightarrow> bytes \<Rightarrow> u8 \<Rightarrow> 'd nvds_env \<Rightarrow> u8 \<Rightarrow> page_ref list
       \<Rightarrow> (nvds_ret + page_ref \<times> u8) option" where
  "find_pages io ns_idx key ty e entry_start [] = Some (Inl NVDS_E_NOT_FOUND)"
| "find_pages io ns_idx key ty e entry_start (p # ps) =
     (if state (header (pages e p)) \<noteq> PAGE_ACTIVE \<and> state (header (pages e p)) \<noteq> PAGE_FULL
      then find_pages io ns_idx key ty e entry_start ps
      else case find_walk io ns_idx key ty e p entry_start of
        None \<Rightarrow> None
      | Some (Inl r) \<Rightarrow> Some (Inl r)
      | Some (Inr (Some i)) \<Rightarrow> Some (Inr (p, i))
      | Some (Inr None) \<Rightarrow> find_pages io ns_idx key ty e 0 ps)"

definition element_find ::
    "'d nvds_io \<Rightarrow> u8 \<Rightarrow> bytes \<Rightarrow> u8 \<Rightarrow> page_ref option \<Rightarrow> u8 \<Rightarrow> 'd nvds_env
       \<Rightarrow> (nvds_ret + page_ref \<times> u8) option" where
  "element_find io ns_idx key entry_start page_start ty e =
     (let used = nvds_page_used e;
          from_start = (case page_start of None \<Rightarrow> [] | Some q \<Rightarrow> dropWhile (\<lambda>p. p \<noteq> q) used)
      in find_pages io ns_idx key ty e entry_start (if from_start = [] then used else from_start))"

definition page_room_get :: "page_env_tag \<Rightarrow> int" where
  "page_room_get pg = sint ((of_nat ENTRY_COUNT_PER_PAGE - next_free_idx pg) * of_nat ENTRY_SIZE)"

definition data_element_find :: "'d nvds_io \<Rightarrow> u8 \<Rightarrow> bytes \<Rightarrow> 'd nvds_env \<Rightarrow> nvds_ret option" where
  "data_element_find io ns_idx key e =
     map_option (case_sum id (\<lambda>_. NVDS_OK)) (element_find io ns_idx key 0 None ELEMENT_ANY e)"

subsection \<open>Deleting\<close>

definition cnt_used_sub :: "page_ref \<Rightarrow> nat \<Rightarrow> 'd nvds_env \<Rightarrow> 'd nvds_env" where
  "cnt_used_sub p n e = upd_page p (\<lambda>pg. pg\<lparr>entry_cnt_used := entry_cnt_used pg - of_nat n\<rparr>) e"

partial_function (option) del_frags ::
    "'d nvds_io \<Rightarrow> u8 \<Rightarrow> bytes \<Rightarrow> u8 \<Rightarrow> page_ref option \<Rightarrow> 'd nvds_env \<Rightarrow> (nvds_ret \<times> 'd nvds_env) option" where
  "del_frags io ns_idx key entry_idx page_start e =
     (case element_find io ns_idx key entry_idx page_start ELEMENT_BULK e of
        None \<Rightarrow> None
      | Some (Inl r) \<Rightarrow> Some (if r = NVDS_E_NOT_FOUND then NVDS_OK else r, e)
      | Some (Inr (p, i)) \<Rightarrow>
          case entry_read io p i e of
            Inl r \<Rightarrow> Some (r, e)
          | Inr en \<Rightarrow>
              let (r, e1) = entry_state_range_alter io p i (i + of_nat (entry_cnt en)) ENTRY_UPDATED e
              in if r \<noteq> NVDS_OK then Some (r, e1)
                 else del_frags io ns_idx key (i + of_nat (entry_cnt en + 1)) (Some p)
                        (cnt_used_sub p (entry_cnt en + 1) e1))"

definition bulk_element_del ::
    "'d nvds_io \<Rightarrow> u8 \<Rightarrow> bytes \<Rightarrow> 'd nvds_env \<Rightarrow> (nvds_ret \<times> 'd nvds_env) option" where
  "bulk_element_del io ns_idx key e =
     (case element_find io ns_idx key 0 None ELEMENT_BULKINFO e of
        None \<Rightarrow> None
      | Some (Inl r) \<Rightarrow> Some (if r = NVDS_E_NOT_FOUND then NVDS_OK else r, e)
      | Some (Inr (p, i)) \<Rightarrow>
          let (r, e1) = entry_state_range_alter io p i i ENTRY_UPDATED e
          in if r \<noteq> NVDS_OK then Some (r, e1)
             else del_frags io ns_idx key 0 None (cnt_used_sub p 1 e1))"

definition data_element_del ::
    "'d nvds_io \<Rightarrow> u8 \<Rightarrow> bytes \<Rightarrow> 'd nvds_env \<Rightarrow> (nvds_ret \<times> 'd nvds_env) option" where
  "data_element_del io ns_idx key e =
     (case element_find io ns_idx key 0 None ELEMENT_ANY e of
        None \<Rightarrow> None
      | Some (Inl r) \<Rightarrow> Some (r, e)
      | Some (Inr (p, i)) \<Rightarrow>
          case entry_read io p i e of
            Inl r \<Rightarrow> Some (r, e)
          | Inr en \<Rightarrow>
              if entry_type en = ELEMENT_BULKINFO \<or> entry_type en = ELEMENT_BULK
              then bulk_element_del io ns_idx key e
              else if entry_type en = ELEMENT_SMALL
              then let (r, e1) = entry_state_range_alter io p i i ENTRY_UPDATED e
                   in Some (if r \<noteq> NVDS_OK then (r, e1) else (NVDS_OK, cnt_used_sub p 1 e1))
              else if entry_type en = ELEMENT_MIDDLE
              then let (r, e1) = entry_state_range_alter io p i (i + of_nat (entry_cnt en)) ENTRY_UPDATED e
                   in Some (if r \<noteq> NVDS_OK then (r, e1)
                            else (NVDS_OK, cnt_used_sub p (entry_cnt en + 1) e1))
              else Some (NVDS_E_FAIL, e))"

subsection \<open>Reading and comparing\<close>

partial_function (option) read_slots ::
    "'d nvds_io \<Rightarrow> page_ref \<Rightarrow> 'd nvds_env \<Rightarrow> u8 \<Rightarrow> u8 \<Rightarrow> nat \<Rightarrow> bytes \<Rightarrow> (nvds_ret + bytes) option" where
  "read_slots io p e idx entry_end remain acc =
     (if idx \<le> entry_end
      then case entry_read io p idx e of
          Inl r \<Rightarrow> Some (Inl r)
        | Inr en \<Rightarrow> let copy = min remain ENTRY_SIZE
                   in read_slots io p e (idx + 1) entry_end (remain - copy) (acc @ take copy en)
      else Some (Inr acc))"

definition read_data :: "'d nvds_io \<Rightarrow> page_ref \<Rightarrow> 'd nvds_env \<Rightarrow> u8 \<Rightarrow> bytes \<Rightarrow> (nvds_ret + bytes) option" where
  "read_data io p e idx en =
     read_slots io p e (idx + 1) (idx + of_nat (entry_cnt en)) (unat (entry_length en)) []"

text \<open>The fragment with a given number, \<open>None\<close> inside when there is none.\<close>

partial_function (option) get_frag ::
    "'d nvds_io \<Rightarrow> u8 \<Rightarrow> bytes \<Rightarrow> nat \<Rightarrow> 'd nvds_env \<Rightarrow> u8 \<Rightarrow> page_ref option
       \<Rightarrow> (nvds_ret + (page_ref \<times> u8 \<times> bytes) option) option" where
  "get_frag io ns_idx key frag_idx e entry_idx page_start =
     (case element_find io ns_idx key entry_idx page_start ELEMENT_BULK e of
        None \<Rightarrow> None
      | Some (Inl r) \<Rightarrow> Some (if r = NVDS_E_NOT_FOUND then Inr None else Inl r)
      | Some (Inr (p, i)) \<Rightarrow>
          case entry_read io p i e of
            Inl r \<Rightarrow> Some (Inl r)
          | Inr en \<Rightarrow>
              if unat (tag_fragno_get (entry_tag en)) = frag_idx then Some (Inr (Some (p, i, en)))
              else get_frag io ns_idx key frag_idx e (i + 1 + of_nat (entry_cnt en)) (Some p))"

text \<open>\<open>space\<close> is the size of the caller's buffer; a fragment that does not fit leaves it.\<close>

fun get_frags ::
    "'d nvds_io \<Rightarrow> u8 \<Rightarrow> bytes \<Rightarrow> nat \<Rightarrow> 'd nvds_env \<Rightarrow> nat list \<Rightarrow> bytes \<Rightarrow> (nvds_ret + bytes) option" where
  "get_frags io ns_idx key space e [] acc = Some (Inr acc)"
| "get_frags io ns_idx key space e (f # fs) acc =
     (case get_frag io ns_idx key f e 0 None of
        None \<Rightarrow> None
      | Some (Inl r) \<Rightarrow> Some (Inl r)
      | Some (Inr None) \<Rightarrow> get_frags io ns_idx key space e fs acc
      | Some (Inr (Some (p, i, en))) \<Rightarrow>
          case read_data io p e i en of
            None \<Rightarrow> None
          | Some (Inl r) \<Rightarrow> Some (Inl r)
          | Some (Inr d) \<Rightarrow>
              if space < length acc + length d then None
              else get_frags io ns_idx key space e fs (acc @ d))"

text \<open>
  The results of the reading functions: the code, \<^verbatim>\<open>*bufsize\<close> afterwards and, when the code
  is \<^verbatim>\<open>NVDS_OK\<close> and a buffer was given, the bytes stored in it. \<open>buf\<close> says whether the
  buffer pointer is not null.
\<close>

definition bulk_element_get ::
    "'d nvds_io \<Rightarrow> u8 \<Rightarrow> bytes \<Rightarrow> bool \<Rightarrow> u32 \<Rightarrow> 'd nvds_env \<Rightarrow> (nvds_ret \<times> u32 \<times> bytes) option" where
  "bulk_element_get io ns_idx key buf bufsize e =
     (case element_find io ns_idx key 0 None ELEMENT_BULKINFO e of
        None \<Rightarrow> None
      | Some (Inl r) \<Rightarrow> Some (r, bufsize, [])
      | Some (Inr (p, i)) \<Rightarrow>
          case entry_read io p i e of
            Inl r \<Rightarrow> Some (r, bufsize, [])
          | Inr en \<Rightarrow>
              let bulk_size = entry_bulksize en; frag_cnt = unat (entry_length en) in
              if \<not> buf then Some (NVDS_OK, bulk_size, [])
              else if bufsize < bulk_size then Some (NVDS_E_INVALID_LENGTH, bulk_size, [])
              else map_option (case_sum (\<lambda>r. (r, bulk_size, [])) (\<lambda>d. (NVDS_OK, bulk_size, d)))
                     (get_frags io ns_idx key (unat bufsize) e [0..<frag_cnt] []))"

definition data_element_get ::
    "'d nvds_io \<Rightarrow> u8 \<Rightarrow> bytes \<Rightarrow> bool \<Rightarrow> u32 \<Rightarrow> 'd nvds_env \<Rightarrow> (nvds_ret \<times> u32 \<times> bytes) option" where
  "data_element_get io ns_idx key buf bufsize e =
     (case element_find io ns_idx key 0 None ELEMENT_ANY e of
        None \<Rightarrow> None
      | Some (Inl r) \<Rightarrow> Some (r, bufsize, [])
      | Some (Inr (p, i)) \<Rightarrow>
          case entry_read io p i e of
            Inl r \<Rightarrow> Some (r, bufsize, [])
          | Inr en \<Rightarrow>
              let entry_len = ucast (entry_length en) :: u32 in
              if entry_type en = ELEMENT_BULK \<or> entry_type en = ELEMENT_BULKINFO
              then bulk_element_get io ns_idx key buf bufsize e
              else if \<not> buf then Some (NVDS_OK, entry_len, [])
              else if bufsize < entry_len then Some (NVDS_E_INVALID_LENGTH, entry_len, [])
              else if entry_type en = ELEMENT_SMALL
              then if 8 < unat entry_len then None
                   else Some (NVDS_OK, entry_len, take (unat entry_len) (entry_value en))
              else if entry_type en = ELEMENT_MIDDLE
              then case read_data io p e i en of
                  None \<Rightarrow> None
                | Some (Inl r) \<Rightarrow> Some (r, entry_len, [])
                | Some (Inr d) \<Rightarrow>
                    Some (if entry_datacrc32 en \<noteq> element_data_crc32_calc d then NVDS_E_NOT_FOUND
                          else NVDS_OK, entry_len, d)
              else Some (NVDS_OK, entry_len, []))"

text \<open>Comparing slots with the buffer from an offset on; reading outside the buffer is \<open>None\<close>.\<close>

partial_function (option) cmp_slots ::
    "'d nvds_io \<Rightarrow> page_ref \<Rightarrow> 'd nvds_env \<Rightarrow> bytes \<Rightarrow> u8 \<Rightarrow> u8 \<Rightarrow> nat \<Rightarrow> nat \<Rightarrow> bool option" where
  "cmp_slots io p e buf idx entry_end remain dst =
     (if idx \<le> entry_end
      then case entry_read io p idx e of
          Inl r \<Rightarrow> Some False
        | Inr en \<Rightarrow>
            let copy = min remain ENTRY_SIZE in
            if length buf < dst + copy then None
            else if window dst copy buf \<noteq> take copy en then Some False
            else cmp_slots io p e buf (idx + 1) entry_end (remain - copy) (dst + copy)
      else Some True)"

definition cmp_data ::
    "'d nvds_io \<Rightarrow> page_ref \<Rightarrow> 'd nvds_env \<Rightarrow> u8 \<Rightarrow> bytes \<Rightarrow> bytes \<Rightarrow> nat \<Rightarrow> bool option" where
  "cmp_data io p e idx en buf dst =
     cmp_slots io p e buf (idx + 1) (idx + of_nat (entry_cnt en)) (unat (entry_length en)) dst"

fun cmp_frags ::
    "'d nvds_io \<Rightarrow> u8 \<Rightarrow> bytes \<Rightarrow> bytes \<Rightarrow> 'd nvds_env \<Rightarrow> nat list \<Rightarrow> nat \<Rightarrow> bool option" where
  "cmp_frags io ns_idx key buf e [] dst = Some True"
| "cmp_frags io ns_idx key buf e (f # fs) dst =
     (case get_frag io ns_idx key f e 0 None of
        None \<Rightarrow> None
      | Some (Inl r) \<Rightarrow> Some False
      | Some (Inr None) \<Rightarrow> cmp_frags io ns_idx key buf e fs dst
      | Some (Inr (Some (p, i, en))) \<Rightarrow>
          case cmp_data io p e i en buf dst of
            None \<Rightarrow> None
          | Some False \<Rightarrow> Some False
          | Some True \<Rightarrow> cmp_frags io ns_idx key buf e fs (dst + unat (entry_length en)))"

definition bulk_element_compare ::
    "'d nvds_io \<Rightarrow> u8 \<Rightarrow> bytes \<Rightarrow> bytes \<Rightarrow> 'd nvds_env \<Rightarrow> bool option" where
  "bulk_element_compare io ns_idx key buf e =
     (case element_find io ns_idx key 0 None ELEMENT_BULKINFO e of
        None \<Rightarrow> None
      | Some (Inl r) \<Rightarrow> Some (r = NVDS_E_NOT_FOUND)
      | Some (Inr (p, i)) \<Rightarrow>
          case entry_read io p i e of
            Inl r \<Rightarrow> Some False
          | Inr en \<Rightarrow>
              if entry_bulksize en \<noteq> of_nat (length buf) then Some False
              else cmp_frags io ns_idx key buf e [0..<unat (entry_length en)] 0)"

definition element_compare ::
    "'d nvds_io \<Rightarrow> u8 \<Rightarrow> bytes \<Rightarrow> bytes \<Rightarrow> 'd nvds_env \<Rightarrow> bool option" where
  "element_compare io ns_idx key buf e =
     (case data_element_get io ns_idx key False 0 e of
        None \<Rightarrow> None
      | Some (r, data_size, _) \<Rightarrow>
          if r \<noteq> NVDS_OK then Some False
          else if data_size \<noteq> of_nat (length buf) then Some False
          else case element_find io ns_idx key 0 None ELEMENT_ANY e of
            None \<Rightarrow> None
          | Some (Inl r) \<Rightarrow> Some False
          | Some (Inr (p, i)) \<Rightarrow>
              case entry_read io p i e of
                Inl r \<Rightarrow> Some False
              | Inr en \<Rightarrow>
                  if entry_type en = ELEMENT_SMALL
                  then if unat (entry_length en) \<noteq> length buf then Some False
                       else if 8 < length buf then None
                       else Some (buf = take (length buf) (entry_value en))
                  else if entry_type en = ELEMENT_MIDDLE
                  then if unat (entry_length en) \<noteq> length buf then Some False
                       else cmp_data io p e i en buf 0
                  else if entry_type en = ELEMENT_BULK \<or> entry_type en = ELEMENT_BULKINFO
                  then bulk_element_compare io ns_idx key buf e
                  else Some False)"

subsection \<open>Pages\<close>

definition page_clear :: "page_env_tag \<Rightarrow> page_env_tag" where
  "page_clear pg = pg\<lparr>
     header := \<lparr>magic = 0xFFFFFFFF, version = 0xFFFF, state = 0xFFFF, seqno = 0xFFFFFFFF,
                rsv = replicate 16 0xFF, crc32_of = 0xFFFFFFFF\<rparr>,
     entry_states := replicate ENTRY_STATES_TABLE_SIZE 0xFFFFFFFF,
     entry_cnt_used := 0, next_free_idx := 0\<rparr>"

definition page_init_header :: "u32 \<Rightarrow> page_header \<Rightarrow> page_header" where
  "page_init_header seq h =
     (let h1 = h\<lparr>magic := NVDS_FLASH_MAGIC, version := NVDS_FLASH_VERSION, state := PAGE_ACTIVE,
                 seqno := seq\<rparr>
      in h1\<lparr>crc32_of := page_header_crc32_calc h1\<rparr>)"

fun erase_candidate ::
    "(page_ref \<Rightarrow> page_env_tag) \<Rightarrow> page_ref list \<Rightarrow> u16 \<Rightarrow> page_ref option \<Rightarrow> page_ref option" where
  "erase_candidate pgs [] min_cnt_used erase_page = erase_page"
| "erase_candidate pgs (p # ps) min_cnt_used erase_page =
     (if entry_cnt_used (pgs p) < min_cnt_used
      then erase_candidate pgs ps (entry_cnt_used (pgs p)) (Some p)
      else erase_candidate pgs ps min_cnt_used erase_page)"

text \<open>Copying the used entries, slot by slot; the first component is whether all went well.\<close>

fun copy_entries ::
    "'d nvds_io \<Rightarrow> page_ref \<Rightarrow> page_ref \<Rightarrow> u8 list \<Rightarrow> 'd nvds_env \<Rightarrow> bool \<times> 'd nvds_env" where
  "copy_entries io src dst [] e = (True, e)"
| "copy_entries io src dst (i # is) e =
     (if entry_state_get (entry_states (pages e src)) i \<noteq> Inr ENTRY_USED
      then copy_entries io src dst is e
      else case entry_read io src i e of
        Inl r \<Rightarrow> (False, e)
      | Inr en \<Rightarrow>
          let (r, e1) = entry_write io dst en e in
          if r \<noteq> NVDS_OK then (False, e1)
          else let (r2, e2) = entry_state_alter io dst (ucast (next_free_idx (pages e1 dst) - 1)) ENTRY_USED e1
               in if r2 \<noteq> NVDS_OK then (False, e2) else copy_entries io src dst is e2)"

definition move_candidate ::
    "'d nvds_io \<Rightarrow> page_ref \<Rightarrow> page_ref \<Rightarrow> 'd nvds_env \<Rightarrow> (page_ref option \<times> 'd nvds_env) option" where
  "move_candidate io page erase_page e =
     (let e1 = e\<lparr>nvds_page_used := remove1 erase_page (nvds_page_used e),
                 nvds_page_free := nvds_page_free e @ [erase_page]\<rparr>;
          (r, e2) = page_state_alter io erase_page PAGE_CANDIDATE e1
      in if r \<noteq> NVDS_OK then Some (None, e2)
         else
           let (ok, e3) = copy_entries io erase_page page (map of_nat [0..<ENTRY_COUNT_PER_PAGE]) e2
           in if \<not> ok then Some (None, e3)
              else case nvds_flash_erase io (page_base (pages e3 erase_page)) SPI_FLASH_SEC_SIZE e3 of
                None \<Rightarrow> None
              | Some (r2, e4) \<Rightarrow>
                  if r2 \<noteq> NVDS_OK then Some (None, e4)
                  else Some (Some page, upd_page erase_page page_clear e4))"

definition start_page ::
    "'d nvds_io \<Rightarrow> u32 \<Rightarrow> page_ref \<Rightarrow> page_ref option \<Rightarrow> 'd nvds_env \<Rightarrow> (page_ref option \<times> 'd nvds_env) option" where
  "start_page io seq page erase_page e =
     (let e1 = upd_page page (header_update (page_init_header seq)) (upd_page page page_clear e);
          (r, e2) = nvds_flash_write io (page_base (pages e1 page))
                      (page_header_bytes (header (pages e1 page))) e1
      in if r \<noteq> NVDS_OK then Some (None, e2)
         else
           let (r2, e3) = page_state_alter io page PAGE_ACTIVE e2
           in if r2 \<noteq> NVDS_OK then Some (None, e3)
              else
                let e4 = e3\<lparr>nvds_page_free := remove1 page (nvds_page_free e3),
                            nvds_page_used := nvds_page_used e3 @ [page]\<rparr>
                in if nvds_page_free e4 \<noteq> [] then Some (Some page, e4)
                   else case erase_page of
                     None \<Rightarrow> None
                   | Some q \<Rightarrow> move_candidate io page q e4)"

definition new_page_request ::
    "'d nvds_io \<Rightarrow> u32 \<Rightarrow> 'd nvds_env \<Rightarrow> (page_ref option \<times> 'd nvds_env) option" where
  "new_page_request io seq e =
     (case nvds_page_free e of
        [] \<Rightarrow> Some (None, e)
      | page # rest \<Rightarrow>
          let erase_page = (if rest = []
                then erase_candidate (pages e) (nvds_page_used e) (of_nat ENTRY_COUNT_PER_PAGE) None
                else None)
          in if rest = [] \<and> erase_page = None then Some (None, e)
             else if state (header (pages e page)) \<noteq> PAGE_UNINITIALIZED
             then case nvds_flash_erase io (page_base (pages e page)) SPI_FLASH_SEC_SIZE e of
                 None \<Rightarrow> None
               | Some (r, e1) \<Rightarrow>
                   if r \<noteq> NVDS_OK then Some (None, e1) else start_page io seq page erase_page e1
             else start_page io seq page erase_page e)"

subsection \<open>Writing\<close>

text \<open>A header entry: everything \<open>0xFF\<close>, then tag, length, key, value and checksum.\<close>

definition entry_make :: "u16 \<Rightarrow> u16 \<Rightarrow> bytes \<Rightarrow> bytes \<Rightarrow> bytes" where
  "entry_make tag len key val =
     (let en = le16_bytes tag @ le16_bytes len @ replicate 4 0xFF
                 @ key @ 0 # replicate (15 - length key) 0xFF @ val
      in blit en 4 (le32_bytes (element_header_crc32_calc en)))"

definition page_illegal :: "page_env_tag \<Rightarrow> bool" where
  "page_illegal pg \<longleftrightarrow> state (header pg) \<in> {PAGE_INVALID, PAGE_ERROR, PAGE_CANDIDATE}"

text \<open>
  A page is short of room: it is marked full and a new page is requested, which must not be short
  either. The code has this three times, with different tests; \<^verbatim>\<open>NVDS_E_NO_SPACE\<close> stands for
  its exits without a page.
\<close>

definition make_room ::
    "'d nvds_io \<Rightarrow> (page_env_tag \<Rightarrow> bool) \<Rightarrow> page_ref \<Rightarrow> 'd nvds_env
       \<Rightarrow> ((nvds_ret + page_ref) \<times> 'd nvds_env) option" where
  "make_room io short cur e =
     (if \<not> short (pages e cur) then Some (Inr cur, e)
      else
        let (r, e1) = page_state_alter io cur PAGE_FULL e
        in if r \<noteq> NVDS_OK then Some (Inl r, e1)
           else case new_page_request io (seqno (header (pages e1 cur)) + 1) e1 of
             None \<Rightarrow> None
           | Some (None, e2) \<Rightarrow> Some (Inl NVDS_E_NO_SPACE, e2)
           | Some (Some c, e2) \<Rightarrow>
               Some (if short (pages e2 c) then Inl NVDS_E_NO_SPACE else Inr c, e2))"

definition add_slots :: "page_ref \<Rightarrow> nat \<Rightarrow> 'd nvds_env \<Rightarrow> 'd nvds_env" where
  "add_slots p n e = upd_page p (\<lambda>pg. pg\<lparr>next_free_idx := next_free_idx pg + of_nat n,
                                         entry_cnt_used := entry_cnt_used pg + of_nat n\<rparr>) e"

text \<open>Header, data in the slots after it, then the states; the code and the buffer.\<close>

definition put_slots ::
    "'d nvds_io \<Rightarrow> page_ref \<Rightarrow> bytes \<Rightarrow> bytes \<Rightarrow> 'd nvds_env \<Rightarrow> nvds_ret \<times> bytes \<times> 'd nvds_env" where
  "put_slots io p en data e =
     (let entry_start = ucast (next_free_idx (pages e p)) :: u8;
          cnt = (length data + ENTRY_SIZE - 1) div ENTRY_SIZE;
          (r, e1) = entry_write io p en e
      in if r \<noteq> NVDS_OK then (r, data, e1)
         else
           let (r2, data', e2) = entry_data_write io
                 (entry_address (pages e1 p) (next_free_idx (pages e1 p))) data e1
           in if r2 \<noteq> NVDS_OK then (r2, data', e2)
              else
                let (r3, e3) = entry_state_range_alter io p entry_start (entry_start + of_nat cnt)
                                 ENTRY_USED (add_slots p cnt e2)
                in (r3, data', e3))"

text \<open>\<open>data_crc\<close> of a fragment is taken over the start of the buffer, not over the fragment.\<close>

definition put_frag ::
    "'d nvds_io \<Rightarrow> u8 \<Rightarrow> bytes \<Rightarrow> page_ref \<Rightarrow> nat \<Rightarrow> nat \<Rightarrow> u16 \<Rightarrow> bytes \<Rightarrow> 'd nvds_env
       \<Rightarrow> nvds_ret \<times> bytes \<times> 'd nvds_env" where
  "put_frag io ns_idx key p len buf_offset frag_cnt buf e =
     (let (r, data', e1) = put_slots io p
            (entry_make (tag_set ns_idx ELEMENT_BULK (ucast frag_cnt)) (of_nat len) key
               (replicate 4 0xFF @ le32_bytes (element_data_crc32_calc (take len buf))))
            (window buf_offset len buf) e
      in (r, blit buf buf_offset data', e1))"

datatype put_out = PutDone u16 | PutNoSpace | PutErr nvds_ret

partial_function (option) put_frags ::
    "'d nvds_io \<Rightarrow> u8 \<Rightarrow> bytes \<Rightarrow> page_ref \<Rightarrow> nat \<Rightarrow> u16 \<Rightarrow> u16 \<Rightarrow> bytes \<Rightarrow> 'd nvds_env
       \<Rightarrow> (put_out \<times> 'd nvds_env) option" where
  "put_frags io ns_idx key cur remain buf_offset frag_cnt buf e =
     (case make_room io (\<lambda>pg. page_room_get pg < 2 * int ENTRY_SIZE) cur e of
        None \<Rightarrow> None
      | Some (Inl r, e1) \<Rightarrow> Some (if r = NVDS_E_NO_SPACE then PutNoSpace else PutErr r, e1)
      | Some (Inr p, e1) \<Rightarrow>
          let len = min (nat (page_room_get (pages e1 p)) - ENTRY_SIZE) remain;
              (r, buf', e2) = put_frag io ns_idx key p len (unat buf_offset) frag_cnt buf e1
          in if r \<noteq> NVDS_OK then Some (PutErr r, e2)
             else if 0 < remain - len
             then put_frags io ns_idx key p (remain - len) (buf_offset + of_nat len) (frag_cnt + 1) buf' e2
             else Some (PutDone (frag_cnt + 1), e2))"

definition no_space_out ::
    "'d nvds_io \<Rightarrow> u8 \<Rightarrow> bytes \<Rightarrow> 'd nvds_env \<Rightarrow> (nvds_ret \<times> 'd nvds_env) option" where
  "no_space_out io ns_idx key e =
     map_option (\<lambda>(r, e1). (if r \<noteq> NVDS_OK then r else NVDS_E_NO_SPACE, e1))
       (del_frags io ns_idx key 0 None e)"

definition put_header ::
    "'d nvds_io \<Rightarrow> page_ref \<Rightarrow> bytes \<Rightarrow> 'd nvds_env \<Rightarrow> nvds_ret \<times> 'd nvds_env" where
  "put_header io p en e =
     (let entry_start = ucast (next_free_idx (pages e p)) :: u8;
          (r, e1) = entry_write io p en e
      in if r \<noteq> NVDS_OK then (r, e1)
         else entry_state_range_alter io p entry_start entry_start ENTRY_USED e1)"

definition put_bulkinfo ::
    "'d nvds_io \<Rightarrow> u8 \<Rightarrow> bytes \<Rightarrow> nat \<Rightarrow> u16 \<Rightarrow> 'd nvds_env \<Rightarrow> (nvds_ret \<times> 'd nvds_env) option" where
  "put_bulkinfo io ns_idx key bufsize frag_cnt e =
     (if nvds_page_used e = [] then None
      else if page_illegal (pages e (last (nvds_page_used e))) then Some (NVDS_E_FAIL, e)
      else case make_room io (\<lambda>pg. page_room_get pg < int ENTRY_SIZE) (last (nvds_page_used e)) e of
        None \<Rightarrow> None
      | Some (Inl r, e1) \<Rightarrow>
          if r = NVDS_E_NO_SPACE then no_space_out io ns_idx key e1 else Some (r, e1)
      | Some (Inr p, e1) \<Rightarrow>
          Some (put_header io p
            (entry_make (tag_set ns_idx ELEMENT_BULKINFO TAG_FRAG_NO_DEFAULT) frag_cnt key
               (replicate 4 0xFF @ le32_bytes (of_nat bufsize))) e1))"

definition bulk_element_put ::
    "'d nvds_io \<Rightarrow> u8 \<Rightarrow> bytes \<Rightarrow> bytes \<Rightarrow> 'd nvds_env \<Rightarrow> (nvds_ret \<times> 'd nvds_env) option" where
  "bulk_element_put io ns_idx key buf e =
     (if nvds_page_used e = [] then None
      else if page_illegal (pages e (last (nvds_page_used e))) then Some (NVDS_E_FAIL, e)
      else case put_frags io ns_idx key (last (nvds_page_used e)) (length buf) 0 0 buf e of
        None \<Rightarrow> None
      | Some (PutErr r, e1) \<Rightarrow> Some (r, e1)
      | Some (PutNoSpace, e1) \<Rightarrow> no_space_out io ns_idx key e1
      | Some (PutDone frag_cnt, e1) \<Rightarrow> put_bulkinfo io ns_idx key (length buf) frag_cnt e1)"

definition room_short :: "nat \<Rightarrow> page_env_tag \<Rightarrow> bool" where
  "room_short bufsize pg \<longleftrightarrow>
     (bufsize \<le> ELEMENT_SMALL_MAX_SIZE \<and> page_room_get pg < int ENTRY_SIZE)
   \<or> (ELEMENT_SMALL_MAX_SIZE < bufsize
      \<and> (word_of_int (page_room_get pg) :: u32) < of_nat (ENTRY_SIZE + bufsize))"

subsection \<open>Namespaces\<close>

definition ns_add_used_cnt :: "u8 \<Rightarrow> 'd nvds_env \<Rightarrow> nvds_ret \<times> 'd nvds_env" where
  "ns_add_used_cnt ns_idx e =
     (if NAMESPACE_MAX_CNT < ns_idx then (NVDS_E_INVAL_PARAM, e)
      else case List.extract (\<lambda>ns. ns_index ns = ns_idx) (ns_list e) of
        None \<Rightarrow> (NVDS_OK, e)
      | Some (before, ns, after) \<Rightarrow>
          (NVDS_OK, e\<lparr>ns_list := before @ ns\<lparr>used_cnt := used_cnt ns + 1\<rparr> # after\<rparr>))"

definition ns_del_used_cnt ::
    "'d nvds_io \<Rightarrow> u8 \<Rightarrow> bool \<Rightarrow> 'd nvds_env \<Rightarrow> (nvds_ret \<times> 'd nvds_env) option" where
  "ns_del_used_cnt io ns_idx del_flag e =
     (if NAMESPACE_MAX_CNT < ns_idx then Some (NVDS_E_INVAL_PARAM, e)
      else case List.extract (\<lambda>ns. ns_index ns = ns_idx) (ns_list e) of
        None \<Rightarrow> Some (NVDS_OK, e)
      | Some (before, ns, after) \<Rightarrow>
          if used_cnt ns - 1 = 0 \<and> del_flag
          then data_element_del io 0 (ns_name ns)
                 (e\<lparr>ns_list := before @ after, ns_states := ns_state_set (ns_states e) ns_idx False\<rparr>)
          else Some (NVDS_OK, e\<lparr>ns_list := before @ ns\<lparr>used_cnt := used_cnt ns - 1\<rparr> # after\<rparr>))"

definition put_element ::
    "'d nvds_io \<Rightarrow> u8 \<Rightarrow> bytes \<Rightarrow> bytes \<Rightarrow> page_ref \<Rightarrow> 'd nvds_env \<Rightarrow> nvds_ret \<times> 'd nvds_env" where
  "put_element io ns_idx key buf p e =
     (if length buf \<le> ELEMENT_SMALL_MAX_SIZE
      then put_header io p
             (entry_make (tag_set ns_idx ELEMENT_SMALL TAG_FRAG_NO_DEFAULT) (of_nat (length buf)) key
                (buf @ replicate (8 - length buf) 0xFF)) e
      else
        let (r, _, e1) = put_slots io p
              (entry_make (tag_set ns_idx ELEMENT_MIDDLE TAG_FRAG_NO_DEFAULT) (of_nat (length buf)) key
                 (replicate 4 0xFF @ le32_bytes (element_data_crc32_calc buf))) buf e
        in (r, e1))"

definition data_element_put ::
    "'d nvds_io \<Rightarrow> u8 \<Rightarrow> bytes \<Rightarrow> bytes \<Rightarrow> 'd nvds_env \<Rightarrow> (nvds_ret \<times> 'd nvds_env) option" where
  "data_element_put io ns_idx key buf e =
     (case element_compare io ns_idx key buf e of
        None \<Rightarrow> None
      | Some True \<Rightarrow> map_option (\<lambda>(_, e1). (NVDS_OK, e1)) (ns_del_used_cnt io ns_idx False e)
      | Some False \<Rightarrow>
          case data_element_del io ns_idx key e of
            None \<Rightarrow> None
          | Some (r, e1) \<Rightarrow>
              if r \<noteq> NVDS_OK \<and> r \<noteq> NVDS_E_NOT_FOUND then Some (r, e1)
              else case (if r = NVDS_OK then ns_del_used_cnt io ns_idx False e1 else Some (r, e1)) of
                None \<Rightarrow> None
              | Some (_, e2) \<Rightarrow>
                  if ELEMENT_MIDDLE_MAX_SIZE < length buf then bulk_element_put io ns_idx key buf e2
                  else if nvds_page_used e2 = [] then None
                  else if page_illegal (pages e2 (last (nvds_page_used e2))) then Some (NVDS_E_FAIL, e2)
                  else case make_room io (room_short (length buf)) (last (nvds_page_used e2)) e2 of
                    None \<Rightarrow> None
                  | Some (Inl r, e3) \<Rightarrow> Some (r, e3)
                  | Some (Inr p, e3) \<Rightarrow> Some (put_element io ns_idx key buf p e3))"

definition next_ns_idx :: "u32 list \<Rightarrow> u8 option" where
  "next_ns_idx t = map_option of_nat (find (\<lambda>i. \<not> ns_state_get t (of_nat i)) [1..<254])"

definition namespace_create ::
    "'d nvds_io \<Rightarrow> bytes \<Rightarrow> 'd nvds_env \<Rightarrow> ((nvds_ret + u8) \<times> 'd nvds_env) option" where
  "namespace_create io name e =
     (case next_ns_idx (ns_states e) of
        None \<Rightarrow> Some (Inl NVDS_E_NO_SPACE, e)
      | Some ns_idx \<Rightarrow>
          if \<not> ns_alloc io (length (ns_list e)) then Some (Inl NVDS_E_NO_SPACE, e)
          else case data_element_put io 0 name [ns_idx] e of
            None \<Rightarrow> None
          | Some (r, e1) \<Rightarrow>
              if r \<noteq> NVDS_OK then Some (Inl r, e1)
              else Some (Inr ns_idx,
                e1\<lparr>ns_states := ns_state_set (ns_states e1) ns_idx True,
                   ns_list := ns_list e1 @ [\<lparr>ns_name = name, ns_index = ns_idx, used_cnt = 0\<rparr>]\<rparr>))"

definition ns_index_by_namespace ::
    "'d nvds_io \<Rightarrow> bytes option \<Rightarrow> bool \<Rightarrow> 'd nvds_env \<Rightarrow> ((nvds_ret + u8) \<times> 'd nvds_env) option" where
  "ns_index_by_namespace io name create e =
     (case name of
        None \<Rightarrow> Some (Inr NAMESPACE_NULL_IDX, e)
      | Some n \<Rightarrow>
          if KEY_NAME_MAX_SIZE - 1 < length n then Some (Inl NVDS_E_INVAL_PARAM, e)
          else case find (\<lambda>ns. ns_name ns = n) (ns_list e) of
            Some ns \<Rightarrow> Some (Inr (ns_index ns), e)
          | None \<Rightarrow> if create then namespace_create io n e else Some (Inl NVDS_E_NOT_FOUND, e))"

subsection \<open>Loading\<close>

definition header_state :: "u16 \<Rightarrow> page_env_tag \<Rightarrow> page_env_tag" where
  "header_state s = header_update (state_update (\<lambda>_. s))"

text \<open>The eight reads of 512 bytes: \<open>None\<close> is a failed read, otherwise whether all is \<open>0xFF\<close>.\<close>

fun page_blank :: "'d nvds_io \<Rightarrow> u32 \<Rightarrow> nat list \<Rightarrow> 'd nvds_env \<Rightarrow> bool option" where
  "page_blank io addr [] e = Some True"
| "page_blank io addr (i # is) e =
     (case nvds_flash_read io (addr + of_nat (512 * i)) 512 e of
        Inl r \<Rightarrow> None
      | Inr bs \<Rightarrow> if list_all (\<lambda>b. b = 0xFF) bs then page_blank io addr is e else Some False)"

definition page_header_read :: "'d nvds_io \<Rightarrow> page_env_tag \<Rightarrow> 'd nvds_env \<Rightarrow> page_env_tag" where
  "page_header_read io pg e =
     (case nvds_flash_read io (page_base pg) 32 e of
        Inl r \<Rightarrow> header_state PAGE_INVALID pg
      | Inr bs \<Rightarrow>
          let h = page_header_of bs; pg1 = pg\<lparr>header := h\<rparr> in
          if state h = PAGE_UNINITIALIZED
          then (case page_blank io (page_base pg) [0..<8] e of
              None \<Rightarrow> header_state PAGE_INVALID pg1
            | Some False \<Rightarrow> header_state PAGE_ERROR pg1
            | Some True \<Rightarrow> header_state PAGE_UNINITIALIZED pg1)
          else if crc32_of h \<noteq> page_header_crc32_calc h then header_state PAGE_ERROR pg1
          else if magic h \<noteq> NVDS_FLASH_MAGIC then header_state PAGE_ERROR pg1
          else pg1)"

definition cmp_sequence_no :: "(page_ref \<Rightarrow> page_env_tag) \<Rightarrow> page_ref \<Rightarrow> page_ref \<Rightarrow> bool" where
  "cmp_sequence_no pgs a b \<longleftrightarrow>
     seqno (header (pgs a)) AND NOT (push_bit 31 1) < seqno (header (pgs b)) AND NOT (push_bit 31 1)"

datatype load_out = LoadDone | LoadErr | LoadNoSpace

text \<open>
  The walk over the entries of one page. The namespace name is copied by its string length, which
  leaves the 16-byte field when the key is not terminated.
\<close>

function load_entries ::
    "'d nvds_io \<Rightarrow> page_ref \<Rightarrow> nat \<Rightarrow> 'd nvds_env \<Rightarrow> (load_out \<times> 'd nvds_env) option" where
  "load_entries io p entry_idx e =
     (if ENTRY_COUNT_PER_PAGE \<le> entry_idx then Some (LoadDone, e)
      else case entry_state_get (entry_states (pages e p)) (of_nat entry_idx) of
        Inr ENTRY_FREE \<Rightarrow> Some (LoadDone, upd_page p (next_free_idx_update (\<lambda>_. of_nat entry_idx)) e)
      | Inr ENTRY_ILLEGAL \<Rightarrow>
          load_entries io p (entry_idx + 1) (snd (entry_state_alter io p (of_nat entry_idx) ENTRY_UPDATED e))
      | Inr ENTRY_UPDATED \<Rightarrow> load_entries io p (entry_idx + 1) e
      | _ \<Rightarrow>
          case entry_read io p (of_nat entry_idx) e of
            Inl r \<Rightarrow> Some (LoadErr, e)
          | Inr en \<Rightarrow>
              let e1 = (if entry_crc32 en \<noteq> element_header_crc32_calc en
                        then snd (entry_state_alter io p (of_nat entry_idx) ENTRY_UPDATED e) else e);
                  is_ns = (tag_namespace_get (entry_tag en) = 0);
                  e2 = (if is_ns
                        then e1\<lparr>ns_list := ns_list e1 @ [\<lparr>ns_name = entry_key en,
                                  ns_index = entry_value en ! 0, used_cnt = 0\<rparr>],
                                ns_states := ns_state_set (ns_states e1) (entry_value en ! 0) True\<rparr>
                        else e1);
                  n = (if entry_type en = ELEMENT_MIDDLE \<or> entry_type en = ELEMENT_BULK
                       then 1 + entry_cnt en else 1)
              in if is_ns \<and> \<not> ns_alloc io (length (ns_list e)) then Some (LoadNoSpace, e1)
                 else if is_ns \<and> KEY_NAME_MAX_SIZE < length (entry_key en) then None
                 else load_entries io p (entry_idx + n)
                        (upd_page p (\<lambda>pg. pg\<lparr>entry_cnt_used := entry_cnt_used pg + of_nat n\<rparr>) e2))"
  by pat_completeness auto
termination by (relation "measure (\<lambda>(io, p, i, e). 126 - i)") (auto simp: Let_def)

declare load_entries.simps [simp del]

text \<open>The sectors in turn; \<open>is_err\<close> is set once and never cleared.\<close>

fun load_sectors ::
    "'d nvds_io \<Rightarrow> page_ref list \<Rightarrow> bool \<Rightarrow> 'd nvds_env \<Rightarrow> (nvds_ret \<times> 'd nvds_env) option" where
  "load_sectors io [] is_err e = Some (NVDS_OK, e)"
| "load_sectors io (p # ps) is_err e =
     (if \<not> page_alloc io p then Some (NVDS_E_NO_SPACE, e)
      else
        let pg0 = \<lparr>header = \<lparr>magic = 0, version = 0, state = 0, seqno = 0, rsv = replicate 16 0,
                            crc32_of = 0\<rparr>,
                   entry_states = replicate ENTRY_STATES_TABLE_SIZE 0,
                   page_base = of_nat (p * SPI_FLASH_SEC_SIZE), entry_cnt_used = 0, next_free_idx = 0\<rparr>;
            pg = page_header_read io pg0 e;
            e1 = upd_page p (\<lambda>_. pg) e;
            to_free = (\<lambda>e. e\<lparr>nvds_page_free := nvds_page_free e @ [p]\<rparr>)
        in if state (header pg) \<in> {PAGE_UNINITIALIZED, PAGE_ERROR, PAGE_INVALID}
           then load_sectors io ps is_err (to_free e1)
           else case entry_states_table_read io (page_base pg) e1 of
             Inl r \<Rightarrow> load_sectors io ps is_err (to_free e1)
           | Inr t \<Rightarrow>
               case load_entries io p 0 (upd_page p (\<lambda>pg. pg\<lparr>entry_states := t,
                      next_free_idx := of_nat ENTRY_COUNT_PER_PAGE, entry_cnt_used := 0\<rparr>) e1) of
                 None \<Rightarrow> None
               | Some (LoadNoSpace, e2) \<Rightarrow> Some (NVDS_E_NO_SPACE, e2)
               | Some (out, e2) \<Rightarrow>
                   if is_err \<or> out = LoadErr then load_sectors io ps True (to_free e2)
                   else load_sectors io ps False
                          (e2\<lparr>nvds_page_used := insert_before (cmp_sequence_no (pages e2)) p (nvds_page_used e2)\<rparr>))"

function count_entries :: "'d nvds_io \<Rightarrow> page_ref \<Rightarrow> nat \<Rightarrow> 'd nvds_env \<Rightarrow> 'd nvds_env" where
  "count_entries io p entry_idx e =
     (if ENTRY_COUNT_PER_PAGE \<le> entry_idx then e
      else case entry_read io p (of_nat entry_idx) e of
        Inl r \<Rightarrow> e
      | Inr en \<Rightarrow>
          let e1 = (if entry_state_get (entry_states (pages e p)) (of_nat entry_idx) = Inr ENTRY_USED
                    then case List.extract (\<lambda>ns. ns_index ns = tag_namespace_get (entry_tag en)) (ns_list e) of
                        None \<Rightarrow> e
                      | Some (before, ns, after) \<Rightarrow>
                          e\<lparr>ns_list := before @ ns\<lparr>used_cnt := used_cnt ns + 1\<rparr> # after\<rparr>
                    else e)
          in count_entries io p
               (entry_idx + (if entry_type en = ELEMENT_MIDDLE \<or> entry_type en = ELEMENT_BULK
                             then 1 + entry_cnt en else 1)) e1)"
  by pat_completeness auto
termination by (relation "measure (\<lambda>(io, p, i, e). 126 - i)") auto

declare count_entries.simps [simp del]

definition pages_load :: "'d nvds_io \<Rightarrow> 'd nvds_env \<Rightarrow> (nvds_ret \<times> 'd nvds_env) option" where
  "pages_load io e =
     (if unat (env_length e) mod SPI_FLASH_SEC_SIZE \<noteq> 0 then Some (NVDS_E_INVAL_PARAM, e)
      else case load_sectors io [0..<unat (env_length e) div SPI_FLASH_SEC_SIZE] False e of
        None \<Rightarrow> None
      | Some (r, e1) \<Rightarrow>
          if r \<noteq> NVDS_OK then Some (r, e1)
          else
            let e2 = foldl (\<lambda>e p. count_entries io p 0 e) e1 (nvds_page_used e1)
            in if nvds_page_used e2 = []
               then map_option (\<lambda>(_, e3). (NVDS_OK, e3)) (new_page_request io 0 e2)
               else Some (NVDS_OK, e2))"

subsection \<open>Exported functions\<close>

text \<open>
  The set-up of an environment on a cleared structure, and the overlap check against the
  environments already registered, given as pairs of base and length.
\<close>

definition nvds_flash_env_init ::
    "'d nvds_io \<Rightarrow> bool \<Rightarrow> u32 \<Rightarrow> u32 \<Rightarrow> 'd nvds_env \<Rightarrow> (nvds_ret \<times> 'd nvds_env) option" where
  "nvds_flash_env_init io encr start_addr sz e =
     pages_load io (e\<lparr>env_base := start_addr, env_length := sz, encrypted := encr\<rparr>)"

fun flash_env_check :: "u32 \<Rightarrow> u32 \<Rightarrow> (u32 \<times> u32) list \<Rightarrow> nvds_ret" where
  "flash_env_check start_addr sz [] = NVDS_OK"
| "flash_env_check start_addr sz ((b, l) # envs) =
     (if start_addr + sz < b \<or> b + l < start_addr then flash_env_check start_addr sz envs
      else NVDS_E_INVAL_PARAM)"

text \<open>\<open>locked\<close> is whether \<^verbatim>\<open>sys_mutex_get\<close> returns \<^verbatim>\<open>OS_OK\<close>; a null pointer is \<open>None\<close>.\<close>

definition nvds_data_put ::
    "'d nvds_io \<Rightarrow> bool \<Rightarrow> bytes option \<Rightarrow> bytes option \<Rightarrow> bytes option \<Rightarrow> 'd nvds_env
       \<Rightarrow> (nvds_ret \<times> 'd nvds_env) option" where
  "nvds_data_put io locked name key data e =
     (case (key, data) of
        (Some k, Some d) \<Rightarrow>
          if length d = 0 \<or> ELEMENT_BULK_MAX_SIZE < length d \<or> KEY_NAME_MAX_SIZE - 1 < length k
          then Some (NVDS_E_INVAL_PARAM, e)
          else if \<not> locked then Some (NVDS_E_FAIL, e)
          else (case ns_index_by_namespace io name True e of
              None \<Rightarrow> None
            | Some (Inl r, e1) \<Rightarrow> Some (r, e1)
            | Some (Inr ns_idx, e1) \<Rightarrow>
                map_option (\<lambda>(r, e2). if r = NVDS_OK then (r, snd (ns_add_used_cnt ns_idx e2)) else (r, e2))
                  (data_element_put io ns_idx k d e1))
      | _ \<Rightarrow> Some (NVDS_E_INVAL_PARAM, e))"

definition nvds_data_get ::
    "'d nvds_io \<Rightarrow> bool \<Rightarrow> bytes option \<Rightarrow> bytes \<Rightarrow> bool \<Rightarrow> u32 \<Rightarrow> 'd nvds_env
       \<Rightarrow> (nvds_ret \<times> u32 \<times> bytes) option" where
  "nvds_data_get io locked name k buf len e =
     (if KEY_NAME_MAX_SIZE - 1 < length k then Some (NVDS_E_INVAL_PARAM, len, [])
      else if \<not> locked then Some (NVDS_E_FAIL, len, [])
      else case ns_index_by_namespace io name False e of
        None \<Rightarrow> None
      | Some (Inl r, _) \<Rightarrow> Some (r, len, [])
      | Some (Inr ns_idx, _) \<Rightarrow> data_element_get io ns_idx k buf len e)"

definition nvds_data_del ::
    "'d nvds_io \<Rightarrow> bool \<Rightarrow> bytes option \<Rightarrow> bytes \<Rightarrow> 'd nvds_env \<Rightarrow> (nvds_ret \<times> 'd nvds_env) option" where
  "nvds_data_del io locked name k e =
     (if KEY_NAME_MAX_SIZE - 1 < length k then Some (NVDS_E_INVAL_PARAM, e)
      else if \<not> locked then Some (NVDS_E_FAIL, e)
      else case ns_index_by_namespace io name False e of
        None \<Rightarrow> None
      | Some (Inl r, e1) \<Rightarrow> Some (r, e1)
      | Some (Inr ns_idx, e1) \<Rightarrow>
          case data_element_del io ns_idx k e1 of
            None \<Rightarrow> None
          | Some (r, e2) \<Rightarrow>
              if r = NVDS_OK
              then map_option (\<lambda>(_, e3). (r, e3)) (ns_del_used_cnt io ns_idx True e2)
              else Some (r, e2))"

definition nvds_data_find ::
    "'d nvds_io \<Rightarrow> bool \<Rightarrow> bytes option \<Rightarrow> bytes \<Rightarrow> 'd nvds_env \<Rightarrow> nvds_ret option" where
  "nvds_data_find io locked name k e =
     (if KEY_NAME_MAX_SIZE - 1 < length k then Some NVDS_E_INVAL_PARAM
      else if \<not> locked then Some NVDS_E_FAIL
      else case ns_index_by_namespace io name False e of
        None \<Rightarrow> None
      | Some (Inl r, _) \<Rightarrow> Some r
      | Some (Inr ns_idx, _) \<Rightarrow> data_element_find io ns_idx k e)"

text \<open>
  \<^verbatim>\<open>nvds_del_keys_by_namespace\<close> holds a pointer to the namespace node; \<open>live\<close> is whether the
  node is still allocated. A use after it was freed is \<open>None\<close>.
\<close>

definition drop_ns_ref ::
    "'d nvds_io \<Rightarrow> bytes \<Rightarrow> u8 \<Rightarrow> bool \<Rightarrow> 'd nvds_env \<Rightarrow> (nvds_ret \<times> bool \<times> 'd nvds_env) option" where
  "drop_ns_ref io n ns_idx live e =
     (if \<not> live then None
      else case List.extract (\<lambda>ns. ns_name ns = n) (ns_list e) of
        None \<Rightarrow> None
      | Some (before, ns, after) \<Rightarrow>
          if used_cnt ns - 1 = 0
          then map_option (\<lambda>(r, e1). (r, r \<noteq> NVDS_OK, e1))
                 (data_element_del io 0 n
                    (e\<lparr>ns_list := before @ after, ns_states := ns_state_set (ns_states e) ns_idx False\<rparr>))
          else Some (NVDS_OK, True,
                 e\<lparr>ns_list := before @ ns\<lparr>used_cnt := used_cnt ns - 1\<rparr> # after\<rparr>))"

definition del_entry ::
    "'d nvds_io \<Rightarrow> page_ref \<Rightarrow> u8 \<Rightarrow> bytes \<Rightarrow> 'd nvds_env \<Rightarrow> nvds_ret \<times> 'd nvds_env" where
  "del_entry io p i en e =
     (let n = (if entry_type en = ELEMENT_SMALL \<or> entry_type en = ELEMENT_BULKINFO then Some 0
               else if entry_type en = ELEMENT_MIDDLE \<or> entry_type en = ELEMENT_BULK
               then Some (entry_cnt en) else None)
      in case n of
           None \<Rightarrow> (NVDS_OK, e)
         | Some cnt \<Rightarrow>
             let (r, e1) = entry_state_range_alter io p i (i + of_nat cnt) ENTRY_UPDATED e
             in if r \<noteq> NVDS_OK then (r, e1) else (NVDS_OK, cnt_used_sub p (cnt + 1) e1))"

partial_function (option) del_walk ::
    "'d nvds_io \<Rightarrow> bytes \<Rightarrow> u8 \<Rightarrow> page_ref \<Rightarrow> u8 \<Rightarrow> bool \<Rightarrow> 'd nvds_env
       \<Rightarrow> (nvds_ret \<times> bool \<times> 'd nvds_env) option" where
  "del_walk io n ns_idx p idx live e =
     (if ENTRY_COUNT_PER_PAGE \<le> unat idx then Some (NVDS_OK, live, e)
      else case entry_state_get (entry_states (pages e p)) idx of
        Inl r \<Rightarrow> Some (r, live, e)
      | Inr st \<Rightarrow>
          if st = ENTRY_FREE then Some (NVDS_OK, live, e)
          else case entry_read io p idx e of
            Inl r \<Rightarrow> Some (r, live, e)
          | Inr en \<Rightarrow>
              if st = ENTRY_USED \<and> ns_idx = tag_namespace_get (entry_tag en)
              then let (r, e1) = del_entry io p idx en e
                   in if r \<noteq> NVDS_OK then Some (r, live, e1)
                      else case drop_ns_ref io n ns_idx live e1 of
                        None \<Rightarrow> None
                      | Some (r2, live', e2) \<Rightarrow>
                          if r2 \<noteq> NVDS_OK then Some (r2, live', e2)
                          else del_walk io n ns_idx p (entry_next idx en) live' e2
              else del_walk io n ns_idx p (entry_next idx en) live e)"

fun del_pages ::
    "'d nvds_io \<Rightarrow> bytes \<Rightarrow> u8 \<Rightarrow> page_ref list \<Rightarrow> bool \<Rightarrow> 'd nvds_env \<Rightarrow> (nvds_ret \<times> 'd nvds_env) option" where
  "del_pages io n ns_idx [] live e = Some (NVDS_OK, e)"
| "del_pages io n ns_idx (p # ps) live e =
     (if state (header (pages e p)) \<noteq> PAGE_ACTIVE \<and> state (header (pages e p)) \<noteq> PAGE_FULL
      then del_pages io n ns_idx ps live e
      else case del_walk io n ns_idx p 0 live e of
        None \<Rightarrow> None
      | Some (r, live', e1) \<Rightarrow>
          if r \<noteq> NVDS_OK then Some (r, e1) else del_pages io n ns_idx ps live' e1)"

definition nvds_del_keys_by_namespace ::
    "'d nvds_io \<Rightarrow> bytes \<Rightarrow> 'd nvds_env \<Rightarrow> (nvds_ret \<times> 'd nvds_env) option" where
  "nvds_del_keys_by_namespace io n e =
     (if KEY_NAME_MAX_SIZE - 1 < length n then Some (NVDS_E_INVAL_PARAM, e)
      else case find (\<lambda>ns. ns_name ns = n) (ns_list e) of
        None \<Rightarrow> Some (NVDS_E_NOT_FOUND, e)
      | Some ns \<Rightarrow> del_pages io n (ns_index ns) (nvds_page_used e) True e)"

text \<open>The keys reported to the callback, in order.\<close>

partial_function (option) keys_walk ::
    "'d nvds_io \<Rightarrow> u8 \<Rightarrow> 'd nvds_env \<Rightarrow> page_ref \<Rightarrow> u8 \<Rightarrow> (bytes \<times> u16) list
       \<Rightarrow> (nvds_ret \<times> (bytes \<times> u16) list) option" where
  "keys_walk io ns_idx e p idx acc =
     (if ENTRY_COUNT_PER_PAGE \<le> unat idx then Some (NVDS_OK, acc)
      else case entry_state_get (entry_states (pages e p)) idx of
        Inl r \<Rightarrow> Some (r, acc)
      | Inr st \<Rightarrow>
          if st = ENTRY_FREE then Some (NVDS_OK, acc)
          else case entry_read io p idx e of
            Inl r \<Rightarrow> Some (r, acc)
          | Inr en \<Rightarrow>
              keys_walk io ns_idx e p (entry_next idx en)
                (if st = ENTRY_USED \<and> tag_namespace_get (entry_tag en) = ns_idx
                    \<and> entry_type en \<noteq> ELEMENT_BULK
                 then acc @ [(entry_key en, entry_length en)] else acc))"

fun keys_pages ::
    "'d nvds_io \<Rightarrow> u8 \<Rightarrow> 'd nvds_env \<Rightarrow> page_ref list \<Rightarrow> (bytes \<times> u16) list
       \<Rightarrow> (nvds_ret \<times> (bytes \<times> u16) list) option" where
  "keys_pages io ns_idx e [] acc = Some (NVDS_OK, acc)"
| "keys_pages io ns_idx e (p # ps) acc =
     (if state (header (pages e p)) \<noteq> PAGE_ACTIVE \<and> state (header (pages e p)) \<noteq> PAGE_FULL
      then keys_pages io ns_idx e ps acc
      else case keys_walk io ns_idx e p 0 acc of
        None \<Rightarrow> None
      | Some (r, acc') \<Rightarrow> if r \<noteq> NVDS_OK then Some (r, acc') else keys_pages io ns_idx e ps acc')"

definition nvds_find_keys_by_namespace ::
    "'d nvds_io \<Rightarrow> bytes option \<Rightarrow> 'd nvds_env \<Rightarrow> (nvds_ret \<times> (bytes \<times> u16) list) option" where
  "nvds_find_keys_by_namespace io name e =
     (case ns_index_by_namespace io name False e of
        None \<Rightarrow> None
      | Some (Inl r, _) \<Rightarrow> Some (r, [])
      | Some (Inr ns_idx, _) \<Rightarrow> keys_pages io ns_idx e (nvds_page_used e) [])"

end
