(* ===== verification/Nvds_Correct.thy ===== *)
theory Nvds_Correct
  imports Nvds_Store
begin

text \<open>
  Correctness of the element store on a NOR flash. The locale \<open>nvds_flash\<close> is the interface to
  the flash area: reads return its content and writes clear bits. On it the theory shows what each
  step of the store does to the slots and states of a page, that the walk over a well-formed
  page ends and finds the first matching element, and from that what writing, reading and
  deleting an element do. \<open>nor_io\<close> interprets the locale.

  A page is seen as its slots \<open>slot byte e p i\<close> and states \<open>st e p i\<close> for \<open>i < 126\<close>; \<open>layout\<close>
  says that the elements of a page follow each other from slot 0 up to the first free slot.
\<close>

section \<open>The view of a page\<close>

definition mem :: "('d \<Rightarrow> nat \<Rightarrow> u8) \<Rightarrow> 'd nvds_env \<Rightarrow> nat \<Rightarrow> u8" where
  "mem byte e a = byte (dev e) (unat (env_base e) + a)"

definition slot :: "('d \<Rightarrow> nat \<Rightarrow> u8) \<Rightarrow> 'd nvds_env \<Rightarrow> page_ref \<Rightarrow> nat \<Rightarrow> bytes" where
  "slot byte e p i = map (mem byte e) [4096 * p + 64 + 32 * i..<4096 * p + 64 + 32 * i + 32]"

definition st :: "'d nvds_env \<Rightarrow> page_ref \<Rightarrow> nat \<Rightarrow> entry_state" where
  "st e p i = projr (entry_state_get (entry_states (pages e p)) (of_nat i))"

definition page_ok :: "'d nvds_env \<Rightarrow> page_ref \<Rightarrow> bool" where
  "page_ok e p \<longleftrightarrow> page_base (pages e p) = of_nat (4096 * p) \<and> 4096 * p + 4096 \<le> unat (env_length e)
     \<and> length (entry_states (pages e p)) = 8"

definition data_slots :: "bytes \<Rightarrow> nat" where
  "data_slots en = (if entry_type en = ELEMENT_MIDDLE \<or> entry_type en = ELEMENT_BULK
                    then entry_cnt en else 0)"

fun layout :: "(nat \<Rightarrow> entry_state) \<Rightarrow> (nat \<Rightarrow> bytes) \<Rightarrow> nat \<Rightarrow> nat list \<Rightarrow> nat \<Rightarrow> bool" where
  "layout S D i [] n \<longleftrightarrow> i = n"
| "layout S D i (h # hs) n \<longleftrightarrow> h = i \<and> S i \<noteq> ENTRY_FREE \<and> i + 1 + data_slots (D i) \<le> n
     \<and> layout S D (i + 1 + data_slots (D i)) hs n"

definition page_wf :: "('d \<Rightarrow> nat \<Rightarrow> u8) \<Rightarrow> 'd nvds_env \<Rightarrow> page_ref \<Rightarrow> nat list \<Rightarrow> bool" where
  "page_wf byte e p hs \<longleftrightarrow> page_ok e p \<and> state (header (pages e p)) \<in> {PAGE_ACTIVE, PAGE_FULL}
     \<and> unat (next_free_idx (pages e p)) \<le> 126
     \<and> layout (st e p) (slot byte e p) 0 hs (unat (next_free_idx (pages e p)))
     \<and> (\<forall>i. unat (next_free_idx (pages e p)) \<le> i \<and> i < 126 \<longrightarrow>
          st e p i = ENTRY_FREE \<and> slot byte e p i = replicate 32 0xFF)"

lemma of_nat_u32_eq:
  "i < 4294967296 \<Longrightarrow> j < 4294967296 \<Longrightarrow> (of_nat i :: u32) = of_nat j \<longleftrightarrow> i = j"
  by (metis unat_of_nat_u32)

lemma of_nat_u8_eq: "i < 256 \<Longrightarrow> j < 256 \<Longrightarrow> (of_nat i :: u8) = of_nat j \<longleftrightarrow> i = j"
  by (metis unat_of_nat_u8)

lemma of_nat_u8_le: "i < 256 \<Longrightarrow> j < 256 \<Longrightarrow> (of_nat i :: u8) \<le> of_nat j \<longleftrightarrow> i \<le> j"
  by (simp add: word_le_nat_alt unat_of_nat_u8)

lemma ucast_u32_u8: "i < 256 \<Longrightarrow> ucast (of_nat i :: u32) = (of_nat i :: u8)"
  by (intro word_unat_eq_iff [THEN iffD2])
    (simp add: unsigned_ucast_eq unat_of_nat_u32 unat_of_nat_u8 take_bit_nat_eq_self)

lemma st_get: "i < 126 \<Longrightarrow> entry_state_get (entry_states (pages e p)) (of_nat i) = Inr (st e p i)"
  by (simp add: st_def entry_state_get_ok unat_of_nat_u8)

lemma length_slot [simp]: "length (slot byte e p i) = 32"
  by (simp add: slot_def)

lemma nth_slot: "k < 32 \<Longrightarrow> slot byte e p i ! k = mem byte e (4096 * p + 64 + 32 * i + k)"
  by (simp add: slot_def)

lemma slot_eqI:
  assumes "\<And>k. k < 32 \<Longrightarrow> mem byte e (4096 * p + 64 + 32 * i + k) = mem byte e' (4096 * p + 64 + 32 * i + k)"
  shows "slot byte e p i = slot byte e' p i"
  using assms by (intro nth_equalityI) (simp_all add: nth_slot)

lemma layout_le: "layout S D i hs n \<Longrightarrow> i \<le> n"
  by (cases hs) auto

lemma layout_bounds: "layout S D i hs n \<Longrightarrow> h \<in> set hs \<Longrightarrow> i \<le> h \<and> h + 1 + data_slots (D h) \<le> n"
proof (induction S D i hs n rule: layout.induct)
  case (2 S D i h' hs n)
  show ?case
  proof (cases "h = i")
    case True
    then show ?thesis using 2(2) by simp
  next
    case False
    then have "i + 1 + data_slots (D i) \<le> h \<and> h + 1 + data_slots (D h) \<le> n"
      using 2 by auto
    then show ?thesis by linarith
  qed
qed simp

lemma layout_cong:
  assumes "layout S D i hs n" "\<And>h. i \<le> h \<Longrightarrow> h < n \<Longrightarrow> S h \<noteq> ENTRY_FREE \<Longrightarrow> S' h \<noteq> ENTRY_FREE"
    "\<And>h. i \<le> h \<Longrightarrow> h < n \<Longrightarrow> D' h = D h"
  shows "layout S' D' i hs n"
  using assms
proof (induction S D i hs n rule: layout.induct)
  case (2 S D i h hs n)
  then have "i < n" by auto
  then show ?case using 2 by auto
qed simp

lemma layout_disjoint:
  assumes "layout S D i hs n" "h \<in> set hs" "h' \<in> set hs" "h < h'"
  shows "h + 1 + data_slots (D h) \<le> h'"
  using assms
proof (induction S D i hs n rule: layout.induct)
  case (2 S D i h1 hs n)
  have lay: "layout S D (i + 1 + data_slots (D i)) hs n" using 2(2) by simp
  have i: "h1 = i" using 2(2) by simp
  show ?case
  proof (cases "h = i")
    case True
    then have "h' \<in> set hs" using 2(4,5) i by auto
    then show ?thesis using layout_bounds [OF lay] True by blast
  next
    case False
    then have h: "h \<in> set hs" using 2(3) i by auto
    then have "i < h" using layout_bounds [OF lay h] by linarith
    then have "h' \<in> set hs" using 2(4,5) i by auto
    then show ?thesis using 2(1) [OF lay h] 2(5) by blast
  qed
qed simp

lemma layout_snoc:
  assumes "layout S D i hs n" "S n \<noteq> ENTRY_FREE" "m = n + 1 + data_slots (D n)"
  shows "layout S D i (hs @ [n]) m"
  using assms by (induction S D i hs n rule: layout.induct) auto

section \<open>The interface to the flash area\<close>

text \<open>An environment on the area from \<open>lo\<close> to \<open>hi\<close>, in the configuration without encryption.\<close>

definition on_area :: "nat \<Rightarrow> nat \<Rightarrow> 'd nvds_env \<Rightarrow> bool" where
  "on_area lo hi e \<longleftrightarrow> unat (env_base e) = lo \<and> lo + unat (env_length e) = hi \<and> \<not> encrypted e"

locale nvds_flash =
  fixes io :: "'d nvds_io" and byte :: "'d \<Rightarrow> nat \<Rightarrow> u8" and lo hi :: nat
  assumes area_end: "hi \<le> 0x400000"
    and rom_read: "lo \<le> unat off \<Longrightarrow> unat off + n \<le> hi \<Longrightarrow>
      rom_flash_read (rom io) (ofvr io) off n d = Some (map (byte d) [unat off..<unat off + n])"
    and rom_write: "lo \<le> unat off \<Longrightarrow> unat off + length bs \<le> hi \<Longrightarrow>
      \<exists>d'. rom_flash_write (rom io) off bs d = Some d' \<and>
        (\<forall>a. byte d' a = (if unat off \<le> a \<and> a < unat off + length bs
                            then byte d a AND bs ! (a - unat off) else byte d a))"
begin

lemma on_area_small: "on_area lo hi e \<Longrightarrow> unat (env_base e) + unat (env_length e) \<le> 0x400000"
  using area_end by (simp add: on_area_def)

lemma area_offset:
  assumes "on_area lo hi e" "unat off + n \<le> unat (env_length e)"
  shows "unat (env_base e + off) = lo + unat off" "lo + unat off + n \<le> hi"
    "\<not> env_length e < off + of_nat n"
proof -
  have b: "unat (env_base e) + unat (env_length e) \<le> 0x400000" "unat (env_base e) = lo"
    using on_area_small [OF assms(1)] assms(1) by (auto simp: on_area_def)
  then have "unat off + n < 4294967296" using assms(2) by linarith
  moreover have "unat (env_base e) + unat off < 4294967296" using assms(2) b by linarith
  ultimately show "unat (env_base e + off) = lo + unat off" "\<not> env_length e < off + of_nat n"
    using b assms(2) by (simp_all add: unat_word_ariths word_less_nat_alt unat_of_nat_u32)
  show "lo + unat off + n \<le> hi" using assms by (auto simp: on_area_def)
qed

lemma flash_read:
  assumes "on_area lo hi e" "unat off + n \<le> unat (env_length e)"
  shows "nvds_flash_read io off n e = Inr (map (mem byte e) [unat off..<unat off + n])"
proof -
  note a = area_offset [OF assms]
  have "rom_flash_read (rom io) (ofvr io) (env_base e + off) n (dev e)
      = Some (map (byte (dev e)) [lo + unat off..<lo + unat off + n])"
    using rom_read [of "env_base e + off" n] a by simp
  moreover have "map (byte (dev e)) [lo + unat off..<lo + unat off + n]
      = map (mem byte e) [unat off..<unat off + n]"
    using assms(1) by (intro nth_equalityI) (auto simp: mem_def on_area_def add.assoc)
  ultimately show ?thesis using a(3) by (simp add: nvds_flash_read_def)
qed

lemma flash_write:
  assumes "on_area lo hi e" "unat off + length bs \<le> unat (env_length e)"
  obtains d where "nvds_flash_write io off bs e = (NVDS_OK, e\<lparr>dev := d\<rparr>)"
    "\<And>a. mem byte (e\<lparr>dev := d\<rparr>) a =
       (if unat off \<le> a \<and> a < unat off + length bs then mem byte e a AND bs ! (a - unat off)
        else mem byte e a)"
proof -
  note a = area_offset [OF assms]
  obtain d where d: "rom_flash_write (rom io) (env_base e + off) bs (dev e) = Some d"
    "\<And>a. byte d a = (if lo + unat off \<le> a \<and> a < lo + unat off + length bs
       then byte (dev e) a AND bs ! (a - (lo + unat off)) else byte (dev e) a)"
    using rom_write [of "env_base e + off" bs "dev e"] a by auto
  show ?thesis
    using d a(3) assms(1)
    by (intro that [of d]) (auto simp: nvds_flash_write_def mem_def on_area_def)
qed

end

definition nor_io :: "(nat \<Rightarrow> u8) nvds_io" where
  "nor_io = \<lparr>rom = nor_device,
     cbs = \<lparr>raw_erase_cb_list = \<lparr>sl_first = 0, sl_last = 0\<rparr>, cb_next = (\<lambda>_. 0), cb_of = (\<lambda>_. 0)\<rparr>,
     ofvr = 0, aes_enc = Some, aes_dec = Some, page_alloc = (\<lambda>_. True), ns_alloc = (\<lambda>_. True)\<rparr>"

interpretation nor: nvds_flash nor_io id "0x3FB000" "0x3FF000"
  by unfold_locales (simp_all add: nor_io_def nor_device_def)

section \<open>Finding an element\<close>

definition holds :: "('d \<Rightarrow> nat \<Rightarrow> u8) \<Rightarrow> 'd nvds_env \<Rightarrow> u8 \<Rightarrow> bytes \<Rightarrow> u8 \<Rightarrow> page_ref \<times> nat \<Rightarrow> bool" where
  "holds byte e ns key ty x \<longleftrightarrow>
     entry_matches ns key ty (st e (fst x) (snd x)) (slot byte e (fst x) (snd x))"

text \<open>The elements of the pages of a list, in the order the code visits them.\<close>

definition elems :: "(page_ref \<Rightarrow> nat list) \<Rightarrow> page_ref list \<Rightarrow> (page_ref \<times> nat) list" where
  "elems H ps = concat (map (\<lambda>p. map (\<lambda>h. (p, h)) (H p)) ps)"

lemma set_elems [simp]: "x \<in> set (elems H ps) \<longleftrightarrow> fst x \<in> set ps \<and> snd x \<in> set (H (fst x))"
  by (cases x) (auto simp: elems_def)

lemma elems_Cons: "elems H (p # ps) = map (\<lambda>h. (p, h)) (H p) @ elems H ps"
  by (simp add: elems_def)

lemma find_append: "find P (xs @ ys) = (case find P xs of None \<Rightarrow> find P ys | Some x \<Rightarrow> Some x)"
  by (induction xs) auto

lemma find_map_pair: "find P (map f xs) = map_option f (find (\<lambda>x. P (f x)) xs)"
  by (induction xs) auto

lemma ucast_of_nat_u8: "i < 256 \<Longrightarrow> (ucast (of_nat i :: u8) :: u32) = of_nat i"
  by (rule word_unat_eq_iff [THEN iffD2]) (simp add: unat_of_nat_u8 unat_of_nat_u32)

context nvds_flash begin

lemma slot_address:
  assumes "on_area lo hi e" "page_ok e p" "i \<le> 126"
  shows "unat (entry_address (pages e p) (of_nat i)) = 4096 * p + 64 + 32 * i"
proof -
  have "4096 * p + 4096 \<le> 0x400000"
    using on_area_small [OF assms(1)] assms(2) by (auto simp: page_ok_def)
  then have lt: "4096 * p + 64 + 32 * i < 4294967296" using assms(3) by linarith
  have eq: "entry_address (pages e p) (of_nat i) = of_nat (4096 * p + 64 + 32 * i)"
    using assms(2) by (simp add: entry_address_def page_ok_def mult.commute)
  show ?thesis unfolding eq by (rule unat_of_nat_u32 [OF lt])
qed

lemma read_slot:
  assumes "on_area lo hi e" "page_ok e p" "i < 126"
  shows "entry_read io p (of_nat i) e = Inr (slot byte e p i)"
proof -
  have a: "unat (entry_address (pages e p) (ucast (of_nat i :: u8))) = 4096 * p + 64 + 32 * i"
    using slot_address [OF assms(1,2), of i] assms(3) by (simp add: ucast_of_nat_u8)
  then have "unat (entry_address (pages e p) (ucast (of_nat i :: u8))) + 32 \<le> unat (env_length e)"
    using assms(2,3) by (simp add: page_ok_def)
  from flash_read [OF assms(1) this] show ?thesis
    using assms(1) a by (simp add: entry_read_def slot_def on_area_def)
qed

lemma next_entry:
  assumes "i + 1 + data_slots en \<le> 126"
  shows "entry_next (of_nat i) en = of_nat (i + 1 + data_slots en)"
  by (simp add: entry_next_def data_slots_def)

lemma find_walk_layout:
  assumes "on_area lo hi e" "page_ok e p"
    and "layout (st e p) (slot byte e p) i hs n" "n \<le> 126" "n < 126 \<longrightarrow> st e p n = ENTRY_FREE"
  shows "find_walk io ns key ty e p (of_nat i) =
    Some (Inr (map_option of_nat (find (\<lambda>h. holds byte e ns key ty (p, h)) hs)))"
  using assms(3)
proof (induction hs arbitrary: i)
  case Nil
  then show ?case
    using assms(4,5) by (subst find_walk.simps) (auto simp: unat_of_nat_u8 st_get)
next
  case (Cons h hs)
  let ?n = "i + 1 + data_slots (slot byte e p i)"
  have i: "h = i" "st e p i \<noteq> ENTRY_FREE" "?n \<le> n" "layout (st e p) (slot byte e p) ?n hs n"
    using Cons.prems by auto
  then have "i < 126" using assms(4) by linarith
  moreover have "entry_next (of_nat i) (slot byte e p i) = of_nat ?n"
    using next_entry i(3) assms(4) by simp
  ultimately show ?case
    using Cons.IH [OF i(4)] i(1,2) read_slot [OF assms(1,2)]
    by (subst find_walk.simps) (simp add: unat_of_nat_u8 st_get holds_def)
qed

lemma find_walk_page:
  assumes "on_area lo hi e" "page_wf byte e p hs"
  shows "find_walk io ns key ty e p 0 =
    Some (Inr (map_option of_nat (find (\<lambda>h. holds byte e ns key ty (p, h)) hs)))"
  using find_walk_layout [of e p 0 hs "unat (next_free_idx (pages e p))"] assms
  by (auto simp: page_wf_def)

lemma find_pages_elems:
  assumes "on_area lo hi e" "\<forall>p\<in>set ps. page_wf byte e p (H p)"
  shows "find_pages io ns key ty e 0 ps = Some
    (case find (holds byte e ns key ty) (elems H ps) of
       None \<Rightarrow> Inl NVDS_E_NOT_FOUND | Some (p, h) \<Rightarrow> Inr (p, of_nat h))"
  using assms(2)
proof (induction ps)
  case Nil
  then show ?case by (simp add: elems_def)
next
  case (Cons p ps)
  then have p: "page_wf byte e p (H p)" by simp
  then have s: "state (header (pages e p)) = PAGE_ACTIVE \<or> state (header (pages e p)) = PAGE_FULL"
    by (auto simp: page_wf_def)
  show ?case
    using s find_walk_page [OF assms(1) p] Cons
    by (auto simp: elems_Cons find_append find_map_pair split: option.splits)
qed

end

section \<open>Changing states\<close>

lemma upd_page_simps [simp]:
  "env_base (upd_page p f e) = env_base e" "env_length (upd_page p f e) = env_length e"
  "encrypted (upd_page p f e) = encrypted e" "ns_list (upd_page p f e) = ns_list e"
  "ns_states (upd_page p f e) = ns_states e" "nvds_page_free (upd_page p f e) = nvds_page_free e"
  "nvds_page_used (upd_page p f e) = nvds_page_used e" "dev (upd_page p f e) = dev e"
  "pages (upd_page p f e) = (pages e)(p := f (pages e p))"
  "mem byte (upd_page p f e) = mem byte e"
  by (simp_all add: upd_page_def mem_def fun_eq_iff)

lemma length_states_bytes [simp]: "length (states_bytes t) = 4 * length t"
  by (induction t) (simp_all add: states_bytes_def)

text \<open>\<open>restated byte e p S e'\<close>: only the states of page \<open>p\<close> and their table in flash changed, to \<open>S\<close>.\<close>

definition restated ::
    "('d \<Rightarrow> nat \<Rightarrow> u8) \<Rightarrow> 'd nvds_env \<Rightarrow> page_ref \<Rightarrow> (nat \<Rightarrow> entry_state) \<Rightarrow> 'd nvds_env \<Rightarrow> bool" where
  "restated byte e p S e' \<longleftrightarrow> (\<exists>d t. e' = upd_page p (entry_states_update (\<lambda>_. t)) (e\<lparr>dev := d\<rparr>)
      \<and> length t = 8 \<and> (\<forall>j<126. st e' p j = S j)
      \<and> (\<forall>a. a < 4096 * p + 32 \<or> 4096 * p + 64 \<le> a \<longrightarrow> mem byte e' a = mem byte e a))"

lemma restated_trans:
  assumes "restated byte e p S1 e1" "restated byte e1 p S2 e2"
  shows "restated byte e p S2 e2"
proof -
  obtain d1 t1 where 1: "e1 = upd_page p (entry_states_update (\<lambda>_. t1)) (e\<lparr>dev := d1\<rparr>)"
    using assms(1) by (auto simp: restated_def)
  obtain d2 t2 where 2: "e2 = upd_page p (entry_states_update (\<lambda>_. t2)) (e1\<lparr>dev := d2\<rparr>)" "length t2 = 8"
    using assms(2) by (auto simp: restated_def)
  have "e2 = upd_page p (entry_states_update (\<lambda>_. t2)) (e\<lparr>dev := d2\<rparr>)"
    using 1 2 by (simp add: upd_page_def)
  then show ?thesis using assms 2(2) unfolding restated_def by metis
qed

lemma slot_off_table:
  fixes p q :: nat
  assumes "k < 32" "i < 126"
  shows "4096 * q + 64 + 32 * i + k < 4096 * p + 32 \<or> 4096 * p + 64 \<le> 4096 * q + 64 + 32 * i + k"
  using assms by (cases "q < p") linarith+

lemma restatedD:
  assumes "restated byte e p S e'"
  shows "j < 126 \<Longrightarrow> st e' p j = S j" "q \<noteq> p \<Longrightarrow> pages e' q = pages e q"
    and "page_base (pages e' p) = page_base (pages e p)" "header (pages e' p) = header (pages e p)"
    and "next_free_idx (pages e' p) = next_free_idx (pages e p)"
    and "entry_cnt_used (pages e' p) = entry_cnt_used (pages e p)"
    and "length (entry_states (pages e' p)) = 8"
    and "env_base e' = env_base e" "env_length e' = env_length e" "encrypted e' = encrypted e"
    and "ns_list e' = ns_list e" "ns_states e' = ns_states e"
    and "nvds_page_free e' = nvds_page_free e" "nvds_page_used e' = nvds_page_used e"
    and "i < 126 \<Longrightarrow> slot byte e' q i = slot byte e q i"
proof -
  obtain d t where e': "e' = upd_page p (entry_states_update (\<lambda>_. t)) (e\<lparr>dev := d\<rparr>)" "length t = 8"
    and S: "\<forall>j<126. st e' p j = S j"
    and m: "\<forall>a. a < 4096 * p + 32 \<or> 4096 * p + 64 \<le> a \<longrightarrow> mem byte e' a = mem byte e a"
    using assms unfolding restated_def by blast
  show "j < 126 \<Longrightarrow> st e' p j = S j" using S by simp
  show "i < 126 \<Longrightarrow> slot byte e' q i = slot byte e q i"
    using m by (intro slot_eqI) (metis slot_off_table)
qed (use assms in \<open>auto simp: restated_def\<close>)

context nvds_flash begin

lemma table_address:
  assumes "on_area lo hi e" "page_ok e p" "k < 4096"
  shows "unat (page_base (pages e p) + of_nat k) = 4096 * p + k"
proof -
  have "4096 * p + 4096 \<le> 0x400000"
    using on_area_small [OF assms(1)] assms(2) by (auto simp: page_ok_def)
  then have lt: "4096 * p + k < 4294967296" using assms(3) by linarith
  have eq: "page_base (pages e p) + of_nat k = of_nat (4096 * p + k)"
    using assms(2) by (simp add: page_ok_def)
  show ?thesis unfolding eq by (rule unat_of_nat_u32 [OF lt])
qed

lemma alter_one:
  assumes "on_area lo hi e" "page_ok e p" "i < 126" "s = ENTRY_USED \<or> s = ENTRY_UPDATED"
  shows "\<exists>e'. entry_state_alter io p (of_nat i) s e = (NVDS_OK, e')
     \<and> restated byte e p ((st e p)(i := s)) e'"
proof -
  let ?t = "entry_states (pages e p)"
  have t8: "length ?t = 8" using assms(2) by (simp add: page_ok_def)
  obtain t where t: "entry_state_set ?t (of_nat i) s = Inr t"
    using entry_state_set_ok [of "of_nat i" s ?t] assms(3,4) by (auto simp: unat_of_nat_u8)
  note g = entry_state_get_set [OF t8 t]
  let ?e = "upd_page p (entry_states_update (\<lambda>_. t)) e"
  define off where "off = page_base (pages e p) + of_nat PAGE_ENTRY_STATES_OFFSET"
  have a: "unat off = 4096 * p + 32"
    unfolding off_def using table_address [OF assms(1,2), of 32] by simp
  have le: "unat off + length (states_bytes t) \<le> unat (env_length ?e)"
    using assms(2) g(1) a by (simp add: page_ok_def)
  have "on_area lo hi ?e" using assms(1) by (simp add: on_area_def)
  from flash_write [OF this le] obtain d where
    w: "nvds_flash_write io off (states_bytes t) ?e = (NVDS_OK, ?e\<lparr>dev := d\<rparr>)"
    and m: "\<And>x. mem byte (?e\<lparr>dev := d\<rparr>) x = (if unat off \<le> x \<and> x < unat off + length (states_bytes t)
       then mem byte ?e x AND states_bytes t ! (x - unat off) else mem byte ?e x)"
    by blast
  have e': "?e\<lparr>dev := d\<rparr> = upd_page p (entry_states_update (\<lambda>_. t)) (e\<lparr>dev := d\<rparr>)"
    by (simp add: upd_page_def)
  have inj: "(of_nat j :: u8) = of_nat i \<longleftrightarrow> j = i" if "j < 126" for j
    using that assms(3) by (intro of_nat_u8_eq) linarith+
  have S: "st (?e\<lparr>dev := d\<rparr>) p j = ((st e p)(i := s)) j" if "j < 126" for j
    using that g(5) [of "of_nat j"] inj by (auto simp: st_def)
  have "entry_state_alter io p (of_nat i) s e = (NVDS_OK, ?e\<lparr>dev := d\<rparr>)"
    using assms(3,4) t w
    by (auto simp: entry_state_alter_def entry_states_table_write_def unat_of_nat_u8 off_def)
  moreover have "restated byte e p ((st e p)(i := s)) (?e\<lparr>dev := d\<rparr>)"
    unfolding restated_def using e' g(1) S by (intro exI [of _ d] exI [of _ t]) (auto simp: m a)
  ultimately show ?thesis by blast
qed

lemma restated_ok: "restated byte e p S e' \<Longrightarrow> page_ok e q \<Longrightarrow> page_ok e' q"
  using restatedD(2,3,7,9) by (cases "q = p") (fastforce simp: page_ok_def)+

lemma restated_area: "restated byte e p S e' \<Longrightarrow> on_area lo hi e \<Longrightarrow> on_area lo hi e'"
  by (auto simp: on_area_def restated_def)

lemma alter_list:
  assumes "on_area lo hi e" "page_ok e p" "\<forall>i\<in>set is. i < 126" "s = ENTRY_USED \<or> s = ENTRY_UPDATED"
  shows "\<exists>e'. alter_each io p (map of_nat is) s e = (NVDS_OK, e')
     \<and> restated byte e p (\<lambda>j. if j \<in> set is then s else st e p j) e'"
  using assms(1-3)
proof (induction "is" arbitrary: e)
  case Nil
  have "e = upd_page p (entry_states_update (\<lambda>_. entry_states (pages e p))) (e\<lparr>dev := dev e\<rparr>)"
    by (simp add: upd_page_def)
  then show ?case
    using Nil unfolding restated_def
    by (intro exI [of _ e] conjI exI [of _ "dev e"] exI [of _ "entry_states (pages e p)"])
      (auto simp: page_ok_def)
next
  case (Cons i "is")
  obtain e1 where e1: "entry_state_alter io p (of_nat i) s e = (NVDS_OK, e1)"
    "restated byte e p ((st e p)(i := s)) e1"
    using alter_one [OF Cons.prems(1,2) _ assms(4), of i] Cons.prems(3) by auto
  obtain e2 where e2: "alter_each io p (map of_nat is) s e1 = (NVDS_OK, e2)"
    "restated byte e1 p (\<lambda>j. if j \<in> set is then s else st e1 p j) e2"
    using Cons.IH [OF restated_area [OF e1(2) Cons.prems(1)] restated_ok [OF e1(2) Cons.prems(2)]]
      Cons.prems(3) by auto
  have S: "(if j \<in> set is then s else st e1 p j) = (if j \<in> set (i # is) then s else st e p j)"
    if "j < 126" for j
    using restatedD(1) [OF e1(2) that] by auto
  have "restated byte e p (\<lambda>j. if j \<in> set (i # is) then s else st e p j) e2"
    using restated_trans [OF e1(2) e2(2)] S unfolding restated_def by auto
  then show ?case using e1(1) e2(1) by auto
qed

lemma alter_range:
  assumes "on_area lo hi e" "page_ok e p" "a \<le> b" "b < 126" "s = ENTRY_USED \<or> s = ENTRY_UPDATED"
  shows "\<exists>e'. entry_state_range_alter io p (of_nat a) (of_nat b) s e = (NVDS_OK, e')
     \<and> restated byte e p (\<lambda>j. if a \<le> j \<and> j \<le> b then s else st e p j) e'"
proof -
  have "set [a..<Suc b] = {j. a \<le> j \<and> j \<le> b}" by auto
  moreover have "entry_state_range_alter io p (of_nat a) (of_nat b) s e
      = alter_each io p (map of_nat [a..<Suc b]) s e"
    using assms(3,4) by (simp add: entry_state_range_alter_def word_less_nat_alt unat_of_nat_u8)
  ultimately show ?thesis
    using alter_list [OF assms(1,2) _ assms(5), of "[a..<Suc b]"] assms(4) by auto
qed

end

section \<open>Writing to erased slots\<close>

definition slots_for :: "nat \<Rightarrow> nat" where
  "slots_for n = (n + 31) div 32"

definition padded :: "bytes \<Rightarrow> bytes" where
  "padded bs = bs @ replicate (32 * slots_for (length bs) - length bs) 0xFF"

lemma slots_for_bounds: "n \<le> 32 * slots_for n" "32 * slots_for n < n + 32"
  unfolding slots_for_def by linarith+

lemma length_padded [simp]: "length (padded bs) = 32 * slots_for (length bs)"
  using slots_for_bounds(1) by (simp add: padded_def)

text \<open>\<open>written byte e p i bs e'\<close>: the bytes were stored from slot \<open>i\<close> of page \<open>p\<close> on.\<close>

definition written ::
    "('d \<Rightarrow> nat \<Rightarrow> u8) \<Rightarrow> 'd nvds_env \<Rightarrow> page_ref \<Rightarrow> nat \<Rightarrow> bytes \<Rightarrow> 'd nvds_env \<Rightarrow> bool" where
  "written byte e p i bs e' \<longleftrightarrow>
     (\<forall>q j. j < 126 \<longrightarrow> slot byte e' q j =
        (if q = p \<and> i \<le> j \<and> j < i + slots_for (length bs) then window (32 * (j - i)) 32 (padded bs)
         else slot byte e q j))"

lemma slot_off_range:
  fixes p q :: nat
  assumes "k < 32" "j < 126" "i + n \<le> 126" "\<not> (q = p \<and> i \<le> j \<and> j < i + n)" "l \<le> 32 * n"
  shows "\<not> (4096 * p + 64 + 32 * i \<le> 4096 * q + 64 + 32 * j + k
     \<and> 4096 * q + 64 + 32 * j + k < 4096 * p + 64 + 32 * i + l)"
proof (cases "q = p")
  case True
  then have "j < i \<or> i + n \<le> j" using assms(4) by linarith
  then show ?thesis using True assms(1,5) by (elim disjE) linarith+
next
  case False
  then have "q + 1 \<le> p \<or> p + 1 \<le> q" by linarith
  then show ?thesis using assms(1-3,5) by (elim disjE) linarith+
qed

lemma writtenI:
  assumes "i + slots_for (length bs) \<le> 126"
    and "\<forall>j. i \<le> j \<and> j < i + slots_for (length bs) \<longrightarrow> slot byte e p j = replicate 32 0xFF"
    and m: "\<And>a. mem byte e' a = (if 4096 * p + 64 + 32 * i \<le> a \<and> a < 4096 * p + 64 + 32 * i + length bs
       then mem byte e a AND bs ! (a - (4096 * p + 64 + 32 * i)) else mem byte e a)"
  shows "written byte e p i bs e'"
  unfolding written_def
proof (intro allI impI nth_equalityI)
  fix q j :: nat
  assume j: "j < 126"
  let ?in = "q = p \<and> i \<le> j \<and> j < i + slots_for (length bs)"
  show "length (slot byte e' q j) = length (if ?in then window (32 * (j - i)) 32 (padded bs) else slot byte e q j)"
    using j by (auto simp: diff_mult_distrib2)
  fix k
  assume "k < length (slot byte e' q j)"
  then have k: "k < 32" by simp
  show "slot byte e' q j ! k = (if ?in then window (32 * (j - i)) 32 (padded bs) else slot byte e q j) ! k"
  proof (cases ?in)
    case True
    define r where "r = 32 * (j - i) + k"
    have r: "4096 * q + 64 + 32 * j + k = 4096 * p + 64 + 32 * i + r"
      using True by (simp add: r_def algebra_simps diff_mult_distrib2)
    have "j - i < slots_for (length bs)" using True by linarith
    then have lt: "r < 32 * slots_for (length bs)" using k unfolding r_def by linarith
    have "mem byte e (4096 * q + 64 + 32 * j + k) = 0xFF"
      using assms(2) True k nth_slot [OF k, of byte e p j] by simp
    then have "slot byte e' q j ! k = (if r < length bs then bs ! r else 0xFF)"
      using k m [of "4096 * q + 64 + 32 * j + k"] by (simp add: nth_slot r)
    also have "\<dots> = padded bs ! r" using lt by (simp add: padded_def nth_append)
    also have "\<dots> = window (32 * (j - i)) 32 (padded bs) ! k"
      using k lt by (simp add: nth_window r_def)
    finally show ?thesis using True by simp
  next
    case False
    have "mem byte e' (4096 * q + 64 + 32 * j + k) = mem byte e (4096 * q + 64 + 32 * j + k)"
      unfolding m by (rule if_not_P [OF slot_off_range [OF k j assms(1) False slots_for_bounds(1)]])
    then show ?thesis unfolding if_not_P [OF False] nth_slot [OF k] .
  qed
qed

context nvds_flash begin

lemma write_at:
  assumes "on_area lo hi e" "page_ok e p" "i + slots_for (length bs) \<le> 126"
    and "\<forall>j. i \<le> j \<and> j < i + slots_for (length bs) \<longrightarrow> slot byte e p j = replicate 32 0xFF"
  obtains d where
    "nvds_flash_write io (entry_address (pages e p) (of_nat i)) bs e = (NVDS_OK, e\<lparr>dev := d\<rparr>)"
    "written byte e p i bs (e\<lparr>dev := d\<rparr>)"
proof -
  have a: "unat (entry_address (pages e p) (of_nat i)) = 4096 * p + 64 + 32 * i"
    using slot_address [OF assms(1,2)] assms(3) by simp
  have "4096 * p + 64 + 32 * i + length bs \<le> unat (env_length e)"
    using assms(2,3) slots_for_bounds(1) [of "length bs"] by (simp add: page_ok_def)
  then have "unat (entry_address (pages e p) (of_nat i)) + length bs \<le> unat (env_length e)"
    unfolding a .
  from flash_write [OF assms(1) this] obtain d where
    "nvds_flash_write io (entry_address (pages e p) (of_nat i)) bs e = (NVDS_OK, e\<lparr>dev := d\<rparr>)"
    and "\<And>x. mem byte (e\<lparr>dev := d\<rparr>) x =
       (if 4096 * p + 64 + 32 * i \<le> x \<and> x < 4096 * p + 64 + 32 * i + length bs
        then mem byte e x AND bs ! (x - (4096 * p + 64 + 32 * i)) else mem byte e x)"
    unfolding a by blast
  then show ?thesis using that writtenI [OF assms(3,4)] by blast
qed

lemma write_entry:
  assumes "on_area lo hi e" "page_ok e p" "unat (next_free_idx (pages e p)) = i" "i < 126"
    and "slot byte e p i = replicate 32 0xFF" "length en = 32"
  obtains d where "entry_write io p en e = (NVDS_OK, upd_page p (\<lambda>pg. pg\<lparr>
      next_free_idx := of_nat (i + 1), entry_cnt_used := entry_cnt_used pg + 1\<rparr>) (e\<lparr>dev := d\<rparr>))"
    "written byte e p i en (e\<lparr>dev := d\<rparr>)"
proof -
  have n: "next_free_idx (pages e p) = of_nat i"
    using assms(3) by (metis of_nat_unat ucast_id)
  have nle: "\<not> of_nat ENTRY_COUNT_PER_PAGE \<le> next_free_idx (pages e p)"
    using assms(3,4) by (simp add: word_le_nat_alt)
  have "\<forall>j. i \<le> j \<and> j < i + slots_for (length en) \<longrightarrow> slot byte e p j = replicate 32 0xFF"
    using assms(5,6) by (auto simp: slots_for_def dest: le_less_Suc_eq)
  moreover have "i + slots_for (length en) \<le> 126" using assms(4,6) by (simp add: slots_for_def)
  ultimately obtain d where
    w: "nvds_flash_write io (entry_address (pages e p) (of_nat i)) en e = (NVDS_OK, e\<lparr>dev := d\<rparr>)"
      "written byte e p i en (e\<lparr>dev := d\<rparr>)"
    using write_at [OF assms(1,2)] by blast
  have "entry_write io p en e = (NVDS_OK, upd_page p (\<lambda>pg. pg\<lparr>
      next_free_idx := of_nat (i + 1), entry_cnt_used := entry_cnt_used pg + 1\<rparr>) (e\<lparr>dev := d\<rparr>))"
    using w(1) assms(1) n nle by (simp add: entry_write_def on_area_def upd_page_def add.commute)
  then show ?thesis using that w(2) by blast
qed

lemma write_data:
  assumes "on_area lo hi e" "page_ok e p" "i + slots_for (length bs) \<le> 126"
    and "\<forall>j. i \<le> j \<and> j < i + slots_for (length bs) \<longrightarrow> slot byte e p j = replicate 32 0xFF"
  obtains d where "entry_data_write io (entry_address (pages e p) (of_nat i)) bs e
      = (NVDS_OK, bs, e\<lparr>dev := d\<rparr>)" "written byte e p i bs (e\<lparr>dev := d\<rparr>)"
proof -
  obtain d where
    "nvds_flash_write io (entry_address (pages e p) (of_nat i)) bs e = (NVDS_OK, e\<lparr>dev := d\<rparr>)"
    "written byte e p i bs (e\<lparr>dev := d\<rparr>)"
    using write_at [OF assms] .
  then show ?thesis using that assms(1) by (simp add: entry_data_write_def on_area_def)
qed

end

section \<open>A new element at the end of a page\<close>

lemma entry_make_bytes:
  assumes "length key \<le> 15" "length val = 8"
  shows "\<exists>c. entry_make tag len key val = le16_bytes tag @ le16_bytes len @ le32_bytes c
      @ (key @ 0 # replicate (15 - length key) 0xFF) @ val
    \<and> c = element_header_crc32_calc (entry_make tag len key val)"
proof -
  define K where "K = key @ 0 # replicate (15 - length key) (0xFF :: u8)"
  have K: "length K = 16" using assms(1) by (simp add: K_def)
  define en where "en = le16_bytes tag @ le16_bytes len @ replicate 4 0xFF @ K @ val"
  define c where "c = element_header_crc32_calc en"
  have "entry_make tag len key val = blit en 4 (le32_bytes c)"
    by (simp add: entry_make_def en_def c_def K_def Let_def)
  also have "\<dots> = le16_bytes tag @ le16_bytes len @ le32_bytes c @ K @ val"
    by (simp add: en_def blit_def)
  finally have e: "entry_make tag len key val = \<dots>" .
  have "element_header_crc32_calc (le16_bytes tag @ le16_bytes len @ le32_bytes c @ K @ val) = c"
    unfolding c_def element_header_crc32_calc_def en_def
    using K assms(2) by (simp add: window_def)
  then show ?thesis using e by (auto simp: K_def)
qed

lemma entry_make_fields:
  assumes "length key \<le> 15" "length val = 8" "0 \<notin> set key"
    and en_def: "en = entry_make tag len key val"
  shows "length en = 32" "entry_tag en = tag" "entry_length en = len" "entry_key en = key"
    and "entry_value en = val" "entry_crc32 en = element_header_crc32_calc en"
proof -
  define K where "K = key @ 0 # replicate (15 - length key) (0xFF :: u8)"
  have K: "length K = 16" using assms(1) by (simp add: K_def)
  obtain c where en: "en = le16_bytes tag @ le16_bytes len @ le32_bytes c @ K @ val"
    and c: "c = element_header_crc32_calc en"
    using entry_make_bytes [OF assms(1,2)] unfolding K_def en_def by blast
  show "length en = 32" using K assms(2) by (simp add: en)
  show "entry_tag en = tag" "entry_length en = len"
    by (simp_all add: en entry_tag_def entry_length_def nth_append)
  show "entry_value en = val" using K assms(2) by (simp add: en entry_value_def window_def)
  have "window 4 4 en = le32_bytes c" by (simp add: en window_def)
  then show "entry_crc32 en = element_header_crc32_calc en"
    using c by (simp add: entry_crc32_def)
  have "window 8 24 en = K @ val" using K assms(2) by (simp add: en window_def)
  moreover have "takeWhile (\<lambda>b. b \<noteq> 0) (K @ val) = key"
    using assms(3) by (simp add: K_def takeWhile_append2 takeWhile_append)
  ultimately show "entry_key en = key" by (simp add: entry_key_def)
qed

text \<open>\<open>grown byte e p i n e'\<close>: page \<open>p\<close> got \<open>n\<close> used slots from its first free slot \<open>i\<close> on.\<close>

definition grown ::
    "('d \<Rightarrow> nat \<Rightarrow> u8) \<Rightarrow> 'd nvds_env \<Rightarrow> page_ref \<Rightarrow> nat \<Rightarrow> nat \<Rightarrow> 'd nvds_env \<Rightarrow> bool" where
  "grown byte e p i n e' \<longleftrightarrow>
     env_base e' = env_base e \<and> env_length e' = env_length e \<and> encrypted e' = encrypted e
   \<and> nvds_page_used e' = nvds_page_used e \<and> nvds_page_free e' = nvds_page_free e
   \<and> ns_list e' = ns_list e \<and> ns_states e' = ns_states e
   \<and> (\<forall>q. q \<noteq> p \<longrightarrow> pages e' q = pages e q)
   \<and> page_base (pages e' p) = page_base (pages e p) \<and> header (pages e' p) = header (pages e p)
   \<and> length (entry_states (pages e' p)) = 8 \<and> unat (next_free_idx (pages e' p)) = i + n
   \<and> (\<forall>j<126. st e' p j = (if i \<le> j \<and> j < i + n then ENTRY_USED else st e p j))
   \<and> (\<forall>q j. j < 126 \<longrightarrow> \<not> (q = p \<and> i \<le> j \<and> j < i + n) \<longrightarrow> slot byte e' q j = slot byte e q j)"

lemma st_cong: "entry_states (pages e' q) = entry_states (pages e q) \<Longrightarrow> st e' q j = st e q j"
  by (simp add: st_def)

lemma grownD:
  assumes "grown byte e p i n e'"
  shows "env_length e' = env_length e" "env_base e' = env_base e" "encrypted e' = encrypted e"
    and "nvds_page_used e' = nvds_page_used e" "q \<noteq> p \<Longrightarrow> pages e' q = pages e q"
    and "page_base (pages e' p) = page_base (pages e p)" "header (pages e' p) = header (pages e p)"
    and "length (entry_states (pages e' p)) = 8" "unat (next_free_idx (pages e' p)) = i + n"
    and "j < 126 \<Longrightarrow> st e' p j = (if i \<le> j \<and> j < i + n then ENTRY_USED else st e p j)"
    and "j < 126 \<Longrightarrow> q \<noteq> p \<or> j < i \<or> i + n \<le> j \<Longrightarrow> slot byte e' q j = slot byte e q j"
    and "q \<noteq> p \<Longrightarrow> st e' q j = st e q j"
proof -
  show "q \<noteq> p \<Longrightarrow> st e' q j = st e q j"
    using assms by (intro st_cong) (simp add: grown_def)
  show "j < 126 \<Longrightarrow> q \<noteq> p \<or> j < i \<or> i + n \<le> j \<Longrightarrow> slot byte e' q j = slot byte e q j"
    using assms unfolding grown_def by (metis not_less)
qed (use assms in \<open>simp_all add: grown_def\<close>)

lemma grown_page_wf:
  assumes "grown byte e p i n e'" "page_wf byte e p hs" "unat (next_free_idx (pages e p)) = i"
    and "i + n \<le> 126" "n = 1 + data_slots (slot byte e' p i)"
  shows "page_wf byte e' p (hs @ [i])"
proof -
  note g = grownD [OF assms(1)]
  have lay: "layout (st e p) (slot byte e p) 0 hs i" using assms(2,3) by (simp add: page_wf_def)
  have S: "st e' p h = st e p h" "slot byte e' p h = slot byte e p h" if "h < i" for h
    using g(10) [of h] g(11) [of h p] that assms(4) by simp_all
  have "layout (st e' p) (slot byte e' p) 0 hs i"
    by (rule layout_cong [OF lay]) (simp_all add: S)
  moreover have "st e' p i \<noteq> ENTRY_FREE" using g(10) [of i] assms(4,5) by simp
  ultimately have "layout (st e' p) (slot byte e' p) 0 (hs @ [i]) (i + n)"
    using assms(5) by (intro layout_snoc) simp_all
  moreover have "st e' p j = ENTRY_FREE \<and> slot byte e' p j = replicate 32 0xFF"
    if "i + n \<le> j" "j < 126" for j
    using g(10) [of j] g(11) [of j p] that assms(2,3) by (simp add: page_wf_def)
  ultimately show ?thesis
    using g(1,6-9) assms(2,4) by (simp add: page_wf_def page_ok_def)
qed

lemma grown_other_wf:
  assumes "grown byte e p i n e'" "page_wf byte e q hs" "q \<noteq> p"
  shows "page_wf byte e' q hs"
proof -
  note g = grownD [OF assms(1)]
  have s: "st e' q = st e q" using g(12) assms(3) by (intro ext) simp
  have "slot byte e' q j = slot byte e q j" if "j < 126" for j
    using g(11) that assms(3) by simp
  moreover have lay: "layout (st e q) (slot byte e q) 0 hs (unat (next_free_idx (pages e q)))"
    and le: "unat (next_free_idx (pages e q)) \<le> 126"
    using assms(2) by (simp_all add: page_wf_def)
  ultimately have "layout (st e' q) (slot byte e' q) 0 hs (unat (next_free_idx (pages e q)))"
    by (intro layout_cong [OF lay]) (simp_all add: s)
  then show ?thesis
    using g(1) g(5) [OF assms(3)] g(11) [of _ q] s assms(2,3) by (simp add: page_wf_def page_ok_def)
qed

lemma grown_holds:
  assumes "grown byte e p i n e'" "h < 126" "q \<noteq> p \<or> h < i"
  shows "holds byte e' ns key ty (q, h) = holds byte e ns key ty (q, h)"
proof -
  note g = grownD [OF assms(1)]
  have "st e' q h = st e q h"
    using g(10) [OF assms(2)] g(12) assms(3) by (cases "q = p") auto
  moreover have "slot byte e' q h = slot byte e q h" using g(11) assms(2,3) by blast
  ultimately show ?thesis by (simp add: holds_def)
qed

context nvds_flash begin

lemma put_header_grown:
  assumes "on_area lo hi e" "page_wf byte e p hs" "unat (next_free_idx (pages e p)) = i" "i < 126"
    and "length en = 32"
  shows "\<exists>e'. put_header io p en e = (NVDS_OK, e') \<and> grown byte e p i 1 e' \<and> slot byte e' p i = en"
proof -
  have ok: "page_ok e p" and free: "slot byte e p i = replicate 32 0xFF"
    using assms(2-4) by (auto simp: page_wf_def)
  obtain d where d: "entry_write io p en e = (NVDS_OK, upd_page p (\<lambda>pg. pg\<lparr>
      next_free_idx := of_nat (i + 1), entry_cnt_used := entry_cnt_used pg + 1\<rparr>) (e\<lparr>dev := d\<rparr>))"
    "written byte e p i en (e\<lparr>dev := d\<rparr>)"
    using write_entry [OF assms(1) ok assms(3,4) free assms(5)] .
  define e1 where "e1 = upd_page p (\<lambda>pg. pg\<lparr>next_free_idx := of_nat (i + 1),
      entry_cnt_used := entry_cnt_used pg + 1\<rparr>) (e\<lparr>dev := d\<rparr>)"
  have "on_area lo hi e1" "page_ok e1 p"
    using assms(1) ok by (simp_all add: e1_def on_area_def page_ok_def)
  then obtain e2 where e2: "entry_state_range_alter io p (of_nat i) (of_nat i) ENTRY_USED e1 = (NVDS_OK, e2)"
    "restated byte e1 p (\<lambda>j. if i \<le> j \<and> j \<le> i then ENTRY_USED else st e1 p j) e2"
    using alter_range [of e1 p i i ENTRY_USED] assms(4) by blast
  have s1: "slot byte e1 q j = slot byte (e\<lparr>dev := d\<rparr>) q j" for q j
    by (simp add: slot_def e1_def)
  have w: "slot byte e1 q j = (if q = p \<and> j = i then en else slot byte e q j)" if "j < 126" for q j
  proof -
    have "window 0 32 (padded en) = en" using assms(5) by (simp add: padded_def slots_for_def window_def)
    then show ?thesis
      using d(2) that assms(5) unfolding written_def s1 by (auto simp: slots_for_def)
  qed
  have n: "next_free_idx (pages e p) = of_nat i"
    using assms(3) by (metis of_nat_unat ucast_id)
  have u: "ucast (of_nat i :: u32) = (of_nat i :: u8)" using assms(4) by (simp add: ucast_u32_u8)
  have st1: "st e1 q j = st e q j" for q j by (simp add: st_def e1_def)
  note r = restatedD [OF e2(2)]
  have "put_header io p en e = (NVDS_OK, e2)"
    using d(1) e2(1) n u by (simp add: put_header_def e1_def)
  moreover have "grown byte e p i 1 e2"
    unfolding grown_def
  proof (intro conjI allI impI)
    show "unat (next_free_idx (pages e2 p)) = i + 1"
      using r(5) assms(4) unat_of_nat_u32 [of "i + 1"] by (simp add: e1_def)
    show "st e2 p j = (if i \<le> j \<and> j < i + 1 then ENTRY_USED else st e p j)" if "j < 126" for j
      using r(1) [OF that] by (auto simp: st1)
    show "slot byte e2 q j = slot byte e q j" if "j < 126" "\<not> (q = p \<and> i \<le> j \<and> j < i + 1)" for q j
      using r(15) [OF that(1)] w [OF that(1)] that(2) by auto
  qed (use r in \<open>auto simp: e1_def\<close>)
  moreover have "slot byte e2 p i = en" using r(15) w assms(4) by simp
  ultimately show ?thesis by blast
qed

lemma put_slots_grown:
  assumes "on_area lo hi e" "page_wf byte e p hs" "unat (next_free_idx (pages e p)) = i"
    and "c = slots_for (length data)" "i + 1 + c \<le> 126" "length en = 32"
  shows "\<exists>e'. put_slots io p en data e = (NVDS_OK, data, e') \<and> grown byte e p i (1 + c) e'
    \<and> slot byte e' p i = en
    \<and> (\<forall>k<c. slot byte e' p (i + 1 + k) = window (32 * k) 32 (padded data))"
proof -
  have ok: "page_ok e p" and free: "\<And>j. i \<le> j \<Longrightarrow> j < 126 \<Longrightarrow> slot byte e p j = replicate 32 0xFF"
    using assms(2,3) by (auto simp: page_wf_def)
  have i: "i < 126" using assms(5) by linarith
  obtain d where d: "entry_write io p en e = (NVDS_OK, upd_page p (\<lambda>pg. pg\<lparr>
      next_free_idx := of_nat (i + 1), entry_cnt_used := entry_cnt_used pg + 1\<rparr>) (e\<lparr>dev := d\<rparr>))"
    "written byte e p i en (e\<lparr>dev := d\<rparr>)"
    using write_entry [OF assms(1) ok assms(3) i free [OF order_refl i] assms(6)] .
  define e1 where "e1 = upd_page p (\<lambda>pg. pg\<lparr>next_free_idx := of_nat (i + 1),
      entry_cnt_used := entry_cnt_used pg + 1\<rparr>) (e\<lparr>dev := d\<rparr>)"
  have s1: "slot byte e1 q j = slot byte (e\<lparr>dev := d\<rparr>) q j" for q j
    by (simp add: slot_def e1_def)
  have w1: "slot byte e1 q j = (if q = p \<and> j = i then en else slot byte e q j)" if "j < 126" for q j
  proof -
    have "window 0 32 (padded en) = en" using assms(6) by (simp add: padded_def slots_for_def window_def)
    then show ?thesis
      using d(2) that assms(6) unfolding written_def s1 by (auto simp: slots_for_def)
  qed
  have area1: "on_area lo hi e1" and ok1: "page_ok e1 p"
    using assms(1) ok by (simp_all add: e1_def on_area_def page_ok_def)
  have free1: "\<forall>j. i + 1 \<le> j \<and> j < i + 1 + slots_for (length data) \<longrightarrow> slot byte e1 p j = replicate 32 0xFF"
    using w1 free assms(4,5) by auto
  obtain d2 where d2: "entry_data_write io (entry_address (pages e1 p) (of_nat (i + 1))) data e1
      = (NVDS_OK, data, e1\<lparr>dev := d2\<rparr>)" "written byte e1 p (i + 1) data (e1\<lparr>dev := d2\<rparr>)"
    using write_data [OF area1 ok1 _ free1] assms(4,5) by auto
  define e3 where "e3 = add_slots p c (e1\<lparr>dev := d2\<rparr>)"
  have s3: "slot byte e3 q j = slot byte (e1\<lparr>dev := d2\<rparr>) q j" for q j
    by (simp add: slot_def e3_def add_slots_def)
  have w3: "slot byte e3 q j = (if q = p \<and> i + 1 \<le> j \<and> j < i + 1 + c
      then window (32 * (j - (i + 1))) 32 (padded data) else slot byte e1 q j)" if "j < 126" for q j
    using d2(2) that assms(4) unfolding written_def s3 by simp
  have "on_area lo hi e3" "page_ok e3 p"
    using area1 ok1 by (simp_all add: e3_def add_slots_def on_area_def page_ok_def)
  then obtain e4 where e4: "entry_state_range_alter io p (of_nat i) (of_nat (i + c)) ENTRY_USED e3 = (NVDS_OK, e4)"
    "restated byte e3 p (\<lambda>j. if i \<le> j \<and> j \<le> i + c then ENTRY_USED else st e3 p j) e4"
    using alter_range [of e3 p i "i + c" ENTRY_USED] assms(5) by auto
  note r = restatedD [OF e4(2)]
  have n: "next_free_idx (pages e p) = of_nat i"
    using assms(3) by (metis of_nat_unat ucast_id)
  have cnt: "(length data + ENTRY_SIZE - 1) div ENTRY_SIZE = c"
    by (simp add: assms(4) slots_for_def)
  have put: "put_slots io p en data e = (NVDS_OK, data, e4)"
    using d(1) d2(1) e4(1) n cnt i unfolding put_slots_def e3_def
    by (simp add: e1_def [symmetric] ucast_u32_u8 of_nat_add Let_def) (simp add: e1_def)
  have st3: "st e3 q j = st e q j" for q j by (simp add: st_def e3_def e1_def add_slots_def)
  have "grown byte e p i (1 + c) e4"
    unfolding grown_def
  proof (intro conjI allI impI)
    have "next_free_idx (pages e4 p) = of_nat (i + (1 + c))"
      using r(5) by (simp add: e3_def e1_def add_slots_def)
    then show "unat (next_free_idx (pages e4 p)) = i + (1 + c)"
      using assms(5) unat_of_nat_u32 [of "i + (1 + c)"] by simp
    show "st e4 p j = (if i \<le> j \<and> j < i + (1 + c) then ENTRY_USED else st e p j)" if "j < 126" for j
      using r(1) [OF that] by (auto simp: st3)
    show "slot byte e4 q j = slot byte e q j" if "j < 126" "\<not> (q = p \<and> i \<le> j \<and> j < i + (1 + c))" for q j
      using r(15) [OF that(1)] w3 [OF that(1)] w1 [OF that(1)] that(2) by auto
  qed (use r in \<open>auto simp: e3_def e1_def add_slots_def\<close>)
  moreover have "slot byte e4 p i = en" using r(15) [OF i] w3 [OF i] w1 [OF i] by simp
  moreover have "slot byte e4 p (i + 1 + k) = window (32 * k) 32 (padded data)" if "k < c" for k
    using r(15) [of "i + 1 + k"] w3 [of "i + 1 + k"] that assms(5) by simp
  ultimately show ?thesis using put by blast
qed

end

section \<open>The value of an element\<close>

definition slots_data :: "('d \<Rightarrow> nat \<Rightarrow> u8) \<Rightarrow> 'd nvds_env \<Rightarrow> page_ref \<Rightarrow> nat \<Rightarrow> nat \<Rightarrow> bytes" where
  "slots_data byte e p i c = concat (map (\<lambda>k. slot byte e p (i + 1 + k)) [0..<c])"

lemma length_slots_data [simp]: "length (slots_data byte e p i c) = 32 * c"
  by (induction c) (simp_all add: slots_data_def)

lemma slots_data_nth:
  assumes "k < c"
  shows "take 32 (drop (32 * k) (slots_data byte e p i c)) = slot byte e p (i + 1 + k)"
  using assms
proof (induction c)
  case (Suc c)
  have s: "slots_data byte e p i (Suc c) = slots_data byte e p i c @ slot byte e p (i + 1 + c)"
    by (simp add: slots_data_def)
  show ?case
  proof (cases "k = c")
    case False
    then have "32 * k + 32 \<le> 32 * c" using Suc.prems by simp
    then show ?thesis using Suc False by (simp add: s)
  qed (simp add: s)
qed simp

lemma drop_split_eq:
  "drop a xs = drop a ys \<longleftrightarrow> take r (drop a xs) = take r (drop a ys) \<and> drop (a + r) xs = drop (a + r) ys"
proof -
  have d: "drop (a + r) zs = drop r (drop a zs)" for zs :: "'a list" by (simp add: add.commute)
  show ?thesis unfolding d by (metis append_take_drop_id)
qed

lemma slots_data_padded:
  assumes "c = slots_for (length data)"
    and "\<forall>k<c. slot byte e p (i + 1 + k) = window (32 * k) 32 (padded data)"
  shows "take (length data) (slots_data byte e p i c) = data"
proof -
  have "slots_data byte e p i m = take (32 * m) (padded data)" if "m \<le> c" for m
    using that
  proof (induction m)
    case (Suc m)
    have "slots_data byte e p i (Suc m) = slots_data byte e p i m @ slot byte e p (i + 1 + m)"
      by (simp add: slots_data_def)
    also have "\<dots> = take (32 * m) (padded data) @ window (32 * m) 32 (padded data)"
      using Suc assms(2) by simp
    also have "\<dots> = take (32 * Suc m) (padded data)"
      by (simp add: window_def take_add [symmetric] add.commute)
    finally show ?case .
  qed (simp add: slots_data_def)
  from this [of c] have "slots_data byte e p i c = padded data"
    using assms(1) by simp
  then show ?thesis by (simp add: padded_def)
qed

context nvds_flash begin

lemma read_slots_data:
  assumes "on_area lo hi e" "page_ok e p" "i + c < 126" "k \<le> c"
  shows "read_slots io p e (of_nat (i + 1 + k)) (of_nat (i + c)) (n - 32 * k)
      (take (min n (32 * k)) (slots_data byte e p i c))
    = Some (Inr (take (min n (32 * c)) (slots_data byte e p i c)))"
  using assms(4)
proof (induction "c - k" arbitrary: k)
  case 0
  then have "\<not> (of_nat (i + 1 + k) :: u8) \<le> of_nat (i + c)"
    using of_nat_u8_le [of "i + 1 + k" "i + c"] assms(3) 0 by simp
  then show ?case using 0 by (subst read_slots.simps) simp
next
  case (Suc m)
  let ?D = "slots_data byte e p i c" and ?r = "n - 32 * k"
  have k: "k < c" using Suc by linarith
  have le: "(of_nat (i + 1 + k) :: u8) \<le> of_nat (i + c)"
    using of_nat_u8_le [of "i + 1 + k" "i + c"] assms(3) k by simp
  have rd: "entry_read io p (of_nat (i + 1 + k)) e = Inr (slot byte e p (i + 1 + k))"
    using read_slot [OF assms(1,2), of "i + 1 + k"] assms(3) k by simp
  have "take (min n (32 * k)) ?D @ take (min ?r 32) (take 32 (drop (32 * k) ?D)) = take (min n (32 * (k + 1))) ?D"
  proof (cases "n \<le> 32 * k")
    case False
    then have "min n (32 * (k + 1)) = 32 * k + min ?r 32" by (auto simp: min_def)
    then show ?thesis using False by (simp add: take_add min_absorb2)
  qed simp
  moreover have "?r - min ?r 32 = n - 32 * (k + 1)" by (auto simp: min_def)
  moreover have "(of_nat (i + 1 + k) :: u8) + 1 = of_nat (i + 1 + (k + 1))" by simp
  ultimately show ?case
    using Suc.hyps(1) [of "k + 1"] Suc.hyps(2) k le rd slots_data_nth [OF k, of byte e p i]
    by (subst read_slots.simps) (simp add: Let_def del: of_nat_add)
qed

lemma read_data_value:
  assumes "on_area lo hi e" "page_ok e p" "i + entry_cnt en < 126"
  shows "read_data io p e (of_nat i) en =
    Some (Inr (take (unat (entry_length en)) (slots_data byte e p i (entry_cnt en))))"
proof -
  have "unat (entry_length en) \<le> 32 * entry_cnt en"
    using slots_for_bounds(1) by (simp add: entry_cnt_def slots_for_def)
  then show ?thesis
    using read_slots_data [OF assms, of 0 "unat (entry_length en)"]
    by (simp add: read_data_def min_absorb1 add.commute)
qed

lemma cmp_slots_data:
  assumes "on_area lo hi e" "page_ok e p" "i + c < 126" "k \<le> c" "n \<le> 32 * c" "length buf = n"
  shows "cmp_slots io p e buf (of_nat (i + 1 + k)) (of_nat (i + c)) (n - 32 * k) (min n (32 * k))
    = Some (drop (min n (32 * k)) buf = drop (min n (32 * k)) (take n (slots_data byte e p i c)))"
  using assms(4)
proof (induction "c - k" arbitrary: k)
  case 0
  then have "\<not> (of_nat (i + 1 + k) :: u8) \<le> of_nat (i + c)"
    using of_nat_u8_le [of "i + 1 + k" "i + c"] assms(3) by simp
  then show ?case using 0 assms(5,6) by (subst cmp_slots.simps) (simp add: min_absorb1)
next
  case (Suc m)
  let ?D = "slots_data byte e p i c" and ?r = "n - 32 * k" and ?o = "min n (32 * k)"
  let ?o' = "min n (32 * (k + 1))"
  have k: "k < c" using Suc by linarith
  have le: "(of_nat (i + 1 + k) :: u8) \<le> of_nat (i + c)"
    using of_nat_u8_le [of "i + 1 + k" "i + c"] assms(3) k by simp
  have rd: "entry_read io p (of_nat (i + 1 + k)) e = Inr (slot byte e p (i + 1 + k))"
    using read_slot [OF assms(1,2), of "i + 1 + k"] assms(3) k by simp
  have m: "m = c - (k + 1)" and k1: "k + 1 \<le> c" using Suc.hyps(2) k by linarith+
  have o': "?o + min ?r 32 = ?o'" by (auto simp: min_def)
  have "drop ?o buf = drop ?o (take n ?D) \<longleftrightarrow>
      take (min ?r 32) (drop ?o buf) = take (min ?r 32) (drop ?o (take n ?D))
    \<and> drop ?o' buf = drop ?o' (take n ?D)"
    unfolding o' [symmetric] by (rule drop_split_eq)
  moreover have "take (min ?r 32) (drop ?o (take n ?D)) = take (min ?r 32) (take 32 (drop (32 * k) ?D))"
  proof (cases "n \<le> 32 * k")
    case False
    then have "?o = 32 * k" by simp
    then show ?thesis by (simp only: drop_take take_take) (simp add: min.commute)
  qed simp
  moreover have "window ?o (min ?r 32) buf = take (min ?r 32) (drop ?o buf)"
    by (simp add: window_def)
  moreover have "?r - min ?r 32 = n - 32 * (k + 1)" by (auto simp: min_def)
  moreover have "(of_nat (i + 1 + k) :: u8) + 1 = of_nat (i + 1 + (k + 1))" by simp
  moreover have "\<not> length buf < ?o + min ?r 32" using assms(6) o' by simp
  ultimately show ?case
    using Suc.hyps(1) [OF m k1] k le rd slots_data_nth [OF k, of byte e p i] o'
    by (subst cmp_slots.simps) (simp add: Let_def del: of_nat_add)
qed

lemma cmp_data_value:
  assumes "on_area lo hi e" "page_ok e p" "i + entry_cnt en < 126" "length buf = unat (entry_length en)"
  shows "cmp_data io p e (of_nat i) en buf 0 =
    Some (buf = take (unat (entry_length en)) (slots_data byte e p i (entry_cnt en)))"
proof -
  have "unat (entry_length en) \<le> 32 * entry_cnt en"
    using slots_for_bounds(1) by (simp add: entry_cnt_def slots_for_def)
  then show ?thesis
    using cmp_slots_data [OF assms(1-3), of 0 "unat (entry_length en)" buf] assms(4)
    by (simp add: cmp_data_def add.commute)
qed

end

definition stored :: "('d \<Rightarrow> nat \<Rightarrow> u8) \<Rightarrow> 'd nvds_env \<Rightarrow> page_ref \<times> nat \<Rightarrow> bytes" where
  "stored byte e x =
     (let en = slot byte e (fst x) (snd x); n = unat (entry_length en)
      in if entry_type en = ELEMENT_MIDDLE then take n (slots_data byte e (fst x) (snd x) (entry_cnt en))
         else take n (entry_value en))"

text \<open>An element of one header whose length and data checksum are as the writer leaves them.\<close>

definition sound :: "('d \<Rightarrow> nat \<Rightarrow> u8) \<Rightarrow> 'd nvds_env \<Rightarrow> page_ref \<times> nat \<Rightarrow> bool" where
  "sound byte e x \<longleftrightarrow>
     (let en = slot byte e (fst x) (snd x)
      in entry_type en = ELEMENT_SMALL \<and> unat (entry_length en) \<le> 8
       \<or> entry_type en = ELEMENT_MIDDLE \<and> entry_datacrc32 en = element_data_crc32_calc (stored byte e x))"

definition store_wf ::
    "('d \<Rightarrow> nat \<Rightarrow> u8) \<Rightarrow> nat \<Rightarrow> nat \<Rightarrow> 'd nvds_env \<Rightarrow> (page_ref \<Rightarrow> nat list) \<Rightarrow> bool" where
  "store_wf byte lo hi e H \<longleftrightarrow> on_area lo hi e \<and> nvds_page_used e \<noteq> [] \<and> distinct (nvds_page_used e)
     \<and> (\<forall>p\<in>set (nvds_page_used e). page_wf byte e p (H p))"

text \<open>
  \<open>plain\<close>: the key has at most one element in the store, and it is not a bulk element.
\<close>

definition plain ::
    "('d \<Rightarrow> nat \<Rightarrow> u8) \<Rightarrow> 'd nvds_env \<Rightarrow> (page_ref \<Rightarrow> nat list) \<Rightarrow> u8 \<Rightarrow> bytes \<Rightarrow> bool" where
  "plain byte e H ns key \<longleftrightarrow>
     (\<forall>x\<in>set (elems H (nvds_page_used e)). holds byte e ns key ELEMENT_ANY x \<longrightarrow> sound byte e x
        \<and> (\<forall>y\<in>set (elems H (nvds_page_used e)). holds byte e ns key ELEMENT_ANY y \<longrightarrow> y = x))"

definition contents ::
    "('d \<Rightarrow> nat \<Rightarrow> u8) \<Rightarrow> 'd nvds_env \<Rightarrow> (page_ref \<Rightarrow> nat list) \<Rightarrow> u8 \<times> bytes \<Rightarrow> bytes option" where
  "contents byte e H k =
     map_option (stored byte e) (find (holds byte e (fst k) (snd k) ELEMENT_ANY) (elems H (nvds_page_used e)))"

abbreviation elems_of :: "(page_ref \<Rightarrow> nat list) \<Rightarrow> 'd nvds_env \<Rightarrow> (page_ref \<times> nat) list" where
  "elems_of H e \<equiv> elems H (nvds_page_used e)"

lemma find_SomeD: "find P xs = Some x \<Longrightarrow> x \<in> set xs \<and> P x"
  by (induction xs) (auto split: if_splits)

lemma find_unique:
  assumes "x \<in> set xs" "P x" "\<And>y. y \<in> set xs \<Longrightarrow> P y \<Longrightarrow> y = x"
  shows "find P xs = Some x"
proof -
  obtain y where y: "find P xs = Some y"
    using assms(1,2) find_None_iff [of P xs] by fastforce
  then have "y \<in> set xs" "P y" using find_SomeD [of P xs y] by simp_all
  then have "y = x" by (rule assms(3))
  then show ?thesis using y by simp
qed

lemma plain_find:
  assumes "plain byte e H ns key" "find (holds byte e ns key ELEMENT_ANY) (elems_of H e) = Some x"
  shows "x \<in> set (elems_of H e)" "holds byte e ns key ELEMENT_ANY x" "sound byte e x"
    and "y \<in> set (elems_of H e) \<Longrightarrow> holds byte e ns key ELEMENT_ANY y \<Longrightarrow> y = x"
proof -
  note x = find_SomeD [OF assms(2)]
  note u = bspec [OF assms(1) [unfolded plain_def] conjunct1 [OF x], rule_format, OF conjunct2 [OF x]]
  show "x \<in> set (elems_of H e)" "holds byte e ns key ELEMENT_ANY x"
    by (rule conjunct1 [OF x], rule conjunct2 [OF x])
  show "sound byte e x" by (rule conjunct1 [OF u])
  show "y \<in> set (elems_of H e) \<Longrightarrow> holds byte e ns key ELEMENT_ANY y \<Longrightarrow> y = x"
    by (rule conjunct2 [OF u, rule_format])
qed

lemma holds_key: "holds byte e ns key ty x \<Longrightarrow> holds byte e ns' key' ty' x \<Longrightarrow> ns' = ns \<and> key' = key"
  by (auto simp: holds_def entry_matches_def)

lemma length_stored:
  assumes "sound byte e x"
  shows "length (stored byte e x) = unat (entry_length (slot byte e (fst x) (snd x)))"
proof -
  have "unat (entry_length en) \<le> 32 * entry_cnt en" for en
    using slots_for_bounds(1) by (simp add: entry_cnt_def slots_for_def)
  then show ?thesis
    using assms by (auto simp: sound_def stored_def Let_def entry_value_def min_absorb1 min_absorb2)
qed

lemma store_elem:
  assumes "store_wf byte lo hi e H" "x \<in> set (elems_of H e)"
  shows "page_ok e (fst x)" "snd x + 1 + data_slots (slot byte e (fst x) (snd x)) \<le> 126"
    "fst x \<in> set (nvds_page_used e)" "snd x < unat (next_free_idx (pages e (fst x)))"
    "snd x + 1 + data_slots (slot byte e (fst x) (snd x)) \<le> unat (next_free_idx (pages e (fst x)))"
proof -
  have wf: "page_wf byte e (fst x) (H (fst x))" and h: "snd x \<in> set (H (fst x))"
    using assms by (auto simp: store_wf_def)
  have "snd x + 1 + data_slots (slot byte e (fst x) (snd x)) \<le> unat (next_free_idx (pages e (fst x)))"
    using layout_bounds [OF _ h] wf unfolding page_wf_def by blast
  then show "snd x + 1 + data_slots (slot byte e (fst x) (snd x)) \<le> 126"
    "snd x < unat (next_free_idx (pages e (fst x)))"
    "snd x + 1 + data_slots (slot byte e (fst x) (snd x)) \<le> unat (next_free_idx (pages e (fst x)))"
    using wf by (simp_all add: page_wf_def)
  show "page_ok e (fst x)" using wf by (simp add: page_wf_def)
  show "fst x \<in> set (nvds_page_used e)" using assms(2) by simp
qed

context nvds_flash begin

lemma find_elem:
  assumes "store_wf byte lo hi e H"
  shows "element_find io ns key 0 None ty e = Some
    (case find (holds byte e ns key ty) (elems_of H e) of
       None \<Rightarrow> Inl NVDS_E_NOT_FOUND | Some (p, h) \<Rightarrow> Inr (p, of_nat h))"
  using find_pages_elems [of e "nvds_page_used e" H ns key ty] assms
  by (simp add: element_find_def store_wf_def)

lemma read_elem:
  assumes "store_wf byte lo hi e H" "x \<in> set (elems_of H e)"
  shows "entry_read io (fst x) (of_nat (snd x)) e = Inr (slot byte e (fst x) (snd x))"
  using read_slot [of e "fst x" "snd x"] store_elem [OF assms] assms(1) by (simp add: store_wf_def)

lemma read_data_elem:
  assumes "store_wf byte lo hi e H" "x \<in> set (elems_of H e)"
    and "entry_type (slot byte e (fst x) (snd x)) = ELEMENT_MIDDLE"
  shows "read_data io (fst x) e (of_nat (snd x)) (slot byte e (fst x) (snd x)) = Some (Inr (stored byte e x))"
  using read_data_value [of e "fst x" "snd x" "slot byte e (fst x) (snd x)"]
    store_elem [OF assms(1,2)] assms(1,3)
  by (simp add: store_wf_def stored_def data_slots_def Let_def)

lemma get_elem:
  assumes "store_wf byte lo hi e H" "find (holds byte e ns key ELEMENT_ANY) (elems_of H e) = Some x"
    and "sound byte e x"
  shows "data_element_get io ns key buf sz e =
    (let len = of_nat (length (stored byte e x)) :: u32
     in Some (if \<not> buf then (NVDS_OK, len, [])
              else if sz < len then (NVDS_E_INVALID_LENGTH, len, [])
              else (NVDS_OK, len, stored byte e x)))"
proof -
  let ?en = "slot byte e (fst x) (snd x)"
  have x: "x \<in> set (elems_of H e)" using find_SomeD [OF assms(2)] by simp
  have f: "element_find io ns key 0 None ELEMENT_ANY e = Some (Inr (fst x, of_nat (snd x)))"
    using find_elem [OF assms(1)] assms(2) by (simp add: case_prod_beta)
  have "unat (entry_length ?en) < 4294967296" using unat_u16_lt [of "entry_length ?en"] by linarith
  then have l: "of_nat (length (stored byte e x)) = (ucast (entry_length ?en) :: u32)"
    unfolding length_stored [OF assms(3)]
    by (intro word_unat_eq_iff [THEN iffD2]) (simp add: unat_of_nat_u32)
  have "entry_type ?en = ELEMENT_SMALL \<and> unat (entry_length ?en) \<le> 8
      \<and> stored byte e x = take (unat (entry_length ?en)) (entry_value ?en)
    \<or> entry_type ?en = ELEMENT_MIDDLE \<and> entry_datacrc32 ?en = element_data_crc32_calc (stored byte e x)
      \<and> read_data io (fst x) e (of_nat (snd x)) ?en = Some (Inr (stored byte e x))"
    using assms(3) read_data_elem [OF assms(1) x] by (auto simp: sound_def stored_def Let_def)
  then show ?thesis
    using f read_elem [OF assms(1) x] unfolding data_element_get_def l
    by (elim disjE conjE) (simp_all add: Let_def)
qed

lemma get_none:
  assumes "store_wf byte lo hi e H" "find (holds byte e ns key ELEMENT_ANY) (elems_of H e) = None"
  shows "data_element_get io ns key buf sz e = Some (NVDS_E_NOT_FOUND, sz, [])"
  using find_elem [OF assms(1)] assms(2) by (simp add: data_element_get_def)

lemma compare_elem:
  assumes "store_wf byte lo hi e H" "find (holds byte e ns key ELEMENT_ANY) (elems_of H e) = Some x"
    and "sound byte e x" "length buf < 65536"
  shows "element_compare io ns key buf e = Some (stored byte e x = buf)"
proof -
  let ?en = "slot byte e (fst x) (snd x)"
  have x: "x \<in> set (elems_of H e)" using find_SomeD [OF assms(2)] by simp
  have f: "element_find io ns key 0 None ELEMENT_ANY e = Some (Inr (fst x, of_nat (snd x)))"
    using find_elem [OF assms(1)] assms(2) by (simp add: case_prod_beta)
  have ls: "length (stored byte e x) = unat (entry_length ?en)" by (rule length_stored [OF assms(3)])
  have eq: "(of_nat (length (stored byte e x)) :: u32) = of_nat (length buf) \<longleftrightarrow> length (stored byte e x) = length buf"
    using assms(4) ls unat_u16_lt [of "entry_length ?en"] by (intro of_nat_u32_eq) linarith+
  have kind: "entry_type ?en = ELEMENT_SMALL \<and> unat (entry_length ?en) \<le> 8 \<or> entry_type ?en = ELEMENT_MIDDLE"
    using assms(3) by (auto simp: sound_def Let_def)
  have sm: "entry_type ?en = ELEMENT_SMALL \<Longrightarrow>
      stored byte e x = take (unat (entry_length ?en)) (entry_value ?en)"
    by (simp add: stored_def Let_def)
  consider "length (stored byte e x) \<noteq> length buf"
    | (small) "length (stored byte e x) = length buf" "entry_type ?en = ELEMENT_SMALL"
        "unat (entry_length ?en) \<le> 8"
    | (middle) "length (stored byte e x) = length buf" "entry_type ?en = ELEMENT_MIDDLE"
    using kind by blast
  then show ?thesis
  proof cases
    case 1
    then show ?thesis
      using get_elem [OF assms(1-3)] eq by (auto simp: element_compare_def Let_def)
  next
    case small
    then show ?thesis
      using get_elem [OF assms(1-3)] eq f read_elem [OF assms(1) x] ls sm [OF small(2)]
      by (auto simp: element_compare_def Let_def)
  next
    case middle
    have "cmp_data io (fst x) e (of_nat (snd x)) ?en buf 0 = Some (buf = stored byte e x)"
      using cmp_data_value [of e "fst x" "snd x" ?en buf] store_elem [OF assms(1) x] assms(1) middle ls
      by (simp add: store_wf_def stored_def data_slots_def Let_def)
    then show ?thesis
      using get_elem [OF assms(1-3)] eq f read_elem [OF assms(1) x] ls middle
      by (auto simp: element_compare_def Let_def)
  qed
qed

lemma compare_none:
  assumes "store_wf byte lo hi e H" "find (holds byte e ns key ELEMENT_ANY) (elems_of H e) = None"
  shows "element_compare io ns key buf e = Some False"
  using get_none [OF assms] by (simp add: element_compare_def)

end

end
