(* ===== verification/Nvds_Refine.thy ===== *)
theory Nvds_Refine
  imports Nvds_Correct
begin

text \<open>
  The element store refines a finite map from (namespace index, key) to byte strings:
  \<open>contents byte e H\<close> is the map a store stands for, \<^verbatim>\<open>data_element_get\<close> reads it,
  \<^verbatim>\<open>data_element_put\<close> updates it at one key and \<^verbatim>\<open>data_element_del\<close> removes one key. The map is
  over elements of up to 256 bytes (\<open>plain\<close> keys); a put is covered while the current page has
  room.
\<close>

section \<open>What only changes states\<close>

lemma restated_wf:
  assumes "restated byte e p S e'" "page_wf byte e q hs"
    and "\<And>j. j < 126 \<Longrightarrow> st e p j \<noteq> ENTRY_FREE \<Longrightarrow> S j \<noteq> ENTRY_FREE"
    and "\<And>j. unat (next_free_idx (pages e p)) \<le> j \<Longrightarrow> S j = st e p j"
  shows "page_wf byte e' q hs"
proof -
  note r = restatedD [OF assms(1)]
  have same: "st e' q j = (if q = p then S j else st e q j)" if "j < 126" for j
    using r(1) [OF that] r(2) [of q] by (auto intro: st_cong)
  have nf: "unat (next_free_idx (pages e' q)) = unat (next_free_idx (pages e q))"
    using r(2) [of q] r(5) by (cases "q = p") simp_all
  have wf: "layout (st e q) (slot byte e q) 0 hs (unat (next_free_idx (pages e q)))"
    "unat (next_free_idx (pages e q)) \<le> 126"
    using assms(2) by (simp_all add: page_wf_def)
  have "layout (st e' q) (slot byte e' q) 0 hs (unat (next_free_idx (pages e' q)))"
    unfolding nf
    by (rule layout_cong [OF wf(1)]) (use same assms(3) r(15) wf(2) in auto)
  moreover have "page_ok e' q" "header (pages e' q) = header (pages e q)"
    using assms(2) r(2) [of q] r(3,4,7,9) by (cases "q = p"; simp add: page_wf_def page_ok_def)+
  moreover have "st e' q j = ENTRY_FREE \<and> slot byte e' q j = replicate 32 0xFF"
    if "unat (next_free_idx (pages e q)) \<le> j" "j < 126" for j
    using same [OF that(2)] r(15) [OF that(2)] that assms(2,4) by (auto simp: page_wf_def)
  ultimately show ?thesis using assms(2) nf by (simp add: page_wf_def)
qed

lemma restated_stored:
  assumes "restated byte e p S e'" "snd x + 1 + data_slots (slot byte e (fst x) (snd x)) \<le> 126"
  shows "stored byte e' x = stored byte e x"
proof -
  note r = restatedD(15) [OF assms(1)]
  have "snd x < 126" using assms(2) by linarith
  moreover have "slots_data byte e' (fst x) (snd x) c = slots_data byte e (fst x) (snd x) c"
    if "c \<le> data_slots (slot byte e (fst x) (snd x))" for c
    unfolding slots_data_def
    using that assms(2) by (intro arg_cong [of _ _ concat] map_cong refl) (simp add: r)
  ultimately show ?thesis by (simp add: stored_def r data_slots_def Let_def)
qed

text \<open>What touches neither flash nor the part of the descriptors that places the elements.\<close>

definition same_view :: "'d nvds_env \<Rightarrow> 'd nvds_env \<Rightarrow> bool" where
  "same_view e e' \<longleftrightarrow> env_base e' = env_base e \<and> env_length e' = env_length e \<and> encrypted e' = encrypted e
     \<and> nvds_page_used e' = nvds_page_used e \<and> dev e' = dev e
     \<and> (\<forall>q. header (pages e' q) = header (pages e q) \<and> entry_states (pages e' q) = entry_states (pages e q)
          \<and> page_base (pages e' q) = page_base (pages e q)
          \<and> next_free_idx (pages e' q) = next_free_idx (pages e q))"

lemma same_view_refl [simp]: "same_view e e"
  by (simp add: same_view_def)

lemma same_view_trans: "same_view e e1 \<Longrightarrow> same_view e1 e2 \<Longrightarrow> same_view e e2"
  by (simp add: same_view_def)

lemma same_view_ns [simp]: "same_view e (e\<lparr>ns_list := l\<rparr>)" "same_view e (e\<lparr>ns_states := t\<rparr>)"
  by (simp_all add: same_view_def)

lemma same_view_cnt [simp]: "same_view e (cnt_used_sub p n e)"
  by (simp add: same_view_def cnt_used_sub_def)

lemma same_viewD:
  assumes "same_view e e'"
  shows "nvds_page_used e' = nvds_page_used e" "st e' = st e" "slot byte e' = slot byte e"
    and "holds byte e' = holds byte e" "stored byte e' = stored byte e" "sound byte e' = sound byte e"
    and "page_wf byte e' = page_wf byte e" "store_wf byte lo hi e' = store_wf byte lo hi e"
    and "plain byte e' = plain byte e" "contents byte e' = contents byte e"
proof -
  show u: "nvds_page_used e' = nvds_page_used e" using assms by (simp add: same_view_def)
  show st: "st e' = st e" using assms by (simp add: same_view_def st_def fun_eq_iff)
  show sl: "slot byte e' = slot byte e"
    using assms by (simp add: same_view_def slot_def mem_def fun_eq_iff)
  show h: "holds byte e' = holds byte e" by (simp add: holds_def st sl fun_eq_iff)
  have "slots_data byte e' = slots_data byte e" by (simp add: slots_data_def sl fun_eq_iff)
  then show so: "stored byte e' = stored byte e" by (intro ext) (simp add: stored_def sl Let_def)
  show sd: "sound byte e' = sound byte e" by (intro ext) (simp add: sound_def sl so)
  show pw: "page_wf byte e' = page_wf byte e"
    using assms by (intro ext) (simp add: page_wf_def page_ok_def st sl same_view_def)
  show "store_wf byte lo hi e' = store_wf byte lo hi e"
    using assms by (intro ext) (simp add: store_wf_def on_area_def u pw same_view_def)
  show "plain byte e' = plain byte e" by (intro ext) (simp add: plain_def u h sd)
  show "contents byte e' = contents byte e" by (intro ext) (simp add: contents_def u h so)
qed

section \<open>Deleting\<close>

lemma find_none_holds:
  "find (holds byte e ns key ty) xs = None \<longleftrightarrow> (\<forall>y\<in>set xs. \<not> holds byte e ns key ty y)"
  by (auto simp: find_None_iff)

lemma deleted_store:
  assumes wf: "store_wf byte lo hi e H" and x: "x \<in> set (elems_of H e)"
    and r: "restated byte e (fst x) (\<lambda>j. if snd x \<le> j \<and> j \<le> snd x + data_slots (slot byte e (fst x) (snd x))
              then ENTRY_UPDATED else st e (fst x) j) e'"
  shows "store_wf byte lo hi e' H"
    and "y \<in> set (elems_of H e) \<Longrightarrow> stored byte e' y = stored byte e y"
    and "y \<in> set (elems_of H e) \<Longrightarrow> sound byte e' y = sound byte e y"
    and "y \<in> set (elems_of H e) \<Longrightarrow> holds byte e' ns key ty y \<longleftrightarrow> holds byte e ns key ty y \<and> y \<noteq> x"
proof -
  note rd = restatedD [OF r]
  note bx = store_elem [OF wf x]
  have pw: "page_wf byte e' q (H q)" if "q \<in> set (nvds_page_used e)" for q
    by (rule restated_wf [OF r]) (use wf that bx(5) in \<open>auto simp: store_wf_def\<close>)
  then show "store_wf byte lo hi e' H"
    using wf rd(8-10,14) by (simp add: store_wf_def on_area_def)
  assume y: "y \<in> set (elems_of H e)"
  note b = store_elem [OF wf y]
  show so: "stored byte e' y = stored byte e y" using restated_stored [OF r] b(2) .
  have lt: "snd y < 126" using b(2) by linarith
  have sl: "slot byte e' (fst y) (snd y) = slot byte e (fst y) (snd y)" using rd(15) [OF lt] .
  show "sound byte e' y = sound byte e y" by (simp add: sound_def so sl)
  show "holds byte e' ns key ty y \<longleftrightarrow> holds byte e ns key ty y \<and> y \<noteq> x"
  proof (cases "fst y = fst x")
    case False
    then have "st e' (fst y) (snd y) = st e (fst y) (snd y)" using rd(2) by (intro st_cong) simp
    then show ?thesis using sl False by (auto simp: holds_def)
  next
    case True
    have lay: "layout (st e (fst x)) (slot byte e (fst x)) 0 (H (fst x)) (unat (next_free_idx (pages e (fst x))))"
      using wf bx(3) by (auto simp: store_wf_def page_wf_def)
    have h: "snd y \<in> set (H (fst x))" "snd x \<in> set (H (fst x))" using x y True by auto
    have out: "\<not> (snd x \<le> snd y \<and> snd y \<le> snd x + data_slots (slot byte e (fst x) (snd x)))"
      if "snd y \<noteq> snd x"
      using that layout_disjoint [OF lay h(2,1)] by linarith
    show ?thesis
      using rd(1) [OF lt] sl out True by (auto simp: holds_def entry_matches_def prod_eq_iff)
  qed
qed

lemma deleted_contents:
  assumes wf: "store_wf byte lo hi e H" and pl: "plain byte e H ns key"
    and x: "find (holds byte e ns key ELEMENT_ANY) (elems_of H e) = Some x"
    and r: "restated byte e (fst x) (\<lambda>j. if snd x \<le> j \<and> j \<le> snd x + data_slots (slot byte e (fst x) (snd x))
              then ENTRY_UPDATED else st e (fst x) j) e'"
  shows "contents byte e' H = (contents byte e H)((ns, key) := None)"
    and "plain byte e H ns' key' \<Longrightarrow> plain byte e' H ns' key'"
proof -
  note f = plain_find [OF pl x]
  note d = deleted_store [OF wf f(1) r]
  have u: "nvds_page_used e' = nvds_page_used e" using restatedD(14) [OF r] .
  show "plain byte e H ns' key' \<Longrightarrow> plain byte e' H ns' key'"
    unfolding plain_def u using d(3,4) by blast
  show "contents byte e' H = (contents byte e H)((ns, key) := None)"
  proof
    fix k :: "u8 \<times> bytes"
    show "contents byte e' H k = ((contents byte e H)((ns, key) := None)) k"
    proof (cases "k = (ns, key)")
      case True
      have "find (holds byte e' ns key ELEMENT_ANY) (elems_of H e) = None"
        unfolding find_none_holds using d(4) f(4) by blast
      then show ?thesis using True by (simp add: contents_def u)
    next
      case False
      have "holds byte e' (fst k) (snd k) ELEMENT_ANY y = holds byte e (fst k) (snd k) ELEMENT_ANY y"
        if "y \<in> set (elems_of H e)" for y
        using d(4) [OF that] holds_key [OF f(2)] False by (cases k) auto
      then have eq: "find (holds byte e' (fst k) (snd k) ELEMENT_ANY) (elems_of H e)
          = find (holds byte e (fst k) (snd k) ELEMENT_ANY) (elems_of H e)"
        by (intro find_cong refl)
      show ?thesis
        using False d(2) find_SomeD [of "holds byte e (fst k) (snd k) ELEMENT_ANY" "elems_of H e"]
        by (auto simp: contents_def u eq intro!: option.map_cong)
    qed
  qed
qed

context nvds_flash begin

lemma del_elem:
  assumes wf: "store_wf byte lo hi e H" and pl: "plain byte e H ns key"
    and x: "find (holds byte e ns key ELEMENT_ANY) (elems_of H e) = Some x"
  shows "\<exists>e'. data_element_del io ns key e = Some (NVDS_OK, e') \<and> store_wf byte lo hi e' H
     \<and> contents byte e' H = (contents byte e H)((ns, key) := None)
     \<and> (\<forall>ns' key'. plain byte e H ns' key' \<longrightarrow> plain byte e' H ns' key')
     \<and> nvds_page_used e' = nvds_page_used e
     \<and> (\<forall>q. header (pages e' q) = header (pages e q) \<and> next_free_idx (pages e' q) = next_free_idx (pages e q))
     \<and> ns_list e' = ns_list e \<and> ns_states e' = ns_states e"
proof -
  let ?en = "slot byte e (fst x) (snd x)"
  let ?S = "\<lambda>j. if snd x \<le> j \<and> j \<le> snd x + data_slots ?en then ENTRY_UPDATED else st e (fst x) j"
  note f = plain_find [OF pl x]
  note b = store_elem [OF wf f(1)]
  have area: "on_area lo hi e" using wf by (simp add: store_wf_def)
  obtain e1 where e1: "entry_state_range_alter io (fst x) (of_nat (snd x))
      (of_nat (snd x + data_slots ?en)) ENTRY_UPDATED e = (NVDS_OK, e1)" "restated byte e (fst x) ?S e1"
    using alter_range [OF area b(1), of "snd x" "snd x + data_slots ?en" ENTRY_UPDATED] b(2) by auto
  define e' where "e' = cnt_used_sub (fst x) (data_slots ?en + 1) e1"
  have ty: "entry_type ?en = ELEMENT_SMALL \<or> entry_type ?en = ELEMENT_MIDDLE"
    using f(3) by (auto simp: sound_def Let_def)
  have fe: "element_find io ns key 0 None ELEMENT_ANY e = Some (Inr (fst x, of_nat (snd x)))"
    using find_elem [OF wf] x by (simp add: case_prod_beta)
  have del: "data_element_del io ns key e = Some (NVDS_OK, e')"
    using ty fe read_elem [OF wf f(1)] e1(1)
    by (elim disjE) (simp_all add: data_element_del_def data_slots_def e'_def)
  have sv: "same_view e1 e'" by (simp add: e'_def)
  note r = restatedD [OF e1(2)]
  have "header (pages e' q) = header (pages e q)" "next_free_idx (pages e' q) = next_free_idx (pages e q)" for q
    using sv r(2) [of q] r(4,5) by (cases "q = fst x"; simp add: same_view_def)+
  moreover have "ns_list e' = ns_list e" "ns_states e' = ns_states e"
    using r(11,12) by (simp_all add: e'_def cnt_used_sub_def)
  ultimately show ?thesis
    using del deleted_store(1) [OF wf f(1) e1(2)] deleted_contents [OF wf pl x e1(2)] r(14)
    unfolding same_viewD [OF sv, symmetric]
    by (intro exI [of _ e'] conjI allI impI) (simp_all add: same_viewD [OF sv])
qed

lemma del_none:
  assumes "store_wf byte lo hi e H" "find (holds byte e ns key ELEMENT_ANY) (elems_of H e) = None"
  shows "data_element_del io ns key e = Some (NVDS_E_NOT_FOUND, e)"
  using find_elem [OF assms(1)] assms(2) by (simp add: data_element_del_def)

end

section \<open>Writing\<close>

lemma store_legal:
  assumes "store_wf byte lo hi e H"
  shows "\<not> page_illegal (pages e (last (nvds_page_used e)))"
proof -
  have "page_wf byte e (last (nvds_page_used e)) (H (last (nvds_page_used e)))"
    using assms by (simp add: store_wf_def)
  then show ?thesis by (auto simp: page_wf_def page_illegal_def)
qed

lemma elems_snoc:
  assumes "ps \<noteq> []" "distinct ps" "p = last ps"
  shows "elems (H(p := H p @ [i])) ps = elems H ps @ [(p, i)]"
proof -
  obtain qs where ps: "ps = qs @ [p]" and q: "p \<notin> set qs"
    using assms by (metis append_butlast_last_id distinct.simps(2) distinct1_rotate rotate1.simps(2))
  have "elems (H(p := H p @ [i])) qs = elems H qs"
    unfolding elems_def using q by (intro arg_cong [of _ _ concat] map_cong refl) auto
  moreover have "elems (H(p := H p @ [i])) [p] = elems H [p] @ [(p, i)]" by (simp add: elems_def)
  moreover have "elems F (qs @ [p]) = elems F qs @ elems F [p]" for F by (simp add: elems_def)
  ultimately show ?thesis unfolding ps by simp
qed

lemma grown_stored:
  assumes "grown byte e p i n e'" "snd y + 1 + data_slots (slot byte e (fst y) (snd y)) \<le> 126"
    and "fst y = p \<Longrightarrow> snd y + 1 + data_slots (slot byte e (fst y) (snd y)) \<le> i"
  shows "stored byte e' y = stored byte e y" "sound byte e' y = sound byte e y"
proof -
  note g = grownD(11) [OF assms(1)]
  have sl: "slot byte e' (fst y) (snd y + k) = slot byte e (fst y) (snd y + k)"
    if "k \<le> data_slots (slot byte e (fst y) (snd y))" for k
  proof (rule g)
    show "snd y + k < 126" using that assms(2) by linarith
    show "fst y \<noteq> p \<or> snd y + k < i \<or> i + n \<le> snd y + k" using that assms(3) by (cases "fst y = p") auto
  qed
  have s0: "slot byte e' (fst y) (snd y) = slot byte e (fst y) (snd y)" using sl [of 0] by simp
  have "slots_data byte e' (fst y) (snd y) c = slots_data byte e (fst y) (snd y) c"
    if "c \<le> data_slots (slot byte e (fst y) (snd y))" for c
    unfolding slots_data_def
  proof (intro arg_cong [of _ _ concat] map_cong refl)
    fix k
    assume "k \<in> set [0..<c]"
    then show "slot byte e' (fst y) (snd y + 1 + k) = slot byte e (fst y) (snd y + 1 + k)"
      using sl [of "1 + k"] that by (simp add: add.assoc)
  qed
  then show so: "stored byte e' y = stored byte e y"
    by (simp add: stored_def s0 data_slots_def Let_def)
  show "sound byte e' y = sound byte e y" by (simp add: sound_def s0 so)
qed

lemma grown_store:
  assumes wf: "store_wf byte lo hi e H" and p: "p = last (nvds_page_used e)"
    and i: "unat (next_free_idx (pages e p)) = i"
    and g: "grown byte e p i n e'" "n = 1 + data_slots (slot byte e' p i)" "i + n \<le> 126"
    and new: "holds byte e' ns key ELEMENT_ANY (p, i)" "sound byte e' (p, i)"
    and absent: "contents byte e H (ns, key) = None"
  defines "H' \<equiv> H(p := H p @ [i])"
  shows "store_wf byte lo hi e' H'"
    and "contents byte e' H' = (contents byte e H)((ns, key) \<mapsto> stored byte e' (p, i))"
    and "plain byte e' H' ns key"
    and "plain byte e H ns' key' \<Longrightarrow> plain byte e' H' ns' key'"
proof -
  note gd = grownD [OF g(1)]
  have ne: "nvds_page_used e \<noteq> []" "distinct (nvds_page_used e)" using wf by (simp_all add: store_wf_def)
  have used: "nvds_page_used e' = nvds_page_used e" by (rule gd(4))
  have els: "elems_of H' e' = elems_of H e @ [(p, i)]"
    unfolding used H'_def by (rule elems_snoc [OF ne p])
  have mem_p: "p \<in> set (nvds_page_used e)" using ne p by simp
  have pw: "page_wf byte e' q (H' q)" if "q \<in> set (nvds_page_used e)" for q
    using grown_page_wf [OF g(1) _ i g(3,2)] grown_other_wf [OF g(1)] wf that
    by (cases "q = p") (simp_all add: store_wf_def H'_def)
  show "store_wf byte lo hi e' H'"
    using wf pw gd(1-4) by (simp add: store_wf_def on_area_def)
  have b: "snd y + 1 + data_slots (slot byte e (fst y) (snd y)) \<le> 126"
    "fst y = p \<Longrightarrow> snd y + 1 + data_slots (slot byte e (fst y) (snd y)) \<le> i"
    if "y \<in> set (elems_of H e)" for y
    using store_elem(2,5) [OF wf that] i by auto
  have hold: "holds byte e' ns' key' ty y = holds byte e ns' key' ty y"
    if "y \<in> set (elems_of H e)" for ns' key' ty y
    using grown_holds [OF g(1), of "snd y" "fst y"] b [OF that] by fastforce
  have old: "stored byte e' y = stored byte e y" "sound byte e' y = sound byte e y"
    if "y \<in> set (elems_of H e)" for y
    using grown_stored [OF g(1)] b [OF that] by blast+
  have none: "\<not> holds byte e' ns key ELEMENT_ANY y" if "y \<in> set (elems_of H e)" for y
  proof -
    have "find (holds byte e ns key ELEMENT_ANY) (elems_of H e) = None"
      using absent by (simp add: contents_def)
    then show ?thesis unfolding find_none_holds using hold [OF that] that by blast
  qed
  show pl: "plain byte e' H' ns key"
    unfolding plain_def els using none new(2) by (auto simp del: set_elems)
  show "plain byte e' H' ns' key'" if old_pl: "plain byte e H ns' key'"
  proof (cases "ns' = ns \<and> key' = key")
    case False
    then have new': "\<not> holds byte e' ns' key' ELEMENT_ANY (p, i)"
      using holds_key [OF new(1), of ns' key' ELEMENT_ANY] by blast
    show ?thesis
      unfolding plain_def els
    proof (intro ballI impI conjI)
      fix x
      assume x: "x \<in> set (elems_of H e @ [(p, i)])" "holds byte e' ns' key' ELEMENT_ANY x"
      then have xs: "x \<in> set (elems_of H e)" using new' by (auto simp del: set_elems)
      then have hx: "holds byte e ns' key' ELEMENT_ANY x" using hold x(2) by blast
      show "sound byte e' x" using old_pl xs hx old(2) [OF xs] unfolding plain_def by blast
      fix y
      assume y: "y \<in> set (elems_of H e @ [(p, i)])" "holds byte e' ns' key' ELEMENT_ANY y"
      then have ys: "y \<in> set (elems_of H e)" using new' by (auto simp del: set_elems)
      then have hy: "holds byte e ns' key' ELEMENT_ANY y" using hold y(2) by blast
      show "y = x" using old_pl xs hx ys hy unfolding plain_def by blast
    qed
  qed (use pl in simp)
  show "contents byte e' H' = (contents byte e H)((ns, key) \<mapsto> stored byte e' (p, i))"
  proof
    fix k :: "u8 \<times> bytes"
    have fc: "find (holds byte e' (fst k) (snd k) ELEMENT_ANY) (elems_of H e)
        = find (holds byte e (fst k) (snd k) ELEMENT_ANY) (elems_of H e)"
      by (rule find_cong [OF refl hold])
    have "find (holds byte e (fst k) (snd k) ELEMENT_ANY) (elems_of H e) = Some y \<Longrightarrow>
        stored byte e' y = stored byte e y" for y
      by (rule old(1)) (drule find_SomeD, erule conjunct1)
    moreover have "\<not> holds byte e' (fst k) (snd k) ELEMENT_ANY (p, i)" if "k \<noteq> (ns, key)"
      using holds_key [OF new(1), of "fst k" "snd k"] that by (cases k) auto
    ultimately show "contents byte e' H' k
        = ((contents byte e H)((ns, key) \<mapsto> stored byte e' (p, i))) k"
      using absent new(1) unfolding contents_def els find_append fc
      by (cases "k = (ns, key)") (auto split: option.splits)
  qed
qed

lemma sint_of_nat_u32: "n < 2147483648 \<Longrightarrow> sint (of_nat n :: u32) = int n"
  by (simp add: signed_of_nat signed_take_bit_int_eq_self)

lemma page_room:
  assumes "unat (next_free_idx pg) = i" "i \<le> 126"
  shows "page_room_get pg = 32 * (126 - int i)"
proof -
  have n: "next_free_idx pg = of_nat i" using assms(1) by (metis of_nat_unat ucast_id)
  have "(of_nat ENTRY_COUNT_PER_PAGE - next_free_idx pg) * of_nat ENTRY_SIZE = (of_nat (32 * (126 - i)) :: u32)"
    using assms(2) by (simp add: n of_nat_diff)
  then have "page_room_get pg = int (32 * (126 - i))"
    unfolding page_room_get_def by (simp only: sint_of_nat_u32)
  then show ?thesis using assms(2) by (simp add: of_nat_diff)
qed

lemma room_for_element:
  assumes "unat (next_free_idx pg) = i" "i \<le> 126" "n \<le> 256"
  shows "room_short n pg \<longleftrightarrow> 126 < i + 1 + (if n \<le> 8 then 0 else slots_for n)"
proof -
  have r: "page_room_get pg = int (32 * (126 - i))" using page_room [OF assms(1,2)] assms(2) by (simp add: of_nat_diff)
  have w: "(word_of_int (page_room_get pg) :: u32) = of_nat (32 * (126 - i))" by (simp only: r of_int_of_nat_eq)
  have "(word_of_int (page_room_get pg) :: u32) < of_nat (ENTRY_SIZE + n) \<longleftrightarrow> 32 * (126 - i) < 32 + n"
    unfolding w word_less_nat_alt using assms(3) unat_of_nat_u32 [of "32 + n"] unat_of_nat_u32 [of "32 * (126 - i)"]
    by simp
  moreover have "32 * (126 - i) < 32 + n \<longleftrightarrow> 126 < i + 1 + slots_for n"
    using assms(2) slots_for_bounds [of n] by linarith
  ultimately show ?thesis using r assms(2) by (auto simp: room_short_def)
qed

text \<open>The header entry of a new element: type, place in the walk and key.\<close>

lemma new_entry:
  assumes "length key \<le> 15" "0 \<notin> set key" "length val = 8" "take_bit 3 ty = ty" "n < 65536"
    and en: "en = entry_make (tag_set ns ty TAG_FRAG_NO_DEFAULT) (of_nat n) key val"
  shows "length en = 32" "entry_type en = ty" "entry_value en = val" "unat (entry_length en) = n"
    and "entry_cnt en = slots_for n" "entry_matches ns key ELEMENT_ANY ENTRY_USED en"
proof -
  note f = entry_make_fields [OF assms(1,3,2) en]
  have "take_bit 5 (TAG_FRAG_NO_DEFAULT) = (TAG_FRAG_NO_DEFAULT :: u8)" by simp
  note t = tag_roundtrip [OF assms(4) this, of ns]
  show "length en = 32" "entry_value en = val" by (fact f)+
  show "entry_type en = ty" by (simp add: entry_type_def f(2) t(2))
  show l: "unat (entry_length en) = n"
    using assms(5) by (simp add: f(3) unat_of_nat take_bit_nat_eq_self)
  show "entry_cnt en = slots_for n" by (simp add: entry_cnt_def slots_for_def l)
  show "entry_matches ns key ELEMENT_ANY ENTRY_USED en"
    using f t(1) by (simp add: entry_matches_def)
qed

context nvds_flash begin

lemma put_element_grown:
  assumes wf: "page_wf byte e p hs" "on_area lo hi e" and i: "unat (next_free_idx (pages e p)) = i"
    and room: "\<not> room_short (length buf) (pages e p)"
    and buf: "0 < length buf" "length buf \<le> 256" and key: "length key \<le> 15" "0 \<notin> set key"
  shows "\<exists>e' n. put_element io ns key buf p e = (NVDS_OK, e') \<and> grown byte e p i n e'
     \<and> n = 1 + data_slots (slot byte e' p i) \<and> i + n \<le> 126
     \<and> holds byte e' ns key ELEMENT_ANY (p, i) \<and> sound byte e' (p, i) \<and> stored byte e' (p, i) = buf"
proof -
  have i126: "i \<le> 126" using wf(1) i by (simp add: page_wf_def)
  note fits = room [unfolded room_for_element [OF i i126 buf(2)]]
  show ?thesis
  proof (cases "length buf \<le> 8")
    case True
    let ?v = "buf @ replicate (8 - length buf) 0xFF"
    define en where "en = entry_make (tag_set ns ELEMENT_SMALL TAG_FRAG_NO_DEFAULT) (of_nat (length buf)) key ?v"
    have "length ?v = 8" "length buf < 65536" using True by simp_all
    note n = new_entry [OF key this(1) _ this(2) en_def, simplified]
    obtain e' where e': "put_header io p en e = (NVDS_OK, e')" "grown byte e p i 1 e'" "slot byte e' p i = en"
      using put_header_grown [OF wf(2,1) i _ n(1)] fits True by auto
    have st: "st e' p i = ENTRY_USED" using grownD(10) [OF e'(2), of i] fits True by simp
    have "stored byte e' (p, i) = buf" using n(2-4) e'(3) by (simp add: stored_def Let_def)
    then show ?thesis
      using e' n st True fits
      by (intro exI [of _ e'] exI [of _ 1])
        (simp add: put_element_def en_def data_slots_def holds_def sound_def Let_def)
  next
    case False
    let ?v = "replicate 4 0xFF @ le32_bytes (element_data_crc32_calc buf)"
    define en where "en = entry_make (tag_set ns ELEMENT_MIDDLE TAG_FRAG_NO_DEFAULT) (of_nat (length buf)) key ?v"
    have "length ?v = 8" "take_bit 3 (1 :: u8) = 1" "length buf < 65536" using buf(2) by simp_all
    note n = new_entry [OF key this(1-3) en_def]
    let ?c = "slots_for (length buf)"
    obtain e' where e': "put_slots io p en buf e = (NVDS_OK, buf, e')" "grown byte e p i (1 + ?c) e'"
      "slot byte e' p i = en" "\<forall>k<?c. slot byte e' p (i + 1 + k) = window (32 * k) 32 (padded buf)"
      using put_slots_grown [OF wf(2,1) i refl _ n(1), of buf] fits False by auto
    have st: "st e' p i = ENTRY_USED" using grownD(10) [OF e'(2), of i] fits False by simp
    have sd: "stored byte e' (p, i) = buf"
      using slots_data_padded [OF refl e'(4)] n(2,4,5) e'(3) by (simp add: stored_def Let_def)
    have "window 28 4 en = window 4 4 (entry_value en)"
      by (simp add: entry_value_def window_def drop_take)
    then have "entry_datacrc32 en = element_data_crc32_calc buf"
      unfolding entry_datacrc32_def n(3) by (simp add: window_def)
    then show ?thesis
      using e' n st sd False fits
      by (intro exI [of _ e'] exI [of _ "1 + ?c"])
        (simp add: put_element_def en_def data_slots_def holds_def sound_def Let_def)
  qed
qed

lemma ns_del_keeps: "\<exists>r l. ns_del_used_cnt io ns False e = Some (r, e\<lparr>ns_list := l\<rparr>)"
proof (cases "List.extract (\<lambda>n. ns_index n = ns) (ns_list e)")
  case None
  then show ?thesis
    by (intro exI [of _ "if NAMESPACE_MAX_CNT < ns then NVDS_E_INVAL_PARAM else NVDS_OK"] exI [of _ "ns_list e"])
      (simp add: ns_del_used_cnt_def)
next
  case (Some t)
  obtain b n a where "t = (b, n, a)" by (cases t)
  then show ?thesis
    using Some by (intro exI [of _ "if NAMESPACE_MAX_CNT < ns then NVDS_E_INVAL_PARAM else NVDS_OK"]
        exI [of _ "if NAMESPACE_MAX_CNT < ns then ns_list e else b @ n\<lparr>used_cnt := used_cnt n - 1\<rparr> # a"])
      (simp add: ns_del_used_cnt_def)
qed

text \<open>The last part of a put: the key is absent, the page has room.\<close>

lemma put_absent:
  assumes wf: "store_wf byte lo hi e H" and absent: "contents byte e H (ns, key) = None"
    and room: "\<not> room_short (length buf) (pages e (last (nvds_page_used e)))"
    and buf: "0 < length buf" "length buf \<le> 256" and key: "length key \<le> 15" "0 \<notin> set key"
  defines "p \<equiv> last (nvds_page_used e)"
  shows "\<exists>e' H'. put_element io ns key buf p e = (NVDS_OK, e') \<and> store_wf byte lo hi e' H'
     \<and> contents byte e' H' = (contents byte e H)((ns, key) \<mapsto> buf) \<and> plain byte e' H' ns key
     \<and> (\<forall>ns' key'. plain byte e H ns' key' \<longrightarrow> plain byte e' H' ns' key')"
proof -
  have p: "p \<in> set (nvds_page_used e)" using wf by (simp add: p_def store_wf_def)
  then have pw: "page_wf byte e p (H p)" "on_area lo hi e" using wf by (simp_all add: store_wf_def)
  obtain e' n where e': "put_element io ns key buf p e = (NVDS_OK, e')"
    "grown byte e p (unat (next_free_idx (pages e p))) n e'"
    "n = 1 + data_slots (slot byte e' p (unat (next_free_idx (pages e p))))"
    "unat (next_free_idx (pages e p)) + n \<le> 126"
    "holds byte e' ns key ELEMENT_ANY (p, unat (next_free_idx (pages e p)))"
    "sound byte e' (p, unat (next_free_idx (pages e p)))"
    "stored byte e' (p, unat (next_free_idx (pages e p))) = buf"
    using put_element_grown [OF pw refl room [folded p_def] buf key] by blast
  note g = grown_store [OF wf meta_eq_to_obj_eq [OF p_def] refl e'(2-6) absent]
  show ?thesis using e'(1) g(1,3,4) g(2) [unfolded e'(7)] by blast
qed

text \<open>The first part: the key is removed if it is there.\<close>

lemma clear_key:
  assumes wf: "store_wf byte lo hi e H" and pl: "plain byte e H ns key"
  shows "\<exists>r e'. data_element_del io ns key e = Some (r, e') \<and> (r = NVDS_OK \<or> r = NVDS_E_NOT_FOUND)
     \<and> store_wf byte lo hi e' H \<and> contents byte e' H = (contents byte e H)((ns, key) := None)
     \<and> (\<forall>ns' key'. plain byte e H ns' key' \<longrightarrow> plain byte e' H ns' key')
     \<and> nvds_page_used e' = nvds_page_used e
     \<and> (\<forall>q. header (pages e' q) = header (pages e q) \<and> next_free_idx (pages e' q) = next_free_idx (pages e q))"
proof (cases "find (holds byte e ns key ELEMENT_ANY) (elems_of H e)")
  case None
  moreover from None have "(contents byte e H)((ns, key) := None) = contents byte e H"
    by (auto simp: contents_def fun_eq_iff)
  ultimately show ?thesis using del_none [OF wf None] wf by simp
next
  case (Some x)
  show ?thesis using del_elem [OF wf pl Some] by blast
qed

lemma put_refines:
  assumes wf: "store_wf byte lo hi e H" and pl: "plain byte e H ns key"
    and room: "\<not> room_short (length buf) (pages e (last (nvds_page_used e)))"
    and buf: "0 < length buf" "length buf \<le> 256" and key: "length key \<le> 15" "0 \<notin> set key"
  shows "\<exists>e' H'. data_element_put io ns key buf e = Some (NVDS_OK, e') \<and> store_wf byte lo hi e' H'
     \<and> contents byte e' H' = (contents byte e H)((ns, key) \<mapsto> buf) \<and> plain byte e' H' ns key
     \<and> (\<forall>ns' key'. plain byte e H ns' key' \<longrightarrow> plain byte e' H' ns' key')"
proof (cases "contents byte e H (ns, key) = Some buf")
  case True
  then obtain x where x: "find (holds byte e ns key ELEMENT_ANY) (elems_of H e) = Some x" "stored byte e x = buf"
    by (auto simp: contents_def)
  have "element_compare io ns key buf e = Some True"
    using compare_elem [OF wf x(1) plain_find(3) [OF pl x(1)]] buf(2) x(2) by simp
  moreover obtain r l where "ns_del_used_cnt io ns False e = Some (r, e\<lparr>ns_list := l\<rparr>)"
    using ns_del_keeps by blast
  moreover have "(contents byte e H)((ns, key) \<mapsto> buf) = contents byte e H" using True by auto
  ultimately show ?thesis
    using wf pl by (intro exI [of _ "e\<lparr>ns_list := l\<rparr>"] exI [of _ H])
      (simp add: data_element_put_def same_viewD [OF same_view_ns(1)])
next
  case False
  let ?p = "last (nvds_page_used e)"
  have cmp: "element_compare io ns key buf e = Some False"
  proof (cases "find (holds byte e ns key ELEMENT_ANY) (elems_of H e)")
    case (Some x)
    then show ?thesis
      using compare_elem [OF wf Some plain_find(3) [OF pl Some], of buf] buf(2) False
      by (simp add: contents_def)
  qed (rule compare_none [OF wf])
  obtain r e1 where e1: "data_element_del io ns key e = Some (r, e1)" "r = NVDS_OK \<or> r = NVDS_E_NOT_FOUND"
    "store_wf byte lo hi e1 H" "contents byte e1 H = (contents byte e H)((ns, key) := None)"
    "\<forall>ns' key'. plain byte e H ns' key' \<longrightarrow> plain byte e1 H ns' key'"
    "nvds_page_used e1 = nvds_page_used e" "header (pages e1 ?p) = header (pages e ?p)"
    "next_free_idx (pages e1 ?p) = next_free_idx (pages e ?p)"
    using clear_key [OF wf pl] by blast
  obtain r2 l where e2: "(if r = NVDS_OK then ns_del_used_cnt io ns False e1 else Some (r, e1))
      = Some (r2, e1\<lparr>ns_list := l\<rparr>)"
  proof (cases "r = NVDS_OK")
    case True
    then show ?thesis using ns_del_keeps [of ns e1] that by auto
  next
    case False
    then show ?thesis using that [of r "ns_list e1"] by simp
  qed
  let ?e2 = "e1\<lparr>ns_list := l\<rparr>"
  note sv = same_viewD [OF same_view_ns(1) [of e1 l]]
  have rm: "\<not> room_short (length buf) (pages ?e2 (last (nvds_page_used ?e2)))"
    using room e1(6,8) by (simp add: room_short_def page_room_get_def)
  have ab: "contents byte ?e2 H (ns, key) = None" using e1(4) by (simp add: sv)
  have wf2: "store_wf byte lo hi ?e2 H" using e1(3) by (simp add: sv)
  note leg = store_legal [OF wf2]
  obtain e' H' where e': "put_element io ns key buf (last (nvds_page_used ?e2)) ?e2 = (NVDS_OK, e')"
    "store_wf byte lo hi e' H'" "contents byte e' H' = (contents byte ?e2 H)((ns, key) \<mapsto> buf)"
    "plain byte e' H' ns key" "\<forall>ns' key'. plain byte ?e2 H ns' key' \<longrightarrow> plain byte e' H' ns' key'"
    using put_absent [OF wf2 ab rm buf key] by blast
  have "data_element_put io ns key buf e = Some (NVDS_OK, e')"
    using cmp e1(1,2) e2 leg rm buf(2) e'(1) wf2
    by (auto simp: data_element_put_def make_room_def store_wf_def)
  moreover have "contents byte e' H' = (contents byte e H)((ns, key) \<mapsto> buf)"
    using e'(3) e1(4) by (simp add: sv)
  ultimately show ?thesis using e'(2,4,5) e1(5) unfolding sv by blast
qed

lemma get_refines:
  assumes "store_wf byte lo hi e H" "plain byte e H ns key"
  shows "data_element_get io ns key True sz e =
    (case contents byte e H (ns, key) of
       None \<Rightarrow> Some (NVDS_E_NOT_FOUND, sz, [])
     | Some v \<Rightarrow> Some (if sz < of_nat (length v) then (NVDS_E_INVALID_LENGTH, of_nat (length v), [])
                     else (NVDS_OK, of_nat (length v), v)))"
proof (cases "find (holds byte e ns key ELEMENT_ANY) (elems_of H e)")
  case None
  then show ?thesis using get_none [OF assms(1) None] by (simp add: contents_def)
next
  case (Some x)
  then show ?thesis
    using get_elem [OF assms(1) Some plain_find(3) [OF assms(2) Some]] by (simp add: contents_def Let_def)
qed

lemma del_refines:
  assumes "store_wf byte lo hi e H" "plain byte e H ns key"
  shows "\<exists>e'. data_element_del io ns key e
        = Some (if contents byte e H (ns, key) = None then NVDS_E_NOT_FOUND else NVDS_OK, e')
     \<and> store_wf byte lo hi e' H \<and> contents byte e' H = (contents byte e H)((ns, key) := None)
     \<and> (\<forall>ns' key'. plain byte e H ns' key' \<longrightarrow> plain byte e' H ns' key')"
proof (cases "find (holds byte e ns key ELEMENT_ANY) (elems_of H e)")
  case None
  moreover from None have "(contents byte e H)((ns, key) := None) = contents byte e H"
    by (auto simp: contents_def fun_eq_iff)
  ultimately show ?thesis using del_none [OF assms(1) None] assms(1) by (simp add: contents_def)
next
  case (Some x)
  then show ?thesis using del_elem [OF assms Some] by (auto simp: contents_def)
qed

end

section \<open>Properties\<close>

text \<open>A store with one empty page, for the witnesses.\<close>

definition blank_page :: page_env_tag where
  "blank_page = \<lparr>header = \<lparr>magic = NVDS_FLASH_MAGIC, version = NVDS_FLASH_VERSION, state = PAGE_ACTIVE,
       seqno = 0, rsv = replicate 16 0xFF, crc32_of = 0\<rparr>,
     entry_states = replicate 8 0xFFFFFFFF, page_base = 0, entry_cnt_used = 0, next_free_idx = 0\<rparr>"

definition blank_store :: "(nat \<Rightarrow> u8) nvds_env" where
  "blank_store = \<lparr>env_base = 0x3FB000, env_length = 0x4000, encrypted = False, ns_list = [],
     ns_states = replicate 8 0, nvds_page_free = [1, 2, 3], nvds_page_used = [0],
     pages = (\<lambda>_. blank_page), dev = (\<lambda>_. 0xFF)\<rparr>"

lemma blank_store_wf: "store_wf id 0x3FB000 0x3FF000 blank_store (\<lambda>_. [])"
proof -
  have "st blank_store p i = ENTRY_FREE" if "i < 126" for p i
    using that erased_states_free [of "of_nat i"]
    by (simp add: st_def unat_of_nat_u8 blank_store_def blank_page_def)
  moreover have "slot id blank_store p i = replicate 32 0xFF" for p i
    by (rule nth_equalityI) (simp_all add: nth_slot mem_def blank_store_def)
  ultimately show ?thesis
    by (simp add: store_wf_def on_area_def page_wf_def page_ok_def)
      (simp add: blank_store_def blank_page_def)
qed

lemma elems_nil [simp]: "elems (\<lambda>_. []) ps = []"
  by (simp add: elems_def)

lemma blank_store_plain: "plain id blank_store (\<lambda>_. []) ns key"
  by (simp add: plain_def del: set_elems)

lemma blank_store_room:
  "n \<le> 256 \<Longrightarrow> \<not> room_short n (pages blank_store (last (nvds_page_used blank_store)))"
  using room_for_element [of blank_page 0 n] slots_for_bounds(2) [of n]
  by (auto simp: blank_store_def blank_page_def)

text \<open>
  C2: on a NOR flash, storing an element of 1 to 256 bytes under a key while the current page has
  room succeeds, and the store then stands for the map updated at exactly that key: every other
  key keeps its value. The store stays well formed.
\<close>

theorem nvds_put_refines_map:
  assumes "nvds_flash io byte lo hi" and "store_wf byte lo hi e H" and "plain byte e H ns key"
    and "\<not> room_short (length buf) (pages e (last (nvds_page_used e)))"
    and "0 < length buf" and "length buf \<le> 256" and "length key \<le> 15" and "0 \<notin> set key"
  shows "\<exists>e' H'. data_element_put io ns key buf e = Some (NVDS_OK, e') \<and> store_wf byte lo hi e' H'
     \<and> contents byte e' H' = (contents byte e H)((ns, key) \<mapsto> buf) \<and> plain byte e' H' ns key
     \<and> (\<forall>ns' key'. plain byte e H ns' key' \<longrightarrow> plain byte e' H' ns' key')"
  using nvds_flash.put_refines [OF assms] .

theorem nvds_put_refines_map_witness:
  "\<exists>e' H'. data_element_put nor_io 1 [0x61] [1, 2, 3] blank_store = Some (NVDS_OK, e')
     \<and> contents id e' H' (1, [0x61]) = Some [1, 2, 3]"
proof -
  obtain e' H' where "data_element_put nor_io 1 [0x61] [1, 2, 3] blank_store = Some (NVDS_OK, e')"
    "contents id e' H' = (contents id blank_store (\<lambda>_. []))((1, [0x61]) \<mapsto> [1, 2, 3])"
    using nvds_put_refines_map [OF nor.nvds_flash_axioms blank_store_wf blank_store_plain
        blank_store_room, of "[1, 2, 3]" "[0x61]" 1] by auto
  then show ?thesis by (intro exI [of _ e'] exI [of _ H']) simp
qed

text \<open>A store with one element, for the next witnesses.\<close>

lemma one_element:
  "\<exists>e' H'. data_element_put nor_io 1 [0x61] [1, 2, 3] blank_store = Some (NVDS_OK, e')
     \<and> store_wf id 0x3FB000 0x3FF000 e' H' \<and> plain id e' H' 1 [0x61]
     \<and> contents id e' H' (1, [0x61]) = Some [1, 2, 3]"
proof -
  obtain e' H' where "data_element_put nor_io 1 [0x61] [1, 2, 3] blank_store = Some (NVDS_OK, e')"
    "store_wf id 0x3FB000 0x3FF000 e' H'" "plain id e' H' 1 [0x61]"
    "contents id e' H' = (contents id blank_store (\<lambda>_. []))((1, [0x61]) \<mapsto> [1, 2, 3])"
    using nor.put_refines [OF blank_store_wf blank_store_plain blank_store_room, of "[1, 2, 3]" "[0x61]" 1]
    by auto
  then show ?thesis by (intro exI [of _ e'] exI [of _ H']) simp
qed

text \<open>
  C10: reading a key returns what the store stands for at that key: the value and its length when
  the buffer is large enough, only the length and an error when it is not, and not found when the
  key is absent. The search ends.
\<close>

theorem nvds_get_reads_map:
  assumes "nvds_flash io byte lo hi" and "store_wf byte lo hi e H" and "plain byte e H ns key"
  shows "data_element_get io ns key True sz e =
    (case contents byte e H (ns, key) of
       None \<Rightarrow> Some (NVDS_E_NOT_FOUND, sz, [])
     | Some v \<Rightarrow> Some (if sz < of_nat (length v) then (NVDS_E_INVALID_LENGTH, of_nat (length v), [])
                     else (NVDS_OK, of_nat (length v), v)))"
  using nvds_flash.get_refines [OF assms] .

theorem nvds_get_reads_map_witness:
  "\<exists>e'. data_element_put nor_io 1 [0x61] [1, 2, 3] blank_store = Some (NVDS_OK, e')
     \<and> data_element_get nor_io 1 [0x61] True 64 e' = Some (NVDS_OK, 3, [1, 2, 3])"
proof -
  obtain e' H' where e': "data_element_put nor_io 1 [0x61] [1, 2, 3] blank_store = Some (NVDS_OK, e')"
    "store_wf id 0x3FB000 0x3FF000 e' H'" "plain id e' H' 1 [0x61]"
    "contents id e' H' (1, [0x61]) = Some [1, 2, 3]"
    using one_element by blast
  show ?thesis
    using nvds_get_reads_map [OF nor.nvds_flash_axioms e'(2,3), of 64] e'(1,4) by simp
qed

text \<open>
  C11: deleting a key removes exactly that key from the map the store stands for and reports
  whether it was there; the store stays well formed.
\<close>

theorem nvds_del_refines_map:
  assumes "nvds_flash io byte lo hi" and "store_wf byte lo hi e H" and "plain byte e H ns key"
  shows "\<exists>e'. data_element_del io ns key e
        = Some (if contents byte e H (ns, key) = None then NVDS_E_NOT_FOUND else NVDS_OK, e')
     \<and> store_wf byte lo hi e' H \<and> contents byte e' H = (contents byte e H)((ns, key) := None)
     \<and> (\<forall>ns' key'. plain byte e H ns' key' \<longrightarrow> plain byte e' H ns' key')"
  using nvds_flash.del_refines [OF assms] .

theorem nvds_del_refines_map_witness:
  "\<exists>e' e2 H'. data_element_put nor_io 1 [0x61] [1, 2, 3] blank_store = Some (NVDS_OK, e')
     \<and> data_element_del nor_io 1 [0x61] e' = Some (NVDS_OK, e2)
     \<and> contents id e2 H' (1, [0x61]) = None"
proof -
  obtain e' H' where e': "data_element_put nor_io 1 [0x61] [1, 2, 3] blank_store = Some (NVDS_OK, e')"
    "store_wf id 0x3FB000 0x3FF000 e' H'" "plain id e' H' 1 [0x61]"
    "contents id e' H' (1, [0x61]) = Some [1, 2, 3]"
    using one_element by blast
  obtain e2 where "data_element_del nor_io 1 [0x61] e' = Some (NVDS_OK, e2)"
    "contents id e2 H' = (contents id e' H')((1, [0x61]) := None)"
    using nvds_del_refines_map [OF nor.nvds_flash_axioms e'(2,3)] e'(4) by auto
  then show ?thesis using e'(1) by (intro exI [of _ e'] exI [of _ e2] exI [of _ H']) simp
qed

end
