(* ===== verification/Boot.thy ===== *)
theory Boot
  imports Prelude
begin

text \<open>
  The main boot loader: \<^verbatim>\<open>MBL/mainboot/mbl.c\<close> (\<^verbatim>\<open>main\<close>) and
  \<^verbatim>\<open>MBL/mainboot/mbl_image_validate.c\<close>. The functions of the mask ROM are the record
  \<open>rom_boot\<close> over an arbitrary state \<open>'s\<close> of the system status area and \<open>'f\<close> of the
  flash; what the loader relies on is the locale \<open>image_status\<close>: the status of an image is
  kept until it is set, a flag update replaces the masked bits (an image without a status
  starts from 0, the default of \<^verbatim>\<open>rom_image.h\<close>), and the version counter refuses a smaller
  version. Serial output, clocks and the ROM's memory pool are left out.
\<close>

section \<open>Model\<close>

text \<open>The flash offset mapping: first page, last page and page offset, when configured.\<close>

type_synonym fmc_map = "(u32 \<times> u32 \<times> u32) option"

record ('s, 'f) rom_boot =
  rom_sys_status_get :: "u8 \<Rightarrow> u8 \<Rightarrow> 's \<Rightarrow> int \<times> u8"
  rom_sys_set_img_flag :: "u8 \<Rightarrow> u8 \<Rightarrow> u8 \<Rightarrow> 's \<Rightarrow> int \<times> 's"
  rom_sys_set_running_img :: "u8 \<Rightarrow> 's \<Rightarrow> 's"
  rom_sys_set_fw_ver :: "u32 \<Rightarrow> u32 \<Rightarrow> 's \<Rightarrow> int \<times> 's"
  rom_sys_set_trace_level :: "u8 \<Rightarrow> 's \<Rightarrow> 's"
  rom_sys_status_check :: "'s \<Rightarrow> 's"
  rom_img_validate :: "fmc_map \<Rightarrow> u32 \<Rightarrow> u32 \<Rightarrow> bytes \<Rightarrow> 'f \<Rightarrow> int \<times> u32"
  rom_cert_img_validate :: "fmc_map \<Rightarrow> u32 \<Rightarrow> u32 \<Rightarrow> bytes \<Rightarrow> 'f \<Rightarrow> int \<times> u32"

abbreviation (input) SYS_TRACE_LEVEL :: u8 where "SYS_TRACE_LEVEL \<equiv> 2"
abbreviation (input) SYS_IMAGE0_STATUS :: u8 where "SYS_IMAGE0_STATUS \<equiv> 3"
abbreviation (input) SYS_IMAGE1_STATUS :: u8 where "SYS_IMAGE1_STATUS \<equiv> 4"
abbreviation (input) SYS_RUNNING_IMG :: u8 where "SYS_RUNNING_IMG \<equiv> 5"

abbreviation (input) SYS_STATUS_FOUND_OK :: int where "SYS_STATUS_FOUND_OK \<equiv> 0"
abbreviation (input) SYS_STATUS_FOUND_ERR :: int where "SYS_STATUS_FOUND_ERR \<equiv> - 2"

abbreviation (input) IMAGE_0 :: u8 where "IMAGE_0 \<equiv> 0"
abbreviation (input) IMAGE_1 :: u8 where "IMAGE_1 \<equiv> 1"

abbreviation (input) IMG_FLAG_NEWER_MASK :: u8 where "IMG_FLAG_NEWER_MASK \<equiv> 0x01"
abbreviation (input) IMG_FLAG_VERIFY_MASK :: u8 where "IMG_FLAG_VERIFY_MASK \<equiv> 0x06"
abbreviation (input) IMG_FLAG_IA_MASK :: u8 where "IMG_FLAG_IA_MASK \<equiv> 0x18"
abbreviation (input) IMG_FLAG_OLDER :: u8 where "IMG_FLAG_OLDER \<equiv> 0"
abbreviation (input) IMG_FLAG_NEWER :: u8 where "IMG_FLAG_NEWER \<equiv> 1"
abbreviation (input) IMG_FLAG_VERIFY_OK :: u8 where "IMG_FLAG_VERIFY_OK \<equiv> 2"
abbreviation (input) IMG_FLAG_VERIFY_FAIL :: u8 where "IMG_FLAG_VERIFY_FAIL \<equiv> 4"
abbreviation (input) IMG_FLAG_IA_OK :: u8 where "IMG_FLAG_IA_OK \<equiv> 8"
abbreviation (input) IMG_FLAG_IA_FAIL :: u8 where "IMG_FLAG_IA_FAIL \<equiv> 0x10"

abbreviation (input) IMG_TYPE_IMG :: u32 where "IMG_TYPE_IMG \<equiv> 2"
abbreviation (input) IBL_VERIFY_NONE :: u8 where "IBL_VERIFY_NONE \<equiv> 0"
abbreviation (input) IBL_VERIFY_IMG_ONLY :: u8 where "IBL_VERIFY_IMG_ONLY \<equiv> 1"
abbreviation (input) IBL_VERIFY_CERT_IMG :: u8 where "IBL_VERIFY_CERT_IMG \<equiv> 3"
abbreviation (input) IBL_STATE_MAGIC_CODE :: u32 where "IBL_STATE_MAGIC_CODE \<equiv> 0xBACEC0DE"
abbreviation (input) IMG_HEADER_SIZE :: u32 where "IMG_HEADER_SIZE \<equiv> 32"
abbreviation (input) ROM_INFO :: u8 where "ROM_INFO \<equiv> 4"

abbreviation (input) RE_FLASH_BASE :: u32 where "RE_FLASH_BASE \<equiv> 0x08000000"
abbreviation (input) RE_IMG_0_OFFSET :: u32 where "RE_IMG_0_OFFSET \<equiv> 0xA000"
abbreviation (input) RE_IMG_1_OFFSET :: u32 where "RE_IMG_1_OFFSET \<equiv> 0x1EA000"
abbreviation (input) RE_IMG_1_END :: u32 where "RE_IMG_1_END \<equiv> 0x3CA000"

text \<open>The space before an image depends on the configured offset of the loader itself.\<close>

definition IMG_OVERHEAD_LEN :: "u32 \<Rightarrow> u32" where
  "IMG_OVERHEAD_LEN mbl_offset = (if mbl_offset = 0 then 0 else 0x200)"

definition img_found :: "('s, 'f) rom_boot \<Rightarrow> u8 \<Rightarrow> 's \<Rightarrow> (bool \<times> u8) option" where
  "img_found rom ty s =
     (let (ret, stat) = rom_sys_status_get rom ty 0 s in
      if ret \<le> SYS_STATUS_FOUND_ERR then None
      else if ret = SYS_STATUS_FOUND_OK then Some (True, stat) else Some (False, stat))"

text \<open>A newer image is taken unless a check of it failed, another one only when all succeeded.\<close>

definition newer_usable :: "u8 \<Rightarrow> bool" where
  "newer_usable stat \<longleftrightarrow> stat AND IMG_FLAG_NEWER_MASK = IMG_FLAG_NEWER
     \<and> stat AND IMG_FLAG_VERIFY_MASK \<noteq> IMG_FLAG_VERIFY_FAIL
     \<and> stat AND IMG_FLAG_IA_MASK \<noteq> IMG_FLAG_IA_FAIL"

definition checked :: "u8 \<Rightarrow> bool" where
  "checked stat \<longleftrightarrow> stat AND IMG_FLAG_VERIFY_MASK = IMG_FLAG_VERIFY_OK
     \<and> stat AND IMG_FLAG_IA_MASK = IMG_FLAG_IA_OK"

definition boot_image_find ::
    "('s, 'f) rom_boot \<Rightarrow> u32 \<Rightarrow> 's \<Rightarrow> (int + u8 \<times> u32) \<times> 's" where
  "boot_image_find rom mbl_offset s =
     (let sel = (\<lambda>i. Inr (i, RE_IMG_0_OFFSET + IMG_OVERHEAD_LEN mbl_offset)) in
      case img_found rom SYS_IMAGE0_STATUS s of
        None \<Rightarrow> (Inl (- 2), s)
      | Some (img0_found, img0_stat) \<Rightarrow>
          case img_found rom SYS_IMAGE1_STATUS s of
            None \<Rightarrow> (Inl (- 3), s)
          | Some (img1_found, img1_stat) \<Rightarrow>
              if \<not> img0_found \<and> img1_found then (Inl (- 4), s)
              else if \<not> img0_found \<and> \<not> img1_found
              then (sel IMAGE_0, snd (rom_sys_set_img_flag rom IMAGE_0 IMG_FLAG_NEWER_MASK IMG_FLAG_NEWER s))
              else if img0_found \<and> newer_usable img0_stat then (sel IMAGE_0, s)
              else if img1_found \<and> newer_usable img1_stat then (sel IMAGE_1, s)
              else if img0_found \<and> checked img0_stat then (sel IMAGE_0, s)
              else if img1_found \<and> checked img1_stat then (sel IMAGE_1, s)
              else (Inl (- 5), s))"

text \<open>
  \<open>ver0\<close> is the content of the local \<^verbatim>\<open>sw_info.version\<close> before the validation fills it.
\<close>

definition image_x_validate ::
    "('s, 'f) rom_boot \<Rightarrow> fmc_map \<Rightarrow> u32 \<Rightarrow> bytes \<Rightarrow> u8 \<Rightarrow> u32 \<Rightarrow> 'f \<Rightarrow> 's \<Rightarrow> int \<times> 's" where
  "image_x_validate rom fmap img_offset pkhash boot_opt ver0 f s =
     (if boot_opt = IBL_VERIFY_NONE then (0, s)
      else
        let (bad, ver) =
              (if boot_opt = IBL_VERIFY_CERT_IMG
               then let (ret, v) = rom_cert_img_validate rom fmap img_offset IMG_TYPE_IMG pkhash f
                    in (if ret \<noteq> 0 then Some (- 3) else None, v)
               else if boot_opt = IBL_VERIFY_IMG_ONLY
               then let (ret, v) = rom_img_validate rom fmap img_offset IMG_TYPE_IMG pkhash f
                    in (if ret \<noteq> 0 then Some (- 4) else None, v)
               else (None, ver0))
        in case bad of
             Some r \<Rightarrow> (r, s)
           | None \<Rightarrow>
               let (ret, s') = rom_sys_set_fw_ver rom IMG_TYPE_IMG ver s
               in if ret < 0 then (- 5, s') else (0, s'))"

definition flash_offset_mapping :: fmc_map where
  "flash_offset_mapping = Some (drop_bit 12 RE_IMG_0_OFFSET, drop_bit 12 RE_IMG_1_OFFSET - 1,
     drop_bit 12 (RE_IMG_1_OFFSET - RE_IMG_0_OFFSET))"

record ibl_state_t =
  magic :: u32
  ibl_opt :: u32
  rotpk_hash :: bytes

datatype boot_outcome = Jump (boot_idx: u8) (start_addr: u32) (mapping: fmc_map) | Boot_failed

text \<open>The start of \<^verbatim>\<open>main\<close>: an unknown magic code means that the ROM did not start the loader.\<close>

definition boot_state :: "('s, 'f) rom_boot \<Rightarrow> ibl_state_t \<Rightarrow> 's \<Rightarrow> ibl_state_t \<times> 's" where
  "boot_state rom ibl s =
     (if magic ibl \<noteq> IBL_STATE_MAGIC_CODE
      then let s1 = rom_sys_status_check rom s;
               (ret, val) = rom_sys_status_get rom SYS_TRACE_LEVEL 0 s1
           in (\<lparr>magic = 0, ibl_opt = 0, rotpk_hash = replicate 32 0\<rparr>,
               rom_sys_set_trace_level rom (if ret = 0 then val else ROM_INFO) s1)
      else (ibl, s))"

definition mbl_main ::
    "('s, 'f) rom_boot \<Rightarrow> u32 \<Rightarrow> ibl_state_t \<Rightarrow> u32 \<Rightarrow> 'f \<Rightarrow> 's \<Rightarrow> boot_outcome \<times> 's" where
  "mbl_main rom mbl_offset ibl0 ver0 f s0 =
     (let (ibl, s1) = boot_state rom ibl0 s0 in
      case boot_image_find rom mbl_offset s1 of
        (Inl _, s2) \<Rightarrow> (Boot_failed, s2)
      | (Inr (idx, image_offset), s2) \<Rightarrow>
          let fmap = (if idx = IMAGE_1 then flash_offset_mapping else None);
              (ret, s3) = image_x_validate rom fmap (image_offset - IMG_HEADER_SIZE) (rotpk_hash ibl)
                            (ucast (ibl_opt ibl)) ver0 f s2
          in if ret < 0
             then (Boot_failed, snd (rom_sys_set_img_flag rom idx IMG_FLAG_VERIFY_MASK IMG_FLAG_VERIFY_FAIL s3))
             else (Jump idx (RE_FLASH_BASE + image_offset) fmap,
                   rom_sys_set_running_img rom idx
                     (snd (rom_sys_set_img_flag rom idx IMG_FLAG_VERIFY_MASK IMG_FLAG_VERIFY_OK s3))))"

section \<open>Flags\<close>

definition set_masked :: "u8 \<Rightarrow> u8 \<Rightarrow> u8 \<Rightarrow> u8" where
  "set_masked old m f = (old AND NOT m) OR (f AND m)"

lemma set_masked_other: "m AND k = 0 \<Longrightarrow> set_masked old m f AND k = old AND k"
proof (rule bit_eqI)
  fix n
  assume "m AND k = 0"
  then have "\<not> (bit m n \<and> bit k n)" by (metis bit_and_iff bit_0_eq bot_apply bot_bool_def)
  moreover assume "possible_bit TYPE(u8) n"
  ultimately show "bit (set_masked old m f AND k) n = bit (old AND k) n"
    by (auto simp: set_masked_def bit_simps)
qed

lemma set_masked_same: "m AND k = k \<Longrightarrow> set_masked old m f AND k = f AND k"
proof (rule bit_eqI)
  fix n
  assume "m AND k = k"
  then have "bit k n \<Longrightarrow> bit m n" by (metis bit_and_iff)
  then show "bit (set_masked old m f AND k) n = bit (f AND k) n"
    by (auto simp: set_masked_def bit_simps)
qed

lemma newer_set_verify [simp]:
  "set_masked x IMG_FLAG_VERIFY_MASK f AND IMG_FLAG_NEWER_MASK = x AND IMG_FLAG_NEWER_MASK"
  "set_masked x IMG_FLAG_VERIFY_MASK f AND IMG_FLAG_IA_MASK = x AND IMG_FLAG_IA_MASK"
  "set_masked x IMG_FLAG_VERIFY_MASK f AND IMG_FLAG_VERIFY_MASK = f AND IMG_FLAG_VERIFY_MASK"
  by (simp_all add: set_masked_other set_masked_same)

lemma usable_unless_failed [simp]:
  "\<not> newer_usable (set_masked x IMG_FLAG_VERIFY_MASK IMG_FLAG_VERIFY_FAIL)"
  "\<not> checked (set_masked x IMG_FLAG_VERIFY_MASK IMG_FLAG_VERIFY_FAIL)"
  by (simp_all add: newer_usable_def checked_def)

section \<open>What the ROM promises\<close>

definition or_default :: "u8 option \<Rightarrow> u8" where
  "or_default x = (case x of None \<Rightarrow> 0 | Some v \<Rightarrow> v)"

lemma or_default_simps [simp]: "or_default None = 0" "or_default (Some v) = v"
  by (simp_all add: or_default_def)

text \<open>The image the loader takes, as a function of the two image states.\<close>

definition choice_of :: "u8 option \<Rightarrow> u8 option \<Rightarrow> int + u8" where
  "choice_of a b = (case (a, b) of
       (None, Some _) \<Rightarrow> Inl (- 4)
     | (None, None) \<Rightarrow> Inr IMAGE_0
     | (Some x, y) \<Rightarrow>
         if newer_usable x then Inr IMAGE_0
         else if y \<noteq> None \<and> newer_usable (the y) then Inr IMAGE_1
         else if checked x then Inr IMAGE_0
         else if y \<noteq> None \<and> checked (the y) then Inr IMAGE_1
         else Inl (- 5))"

definition image_map :: "u8 \<Rightarrow> fmc_map" where
  "image_map i = (if i = IMAGE_1 then flash_offset_mapping else None)"

definition image_at :: "u32 \<Rightarrow> u32" where
  "image_at mbl_offset = RE_IMG_0_OFFSET + IMG_OVERHEAD_LEN mbl_offset"

text \<open>The verdict of the ROM on the image in slot \<open>i\<close> and the version it read.\<close>

definition image_of ::
    "('s, 'f) rom_boot \<Rightarrow> u32 \<Rightarrow> ibl_state_t \<Rightarrow> u8 \<Rightarrow> 'f \<Rightarrow> int \<times> u32" where
  "image_of rom mbl_offset ibl i f =
     (if ibl_opt ibl = 3 then rom_cert_img_validate rom else rom_img_validate rom)
       (image_map i) (image_at mbl_offset - IMG_HEADER_SIZE) IMG_TYPE_IMG (rotpk_hash ibl) f"

text \<open>The ROM started the loader and asks for the verification of the image.\<close>

definition secure_boot :: "ibl_state_t \<Rightarrow> bool" where
  "secure_boot ibl \<longleftrightarrow> magic ibl = IBL_STATE_MAGIC_CODE \<and> (ibl_opt ibl = 1 \<or> ibl_opt ibl = 3)"

text \<open>The ROM accepts the image, and its version is not below the counter.\<close>

definition image_good :: "u32 \<Rightarrow> int \<times> u32 \<Rightarrow> bool" where
  "image_good cnt img \<longleftrightarrow> fst img = 0 \<and> cnt \<le> snd img"

locale image_status =
  fixes rom :: "('s, 'f) rom_boot"
    and flag :: "'s \<Rightarrow> u8 \<Rightarrow> u8 option"
    and running :: "'s \<Rightarrow> u8 option"
    and counter :: "'s \<Rightarrow> u32"
  assumes get_flag: "i = 0 \<or> i = 1 \<Longrightarrow> rom_sys_status_get rom (3 + i) v s =
      (case flag s i of None \<Rightarrow> (- 1, v) | Some x \<Rightarrow> (0, x))"
    and get_running: "rom_sys_status_get rom 5 v s =
      (case running s of None \<Rightarrow> (- 1, v) | Some x \<Rightarrow> (0, x))"
    and set_flag: "i = 0 \<or> i = 1 \<Longrightarrow> fst (rom_sys_set_img_flag rom i m x s) = 0"
      "i = 0 \<or> i = 1 \<Longrightarrow> flag (snd (rom_sys_set_img_flag rom i m x s))
         = (flag s)(i := Some (set_masked (or_default (flag s i)) m x))"
      "running (snd (rom_sys_set_img_flag rom i m x s)) = running s"
      "counter (snd (rom_sys_set_img_flag rom i m x s)) = counter s"
    and set_running: "flag (rom_sys_set_running_img rom i s) = flag s"
      "running (rom_sys_set_running_img rom i s) = Some i"
      "counter (rom_sys_set_running_img rom i s) = counter s"
    and set_version: "fst (rom_sys_set_fw_ver rom 2 w s) < 0 \<longleftrightarrow> w < counter s"
      "flag (snd (rom_sys_set_fw_ver rom 2 w s)) = flag s"
      "running (snd (rom_sys_set_fw_ver rom 2 w s)) = running s"
      "counter (snd (rom_sys_set_fw_ver rom 2 w s)) = max w (counter s)"
begin

lemma img_found_eq:
  "img_found rom 3 s = Some (case flag s 0 of None \<Rightarrow> (False, 0) | Some x \<Rightarrow> (True, x))"
  "img_found rom 4 s = Some (case flag s 1 of None \<Rightarrow> (False, 0) | Some x \<Rightarrow> (True, x))"
  using get_flag [of 0 0 s] get_flag [of 1 0 s] by (simp_all add: img_found_def split: option.splits)

lemma boot_image_find_eq:
  "boot_image_find rom off s =
     (case choice_of (flag s 0) (flag s 1) of
        Inl r \<Rightarrow> (Inl r, s)
      | Inr i \<Rightarrow> (Inr (i, image_at off),
          if flag s 0 = None then snd (rom_sys_set_img_flag rom 0 1 1 s) else s))"
  by (simp add: boot_image_find_def img_found_eq choice_of_def image_at_def Let_def split: option.splits)

abbreviation (input) good :: "u32 \<Rightarrow> ibl_state_t \<Rightarrow> 'f \<Rightarrow> 's \<Rightarrow> u8 \<Rightarrow> bool" where
  "good off ibl f s i \<equiv> image_good (counter s) (image_of rom off ibl i f)"

lemma image_x_validate_eq:
  assumes "secure_boot ibl"
  shows "image_x_validate rom (image_map i) (image_at off - 32) (rotpk_hash ibl) (ucast (ibl_opt ibl)) v0 f s =
     (let (code, ver) = image_of rom off ibl i f in
      if code \<noteq> 0 then (if ibl_opt ibl = 3 then - 3 else - 4, s)
      else let (ret, s') = rom_sys_set_fw_ver rom 2 ver s in if ret < 0 then (- 5, s') else (0, s'))"
  using assms by (auto simp: secure_boot_def image_x_validate_def image_of_def Let_def split: prod.splits)

lemma image_x_validate_cases:
  assumes "secure_boot ibl"
  obtains ret s' where
    "image_x_validate rom (image_map i) (image_at off - 32) (rotpk_hash ibl) (ucast (ibl_opt ibl)) v0 f s = (ret, s')"
    "ret < 0 \<longleftrightarrow> \<not> good off ibl f s i" "flag s' = flag s" "running s' = running s"
    "counter s' = (if good off ibl f s i then snd (image_of rom off ibl i f) else counter s)"
proof -
  obtain code ver where img: "image_of rom off ibl i f = (code, ver)" by fastforce
  obtain ret s' where ver: "rom_sys_set_fw_ver rom 2 ver s = (ret, s')" by fastforce
  have good: "good off ibl f s i \<longleftrightarrow> code = 0 \<and> \<not> ret < 0"
    using img ver set_version(1) [of ver s] by (simp add: image_good_def not_less)
  have res: "image_x_validate rom (image_map i) (image_at off - 32) (rotpk_hash ibl) (ucast (ibl_opt ibl)) v0 f s =
     (if code \<noteq> 0 then (if ibl_opt ibl = 3 then - 3 else - 4, s) else (if ret < 0 then - 5 else 0, s'))"
    using image_x_validate_eq [OF assms, of i off v0 f s] img ver by simp
  have s': "flag s' = flag s" "running s' = running s" "counter s' = (if ret < 0 then counter s else ver)"
    using set_version [of ver s] ver by (auto simp: max_def)
  show thesis
    by (rule that [of "if code \<noteq> 0 then if ibl_opt ibl = 3 then - 3 else - 4 else if ret < 0 then - 5 else 0"
          "if code \<noteq> 0 then s else s'"]) (simp_all add: res good s' arg_cong [OF img, of snd, simplified])
qed

text \<open>A boot in terms of the image states: the outcome, the states and the counter after it.\<close>

lemma boot_failed_choice:
  assumes "secure_boot ibl" and "choice_of (flag s 0) (flag s 1) = Inl r"
  shows "mbl_main rom off ibl v0 f s = (Boot_failed, s)"
  using assms by (simp add: mbl_main_def boot_state_def secure_boot_def boot_image_find_eq)

lemma choice_of_range: "choice_of a b = Inr i \<Longrightarrow> i = 0 \<or> i = 1"
  by (auto simp: choice_of_def split: option.splits if_splits)

definition status_before :: "'s \<Rightarrow> u8 \<Rightarrow> u8" where
  "status_before s i = (case flag s i of None \<Rightarrow> IMG_FLAG_NEWER | Some x \<Rightarrow> x)"

lemma boot_chosen:
  assumes "secure_boot ibl" and "choice_of (flag s 0) (flag s 1) = Inr i"
  obtains s' where
    "mbl_main rom off ibl v0 f s =
       (if good off ibl f s i then Jump i (RE_FLASH_BASE + image_at off) (image_map i) else Boot_failed, s')"
    "flag s' = (flag s)(i := Some (set_masked (status_before s i) 6 (if good off ibl f s i then 2 else 4)))"
    "running s' = (if good off ibl f s i then Some i else running s)"
    "counter s' = (if good off ibl f s i then snd (image_of rom off ibl i f) else counter s)"
proof -
  have i: "i = 0 \<or> i = 1" using assms(2) by (rule choice_of_range)
  define t where "t = (if flag s 0 = None then snd (rom_sys_set_img_flag rom 0 1 1 s) else s)"
  have t: "counter t = counter s" "running t = running s" "or_default (flag t i) = status_before s i"
    "(flag t)(i := y) = (flag s)(i := y)" for y
    using assms(2) set_flag [of 0 1 1 s]
    by (auto simp: t_def status_before_def choice_of_def set_masked_def split: option.splits if_splits)
  obtain ret u where u: "image_x_validate rom (image_map i) (image_at off - 32) (rotpk_hash ibl)
       (ucast (ibl_opt ibl)) v0 f t = (ret, u)"
    "ret < 0 \<longleftrightarrow> \<not> good off ibl f t i" "flag u = flag t" "running u = running t"
    "counter u = (if good off ibl f t i then snd (image_of rom off ibl i f) else counter t)"
    using image_x_validate_cases [OF assms(1)] by metis
  have main: "mbl_main rom off ibl v0 f s =
     (if ret < 0 then (Boot_failed, snd (rom_sys_set_img_flag rom i 6 4 u))
      else (Jump i (RE_FLASH_BASE + image_at off) (image_map i),
            rom_sys_set_running_img rom i (snd (rom_sys_set_img_flag rom i 6 2 u))))"
    using assms u(1) by (simp add: mbl_main_def boot_state_def secure_boot_def boot_image_find_eq
        image_map_def t_def Let_def)
  show thesis
    by (rule that [of "snd (mbl_main rom off ibl v0 f s)"])
      (use u t i main in \<open>simp_all add: set_flag set_running\<close>)
qed

lemma choice_not_failed:
  "choice_of a b = Inr i \<Longrightarrow> (if i = 0 then a else b) = Some x \<Longrightarrow>
     x AND IMG_FLAG_VERIFY_MASK \<noteq> IMG_FLAG_VERIFY_FAIL \<and> x AND IMG_FLAG_IA_MASK \<noteq> IMG_FLAG_IA_FAIL"
  by (auto simp: choice_of_def newer_usable_def checked_def split: option.splits if_splits)

lemma jump_verified:
  assumes "secure_boot ibl" and "mbl_main rom off ibl ver f s = (Jump i addr fmap, s')"
  shows "good off ibl f s i" "addr = RE_FLASH_BASE + image_at off" "fmap = image_map i"
    "counter s' = snd (image_of rom off ibl i f)" "running s' = Some i"
    "\<exists>x. flag s' i = Some x \<and> x AND IMG_FLAG_VERIFY_MASK = IMG_FLAG_VERIFY_OK"
    "flag s i = Some x \<Longrightarrow> x AND IMG_FLAG_VERIFY_MASK \<noteq> IMG_FLAG_VERIFY_FAIL \<and> x AND IMG_FLAG_IA_MASK \<noteq> IMG_FLAG_IA_FAIL"
proof -
  obtain j where j: "choice_of (flag s 0) (flag s 1) = Inr j"
    using boot_failed_choice [OF assms(1), of s _ off ver f] assms(2)
    by (cases "choice_of (flag s 0) (flag s 1)") auto
  obtain t where t: "mbl_main rom off ibl ver f s =
       (if good off ibl f s j then Jump j (RE_FLASH_BASE + image_at off) (image_map j) else Boot_failed, t)"
    "flag t = (flag s)(j := Some (set_masked (status_before s j) 6 (if good off ibl f s j then 2 else 4)))"
    "running t = (if good off ibl f s j then Some j else running s)"
    "counter t = (if good off ibl f s j then snd (image_of rom off ibl j f) else counter s)"
    using boot_chosen [OF assms(1) j, of off ver f] by metis
  have eq: "good off ibl f s i" "j = i" "t = s'" "addr = RE_FLASH_BASE + image_at off" "fmap = image_map i"
    using t(1) assms(2) by (auto split: if_splits)
  then show "good off ibl f s i" "addr = RE_FLASH_BASE + image_at off" "fmap = image_map i"
    "counter s' = snd (image_of rom off ibl i f)" "running s' = Some i"
    "\<exists>x. flag s' i = Some x \<and> x AND IMG_FLAG_VERIFY_MASK = IMG_FLAG_VERIFY_OK"
    using t by simp_all
  assume "flag s i = Some x"
  then show "x AND IMG_FLAG_VERIFY_MASK \<noteq> IMG_FLAG_VERIFY_FAIL \<and> x AND IMG_FLAG_IA_MASK \<noteq> IMG_FLAG_IA_FAIL"
    using choice_not_failed [OF j, of x] choice_of_range [OF j] by (auto simp: eq(2))
qed

end

section \<open>A status area\<close>

text \<open>
  A ROM that keeps the image states, the running image and the version counter as they are, and
  takes a slot for an image when its first byte is that of the header magic; the second byte is
  the version.
\<close>

record status_area =
  sa_flag :: "u8 \<Rightarrow> u8 option"
  sa_running :: "u8 option"
  sa_counter :: u32

definition slot_image :: "fmc_map \<Rightarrow> (nat \<Rightarrow> u8) \<Rightarrow> int \<times> u32" where
  "slot_image fmap f = (let base = (if fmap = None then 0xA000 else 0x1EA000)
     in (if f base = 0x3D then 0 else - 1, ucast (f (base + 1))))"

definition area_rom :: "(status_area, nat \<Rightarrow> u8) rom_boot" where
  "area_rom = \<lparr>
     rom_sys_status_get = (\<lambda>ty v s.
       case (if ty = 5 then sa_running s else if ty = 3 then sa_flag s 0 else if ty = 4 then sa_flag s 1 else None) of
         None \<Rightarrow> (- 1, v) | Some x \<Rightarrow> (0, x)),
     rom_sys_set_img_flag = (\<lambda>i m x s.
       (0, s\<lparr>sa_flag := (sa_flag s)(i := Some (set_masked (or_default (sa_flag s i)) m x))\<rparr>)),
     rom_sys_set_running_img = (\<lambda>i s. s\<lparr>sa_running := Some i\<rparr>),
     rom_sys_set_fw_ver = (\<lambda>_ v s. if v < sa_counter s then (- 1, s) else (0, s\<lparr>sa_counter := v\<rparr>)),
     rom_sys_set_trace_level = (\<lambda>_ s. s),
     rom_sys_status_check = (\<lambda>s. s),
     rom_img_validate = (\<lambda>fmap _ _ _ f. slot_image fmap f),
     rom_cert_img_validate = (\<lambda>fmap _ _ _ f. slot_image fmap f)\<rparr>"

interpretation area: image_status area_rom sa_flag sa_running sa_counter
  by unfold_locales (auto simp: area_rom_def max_def)

section \<open>Properties\<close>

text \<open>
  C13: when the ROM started the loader and asks for verification, the loader starts an image only
  if the ROM accepts it and its version is not below the counter, never one whose verification
  or attestation failed before, with the offset mapping set exactly for image 1; the counter is
  then the version of that image, the image is recorded as running and as verified.
\<close>

theorem boot_runs_only_verified:
  assumes "image_status rom flag running counter" and "secure_boot ibl"
    and "mbl_main rom mbl_offset ibl ver f s = (Jump i addr fmap, s')"
  shows "fst (image_of rom mbl_offset ibl i f) = 0 \<and> counter s \<le> counter s'
     \<and> counter s' = snd (image_of rom mbl_offset ibl i f)
     \<and> addr = RE_FLASH_BASE + image_at mbl_offset \<and> fmap = image_map i \<and> running s' = Some i
     \<and> (\<exists>x. flag s' i = Some x \<and> x AND IMG_FLAG_VERIFY_MASK = IMG_FLAG_VERIFY_OK)
     \<and> (\<forall>x. flag s i = Some x \<longrightarrow> x AND IMG_FLAG_VERIFY_MASK \<noteq> IMG_FLAG_VERIFY_FAIL
                                \<and> x AND IMG_FLAG_IA_MASK \<noteq> IMG_FLAG_IA_FAIL)"
  using image_status.jump_verified [OF assms] by (simp add: image_good_def)

definition factory_area :: status_area where
  "factory_area = \<lparr>sa_flag = \<lambda>_. None, sa_running = None, sa_counter = 1\<rparr>"

definition rom_boot_state :: ibl_state_t where
  "rom_boot_state = \<lparr>magic = 0xBACEC0DE, ibl_opt = 1, rotpk_hash = []\<rparr>"

lemma secure_rom_boot_state: "secure_boot rom_boot_state"
  by (simp add: secure_boot_def rom_boot_state_def)

definition good_flash :: "nat \<Rightarrow> u8" where
  "good_flash a = (if a = 0xA000 then 0x3D else 2)"

lemma factory_boot:
  "mbl_main area_rom 0x1000 rom_boot_state 0 good_flash factory_area =
     (Jump 0 0x0800A200 None, \<lparr>sa_flag = (\<lambda>_. None)(0 := Some 3), sa_running = Some 0, sa_counter = 2\<rparr>)"
  by (simp add: mbl_main_def boot_state_def rom_boot_state_def boot_image_find_def img_found_def area_rom_def
      factory_area_def image_x_validate_def slot_image_def good_flash_def set_masked_def IMG_OVERHEAD_LEN_def)

theorem boot_runs_only_verified_witness:
  "fst (image_of area_rom 0x1000 rom_boot_state 0 good_flash) = 0
     \<and> snd (image_of area_rom 0x1000 rom_boot_state 0 good_flash) = 2"
  using boot_runs_only_verified [OF area.image_status_axioms secure_rom_boot_state factory_boot] by simp

end
