(* ===== verification/Ota.thy ===== *)
theory Ota
  imports Raw_Flash Util_Strings Boot
begin

text \<open>
  The firmware download of \<^verbatim>\<open>MSDK/app/ota_demo.c\<close>: parsing of the HTTP response and the
  loop that writes the image to the slot that is not running. The socket is a list of receive
  events, one for each call of \<^verbatim>\<open>recv\<close>; when the list is used up the call does not return.
  C strings are the rest of the array from the pointer on, and a function that runs past the
  array, or a copy that does not fit its target, is the outcome \<open>OVERRUN\<close>.
\<close>

section \<open>C strings in an array\<close>

text \<open>\<open>None\<close>: the search leaves the array; \<open>Some None\<close>: not in the string.\<close>

fun strstr :: "bytes \<Rightarrow> bytes \<Rightarrow> bytes option option" where
  "strstr pat [] = None"
| "strstr pat (c # cs) =
     (if take (length pat) (c # cs) = pat then Some (Some (c # cs))
      else if c = 0 then Some None else strstr pat cs)"

definition is_space :: "u8 \<Rightarrow> bool" where
  "is_space c \<longleftrightarrow> c = 32 \<or> 9 \<le> c \<and> c \<le> 13"

text \<open>
  \<^verbatim>\<open>atoi\<close> on an array of at most ten bytes, where no value can exceed the type; \<open>None\<close> when
  no character ends the number.
\<close>

definition atoi :: "bytes \<Rightarrow> int option" where
  "atoi s =
     (let s1 = dropWhile is_space s;
          (neg, s2) = (case s1 of [] \<Rightarrow> (False, [])
                       | c # t \<Rightarrow> if c = 45 then (True, t) else if c = 43 then (False, t) else (False, s1));
          ds = takeWhile is_digit s2
      in if length ds = length s2 then None
         else Some ((if neg then - 1 else 1) * int (digits_val 10 ds)))"

abbreviation (input) CHAR_SP :: u8 where "CHAR_SP \<equiv> 32"

text \<open>\<^verbatim>\<open>"HTTP/1."\<close>, \<^verbatim>\<open>TERM\<close>, \<^verbatim>\<open>ENDING\<close> and \<^verbatim>\<open>"Content-Length:"\<close>.\<close>

definition http_1 :: bytes where "http_1 = [0x48, 0x54, 0x54, 0x50, 0x2F, 0x31, 0x2E]"
definition CRLF :: bytes where "CRLF = [13, 10]"
definition ENDING :: bytes where "ENDING = [13, 10, 13, 10]"
definition content_length :: bytes where
  "content_length = [0x43, 0x6F, 0x6E, 0x74, 0x65, 0x6E, 0x74, 0x2D, 0x4C, 0x65, 0x6E, 0x67, 0x74, 0x68, 0x3A]"

section \<open>Parsing the response\<close>

definition http_rsp_code :: "bytes \<Rightarrow> int option" where
  "http_rsp_code httpbuf =
     (case strstr http_1 httpbuf of
        None \<Rightarrow> None
      | Some None \<Rightarrow> Some (- 1)
      | Some (Some p) \<Rightarrow>
          let p_start = dropWhile (\<lambda>c. c = CHAR_SP) (drop 8 p) in
          if p_start = [] then None
          else case strstr [CHAR_SP] p_start of
            None \<Rightarrow> None
          | Some None \<Rightarrow> atoi (replicate 10 0)
          | Some (Some p_end) \<Rightarrow>
              let n = length p_start - length p_end in
              if 10 < n then Some (- 2) else atoi (take n p_start @ replicate (10 - n) 0))"

definition http_hdr_len :: "bytes \<Rightarrow> int option" where
  "http_hdr_len httpbuf =
     map_option (\<lambda>r. case r of None \<Rightarrow> 0 | Some p_end \<Rightarrow> int (length httpbuf - length p_end) + 4)
       (strstr ENDING httpbuf)"

definition http_body_len :: "bytes \<Rightarrow> int option" where
  "http_body_len httpbuf =
     (case strstr content_length httpbuf of
        None \<Rightarrow> None
      | Some None \<Rightarrow> Some 0
      | Some (Some p) \<Rightarrow>
          let p_start = dropWhile (\<lambda>c. c = CHAR_SP) (drop 15 p) in
          if p_start = [] then None
          else case strstr CRLF p_start of
            None \<Rightarrow> None
          | Some None \<Rightarrow> Some 0
          | Some (Some p_end) \<Rightarrow>
              let n = length p_start - length p_end in
              if 10 < n then None else atoi (take n p_start @ replicate (10 - n) 0))"

section \<open>Receiving and writing the image\<close>

datatype recv_event = Recv_data bytes | Recv_fail nat

datatype ota_end = RETURNS int | OVERRUN | WAITING | NO_RETURN

definition RECBUFFER_LEN :: nat where "RECBUFFER_LEN = 1516"

text \<open>\<^verbatim>\<open>recv\<close> with a length: at most that many bytes arrive; \<open>Recv_fail e\<close> returns \<open>- (e + 1)\<close>.\<close>

definition recv :: "nat \<Rightarrow> recv_event \<Rightarrow> int \<times> bytes" where
  "recv n ev = (case ev of Recv_data bs \<Rightarrow> (int (length (take n bs)), take n bs) | Recv_fail e \<Rightarrow> (- int e - 1, []))"

partial_function (option) erase_loop ::
    "'d rom_flash \<Rightarrow> erase_cbs \<Rightarrow> u32 \<Rightarrow> u32 \<Rightarrow> 'd \<Rightarrow> (int \<times> u32 \<times> 'd) option" where
  "erase_loop rom cbs target erase_start_addr d =
     (if erase_start_addr < target
      then case raw_flash_erase rom cbs erase_start_addr 0x1000 d of
          None \<Rightarrow> None
        | Some (ret, d1, _) \<Rightarrow>
            if ret \<noteq> 0 then Some (ret, erase_start_addr, d1)
            else erase_loop rom cbs target (erase_start_addr + 0x1000) d1
      else Some (0, erase_start_addr, d))"

definition store_chunk ::
    "'d rom_flash \<Rightarrow> erase_cbs \<Rightarrow> u32 \<Rightarrow> u32 \<Rightarrow> bytes \<Rightarrow> int \<Rightarrow> u32 \<Rightarrow> 'd
       \<Rightarrow> (ota_end \<times> 'd) + (int \<times> u32 \<times> 'd)" where
  "store_chunk rom cbs new_img_addr img_size buf offset erase_start_addr d =
     (let recv_len = int (length buf) in
      if img_size < word_of_int (offset + recv_len) then Inl (RETURNS (- 6), d)
      else case erase_loop rom cbs (word_of_int offset + new_img_addr + word_of_int recv_len)
                  erase_start_addr d of
          None \<Rightarrow> Inl (NO_RETURN, d)
        | Some (ret, es, d1) \<Rightarrow>
            if ret \<noteq> 0 then Inl (RETURNS ret, d1)
            else let (ret2, d2) = raw_flash_write rom (new_img_addr + word_of_int offset) buf d1
                 in if ret2 \<noteq> 0 then Inl (RETURNS ret2, d2) else Inr (offset + recv_len, es, d2))"

definition recv_size :: "int \<Rightarrow> nat" where
  "recv_size want = (if int RECBUFFER_LEN < want then RECBUFFER_LEN else unat (word_of_int want :: u32))"

text \<open>
  One round of the loop takes the bytes received, or nothing when the last call failed with
  \<^verbatim>\<open>-EAGAIN\<close> or brought nothing. The length asked for is converted to the unsigned type.
\<close>

fun image_loop ::
    "'d rom_flash \<Rightarrow> erase_cbs \<Rightarrow> u32 \<Rightarrow> u32 \<Rightarrow> int \<Rightarrow> recv_event list \<Rightarrow> bytes \<Rightarrow> int \<Rightarrow> u32 \<Rightarrow> 'd
       \<Rightarrow> ota_end \<times> 'd" where
  "image_loop rom cbs new_img_addr img_size body_len evs buf offset erase_start_addr d =
     (case (if buf = [] then Inr (offset, erase_start_addr, d)
            else store_chunk rom cbs new_img_addr img_size buf offset erase_start_addr d) of
        Inl r \<Rightarrow> r
      | Inr (offset', es, d') \<Rightarrow>
          let want = body_len - offset' in
          if want = 0 then (RETURNS 0, d')
          else case evs of
            [] \<Rightarrow> (WAITING, d')
          | ev # rest \<Rightarrow>
              let (recv_len, data) = recv (recv_size want) ev
              in if RECBUFFER_LEN < length data then (OVERRUN, d')
                 else if recv_len < 0 \<and> recv_len \<noteq> - 11 then (RETURNS (- 7), d')
                 else if offset' < body_len
                 then image_loop rom cbs new_img_addr img_size body_len rest data offset' es d'
                 else (RETURNS 0, d'))"

definition image_slot :: "u8 \<Rightarrow> u32 \<times> u32" where
  "image_slot running_idx =
     (if running_idx = IMAGE_0 then (RE_IMG_1_OFFSET, RE_IMG_1_END - RE_IMG_1_OFFSET)
      else (RE_IMG_0_OFFSET, RE_IMG_1_OFFSET - RE_IMG_0_OFFSET))"

text \<open>\<open>mem\<close> tells whether the receive buffer could be allocated.\<close>

definition http_rsp_image ::
    "'d rom_flash \<Rightarrow> erase_cbs \<Rightarrow> bool \<Rightarrow> u8 \<Rightarrow> recv_event list \<Rightarrow> 'd \<Rightarrow> ota_end \<times> 'd" where
  "http_rsp_image rom cbs mem running_idx evs d =
     (if \<not> mem then (RETURNS (- 1), d)
      else case evs of
        [] \<Rightarrow> (WAITING, d)
      | ev # rest \<Rightarrow>
          let (recv_len, data) = recv RECBUFFER_LEN ev;
              recvbuf = data @ replicate (RECBUFFER_LEN - length data) 0
          in if recv_len \<le> 0 then (RETURNS (- 2), d)
             else case http_rsp_code recvbuf of
               None \<Rightarrow> (OVERRUN, d)
             | Some code \<Rightarrow>
                 if code \<noteq> 200 then (RETURNS (- 3), d)
                 else
                   let (new_img_addr, img_size) = image_slot running_idx in
                   case (http_hdr_len recvbuf, http_body_len recvbuf) of
                     (Some hdr_len, Some body_len) \<Rightarrow>
                       if img_size < word_of_int body_len then (RETURNS (- 4), d)
                       else if recv_len - hdr_len < 0 then (RETURNS (- 5), d)
                       else image_loop rom cbs new_img_addr img_size body_len rest
                              (take (nat (recv_len - hdr_len)) (drop (nat hdr_len) recvbuf)) 0 new_img_addr d
                   | _ \<Rightarrow> (OVERRUN, d))"

section \<open>Erasing and writing a chunk\<close>

lemma handler_loop_returns: "chain h p xs 0 \<Longrightarrow> handler_loop cb ty h p log \<noteq> None"
proof (induction xs arbitrary: p log)
  case Nil
  then show ?case by (subst handler_loop.simps) simp
next
  case (Cons x xs)
  then show ?case by (subst handler_loop.simps) simp
qed

lemma erase_pages:
  assumes "nor_rom rom byte" and "list_rep (cb_next cbs) (raw_erase_cb_list cbs) xs"
    and "4096 dvd unat es" and "4096 dvd n" and "0 < n" and "unat es + n \<le> 0x400000"
  obtains d' log where "raw_flash_erase rom cbs es n d = Some (0, d', log)"
    "\<And>a. byte d' a = (if unat es \<le> a \<and> a < unat es + n then 0xFF else byte d a)"
proof -
  obtain d' where d': "rom_flash_erase rom es n d = Some d'"
    "\<And>a. byte d' a = (if unat es \<le> a \<and> a < unat es + n then 0xFF else byte d a)"
    using nor_erase [OF assms(1,6,3,4)] by metis
  have "range_ok es n" using range_ok_iff [of n es] assms(5,6) by simp
  moreover have "raw_flash_erase_handler (cb_of cbs) ty (raw_erase_cb_list cbs) (cb_next cbs) log \<noteq> None" for ty log
    using handler_loop_returns [of "cb_next cbs" _ xs] assms(2)
    by (simp add: raw_flash_erase_handler_def list_rep_def)
  ultimately show thesis
    using that d' by (fastforce simp: raw_flash_erase_def split: option.splits)
qed

lemma erase_page:
  assumes "nor_rom rom byte" and "list_rep (cb_next cbs) (raw_erase_cb_list cbs) xs"
    and "4096 dvd unat es" and "unat es + 4096 \<le> 0x400000"
  obtains d' log where "raw_flash_erase rom cbs es 0x1000 d = Some (0, d', log)"
    "\<And>a. byte d' a = (if unat es \<le> a \<and> a < unat es + 4096 then 0xFF else byte d a)"
  using erase_pages [OF assms(1-3), of "0x1000" d] assms(4) by auto

lemma erase_loop_ok:
  assumes "nor_rom rom byte" and "list_rep (cb_next cbs) (raw_erase_cb_list cbs) xs"
    and "4096 dvd E" and "E \<le> 0x400000" and "unat target \<le> E"
  shows "4096 dvd unat es \<Longrightarrow> unat es \<le> E \<Longrightarrow>
    \<exists>es' d'. erase_loop rom cbs target es d = Some (0, es', d') \<and> 4096 dvd unat es'
      \<and> unat es \<le> unat es' \<and> unat es' \<le> E \<and> unat target \<le> unat es'
      \<and> (\<forall>a. byte d' a = (if unat es \<le> a \<and> a < unat es' then 0xFF else byte d a))"
proof (induction "E - unat es" arbitrary: es d rule: less_induct)
  case less
  show ?case
  proof (cases "es < target")
    case False
    then show ?thesis
      using less.prems by (subst erase_loop.simps) (auto simp: word_less_nat_alt)
  next
    case True
    have "unat es < E" using True assms(5) by (simp add: word_less_nat_alt)
    then have room: "unat es + 4096 \<le> E"
      using less.prems(1) assms(3) by (elim dvdE) simp
    have next_es: "unat (es + 0x1000) = unat es + 4096"
      using room assms(4) by (simp add: unat_word_ariths)
    obtain d1 log where d1: "raw_flash_erase rom cbs es 0x1000 d = Some (0, d1, log)"
      "\<And>a. byte d1 a = (if unat es \<le> a \<and> a < unat es + 4096 then 0xFF else byte d a)"
      using erase_page [OF assms(1,2) less.prems(1) order_trans [OF room assms(4)], of d] by blast
    have dec: "E - unat (es + 0x1000) < E - unat es" using room unfolding next_es by linarith
    obtain es' d' where e': "erase_loop rom cbs target (es + 0x1000) d1 = Some (0, es', d')"
      "4096 dvd unat es'" "unat es + 4096 \<le> unat es'" "unat es' \<le> E" "unat target \<le> unat es'"
      "\<And>a. byte d' a = (if unat es + 4096 \<le> a \<and> a < unat es' then 0xFF else byte d1 a)"
      using less.hyps [OF dec, of d1] less.prems(1) room unfolding next_es by auto
    have "erase_loop rom cbs target es d = Some (0, es', d')"
      using True d1(1) e'(1) by (subst erase_loop.simps) simp
    then show ?thesis
      using e' d1(2) by (intro exI [of _ es'] exI [of _ d']) auto
  qed
qed

text \<open>
  The state of the download: \<open>acc\<close> is stored at the start of the slot, the rest of the erased
  sectors is blank, and the flash outside the slot is that of \<open>d0\<close>.
\<close>

definition downloading ::
    "('d \<Rightarrow> nat \<Rightarrow> u8) \<Rightarrow> nat \<Rightarrow> nat \<Rightarrow> 'd \<Rightarrow> bytes \<Rightarrow> u32 \<Rightarrow> 'd \<Rightarrow> bool" where
  "downloading byte base len d0 acc es d \<longleftrightarrow>
     4096 dvd unat es \<and> base + length acc \<le> unat es \<and> unat es \<le> base + len
   \<and> (\<forall>k<length acc. byte d (base + k) = acc ! k)
   \<and> (\<forall>a. base + length acc \<le> a \<and> a < unat es \<longrightarrow> byte d a = 0xFF)
   \<and> (\<forall>a. a < base \<or> base + len \<le> a \<longrightarrow> byte d a = byte d0 a)"

definition slot_ok :: "u32 \<Rightarrow> u32 \<Rightarrow> bool" where
  "slot_ok addr len \<longleftrightarrow> 4096 dvd unat addr \<and> 4096 dvd unat len \<and> unat addr + unat len \<le> 0x400000"

lemma image_slot_ok: "image_slot r = (addr, len) \<Longrightarrow> slot_ok addr len"
  by (auto simp: image_slot_def slot_ok_def split: if_splits)

lemma downloading_start: "slot_ok addr len \<Longrightarrow> downloading byte (unat addr) (unat len) d [] addr d"
  by (auto simp: downloading_def slot_ok_def)

lemma downloading_outside:
  "downloading byte base n d0 acc es d \<Longrightarrow> a < base \<or> base + n \<le> a \<Longrightarrow> byte d a = byte d0 a"
  unfolding downloading_def by blast

lemma write_chunk:
  assumes "nor_rom rom byte" and "buf \<noteq> []" and "unat off + length buf \<le> 0x400000"
  obtains d' where "raw_flash_write rom off buf d = (0, d')"
    "\<And>a. byte d' a = (if unat off \<le> a \<and> a < unat off + length buf
       then byte d a AND buf ! (a - unat off) else byte d a)"
proof -
  obtain d' where d': "rom_flash_write rom off buf d = Some d'"
    "\<And>a. byte d' a = (if unat off \<le> a \<and> a < unat off + length buf
       then byte d a AND buf ! (a - unat off) else byte d a)"
    using nor_write [OF assms(1,3), of d] by blast
  have "range_ok off (length buf)" using range_ok_iff [of "length buf" off] assms(2,3) by simp
  then show thesis using that d' by (simp add: raw_flash_write_def)
qed

lemma store_chunk_ok:
  assumes "nor_rom rom byte" and "list_rep (cb_next cbs) (raw_erase_cb_list cbs) xs"
    and "slot_ok addr len" and "downloading byte (unat addr) (unat len) d0 acc es d"
    and "buf \<noteq> []" and "length acc + length buf \<le> unat len"
  shows "\<exists>es' d'. store_chunk rom cbs addr len buf (int (length acc)) es d = Inr (int (length (acc @ buf)), es', d')
     \<and> downloading byte (unat addr) (unat len) d0 (acc @ buf) es' d'"
proof -
  define n where "n = length acc + length buf"
  define target :: u32 where "target = of_nat (length acc) + addr + of_nat (length buf)"
  note slot = assms(3) [unfolded slot_ok_def] and inv = assms(4) [unfolded downloading_def]
  have n: "unat (of_nat n :: u32) = n"
    using assms(6) slot by (intro unat_of_nat_u32) (simp add: n_def)
  have "target = addr + of_nat n" by (simp add: target_def n_def)
  then have target: "unat target = unat addr + n"
    using n slot assms(6) by (simp add: unat_word_ariths n_def)
  have off: "unat (addr + of_nat (length acc)) = unat addr + length acc"
    using slot assms(6) by (simp add: unat_word_ariths unat_of_nat take_bit_nat_eq_self)
  obtain es' d1 where d1: "erase_loop rom cbs target es d = Some (0, es', d1)" "4096 dvd unat es'"
    "unat es \<le> unat es'" "unat es' \<le> unat addr + unat len" "unat target \<le> unat es'"
    "\<And>a. byte d1 a = (if unat es \<le> a \<and> a < unat es' then 0xFF else byte d a)"
    using erase_loop_ok [OF assms(1,2), of "unat addr + unat len" target es d] slot inv target assms(6)
    by (auto simp: n_def)
  have fits: "unat (addr + of_nat (length acc)) + length buf \<le> 0x400000"
    using slot assms(6) unfolding off by linarith
  obtain d2 where d2: "raw_flash_write rom (addr + of_nat (length acc)) buf d1 = (0, d2)"
    "\<And>a. byte d2 a = (if unat addr + length acc \<le> a \<and> a < unat addr + length acc + length buf
       then byte d1 a AND buf ! (a - (unat addr + length acc)) else byte d1 a)"
    using write_chunk [OF assms(1,5) fits] unfolding off by blast
  have "\<not> len < of_nat n" using n assms(6) by (simp add: word_less_nat_alt n_def)
  then have "store_chunk rom cbs addr len buf (int (length acc)) es d = Inr (int (length (acc @ buf)), es', d2)"
    using d1(1) d2(1) by (simp add: store_chunk_def n_def target_def Let_def)
  moreover have "downloading byte (unat addr) (unat len) d0 (acc @ buf) es' d2"
    using inv d1 target assms(6) unfolding downloading_def
    by (auto simp: d2(2) d1(6) nth_append n_def)
  ultimately show ?thesis by blast
qed

lemma store_chunk_too_long:
  assumes "slot_ok addr len" and "length acc \<le> unat len" and "length buf \<le> RECBUFFER_LEN"
    and "\<not> length acc + length buf \<le> unat len"
  shows "store_chunk rom cbs addr len buf (int (length acc)) es d = Inl (RETURNS (- 6), d)"
proof -
  have "unat (of_nat (length acc + length buf) :: u32) = length acc + length buf"
    using assms by (intro unat_of_nat_u32) (simp add: slot_ok_def RECBUFFER_LEN_def)
  then have "len < of_nat (length acc + length buf)"
    using assms(4) by (simp only: word_less_nat_alt)
  then show ?thesis by (simp add: store_chunk_def)
qed

section \<open>The download loop\<close>

definition chunk_step ::
    "'d rom_flash \<Rightarrow> erase_cbs \<Rightarrow> u32 \<Rightarrow> u32 \<Rightarrow> bytes \<Rightarrow> int \<Rightarrow> u32 \<Rightarrow> 'd
       \<Rightarrow> (ota_end \<times> 'd) + (int \<times> u32 \<times> 'd)" where
  "chunk_step rom cbs addr len buf offset es d =
     (if buf = [] then Inr (offset, es, d) else store_chunk rom cbs addr len buf offset es d)"

lemma chunk_step_ok:
  assumes "nor_rom rom byte" and "list_rep (cb_next cbs) (raw_erase_cb_list cbs) xs"
    and "slot_ok addr len" and "downloading byte (unat addr) (unat len) d0 acc es d"
    and "length acc + length buf \<le> unat len"
  obtains es' d' where
    "chunk_step rom cbs addr len buf (int (length acc)) es d = Inr (int (length (acc @ buf)), es', d')"
    "downloading byte (unat addr) (unat len) d0 (acc @ buf) es' d'"
  using store_chunk_ok [OF assms(1-4), of buf] assms(4,5) that
  by (cases "buf = []") (auto simp: chunk_step_def)

lemma chunk_step_too_long:
  assumes "slot_ok addr len" and "downloading byte (unat addr) (unat len) d0 acc es d"
    and "length buf \<le> RECBUFFER_LEN" and "\<not> length acc + length buf \<le> unat len"
  shows "chunk_step rom cbs addr len buf (int (length acc)) es d = Inl (RETURNS (- 6), d)"
  using store_chunk_too_long [OF assms(1) _ assms(3,4)] assms(2,4)
  by (cases "buf = []") (auto simp: chunk_step_def downloading_def)

lemma length_recv_le: "recv n ev = (l, data) \<Longrightarrow> length data \<le> n"
  by (auto simp: recv_def split: recv_event.splits)

lemma recv_size_nat: "recv_size (int n) = min RECBUFFER_LEN n"
  using unat_of_nat_u32 [of n] by (auto simp: recv_size_def min_def RECBUFFER_LEN_def)

lemma recv_size_negative:
  assumes "k < 0" and "- 1516 \<le> k"
  shows "RECBUFFER_LEN < recv_size k"
proof -
  have "uint (word_of_int k :: u32) = k mod 2 ^ 32" by (simp add: unsigned_of_int take_bit_eq_mod)
  also have "\<dots> = (k + 2 ^ 32) mod 2 ^ 32" by simp
  also have "\<dots> = k + 2 ^ 32" using assms by (intro mod_pos_pos_trivial) auto
  finally show ?thesis
    using assms by (simp add: recv_size_def RECBUFFER_LEN_def unat_eq_nat_uint)
qed

lemma image_loop_next:
  assumes "chunk_step rom cbs addr len buf offset es d = Inr (offset', es', d')" and "body_len \<noteq> offset'"
    and "recv (recv_size (body_len - offset')) ev = (l, data)"
  shows "image_loop rom cbs addr len body_len (ev # rest) buf offset es d =
     (if RECBUFFER_LEN < length data then (OVERRUN, d')
      else if l < 0 \<and> l \<noteq> - 11 then (RETURNS (- 7), d')
      else if offset' < body_len then image_loop rom cbs addr len body_len rest data offset' es' d'
      else (RETURNS 0, d'))"
  using assms by (simp add: chunk_step_def [symmetric] Let_def)

lemma image_loop_confined:
  assumes "nor_rom rom byte" and "list_rep (cb_next cbs) (raw_erase_cb_list cbs) xs"
    and "slot_ok addr len" and "a < unat addr \<or> unat addr + unat len \<le> a"
  shows "downloading byte (unat addr) (unat len) d0 acc es d \<Longrightarrow> length buf \<le> RECBUFFER_LEN \<Longrightarrow>
    byte (snd (image_loop rom cbs addr len body_len evs buf (int (length acc)) es d)) a = byte d0 a"
proof (induction evs arbitrary: buf acc es d)
  case (Cons ev rest)
  show ?case
  proof (cases "length acc + length buf \<le> unat len")
    case True
    obtain es' d' where st:
      "chunk_step rom cbs addr len buf (int (length acc)) es d = Inr (int (length (acc @ buf)), es', d')"
      "downloading byte (unat addr) (unat len) d0 (acc @ buf) es' d'"
      using chunk_step_ok [OF assms(1-3) Cons.prems(1) True] by blast
    have same: "byte d' a = byte d0 a" using st(2) assms(4) by (rule downloading_outside)
    show ?thesis
      using st(1) same Cons.IH [OF st(2)]
      by (simp add: chunk_step_def [symmetric] Let_def not_less split: prod.splits)
  next
    case False
    then show ?thesis
      using chunk_step_too_long [OF assms(3) Cons.prems False] downloading_outside [OF Cons.prems(1) assms(4)]
      by (simp add: chunk_step_def [symmetric])
  qed
next
  case Nil
  show ?case
  proof (cases "length acc + length buf \<le> unat len")
    case True
    then obtain es' d' where st:
      "chunk_step rom cbs addr len buf (int (length acc)) es d = Inr (int (length (acc @ buf)), es', d')"
      "downloading byte (unat addr) (unat len) d0 (acc @ buf) es' d'"
      using chunk_step_ok [OF assms(1-3) Nil.prems(1)] by blast
    then show ?thesis
      using downloading_outside [OF st(2) assms(4)] by (simp add: chunk_step_def [symmetric] Let_def)
  next
    case False
    then show ?thesis
      using chunk_step_too_long [OF assms(3) Nil.prems False] downloading_outside [OF Nil.prems(1) assms(4)]
      by (simp add: chunk_step_def [symmetric])
  qed
qed

text \<open>
  The events deliver the bytes \<open>rem\<close>, in pieces that fit the buffer, possibly after calls
  that time out (\<^verbatim>\<open>-EAGAIN\<close>) or return nothing.
\<close>

fun delivers :: "recv_event list \<Rightarrow> bytes \<Rightarrow> bool" where
  "delivers [] rem \<longleftrightarrow> rem = []"
| "delivers (ev # evs) rem \<longleftrightarrow> rem = [] \<or>
     (case ev of
        Recv_data bs \<Rightarrow> length bs \<le> RECBUFFER_LEN \<and> bs = take (length bs) rem \<and> delivers evs (drop (length bs) rem)
      | Recv_fail e \<Rightarrow> e = 10 \<and> delivers evs rem)"

lemma image_loop_delivers:
  assumes "nor_rom rom byte" and "list_rep (cb_next cbs) (raw_erase_cb_list cbs) xs"
    and "slot_ok addr len"
  shows "downloading byte (unat addr) (unat len) d0 acc es d \<Longrightarrow> delivers evs rem \<Longrightarrow>
    length acc + length buf + length rem \<le> unat len \<Longrightarrow>
    body_len = int (length (acc @ buf @ rem)) \<Longrightarrow>
    \<exists>es' d'. image_loop rom cbs addr len body_len evs buf (int (length acc)) es d = (RETURNS 0, d')
      \<and> downloading byte (unat addr) (unat len) d0 (acc @ buf @ rem) es' d'"
proof (induction evs arbitrary: buf acc rem es d)
  case Nil
  then obtain es' d' where
    "chunk_step rom cbs addr len buf (int (length acc)) es d = Inr (int (length (acc @ buf)), es', d')"
    "downloading byte (unat addr) (unat len) d0 (acc @ buf) es' d'"
    using chunk_step_ok [OF assms Nil.prems(1)] by auto
  then show ?case using Nil.prems by (auto simp: chunk_step_def [symmetric])
next
  case (Cons ev rest)
  obtain es' d' where st:
    "chunk_step rom cbs addr len buf (int (length acc)) es d = Inr (int (length (acc @ buf)), es', d')"
    "downloading byte (unat addr) (unat len) d0 (acc @ buf) es' d'"
    using chunk_step_ok [OF assms Cons.prems(1) add_leD1 [OF Cons.prems(3)]] by blast
  show ?case
  proof (cases "rem = []")
    case True
    then show ?thesis using st Cons.prems by (auto simp: chunk_step_def [symmetric])
  next
    case False
    define n where "n = min RECBUFFER_LEN (length rem)"
    obtain data l where data: "recv n ev = (l, data)" "data = take (length data) rem"
      "length data \<le> RECBUFFER_LEN" "\<not> (l < 0 \<and> l \<noteq> - 11)" "delivers rest (drop (length data) rem)"
    proof (cases ev)
      case (Recv_data bs)
      then have "length bs \<le> n" using Cons.prems(2) False by (auto simp: n_def dest: arg_cong [where f = length])
      then show thesis
        using that Recv_data Cons.prems(2) False by (auto simp: recv_def)
    next
      case (Recv_fail e)
      then show thesis using that Cons.prems(2) False by (auto simp: recv_def)
    qed
    have len: "length (acc @ buf) + length data + length (drop (length data) rem) \<le> unat len"
      using Cons.prems(3) data(2) by (auto dest: arg_cong [where f = length])
    have body: "(acc @ buf) @ data @ drop (length data) rem = acc @ buf @ rem"
      by (metis append.assoc append_take_drop_id data(2))
    obtain es2 d2 where IH: "image_loop rom cbs addr len body_len rest data (int (length (acc @ buf))) es' d' = (RETURNS 0, d2)"
      "downloading byte (unat addr) (unat len) d0 (acc @ buf @ rem) es2 d2"
      using Cons.IH [OF st(2) data(5) len] Cons.prems(4) unfolding body by blast
    have want: "body_len - int (length (acc @ buf)) = int (length rem)" using Cons.prems(4) by simp
    have more: "int (length (acc @ buf)) < body_len" using want False by (cases rem) auto
    have "image_loop rom cbs addr len body_len (ev # rest) buf (int (length acc)) es d = (RETURNS 0, d2)"
      unfolding IH(1) [symmetric]
      using image_loop_next [OF st(1) less_imp_neq [OF more, symmetric], of ev l data rest] data(1,3,4) more want
      by (simp add: recv_size_nat n_def del: length_append image_loop.simps)
    then show ?thesis using IH(2) by blast
  qed
qed

section \<open>Properties\<close>

definition received :: "bytes \<Rightarrow> bytes" where
  "received data = data @ replicate (RECBUFFER_LEN - length data) 0"

lemma length_received: "length data \<le> RECBUFFER_LEN \<Longrightarrow> length (received data) = RECBUFFER_LEN"
  by (simp add: received_def)

text \<open>A response for the witnesses: a header that announces four bytes, and an empty list of callbacks.\<close>

definition sample_header :: bytes where
  "sample_header =
    [72, 84, 84, 80, 47, 49, 46, 49, 32, 50, 48, 48, 32, 79, 75, 13, 10, 67, 111, 110, 116,
     101, 110, 116, 45, 76, 101, 110, 103, 116, 104, 58, 32, 52, 13, 10, 13, 10]"

definition no_cbs :: erase_cbs where
  "no_cbs = \<lparr>raw_erase_cb_list = \<lparr>sl_first = 0, sl_last = 0\<rparr>, cb_next = \<lambda>_. 0, cb_of = \<lambda>_. 0\<rparr>"

lemma no_cbs_rep: "list_rep (cb_next no_cbs) (raw_erase_cb_list no_cbs) []"
  by (simp add: no_cbs_def list_rep_def)

lemma length_sample_header: "length sample_header = 38"
  by (simp add: sample_header_def)

lemma sample_parsed:
  "http_rsp_code (received (sample_header @ b)) = Some 200"
  "http_hdr_len (received (sample_header @ b)) = Some (int (length sample_header))"
  "http_body_len (received (sample_header @ b)) = Some (int 4)"
  by (simp_all add: received_def sample_header_def http_rsp_code_def http_hdr_len_def http_body_len_def
      http_1_def ENDING_def content_length_def CRLF_def atoi_def is_space_def is_digit_def digits_val_def
      util_char2num_def Let_def)

lemma download_confined:
  assumes "nor_rom rom byte" and "list_rep (cb_next cbs) (raw_erase_cb_list cbs) xs"
    and "image_slot running_idx = (addr, len)" and "a < unat addr \<or> unat addr + unat len \<le> a"
  shows "byte (snd (http_rsp_image rom cbs mem running_idx evs d)) a = byte d a"
proof -
  note slot = image_slot_ok [OF assms(3)]
  have "length (take k (drop h (received data))) \<le> RECBUFFER_LEN" if "length data \<le> RECBUFFER_LEN" for k h data
    using length_received [OF that] by (auto simp: min_def)
  then show ?thesis
    using image_loop_confined [OF assms(1,2) slot assms(4) downloading_start [OF slot, of byte d]]
      assms(3) length_recv_le
    by (auto simp: http_rsp_image_def received_def Let_def simp del: image_loop.simps
        split: list.splits option.splits prod.splits)
qed



text \<open>A response whose header is complete in the first packet goes straight to the loop.\<close>

lemma http_rsp_image_ok:
  assumes "pkt \<noteq> []" and "length pkt \<le> RECBUFFER_LEN" and "image_slot r = (addr, len)"
    and "http_rsp_code (received pkt) = Some 200" and "http_hdr_len (received pkt) = Some (int h)"
    and "http_body_len (received pkt) = Some (int n)" and "h \<le> length pkt" and "n \<le> unat len"
  shows "http_rsp_image rom cbs True r (Recv_data pkt # evs) d =
     image_loop rom cbs addr len (int n) evs (drop h pkt) 0 addr d"
proof -
  have "\<not> len < of_nat n"
    using assms(8) unat_of_nat_u32 [OF le_less_trans [OF assms(8) unat_u32_lt]] by (simp add: word_less_nat_alt)
  moreover have "recv RECBUFFER_LEN (Recv_data pkt) = (int (length pkt), pkt)"
    using assms(2) by (simp add: recv_def)
  moreover have "take (nat (int (length pkt) - int h)) (drop (nat (int h)) (received pkt)) = drop h pkt"
    using assms(7) by (simp add: received_def nat_diff_distrib)
  ultimately show ?thesis
    using assms by (simp add: http_rsp_image_def received_def [symmetric] Let_def del: image_loop.simps)
qed

text \<open>
  C17: when the server sends a complete header with the first packet and then as many bytes as
  it announced, in pieces of any size and with timeouts in between, the download succeeds and
  the slot of the other image holds exactly the bytes sent.
\<close>

theorem ota_stores_image:
  assumes "nor_rom rom byte" and "list_rep (cb_next cbs) (raw_erase_cb_list cbs) xs"
    and "image_slot running_idx = (addr, len)" and "pkt \<noteq> []" and "length pkt \<le> RECBUFFER_LEN"
    and "http_rsp_code (received pkt) = Some 200" and "http_hdr_len (received pkt) = Some (int h)"
    and "http_body_len (received pkt) = Some (int (length body))"
    and "h \<le> length pkt" and "length body \<le> unat len"
    and "body = drop h pkt @ rem" and "delivers evs rem"
  shows "\<exists>d'. http_rsp_image rom cbs True running_idx (Recv_data pkt # evs) d = (RETURNS 0, d')
     \<and> map (byte d') [unat addr..<unat addr + length body] = body"
proof -
  note slot = image_slot_ok [OF assms(3)]
  have "http_rsp_image rom cbs True running_idx (Recv_data pkt # evs) d =
      image_loop rom cbs addr len (int (length body)) evs (drop h pkt) 0 addr d"
    by (rule http_rsp_image_ok) (use assms in simp_all)
  then obtain es' d' where d': "http_rsp_image rom cbs True running_idx (Recv_data pkt # evs) d = (RETURNS 0, d')"
    "downloading byte (unat addr) (unat len) d body es' d'"
    using image_loop_delivers [OF assms(1,2) slot downloading_start [OF slot] assms(12), of "drop h pkt"
        "int (length body)" d] assms(10,11) by auto
  then have "map (byte d') [unat addr..<unat addr + length body] = body"
    by (intro nth_equalityI) (auto simp: downloading_def)
  then show ?thesis using d'(1) by blast
qed

theorem ota_stores_image_witness:
  "\<exists>d'. http_rsp_image nor_device no_cbs True 0
       [Recv_data (sample_header @ [1, 2]), Recv_fail 10, Recv_data [3, 4]] (\<lambda>_. 0) = (RETURNS 0, d')
     \<and> map (id d') [unat (0x1EA000 :: u32)..<unat (0x1EA000 :: u32) + length [1::u8, 2, 3, 4]] = [1, 2, 3, 4]"
proof (rule ota_stores_image [OF nor_device_ok no_cbs_rep])
  show "image_slot 0 = (0x1EA000, 0x1E0000)" by (simp add: image_slot_def)
  show "http_body_len (received (sample_header @ [1, 2])) = Some (int (length [1::u8, 2, 3, 4]))"
    by (simp add: sample_parsed)
  show "[1, 2, 3, 4] = drop (length sample_header) (sample_header @ [1, 2]) @ [3, 4]" by simp
qed (simp_all add: sample_parsed RECBUFFER_LEN_def length_sample_header)

text \<open>
  C35: the amount asked of the socket is the announced length less what has arrived, as an
  unsigned number. When the first packet brings more than was announced it wraps around, and
  the next packet can overrun the receive buffer.
\<close>

theorem ota_short_length_overrun:
  assumes "nor_rom rom byte" and "list_rep (cb_next cbs) (raw_erase_cb_list cbs) xs"
    and "image_slot running_idx = (addr, len)" and "length pkt \<le> RECBUFFER_LEN"
    and "http_rsp_code (received pkt) = Some 200" and "http_hdr_len (received pkt) = Some (int h)"
    and "http_body_len (received pkt) = Some (int n)" and "n < length pkt - h"
    and "RECBUFFER_LEN < length bs"
  shows "\<exists>d'. http_rsp_image rom cbs True running_idx (Recv_data pkt # Recv_data bs # evs) d = (OVERRUN, d')"
proof -
  note slot = image_slot_ok [OF assms(3)]
  have size: "length pkt - h \<le> 1516" "1516 \<le> unat len"
    using assms(3,4) by (auto simp: RECBUFFER_LEN_def image_slot_def split: if_splits)
  have "http_rsp_image rom cbs True running_idx (Recv_data pkt # Recv_data bs # evs) d =
      image_loop rom cbs addr len (int n) (Recv_data bs # evs) (drop h pkt) 0 addr d"
    by (rule http_rsp_image_ok) (use assms size in auto)
  moreover have room: "length ([]::bytes) + length (drop h pkt) \<le> unat len" using size by simp
  moreover obtain es' d' where st: "chunk_step rom cbs addr len (drop h pkt) (int (length ([]::bytes))) addr d
      = Inr (int (length ([] @ drop h pkt)), es', d')"
    using chunk_step_ok [OF assms(1,2) slot downloading_start [OF slot] room] by blast
  moreover have "RECBUFFER_LEN < length (take (recv_size (int n - int (length pkt - h))) bs)"
    using recv_size_negative [of "int n - int (length pkt - h)"] assms(8,9) size by (auto simp: RECBUFFER_LEN_def)
  ultimately show ?thesis
    using image_loop_next [OF st, of "int n" "Recv_data bs" _ _ evs] assms(8)
    by (auto simp: recv_def simp del: image_loop.simps)
qed

theorem ota_short_length_overrun_witness:
  "\<exists>d'. http_rsp_image nor_device no_cbs True 0
       [Recv_data (sample_header @ [1, 2, 3, 4, 5]), Recv_data (replicate 2000 7)] (\<lambda>_. 0) = (OVERRUN, d')"
  using ota_short_length_overrun [OF nor_device_ok no_cbs_rep, of 0 "0x1EA000" "0x1E0000"
      "sample_header @ [1, 2, 3, 4, 5]" "length sample_header" 4 "replicate 2000 7" "[]" "\<lambda>_. 0"]
  by (simp add: sample_parsed image_slot_def RECBUFFER_LEN_def length_sample_header)

end
