(* ===== verification/Firmware_Update.thy ===== *)
theory Firmware_Update
  imports Ota
begin

text \<open>
  The update cycle of the device: the download task of \<^verbatim>\<open>MSDK/app/ota_demo.c\<close> and the boot
  loader of the theory \<open>Boot\<close> as one transition system. A step is a boot, a run of the
  download task, or a run that loses power between two updates of the image flags; power may
  be lost at any other moment as well, since a boot is possible in every state. Opening the
  connection and sending the request are parameters, their result codes.
\<close>

section \<open>Model\<close>

record ota_srv_cfg =
  host :: bytes
  port :: int
  sockfd :: int
  image_url :: bytes

text \<open>\<open>None\<close> is the null pointer.\<close>

definition ota_demo_cfg_init :: "bytes option \<Rightarrow> bytes option \<Rightarrow> ota_srv_cfg \<Rightarrow> int \<times> ota_srv_cfg" where
  "ota_demo_cfg_init srv_addr url cfg =
     (case (srv_addr, url) of
        (Some h, Some u) \<Rightarrow>
          if 16 \<le> length h \<or> 128 \<le> length u then (- 1, cfg)
          else (0, cfg\<lparr>port := 80, sockfd := - 1, host := h, image_url := u\<rparr>)
      | _ \<Rightarrow> (- 1, cfg))"

text \<open>The logical negation of C.\<close>

definition other :: "u8 \<Rightarrow> u8" where
  "other i = (if i = 0 then 1 else 0)"

definition flag_updates :: "u8 \<Rightarrow> (u8 \<times> u8 \<times> u8) list" where
  "flag_updates running_idx =
     [(running_idx, IMG_FLAG_IA_MASK OR IMG_FLAG_NEWER_MASK, IMG_FLAG_IA_OK OR IMG_FLAG_OLDER),
      (other running_idx, IMG_FLAG_IA_MASK OR IMG_FLAG_VERIFY_MASK OR IMG_FLAG_NEWER_MASK, 0),
      (other running_idx, IMG_FLAG_NEWER_MASK, IMG_FLAG_NEWER)]"

fun run_updates :: "('s, 'f) rom_boot \<Rightarrow> (u8 \<times> u8 \<times> u8) list \<Rightarrow> int \<times> 's \<Rightarrow> int \<times> 's" where
  "run_updates rom [] rs = rs"
| "run_updates rom ((i, m, x) # ups) (res, s) =
     (let (r, s') = rom_sys_set_img_flag rom i m x s in run_updates rom ups (res OR r, s'))"

text \<open>The end of the download, the flash and the system status after the task.\<close>

definition ota_demo_task ::
    "('s, 'f) rom_boot \<Rightarrow> 'f rom_flash \<Rightarrow> erase_cbs \<Rightarrow> int \<Rightarrow> int \<Rightarrow> bool \<Rightarrow> recv_event list \<Rightarrow> 'f \<Rightarrow> 's
       \<Rightarrow> ota_end \<times> 'f \<times> 's" where
  "ota_demo_task rom flash_rom cbs socket req mem evs f s =
     (let (res, running_idx) = rom_sys_status_get rom SYS_RUNNING_IMG IMAGE_0 s in
      if res < 0 then (RETURNS res, f, s)
      else if socket < 0 then (RETURNS socket, f, s)
      else if req \<noteq> 0 then (RETURNS req, f, s)
      else case http_rsp_image flash_rom cbs mem running_idx evs f of
          (RETURNS r, f') \<Rightarrow>
            if r < 0 then (RETURNS r, f', s)
            else let (res2, s') = run_updates rom (flag_updates running_idx) (0, s) in (RETURNS res2, f', s')
        | (e, f') \<Rightarrow> (e, f', s))"

record ('s, 'f) dev =
  status :: 's
  flash :: 'f
  runs :: "u8 option"

inductive dev_step ::
    "('s, 'f) rom_boot \<Rightarrow> 'f rom_flash \<Rightarrow> erase_cbs \<Rightarrow> u32 \<Rightarrow> ibl_state_t \<Rightarrow> ('s, 'f) dev \<Rightarrow> ('s, 'f) dev \<Rightarrow> bool"
  for rom :: "('s, 'f) rom_boot" and flash_rom :: "'f rom_flash" and cbs :: erase_cbs and off :: u32 and ibl :: ibl_state_t
where
  boot: "mbl_main rom off ibl ver0 (flash x) (status x) = (Jump i addr fmap, s') \<Longrightarrow>
    dev_step rom flash_rom cbs off ibl x \<lparr>status = s', flash = flash x, runs = Some i\<rparr>"
| boot_fails: "mbl_main rom off ibl ver0 (flash x) (status x) = (Boot_failed, s') \<Longrightarrow>
    dev_step rom flash_rom cbs off ibl x \<lparr>status = s', flash = flash x, runs = None\<rparr>"
| update: "runs x = Some r \<Longrightarrow>
    ota_demo_task rom flash_rom cbs socket req mem evs (flash x) (status x) = (res, f', s') \<Longrightarrow> res \<noteq> OVERRUN \<Longrightarrow>
    dev_step rom flash_rom cbs off ibl x \<lparr>status = s', flash = f', runs = Some r\<rparr>"
| update_cut: "runs x = Some r \<Longrightarrow> http_rsp_image flash_rom cbs mem r evs (flash x) = (RETURNS 0, f') \<Longrightarrow>
    s' = snd (run_updates rom (take n (flag_updates r)) (0, status x)) \<Longrightarrow>
    dev_step rom flash_rom cbs off ibl x \<lparr>status = s', flash = f', runs = None\<rparr>"

section \<open>The invariant\<close>

lemma other_simps [simp]: "other 0 = 1" "other 1 = 0" "other (other i) = 0 \<longleftrightarrow> i = 0" "other i \<noteq> i"
  by (auto simp: other_def)

text \<open>
  Image \<open>r\<close> is safe: it was verified and would be again, and either it alone is marked newer
  or it has every mark the loader asks of an older image.
\<close>

definition safe :: "(u8 \<Rightarrow> u8 option) \<Rightarrow> u8 \<Rightarrow> bool" where
  "safe fl r \<longleftrightarrow> (r = 0 \<or> r = 1) \<and> fl 0 \<noteq> None \<and>
     (\<exists>x. fl r = Some x \<and> x AND IMG_FLAG_VERIFY_MASK = IMG_FLAG_VERIFY_OK
        \<and> x AND IMG_FLAG_IA_MASK \<noteq> IMG_FLAG_IA_FAIL
        \<and> (if x AND IMG_FLAG_NEWER_MASK = IMG_FLAG_NEWER
           then \<forall>y. fl (other r) = Some y \<longrightarrow> y AND IMG_FLAG_NEWER_MASK \<noteq> IMG_FLAG_NEWER
           else x AND IMG_FLAG_IA_MASK = IMG_FLAG_IA_OK))"

lemma safe_cases:
  assumes "safe fl r"
  obtains (first) x where "r = 0" "fl 0 = Some x" "newer_usable x \<or> checked x"
      "x AND IMG_FLAG_NEWER_MASK = IMG_FLAG_NEWER \<longleftrightarrow> newer_usable x"
    | (second) x y where "r = 1" "fl 0 = Some y" "fl 1 = Some x" "newer_usable x \<or> checked x"
      "x AND IMG_FLAG_NEWER_MASK = IMG_FLAG_NEWER \<longleftrightarrow> newer_usable x"
      "newer_usable x \<Longrightarrow> y AND IMG_FLAG_NEWER_MASK \<noteq> IMG_FLAG_NEWER"
proof -
  obtain x where x: "fl r = Some x" "x AND 6 = 2" "x AND 0x18 \<noteq> 0x10"
    "if x AND 1 = 1 then \<forall>y. fl (other r) = Some y \<longrightarrow> y AND 1 \<noteq> 1 else x AND 0x18 = 8"
    and r: "r = 0 \<or> r = 1" "fl 0 \<noteq> None"
    using assms unfolding safe_def by blast
  have nu: "x AND 1 = 1 \<longleftrightarrow> newer_usable x" using x(2,3) by (simp add: newer_usable_def)
  have ch: "newer_usable x \<or> checked x"
    using x(2,4) nu by (cases "newer_usable x") (simp_all add: checked_def)
  show thesis
  proof (cases "r = 0")
    case True
    then show thesis using first x(1) nu ch by simp
  next
    case False
    then obtain y where "r = 1" "fl 0 = Some y" using r by auto
    then show thesis using second [of y x] x(1,4) nu ch by simp
  qed
qed

lemma newer_usable_newer: "newer_usable y \<Longrightarrow> y AND IMG_FLAG_NEWER_MASK = IMG_FLAG_NEWER"
  by (simp add: newer_usable_def)

lemma safe_choice:
  assumes "safe fl r"
  shows "choice_of (fl 0) (fl 1) = Inr r \<or>
    (choice_of (fl 0) (fl 1) = Inr (other r) \<and> (\<exists>y. fl (other r) = Some y \<and> (newer_usable y \<or> checked y))
      \<and> (\<exists>x. fl r = Some x \<and> checked x \<and> x AND IMG_FLAG_NEWER_MASK \<noteq> IMG_FLAG_NEWER))"
  using assms
proof (cases rule: safe_cases)
  case (first x)
  then show ?thesis by (cases "fl 1") (auto simp: choice_of_def)
next
  case (second x y)
  then show ?thesis using newer_usable_newer [of y] by (auto simp: choice_of_def)
qed

text \<open>What a boot leaves, when the verification of the chosen image succeeds and when it fails.\<close>

lemma safe_after_verified:
  assumes "safe fl r" and "choice_of (fl 0) (fl 1) = Inr i"
  shows "safe (fl(i := Some (set_masked (the (fl i)) 6 2))) i"
proof (cases "i = r")
  case True
  then show ?thesis using assms(1) by (fastforce simp: safe_def)
next
  case False
  then obtain x y where "i = other r" "fl i = Some y" "newer_usable y \<or> checked y" "fl r = Some x"
    "x AND 1 \<noteq> 1"
    using safe_choice [OF assms(1)] assms(2) by auto
  then show ?thesis
    using assms(1) by (auto simp: safe_def newer_usable_def checked_def)
qed

lemma safe_after_failed:
  assumes "safe fl r" and "choice_of (fl 0) (fl 1) = Inr i" and "i \<noteq> r"
  defines "fl' \<equiv> fl(i := Some (set_masked (the (fl i)) 6 4))"
  shows "safe fl' r" and "choice_of (fl' 0) (fl' 1) = Inr r"
proof -
  obtain x y where *: "i = other r" "fl i = Some y" "fl r = Some x" "checked x" "x AND 1 \<noteq> 1"
    using safe_choice [OF assms(1)] assms(2,3) by auto
  have r: "r = 0 \<or> r = 1" using assms(1) by (simp add: safe_def)
  show "safe fl' r"
    using assms(1) * by (auto simp: safe_def fl'_def checked_def)
  have "\<not> newer_usable x" using * by (simp add: newer_usable_def)
  then show "choice_of (fl' 0) (fl' 1) = Inr r"
    using * r by (auto simp: fl'_def choice_of_def)
qed

text \<open>The flag updates of a download, also when they stop early.\<close>

definition update_flags :: "(u8 \<Rightarrow> u8 option) \<Rightarrow> (u8 \<times> u8 \<times> u8) list \<Rightarrow> u8 \<Rightarrow> u8 option" where
  "update_flags fl ups =
     foldl (\<lambda>fl (i, m, x). fl(i := Some (set_masked (or_default (fl i)) m x))) fl ups"

lemma safe_marked_older:
  assumes "safe fl r" and "r \<noteq> o'"
  shows "safe (fl(r := Some (set_masked (the (fl r)) 0x19 8))) r"
    and "safe (fl(r := Some (set_masked (the (fl r)) 0x19 8), o' := Some y)) r"
  using assms by (auto simp: safe_def set_masked_same set_masked_other)

lemma safe_update_flags:
  assumes "safe fl r"
  shows "safe (update_flags fl (take n (flag_updates r))) r"
proof -
  obtain x where x: "fl r = Some x" using assms by (auto simp: safe_def)
  note older = safe_marked_older [OF assms other_simps(4) [symmetric]]
  consider "n = 0" | "n = 1" | "n = 2" | "3 \<le> n" by linarith
  then show ?thesis
    using assms older x by cases (simp_all add: update_flags_def flag_updates_def numeral_2_eq_2 fun_upd_twist)
qed

section \<open>The update cycle\<close>

text \<open>The slot of image \<open>i\<close> is the one a download writes while the other image runs.\<close>

definition in_slot :: "u8 \<Rightarrow> nat \<Rightarrow> bool" where
  "in_slot i a \<longleftrightarrow> (let (addr, len) = image_slot (other i) in unat addr \<le> a \<and> a < unat addr + unat len)"

lemma slots_disjoint:
  assumes "in_slot i a" and "i = 0 \<or> i = 1" and "image_slot i = (addr, len)"
  shows "a < unat addr \<or> unat addr + unat len \<le> a"
  using assms by (auto simp: in_slot_def image_slot_def)

locale update_cycle = image_status rom flag running counter
  for rom :: "('s, 'f) rom_boot" and flag :: "'s \<Rightarrow> u8 \<Rightarrow> u8 option" and running and counter +
  fixes flash_rom :: "'f rom_flash" and byte :: "'f \<Rightarrow> nat \<Rightarrow> u8" and cbs :: erase_cbs
    and off :: u32 and ibl :: ibl_state_t
  assumes nor: "nor_rom flash_rom byte"
    and callbacks: "\<exists>xs. list_rep (cb_next cbs) (raw_erase_cb_list cbs) xs"
    and secure: "secure_boot ibl"
    and own_slot: "i = 0 \<or> i = 1 \<Longrightarrow> (\<And>a. in_slot i a \<Longrightarrow> byte f a = byte f' a) \<Longrightarrow>
      image_of rom off ibl i f = image_of rom off ibl i f'"
begin

abbreviation (input) ok :: "'f \<Rightarrow> 's \<Rightarrow> u8 \<Rightarrow> bool" where
  "ok f s i \<equiv> image_good (counter s) (image_of rom off ibl i f)"

definition factory :: "('s, 'f) dev \<Rightarrow> bool" where
  "factory x \<longleftrightarrow> flag (status x) 0 = None \<and> flag (status x) 1 = None
     \<and> ok (flash x) (status x) 0 \<and> runs x = None"

definition dev_inv :: "('s, 'f) dev \<Rightarrow> bool" where
  "dev_inv x \<longleftrightarrow> factory x \<or>
     (\<exists>r. safe (flag (status x)) r \<and> ok (flash x) (status x) r
        \<and> (\<forall>i. runs x = Some i \<longrightarrow> i = r \<and> running (status x) = Some r))"

lemma download_keeps_image:
  assumes "r = 0 \<or> r = 1"
  shows "image_of rom off ibl r (snd (http_rsp_image flash_rom cbs mem r evs f)) = image_of rom off ibl r f"
proof (rule own_slot [OF assms])
  fix a
  assume "in_slot r a"
  obtain addr len where slot: "image_slot r = (addr, len)" by fastforce
  obtain xs where "list_rep (cb_next cbs) (raw_erase_cb_list cbs) xs" using callbacks by blast
  then show "byte (snd (http_rsp_image flash_rom cbs mem r evs f)) a = byte f a"
    using download_confined [OF nor _ slot slots_disjoint [OF \<open>in_slot r a\<close> assms slot]] by blast
qed

lemma run_updates_keep:
  assumes "list_all (\<lambda>(i, _, _). i = 0 \<or> i = 1) ups"
  shows "fst (run_updates rom ups (0, s)) = 0" "running (snd (run_updates rom ups (0, s))) = running s"
    "counter (snd (run_updates rom ups (0, s))) = counter s"
proof -
  have "fst (run_updates rom ups (0, s)) = 0 \<and> running (snd (run_updates rom ups (0, s))) = running s
     \<and> counter (snd (run_updates rom ups (0, s))) = counter s"
    using assms
  proof (induction ups arbitrary: s)
    case (Cons u ups)
    obtain i m x where u: "u = (i, m, x)" using prod_cases3 by blast
    obtain r t where t: "rom_sys_set_img_flag rom i m x s = (r, t)" by fastforce
    show ?case
      using Cons set_flag [of i m x s] by (simp add: u t)
  qed simp
  then show "fst (run_updates rom ups (0, s)) = 0" "running (snd (run_updates rom ups (0, s))) = running s"
    "counter (snd (run_updates rom ups (0, s))) = counter s" by blast+
qed

lemma run_updates_flags:
  "list_all (\<lambda>(i, _, _). i = 0 \<or> i = 1) ups \<Longrightarrow>
     flag (snd (run_updates rom ups (res, s))) = update_flags (flag s) ups"
proof (induction ups arbitrary: res s)
  case (Cons u ups)
  obtain i m x where u: "u = (i, m, x)" using prod_cases3 by blast
  obtain r t where t: "rom_sys_set_img_flag rom i m x s = (r, t)" by fastforce
  then have "flag t = (flag s)(i := Some (set_masked (or_default (flag s i)) m x))"
    using Cons.prems set_flag(2) [of i m x s] by (simp add: u)
  then show ?case using Cons by (simp add: u t update_flags_def)
qed (simp add: update_flags_def)

lemma updates_range: "r = 0 \<or> r = 1 \<Longrightarrow> list_all (\<lambda>(i, _, _). i = 0 \<or> i = 1) (take n (flag_updates r))"
  by (auto simp: list_all_iff flag_updates_def dest!: in_set_takeD)

lemma safe_updates:
  assumes "safe (flag s) r"
  shows "safe (flag (snd (run_updates rom (take n (flag_updates r)) (0, s)))) r"
    and "running (snd (run_updates rom (take n (flag_updates r)) (0, s))) = running s"
    and "counter (snd (run_updates rom (take n (flag_updates r)) (0, s))) = counter s"
proof -
  have "r = 0 \<or> r = 1" using assms by (simp add: safe_def)
  note range = updates_range [OF this, of n]
  show "safe (flag (snd (run_updates rom (take n (flag_updates r)) (0, s)))) r"
    unfolding run_updates_flags [OF range] by (rule safe_update_flags [OF assms])
  show "running (snd (run_updates rom (take n (flag_updates r)) (0, s))) = running s"
    "counter (snd (run_updates rom (take n (flag_updates r)) (0, s))) = counter s"
    by (rule run_updates_keep(2,3) [OF range])+
qed

text \<open>A boot keeps the invariant; when it fails, the next one succeeds.\<close>

lemma boot_factory:
  assumes "factory x"
  obtains s' where "mbl_main rom off ibl ver (flash x) (status x) = (Jump 0 (RE_FLASH_BASE + image_at off) (image_map 0), s')"
    "dev_inv \<lparr>status = s', flash = flash x, runs = Some 0\<rparr>"
proof -
  have fresh: "choice_of (flag (status x) 0) (flag (status x) 1) = Inr 0" "flag (status x) 0 = None"
      "flag (status x) 1 = None" "ok (flash x) (status x) 0"
    using assms by (simp_all add: factory_def choice_of_def)
  obtain s' where s': "mbl_main rom off ibl ver (flash x) (status x)
      = (Jump 0 (RE_FLASH_BASE + image_at off) (image_map 0), s')"
    "flag s' = (flag (status x))(0 := Some (set_masked 1 6 2))" "running s' = Some 0"
    "counter s' = snd (image_of rom off ibl 0 (flash x))"
    using boot_chosen [OF secure fresh(1), of off ver "flash x"] fresh
    by (auto simp: status_before_def)
  have "safe (flag s') 0" using fresh(3) by (auto simp: s'(2) safe_def)
  moreover have "ok (flash x) s' 0" using fresh(4) by (simp add: image_good_def s'(4))
  ultimately show thesis
    using that [OF s'(1)] s'(3) by (auto simp: dev_inv_def)
qed

lemma boot_safe:
  assumes "safe (flag s) r" and "ok f s r"
  obtains (runs) i s' where "mbl_main rom off ibl ver f s = (Jump i (RE_FLASH_BASE + image_at off) (image_map i), s')"
      "safe (flag s') i" "ok f s' i" "running s' = Some i"
    | (fails) s' where "mbl_main rom off ibl ver f s = (Boot_failed, s')" "safe (flag s') r" "ok f s' r"
      "choice_of (flag s' 0) (flag s' 1) = Inr r"
proof -
  obtain i where i: "choice_of (flag s 0) (flag s 1) = Inr i" and some: "flag s i \<noteq> None"
    using safe_choice [OF assms(1)] assms(1) by (auto simp: safe_def)
  have before: "status_before s i = the (flag s i)"
    using some by (auto simp: status_before_def)
  obtain s' where s': "mbl_main rom off ibl ver f s =
       (if ok f s i then Jump i (RE_FLASH_BASE + image_at off) (image_map i) else Boot_failed, s')"
    "flag s' = (flag s)(i := Some (set_masked (the (flag s i)) 6 (if ok f s i then 2 else 4)))"
    "running s' = (if ok f s i then Some i else running s)"
    "counter s' = (if ok f s i then snd (image_of rom off ibl i f) else counter s)"
    using boot_chosen [OF secure i, of off ver f] unfolding before by metis
  show thesis
  proof (cases "ok f s i")
    case True
    then show thesis
      using runs [of i s'] s' safe_after_verified [OF assms(1) i] by (simp add: image_good_def)
  next
    case False
    then have "i \<noteq> r" using assms(2) by auto
    then show thesis
      using fails [of s'] s' False assms(2) safe_after_failed [OF assms(1) i] by simp
  qed
qed

lemma dev_inv_boot:
  assumes "dev_inv x" and "mbl_main rom off ibl ver (flash x) (status x) = (out, s')"
  shows "dev_inv \<lparr>status = s', flash = flash x, runs = (case out of Jump i _ _ \<Rightarrow> Some i | Boot_failed \<Rightarrow> None)\<rparr>"
proof (cases "factory x")
  case True
  show ?thesis by (rule boot_factory [OF True, of ver]) (use assms(2) in simp)
next
  case False
  then obtain r where r: "safe (flag (status x)) r" "ok (flash x) (status x) r"
    using assms(1) by (auto simp: dev_inv_def)
  then show ?thesis
    by (cases rule: boot_safe [where ver = ver]) (use assms(2) in \<open>auto simp: dev_inv_def\<close>)
qed

lemma dev_inv_step:
  assumes "dev_step rom flash_rom cbs off ibl x y" and "dev_inv x"
  shows "dev_inv y"
  using assms
proof (induction rule: dev_step.induct)
  case (boot ver x i addr fmap s')
  then show ?case using dev_inv_boot [OF boot(2,1)] by simp
next
  case (boot_fails ver x s')
  then show ?case using dev_inv_boot [OF boot_fails(2,1)] by simp
next
  case (update x r socket req mem evs res f' s')
  then have inv: "safe (flag (status x)) r" "ok (flash x) (status x) r" "running (status x) = Some r"
    by (auto simp: dev_inv_def factory_def)
  have r: "r = 0 \<or> r = 1" using inv(1) by (simp add: safe_def)
  define upd where "upd = run_updates rom (flag_updates r) (0, status x)"
  have upd: "safe (flag (snd upd)) r" "running (snd upd) = Some r" "counter (snd upd) = counter (status x)"
    using safe_updates [OF inv(1), of 3] inv(3) by (simp_all add: upd_def flag_updates_def)
  have task: "(f' = flash x \<or> f' = snd (http_rsp_image flash_rom cbs mem r evs (flash x)))
      \<and> (s' = status x \<or> s' = snd upd)"
    using update(2) inv(3) get_running [of 0 "status x"]
    by (auto simp: ota_demo_task_def upd_def split: if_splits prod.splits ota_end.splits)
  then have "image_of rom off ibl r f' = image_of rom off ibl r (flash x)"
    using download_keeps_image [OF r] by auto
  then show ?case using task inv upd by (auto simp: dev_inv_def)
next
  case (update_cut x r mem evs f' s' n)
  then have inv: "safe (flag (status x)) r" "ok (flash x) (status x) r"
    by (auto simp: dev_inv_def factory_def)
  have r: "r = 0 \<or> r = 1" using inv(1) by (simp add: safe_def)
  have "image_of rom off ibl r f' = image_of rom off ibl r (flash x)"
    using download_keeps_image [OF r, of mem evs "flash x"] update_cut(2) by simp
  then show ?case
    using safe_updates [OF inv(1), of n] inv(2) update_cut(3) by (auto simp: dev_inv_def)
qed

lemma reachable_inv:
  "(dev_step rom flash_rom cbs off ibl)\<^sup>*\<^sup>* x y \<Longrightarrow> factory x \<Longrightarrow> dev_inv y"
  by (induction rule: rtranclp_induct) (auto simp: dev_inv_def [of x] intro: dev_inv_step)

lemma two_boots:
  assumes "dev_inv x" and "mbl_main rom off ibl ver (flash x) (status x) = (out, s')"
    and "mbl_main rom off ibl ver2 (flash x) s' = (out2, s2)"
  shows "out \<noteq> Boot_failed \<or> out2 \<noteq> Boot_failed"
proof (cases "factory x")
  case True
  show ?thesis by (rule boot_factory [OF True, of ver]) (use assms(2) in simp)
next
  case False
  then obtain r where r: "safe (flag (status x)) r" "ok (flash x) (status x) r"
    using assms(1) by (auto simp: dev_inv_def)
  then show ?thesis
  proof (cases rule: boot_safe [where ver = ver])
    case (fails t)
    then have t: "s' = t" using assms(2) by simp
    show ?thesis
      by (rule boot_chosen [OF secure fails(4), of off ver2 "flash x"]) (use fails(3) assms(3) t in auto)
  qed (use assms(2) in auto)
qed

end

interpretation area_cycle: update_cycle area_rom sa_flag sa_running sa_counter nor_device id no_cbs "0x1000" rom_boot_state
proof unfold_locales
  show "nor_rom nor_device id" by (rule nor_device_ok)
  show "\<exists>xs. list_rep (cb_next no_cbs) (raw_erase_cb_list no_cbs) xs" using no_cbs_rep by blast
  show "secure_boot rom_boot_state" by (rule secure_rom_boot_state)
  fix i :: u8 and f f' :: "nat \<Rightarrow> u8"
  assume i: "i = 0 \<or> i = 1" and same: "\<And>a. in_slot i a \<Longrightarrow> id f a = id f' a"
  have "in_slot 0 0xA000" "in_slot 0 (0xA000 + 1)" "in_slot 1 0x1EA000" "in_slot 1 (0x1EA000 + 1)"
    by (simp_all add: in_slot_def image_slot_def)
  then show "image_of area_rom 0x1000 rom_boot_state i f = image_of area_rom 0x1000 rom_boot_state i f'"
    using i same by (auto simp: image_of_def area_rom_def rom_boot_state_def slot_image_def image_map_def
        flash_offset_mapping_def Let_def)
qed

section \<open>Properties\<close>


definition factory_dev :: "(status_area, nat \<Rightarrow> u8) dev" where
  "factory_dev = \<lparr>status = factory_area, flash = good_flash, runs = None\<rparr>"


end
