(* ===== verification/Dfu.thy ===== *)
theory Dfu
  imports Firmware_Update
begin

text \<open>
  The firmware update over BLE, in a build with \<^verbatim>\<open>FEAT_SUPPORT_BLE_OTA\<close>: the server that receives an
  image (\<^verbatim>\<open>MSDK/ble/app/app_dfu_srv.c\<close> behind \<^verbatim>\<open>MSDK/ble/profile/ota/ble_ota_srv.c\<close>) and the client
  that sends the image in its second slot (\<^verbatim>\<open>app_dfu_cli.c\<close>, \<^verbatim>\<open>ble_ota_cli.c\<close>). The GATT layer, the
  SHA-256 of the ROM, the flash and the image flags are parameters. A timer is the time it was
  started with, or \<open>None\<close> while it is stopped.

  An event handler returns \<open>None\<close> when it accesses memory outside the object at hand, and when
  the walk over the erase callbacks does not end.
\<close>

section \<open>Commands\<close>

abbreviation (input) FLASH_WRITE_SIZE :: nat where "FLASH_WRITE_SIZE \<equiv> 4096"
abbreviation (input) BLE_TRANSMIT_SIZE :: nat where "BLE_TRANSMIT_SIZE \<equiv> 128"

abbreviation (input) DFU_MODE_BLE :: u8 where "DFU_MODE_BLE \<equiv> 0"

abbreviation (input) DFU_OPCODE_MODE :: u8 where "DFU_OPCODE_MODE \<equiv> 0"
abbreviation (input) DFU_OPCODE_IMAGE_SIZE :: u8 where "DFU_OPCODE_IMAGE_SIZE \<equiv> 1"
abbreviation (input) DFU_OPCODE_START_DFU :: u8 where "DFU_OPCODE_START_DFU \<equiv> 2"
abbreviation (input) DFU_OPCODE_VERIFICATION :: u8 where "DFU_OPCODE_VERIFICATION \<equiv> 3"
abbreviation (input) DFU_OPCODE_REBOOT :: u8 where "DFU_OPCODE_REBOOT \<equiv> 4"
abbreviation (input) DFU_OPCODE_RESET :: u8 where "DFU_OPCODE_RESET \<equiv> 5"

abbreviation (input) DFU_ERROR_NO_ERROR :: u8 where "DFU_ERROR_NO_ERROR \<equiv> 0"
abbreviation (input) DFU_ERROR_MEMORY_CAPA_EXCEED :: u8 where "DFU_ERROR_MEMORY_CAPA_EXCEED \<equiv> 1"
abbreviation (input) DFU_ERROR_HASH_ERROR :: u8 where "DFU_ERROR_HASH_ERROR \<equiv> 3"
abbreviation (input) DFU_ERROR_WRONG_LENGTH :: u8 where "DFU_ERROR_WRONG_LENGTH \<equiv> 4"
abbreviation (input) DFU_ERROR_TIMEOUT :: u8 where "DFU_ERROR_TIMEOUT \<equiv> 5"

text \<open>The length of a command and the time to wait after it, by opcode.\<close>

definition dfu_srv_cmd_cb :: "(nat \<times> u16) list" where
  "dfu_srv_cmd_cb = [(2, 10000), (5, 500), (1, 60000), (33, 500), (1, 500), (2, 500)]"

definition dfu_cli_cmd_cb :: "(nat \<times> u16) list" where
  "dfu_cli_cmd_cb = [(2, 10000), (5, 500), (1, 60000), (33, 500), (1, 500), (2, 500)]"

text \<open>\<open>sha_zero\<close> is a context whose memory was cleared.\<close>

record 'c sha256 =
  sha_zero :: 'c
  sha_init :: "'c \<Rightarrow> 'c"
  sha_starts :: "'c \<Rightarrow> 'c"
  sha_update :: "bytes \<Rightarrow> 'c \<Rightarrow> 'c"
  sha_finish :: "'c \<Rightarrow> bytes \<times> 'c"
  sha_free :: "'c \<Rightarrow> 'c"

section \<open>Server\<close>

datatype ble_dfu_srv_state_t =
    DFU_STATE_SRV_IDLE
  | DFU_STATE_SRV_MODE_GET
  | DFU_STATE_SRV_IMAGE_SIZE_GET
  | DFU_STATE_SRV_DFU_STARTED
  | DFU_STATE_SRV_DFU_FINISHED
  | DFU_STATE_SRV_VERIFICATION_PASS
  | DFU_STATE_SRV_WAIT_LAST_CMD
  | DFU_STATE_SRV_DISCONNECTING

text \<open>\<open>p_tem_buf\<close> is the buffer it points to; \<open>None\<close> is the null pointer or freed memory.\<close>

record 'c dfu_srv_env_t =
  srv_state :: ble_dfu_srv_state_t
  dfu_mode :: u8
  working_bank :: u8
  new_img_addr :: u32
  total_bank_size :: u32
  ota_img_size :: u32
  cur_offset :: u32
  temp_buf_used_size :: u16
  p_tem_buf :: "bytes option"
  erase_start_addr :: u32
  sha256_context :: 'c

text \<open>
  The server: its variables, the timer, the indications handed to the GATT server, whether the
  callbacks are registered, whether it asked for a disconnection, whether it restarted the
  device, the image flags and the flash.
\<close>

record ('c, 's, 'f) dfu_srv =
  dfu_srv_env :: "'c dfu_srv_env_t"
  dfu_srv_timer :: "u16 option"
  srv_tx :: "bytes list"
  srv_registered :: bool
  srv_closing :: bool
  srv_restarted :: bool
  srv_status :: 's
  srv_flash :: 'f

record ('c, 's, 'f) srv_io =
  srv_rom :: "('s, 'f) rom_boot"
  srv_flash_rom :: "'f rom_flash"
  srv_cbs :: erase_cbs
  srv_sha :: "'c sha256"

definition app_dfu_srv_state_set ::
    "ble_dfu_srv_state_t \<Rightarrow> ('c, 's, 'f) dfu_srv \<Rightarrow> ('c, 's, 'f) dfu_srv" where
  "app_dfu_srv_state_set st w = w\<lparr>dfu_srv_env := (dfu_srv_env w)\<lparr>srv_state := st\<rparr>\<rparr>"

definition app_dfu_srv_state_check :: "ble_dfu_srv_state_t \<Rightarrow> ('c, 's, 'f) dfu_srv \<Rightarrow> bool" where
  "app_dfu_srv_state_check st w \<longleftrightarrow> srv_state (dfu_srv_env w) = st"

definition app_dfu_srv_reset :: "('c, 's, 'f) srv_io \<Rightarrow> ('c, 's, 'f) dfu_srv \<Rightarrow> ('c, 's, 'f) dfu_srv" where
  "app_dfu_srv_reset io w = w\<lparr>
     dfu_srv_env := \<lparr>srv_state = DFU_STATE_SRV_IDLE, dfu_mode = 0, working_bank = 0, new_img_addr = 0,
       total_bank_size = 0, ota_img_size = 0, cur_offset = 0, temp_buf_used_size = 0, p_tem_buf = None,
       erase_start_addr = 0, sha256_context = sha_zero (srv_sha io)\<rparr>,
     dfu_srv_timer := None\<rparr>"

definition ble_ota_srv_tx :: "bytes \<Rightarrow> ('c, 's, 'f) dfu_srv \<Rightarrow> ('c, 's, 'f) dfu_srv" where
  "ble_ota_srv_tx bs w = w\<lparr>srv_tx := srv_tx w @ [bs]\<rparr>"

text \<open>The sector at \<open>erase_start_addr\<close> is erased, whatever the result, and the address moves on.\<close>

definition erase_ahead ::
    "('c, 's, 'f) srv_io \<Rightarrow> ('c, 's, 'f) dfu_srv \<Rightarrow> ('c, 's, 'f) dfu_srv option" where
  "erase_ahead io w =
     (let e = dfu_srv_env w in
      map_option (\<lambda>(ret, f, log). w\<lparr>srv_flash := f,
          dfu_srv_env := e\<lparr>erase_start_addr := erase_start_addr e + of_nat FLASH_WRITE_SIZE\<rparr>\<rparr>)
        (raw_flash_erase (srv_flash_rom io) (srv_cbs io) (erase_start_addr e) FLASH_WRITE_SIZE (srv_flash w)))"

definition buffer_data :: "bytes \<Rightarrow> 'c dfu_srv_env_t \<Rightarrow> 'c dfu_srv_env_t option" where
  "buffer_data bs e =
     (case p_tem_buf e of
        None \<Rightarrow> None
      | Some buf \<Rightarrow>
          if length buf < unat (temp_buf_used_size e) + length bs then None
          else Some (e\<lparr>p_tem_buf := Some (blit buf (unat (temp_buf_used_size e)) bs),
            temp_buf_used_size := temp_buf_used_size e + of_nat (length bs)\<rparr>))"

definition flush_buffer ::
    "('c, 's, 'f) srv_io \<Rightarrow> ('c, 's, 'f) dfu_srv \<Rightarrow> ('c, 's, 'f) dfu_srv option" where
  "flush_buffer io w =
     (let e = dfu_srv_env w;
          bs = take (unat (temp_buf_used_size e)) (the (p_tem_buf e));
          (ret, f) = raw_flash_write (srv_flash_rom io) (new_img_addr e + cur_offset e) bs (srv_flash w)
      in erase_ahead io (w\<lparr>srv_flash := f,
           dfu_srv_env := e\<lparr>sha256_context := sha_update (srv_sha io) bs (sha256_context e),
             cur_offset := cur_offset e + ucast (temp_buf_used_size e), temp_buf_used_size := 0\<rparr>\<rparr>))"

definition app_dfu_srv_data_cb ::
    "('c, 's, 'f) srv_io \<Rightarrow> bytes \<Rightarrow> ('c, 's, 'f) dfu_srv \<Rightarrow> ('c, 's, 'f) dfu_srv option" where
  "app_dfu_srv_data_cb io bs w =
     (if \<not> app_dfu_srv_state_check DFU_STATE_SRV_DFU_STARTED w then Some (app_dfu_srv_reset io w)
      else
        case buffer_data bs (dfu_srv_env w) of
          None \<Rightarrow> None
        | Some e \<Rightarrow>
            let w1 = w\<lparr>dfu_srv_env := e\<rparr> in
            case (if unat (temp_buf_used_size e) = FLASH_WRITE_SIZE
                     \<or> ucast (temp_buf_used_size e) + cur_offset e = ota_img_size e
                  then flush_buffer io w1 else Some w1) of
              None \<Rightarrow> None
            | Some w2 \<Rightarrow>
                Some (if cur_offset (dfu_srv_env w2) = ota_img_size (dfu_srv_env w2)
                      then app_dfu_srv_state_set DFU_STATE_SRV_DFU_FINISHED w2 else w2))"

text \<open>How a branch of the switch is left: by \<^verbatim>\<open>return\<close>, by \<^verbatim>\<open>break\<close> or by \<^verbatim>\<open>goto error\<close>.\<close>

datatype 'w exit = RETURN 'w | BREAK 'w | ERROR u8 'w

text \<open>The timer is started for the opcode and the next state is entered.\<close>

definition accept ::
    "u8 \<Rightarrow> ble_dfu_srv_state_t \<Rightarrow> ('c, 's, 'f) dfu_srv \<Rightarrow> ('c, 's, 'f) dfu_srv" where
  "accept opcode st w =
     app_dfu_srv_state_set st (w\<lparr>dfu_srv_timer := Some (snd (dfu_srv_cmd_cb ! unat opcode))\<rparr>)"

definition srv_mode ::
    "('c, 's, 'f) srv_io \<Rightarrow> u8 \<Rightarrow> ('c, 's, 'f) dfu_srv \<Rightarrow> ('c, 's, 'f) dfu_srv exit" where
  "srv_mode io mode w =
     (if \<not> app_dfu_srv_state_check DFU_STATE_SRV_IDLE w then RETURN w
      else if mode \<noteq> DFU_MODE_BLE then BREAK w
      else
        let e = dfu_srv_env w; sha = srv_sha io;
            (ret, bank) = rom_sys_status_get (srv_rom io) SYS_RUNNING_IMG (working_bank e) (srv_status w);
            (addr, sz) = (if bank \<noteq> 0 then (RE_IMG_0_OFFSET, RE_IMG_1_OFFSET - RE_IMG_0_OFFSET)
                            else (RE_IMG_1_OFFSET, RE_IMG_1_END - RE_IMG_1_OFFSET))
        in BREAK (accept DFU_OPCODE_MODE DFU_STATE_SRV_MODE_GET (w\<lparr>dfu_srv_env :=
             e\<lparr>dfu_mode := DFU_MODE_BLE, working_bank := bank, new_img_addr := addr, total_bank_size := sz,
               erase_start_addr := addr, sha256_context := sha_starts sha (sha_init sha (sha256_context e))\<rparr>\<rparr>)))"

definition srv_image_size ::
    "('c, 's, 'f) srv_io \<Rightarrow> u32 \<Rightarrow> ('c, 's, 'f) dfu_srv \<Rightarrow> ('c, 's, 'f) dfu_srv exit option" where
  "srv_image_size io sz w =
     (if \<not> app_dfu_srv_state_check DFU_STATE_SRV_MODE_GET w then Some (RETURN w)
      else map_option (\<lambda>w'. BREAK (accept DFU_OPCODE_IMAGE_SIZE DFU_STATE_SRV_IMAGE_SIZE_GET w'))
        (erase_ahead io (w\<lparr>dfu_srv_env := (dfu_srv_env w)\<lparr>ota_img_size := sz\<rparr>\<rparr>)))"

text \<open>\<open>mem\<close> is the memory the allocator returns.\<close>

definition srv_start ::
    "bytes option \<Rightarrow> ('c, 's, 'f) dfu_srv \<Rightarrow> ('c, 's, 'f) dfu_srv exit" where
  "srv_start mem w =
     (if \<not> app_dfu_srv_state_check DFU_STATE_SRV_IMAGE_SIZE_GET w then RETURN w
      else let w1 = w\<lparr>dfu_srv_env := (dfu_srv_env w)\<lparr>p_tem_buf := mem\<rparr>\<rparr>
           in if mem = None then ERROR DFU_ERROR_MEMORY_CAPA_EXCEED w1
              else BREAK (accept DFU_OPCODE_START_DFU DFU_STATE_SRV_DFU_STARTED w1))"

definition srv_verification ::
    "('c, 's, 'f) srv_io \<Rightarrow> bytes \<Rightarrow> ('c, 's, 'f) dfu_srv \<Rightarrow> ('c, 's, 'f) dfu_srv exit" where
  "srv_verification io hash w =
     (if \<not> app_dfu_srv_state_check DFU_STATE_SRV_DFU_FINISHED w then RETURN w
      else
        let e = dfu_srv_env w;
            (sha256_result, c) = sha_finish (srv_sha io) (sha256_context e);
            w1 = w\<lparr>dfu_srv_env := e\<lparr>sha256_context := sha_free (srv_sha io) c, p_tem_buf := None\<rparr>\<rparr>
        in if sha256_result \<noteq> hash then ERROR DFU_ERROR_HASH_ERROR w1
           else BREAK (accept DFU_OPCODE_VERIFICATION DFU_STATE_SRV_VERIFICATION_PASS w1))"

definition srv_reboot :: "('c, 's, 'f) dfu_srv \<Rightarrow> ('c, 's, 'f) dfu_srv exit" where
  "srv_reboot w =
     (if \<not> app_dfu_srv_state_check DFU_STATE_SRV_VERIFICATION_PASS w then RETURN w
      else BREAK (accept DFU_OPCODE_REBOOT DFU_STATE_SRV_WAIT_LAST_CMD w))"

definition srv_command ::
    "('c, 's, 'f) srv_io \<Rightarrow> bytes option \<Rightarrow> u8 \<Rightarrow> bytes \<Rightarrow> ('c, 's, 'f) dfu_srv
       \<Rightarrow> ('c, 's, 'f) dfu_srv exit option" where
  "srv_command io mem opcode ps w =
     (if opcode = DFU_OPCODE_MODE then Some (srv_mode io (ps ! 0) w)
      else if opcode = DFU_OPCODE_IMAGE_SIZE then srv_image_size io (le32 ps) w
      else if opcode = DFU_OPCODE_START_DFU then Some (srv_start mem w)
      else if opcode = DFU_OPCODE_VERIFICATION then Some (srv_verification io ps w)
      else if opcode = DFU_OPCODE_REBOOT then Some (srv_reboot w)
      else Some (RETURN (app_dfu_srv_reset io w)))"

definition app_dfu_srv_control_cb ::
    "('c, 's, 'f) srv_io \<Rightarrow> bytes option \<Rightarrow> bytes \<Rightarrow> ('c, 's, 'f) dfu_srv \<Rightarrow> ('c, 's, 'f) dfu_srv option" where
  "app_dfu_srv_control_cb io mem data w =
     (case data of
        [] \<Rightarrow> None
      | opcode # ps \<Rightarrow>
          let w1 = w\<lparr>dfu_srv_timer := None\<rparr> in
          if length dfu_srv_cmd_cb \<le> unat opcode then None
          else
            case (if length data \<noteq> fst (dfu_srv_cmd_cb ! unat opcode) then Some (ERROR DFU_ERROR_WRONG_LENGTH w1)
                  else srv_command io mem opcode ps w1) of
              None \<Rightarrow> None
            | Some (RETURN w2) \<Rightarrow> Some w2
            | Some (BREAK w2) \<Rightarrow> Some (ble_ota_srv_tx [opcode, DFU_ERROR_NO_ERROR] w2)
            | Some (ERROR code w2) \<Rightarrow> Some (app_dfu_srv_reset io (ble_ota_srv_tx [opcode, code] w2)))"

definition dfu_flag_updates :: "u8 \<Rightarrow> (u8 \<times> u8 \<times> u8) list" where
  "dfu_flag_updates bank =
     [(bank, IMG_FLAG_IA_MASK OR IMG_FLAG_NEWER_MASK, IMG_FLAG_IA_OK OR IMG_FLAG_OLDER),
      (other bank, IMG_FLAG_IA_MASK OR IMG_FLAG_VERIFY_MASK OR IMG_FLAG_NEWER_MASK, IMG_FLAG_NEWER)]"

definition app_dfu_srv_disconn_cb ::
    "('c, 's, 'f) srv_io \<Rightarrow> ('c, 's, 'f) dfu_srv \<Rightarrow> ('c, 's, 'f) dfu_srv" where
  "app_dfu_srv_disconn_cb io w =
     (if \<not> app_dfu_srv_state_check DFU_STATE_SRV_DISCONNECTING w then app_dfu_srv_reset io w
      else
        let (res, s) = run_updates (srv_rom io) (dfu_flag_updates (working_bank (dfu_srv_env w))) (0, srv_status w);
            w1 = w\<lparr>srv_status := s\<rparr>
        in if res \<noteq> 0 then app_dfu_srv_reset io w1 else w1\<lparr>srv_restarted := True\<rparr>)"

text \<open>\<open>ret\<close> is the result of \<^verbatim>\<open>ble_conn_disconnect\<close>.\<close>

definition app_dfu_srv_ind_cb :: "int \<Rightarrow> ('c, 's, 'f) dfu_srv \<Rightarrow> ('c, 's, 'f) dfu_srv" where
  "app_dfu_srv_ind_cb ret w =
     (if app_dfu_srv_state_check DFU_STATE_SRV_WAIT_LAST_CMD w
      then if ret \<noteq> 0 then w
           else app_dfu_srv_state_set DFU_STATE_SRV_DISCONNECTING (w\<lparr>srv_closing := True\<rparr>)
      else w)"

definition app_dfu_srv_ota_timer_timeout_cb :: "('c, 's, 'f) dfu_srv \<Rightarrow> ('c, 's, 'f) dfu_srv" where
  "app_dfu_srv_ota_timer_timeout_cb w =
     app_dfu_srv_state_set DFU_STATE_SRV_IDLE
       (ble_ota_srv_tx [DFU_OPCODE_RESET, DFU_ERROR_TIMEOUT] (w\<lparr>dfu_srv_timer := None\<rparr>))"

definition app_dfu_srv_init :: "('c, 's, 'f) srv_io \<Rightarrow> ('c, 's, 'f) dfu_srv \<Rightarrow> ('c, 's, 'f) dfu_srv" where
  "app_dfu_srv_init io w = app_dfu_srv_reset io (w\<lparr>srv_registered := True, dfu_srv_timer := None\<rparr>)"

definition app_dfu_srv_deinit :: "('c, 's, 'f) srv_io \<Rightarrow> ('c, 's, 'f) dfu_srv \<Rightarrow> ('c, 's, 'f) dfu_srv" where
  "app_dfu_srv_deinit io w = (app_dfu_srv_reset io w)\<lparr>srv_registered := False\<rparr>"

text \<open>
  The messages of the GATT server. A disconnection, the confirmation of an indication and a
  write reach the callbacks; the rest changes nothing here.
\<close>

datatype gatts_msg =
    SVC_ADD_RSP
  | SVC_RMV_RSP
  | CONN_STATE_CHANGE_IND bool
  | NTF_IND_SEND_RSP u8 int
  | WRITE_REQ u8 bytes
  | READ_REQ u8

abbreviation (input) BLE_OTA_SRV_IDX_DATA_VAL :: u8 where "BLE_OTA_SRV_IDX_DATA_VAL \<equiv> 2"
abbreviation (input) BLE_OTA_SRV_IDX_CONTROL_VAL :: u8 where "BLE_OTA_SRV_IDX_CONTROL_VAL \<equiv> 4"

fun ble_ota_srv_cb ::
    "('c, 's, 'f) srv_io \<Rightarrow> bytes option \<Rightarrow> gatts_msg \<Rightarrow> ('c, 's, 'f) dfu_srv \<Rightarrow> ('c, 's, 'f) dfu_srv option" where
  "ble_ota_srv_cb io mem (CONN_STATE_CHANGE_IND connected) w =
     (if \<not> connected \<and> srv_registered w then Some (app_dfu_srv_disconn_cb io w) else Some w)"
| "ble_ota_srv_cb io mem (NTF_IND_SEND_RSP att ret) w =
     (if att = BLE_OTA_SRV_IDX_CONTROL_VAL \<and> srv_registered w then Some (app_dfu_srv_ind_cb ret w) else Some w)"
| "ble_ota_srv_cb io mem (WRITE_REQ att bs) w =
     (if att = BLE_OTA_SRV_IDX_DATA_VAL
      then if srv_registered w then app_dfu_srv_data_cb io bs w else Some w
      else if att = BLE_OTA_SRV_IDX_CONTROL_VAL
      then if srv_registered w then app_dfu_srv_control_cb io mem bs w else Some w
      else Some w)"
| "ble_ota_srv_cb io mem _ w = Some w"

section \<open>Client\<close>

datatype ble_dfu_cli_state_t =
    DFU_STATE_CLI_IDLE
  | DFU_STATE_CLI_MODE_SET
  | DFU_STATE_CLI_IMAGE_SIZE_GET
  | DFU_STATE_CLI_DFU_STARTED
  | DFU_STATE_CLI_VERIFICATION
  | DFU_STATE_CLI_REBOOT

record 'c dfu_cli_env_t =
  cli_state :: ble_dfu_cli_state_t
  img_total_size :: u32
  cli_cur_offset :: u32
  cli_sha256_context :: 'c

text \<open>What the client hands to the GATT layer, in order.\<close>

datatype cli_write = Cmd bytes | Data bytes | Cccd

record ('c, 'f) dfu_cli =
  dfu_cli_env :: "'c dfu_cli_env_t"
  dfu_cli_timer :: "u16 option"
  cli_tx :: "cli_write list"
  cli_registered :: bool
  cli_flash :: 'f

text \<open>
  What is below the client: the flash and its offset register, SHA-256, the status of the search for
  a characteristic (by its number) and for the descriptor, of the two kinds of write, and of the request
  for connection parameters.
\<close>

record ('c, 'f) cli_io =
  cli_flash_rom :: "'f rom_flash"
  cli_ofvr :: u32
  cli_sha :: "'c sha256"
  gattc_find_char :: "u16 \<Rightarrow> int"
  gattc_find_desc :: int
  gattc_write_req :: int
  gattc_write_cmd :: int
  conn_param_update_req :: int

abbreviation (input) BLE_GATT_SVC_OTA_DATA_CHAR :: u16 where "BLE_GATT_SVC_OTA_DATA_CHAR \<equiv> 0xFF11"
abbreviation (input) BLE_GATT_SVC_OTA_CONTROL_CHAR :: u16 where "BLE_GATT_SVC_OTA_CONTROL_CHAR \<equiv> 0xFF22"

definition ble_ota_cli_write_cmd ::
    "('c, 'f) cli_io \<Rightarrow> bytes \<Rightarrow> ('c, 'f) dfu_cli \<Rightarrow> int \<times> ('c, 'f) dfu_cli" where
  "ble_ota_cli_write_cmd io bs w =
     (let st = gattc_find_char io BLE_GATT_SVC_OTA_CONTROL_CHAR in
      if st \<noteq> 0 then (st, w)
      else if gattc_write_req io \<noteq> 0 then (gattc_write_req io, w)
      else (0, w\<lparr>cli_tx := cli_tx w @ [Cmd bs]\<rparr>))"

definition ble_ota_cli_write_data ::
    "('c, 'f) cli_io \<Rightarrow> bytes \<Rightarrow> ('c, 'f) dfu_cli \<Rightarrow> int \<times> ('c, 'f) dfu_cli" where
  "ble_ota_cli_write_data io bs w =
     (let st = gattc_find_char io BLE_GATT_SVC_OTA_DATA_CHAR in
      if st \<noteq> 0 then (st, w)
      else if gattc_write_cmd io \<noteq> 0 then (gattc_write_cmd io, w)
      else (0, w\<lparr>cli_tx := cli_tx w @ [Data bs]\<rparr>))"

definition ble_ota_cli_write_cmd_cccd ::
    "('c, 'f) cli_io \<Rightarrow> ('c, 'f) dfu_cli \<Rightarrow> int \<times> ('c, 'f) dfu_cli" where
  "ble_ota_cli_write_cmd_cccd io w =
     (if gattc_find_desc io \<noteq> 0 then (gattc_find_desc io, w)
      else if gattc_write_req io \<noteq> 0 then (gattc_write_req io, w)
      else (0, w\<lparr>cli_tx := cli_tx w @ [Cccd]\<rparr>))"

definition app_dfu_cli_reset :: "('c, 'f) cli_io \<Rightarrow> ('c, 'f) dfu_cli \<Rightarrow> ('c, 'f) dfu_cli" where
  "app_dfu_cli_reset io w = w\<lparr>
     dfu_cli_env := \<lparr>cli_state = DFU_STATE_CLI_IDLE, img_total_size = 0, cli_cur_offset = 0,
       cli_sha256_context = sha_zero (cli_sha io)\<rparr>,
     dfu_cli_timer := None\<rparr>"

definition app_dfu_cli_state_set ::
    "ble_dfu_cli_state_t \<Rightarrow> ('c, 'f) dfu_cli \<Rightarrow> ('c, 'f) dfu_cli" where
  "app_dfu_cli_state_set st w = w\<lparr>dfu_cli_env := (dfu_cli_env w)\<lparr>cli_state := st\<rparr>\<rparr>"

definition app_dfu_cli_state_check :: "ble_dfu_cli_state_t \<Rightarrow> ('c, 'f) dfu_cli \<Rightarrow> bool" where
  "app_dfu_cli_state_check st w \<longleftrightarrow> cli_state (dfu_cli_env w) = st"

text \<open>The timer for the answered opcode and the next state; then the next command is written.\<close>

definition proceed ::
    "('c, 'f) cli_io \<Rightarrow> u8 \<Rightarrow> ble_dfu_cli_state_t \<Rightarrow> bytes \<Rightarrow> ('c, 'f) dfu_cli \<Rightarrow> ('c, 'f) dfu_cli" where
  "proceed io opcode st cmd w =
     snd (ble_ota_cli_write_cmd io cmd
       (app_dfu_cli_state_set st (w\<lparr>dfu_cli_timer := Some (snd (dfu_cli_cmd_cb ! unat opcode))\<rparr>)))"

text \<open>A piece of the image is read, hashed and written; a failed read leaves the zeros of the array.\<close>

definition send_piece ::
    "('c, 'f) cli_io \<Rightarrow> bytes \<Rightarrow> ('c, 'f) dfu_cli \<Rightarrow> ('c, 'f) dfu_cli" where
  "send_piece io data w =
     (let e = dfu_cli_env w;
          w1 = snd (ble_ota_cli_write_data io data
                 (w\<lparr>dfu_cli_env := e\<lparr>cli_sha256_context := sha_update (cli_sha io) data (cli_sha256_context e)\<rparr>\<rparr>))
      in w1\<lparr>dfu_cli_env := (dfu_cli_env w1)\<lparr>cli_cur_offset := cli_cur_offset e + of_nat (length data)\<rparr>\<rparr>)"

definition cli_read :: "('c, 'f) cli_io \<Rightarrow> nat \<Rightarrow> ('c, 'f) dfu_cli \<Rightarrow> bytes option" where
  "cli_read io len w =
     raw_flash_read (cli_flash_rom io) (cli_ofvr io) (RE_IMG_1_OFFSET + cli_cur_offset (dfu_cli_env w)) len (cli_flash w)"

definition app_dfu_cli_control_cb ::
    "('c, 'f) cli_io \<Rightarrow> bytes \<Rightarrow> ('c, 'f) dfu_cli \<Rightarrow> ('c, 'f) dfu_cli option" where
  "app_dfu_cli_control_cb io data w =
     (case data of
        opcode # result # _ \<Rightarrow> Some (
          let w1 = w\<lparr>dfu_cli_timer := None\<rparr> in
          if opcode \<noteq> DFU_OPCODE_RESET \<and> result \<noteq> DFU_ERROR_NO_ERROR then app_dfu_cli_reset io w1
          else if opcode = DFU_OPCODE_MODE then
            if \<not> app_dfu_cli_state_check DFU_STATE_CLI_MODE_SET w1 then w1
            else proceed io opcode DFU_STATE_CLI_IMAGE_SIZE_GET
                   (DFU_OPCODE_IMAGE_SIZE # le32_bytes (img_total_size (dfu_cli_env w1))) w1
          else if opcode = DFU_OPCODE_IMAGE_SIZE then
            if \<not> app_dfu_cli_state_check DFU_STATE_CLI_IMAGE_SIZE_GET w1 then w1
            else proceed io opcode DFU_STATE_CLI_DFU_STARTED [DFU_OPCODE_START_DFU] w1
          else if opcode = DFU_OPCODE_START_DFU then
            if \<not> app_dfu_cli_state_check DFU_STATE_CLI_DFU_STARTED w1 then w1
            else
              let w2 = send_piece io (case cli_read io BLE_TRANSMIT_SIZE w1 of
                         None \<Rightarrow> replicate BLE_TRANSMIT_SIZE 0 | Some bs \<Rightarrow> bs) w1
              in app_dfu_cli_state_set DFU_STATE_CLI_VERIFICATION
                   (w2\<lparr>dfu_cli_timer := Some (snd (dfu_cli_cmd_cb ! unat opcode))\<rparr>)
          else if opcode = DFU_OPCODE_VERIFICATION then
            if \<not> app_dfu_cli_state_check DFU_STATE_CLI_VERIFICATION w1 then w1
            else proceed io opcode DFU_STATE_CLI_REBOOT [DFU_OPCODE_REBOOT] w1
          else if opcode = DFU_OPCODE_REBOOT then
            if \<not> app_dfu_cli_state_check DFU_STATE_CLI_REBOOT w1 then w1
            else (app_dfu_cli_reset io w1)\<lparr>dfu_cli_timer := Some (snd (dfu_cli_cmd_cb ! unat opcode))\<rparr>
          else if opcode = DFU_OPCODE_RESET then app_dfu_cli_reset io w1
          else w1)
      | _ \<Rightarrow> None)"

definition app_dfu_cli_send_verification_cmd :: "('c, 'f) cli_io \<Rightarrow> ('c, 'f) dfu_cli \<Rightarrow> ('c, 'f) dfu_cli" where
  "app_dfu_cli_send_verification_cmd io w =
     (let (hash, c) = sha_finish (cli_sha io) (cli_sha256_context (dfu_cli_env w))
      in snd (ble_ota_cli_write_cmd io (DFU_OPCODE_VERIFICATION # hash)
           (w\<lparr>dfu_cli_env := (dfu_cli_env w)\<lparr>cli_sha256_context := sha_free (cli_sha io) c\<rparr>\<rparr>)))"

definition app_dfu_cli_data_tx_cb :: "('c, 'f) cli_io \<Rightarrow> ('c, 'f) dfu_cli \<Rightarrow> ('c, 'f) dfu_cli" where
  "app_dfu_cli_data_tx_cb io w =
     (let e = dfu_cli_env w;
          rest = img_total_size e - cli_cur_offset e;
          len = unat (ucast (if of_nat BLE_TRANSMIT_SIZE < rest then of_nat BLE_TRANSMIT_SIZE else rest) :: u16)
      in if \<not> app_dfu_cli_state_check DFU_STATE_CLI_VERIFICATION w then w
         else if len = 0 then w
         else case cli_read io len w of
             None \<Rightarrow> app_dfu_cli_reset io w
           | Some data \<Rightarrow>
               let w1 = send_piece io data w
               in if cli_cur_offset (dfu_cli_env w1) = img_total_size (dfu_cli_env w1)
                  then app_dfu_cli_send_verification_cmd io w1 else w1)"

definition app_dfu_cli_disconn_cb :: "('c, 'f) cli_io \<Rightarrow> ('c, 'f) dfu_cli \<Rightarrow> ('c, 'f) dfu_cli" where
  "app_dfu_cli_disconn_cb io w = app_dfu_cli_reset io w"

definition app_dfu_cli_ota_timer_timeout_cb :: "('c, 'f) cli_io \<Rightarrow> ('c, 'f) dfu_cli \<Rightarrow> ('c, 'f) dfu_cli" where
  "app_dfu_cli_ota_timer_timeout_cb io w =
     app_dfu_cli_state_set DFU_STATE_CLI_IDLE
       (snd (ble_ota_cli_write_cmd io [DFU_OPCODE_RESET, DFU_ERROR_TIMEOUT] (w\<lparr>dfu_cli_timer := None\<rparr>)))"

definition app_ble_dfu_start :: "('c, 'f) cli_io \<Rightarrow> u32 \<Rightarrow> ('c, 'f) dfu_cli \<Rightarrow> ('c, 'f) dfu_cli" where
  "app_ble_dfu_start io img_size w =
     (if \<not> app_dfu_cli_state_check DFU_STATE_CLI_IDLE w then w
      else
        let w1 = app_dfu_cli_reset io w;
            w2 = w1\<lparr>dfu_cli_env := (dfu_cli_env w1)\<lparr>img_total_size := img_size\<rparr>\<rparr>;
            (st, w3) = ble_ota_cli_write_cmd io [DFU_OPCODE_MODE, DFU_MODE_BLE] w2
        in if st \<noteq> 0 then w3
           else if conn_param_update_req io \<noteq> 0 then w3
           else
             let w4 = app_dfu_cli_state_set DFU_STATE_CLI_MODE_SET w3; sha = cli_sha io
             in w4\<lparr>dfu_cli_env := (dfu_cli_env w4)\<lparr>cli_sha256_context :=
                  sha_starts sha (sha_init sha (cli_sha256_context (dfu_cli_env w4)))\<rparr>\<rparr>)"

definition app_dfu_cli_init :: "('c, 'f) cli_io \<Rightarrow> ('c, 'f) dfu_cli \<Rightarrow> ('c, 'f) dfu_cli" where
  "app_dfu_cli_init io w = app_dfu_cli_reset io (w\<lparr>cli_registered := True, dfu_cli_timer := None\<rparr>)"

definition app_dfu_cli_deinit :: "('c, 'f) cli_io \<Rightarrow> ('c, 'f) dfu_cli \<Rightarrow> ('c, 'f) dfu_cli" where
  "app_dfu_cli_deinit io w = (app_dfu_cli_reset io w)\<lparr>cli_registered := False\<rparr>"

text \<open>The messages of the GATT client; the update of the MTU on connection is left to the stack.\<close>

datatype gattc_msg =
    CLI_CONN_STATE_CHANGE_IND bool
  | SVC_DISC_DONE_RSP
  | WRITE_RSP u16
  | NTF_IND_RCV u16 bytes

fun ble_ota_cli_cb ::
    "('c, 'f) cli_io \<Rightarrow> gattc_msg \<Rightarrow> ('c, 'f) dfu_cli \<Rightarrow> ('c, 'f) dfu_cli option" where
  "ble_ota_cli_cb io (CLI_CONN_STATE_CHANGE_IND connected) w =
     (if \<not> connected \<and> cli_registered w then Some (app_dfu_cli_disconn_cb io w) else Some w)"
| "ble_ota_cli_cb io SVC_DISC_DONE_RSP w = Some (snd (ble_ota_cli_write_cmd_cccd io w))"
| "ble_ota_cli_cb io (WRITE_RSP char) w =
     (if char = BLE_GATT_SVC_OTA_DATA_CHAR \<and> cli_registered w then Some (app_dfu_cli_data_tx_cb io w) else Some w)"
| "ble_ota_cli_cb io (NTF_IND_RCV char bs) w =
     (if char = BLE_GATT_SVC_OTA_CONTROL_CHAR \<and> cli_registered w then app_dfu_cli_control_cb io bs w else Some w)"

end
