(* ===== verification/Dfu_Server.thy ===== *)
theory Dfu_Server
  imports Dfu
begin

text \<open>
  The server of the update over BLE: what it does with the pieces of an image, and what a peer
  must have done before the image flags change.
\<close>

section \<open>What the parameters promise\<close>

text \<open>SHA-256 in pieces depends on the bytes only; a restarted context keeps nothing.\<close>

definition sha_ok :: "'c sha256 \<Rightarrow> bool" where
  "sha_ok sha \<longleftrightarrow>
     (\<forall>c c'. sha_starts sha (sha_init sha c) = sha_starts sha (sha_init sha c'))
   \<and> (\<forall>c. sha_update sha [] c = c)
   \<and> (\<forall>xs ys c. sha_update sha (xs @ ys) c = sha_update sha ys (sha_update sha xs c))
   \<and> (\<forall>c. length (fst (sha_finish sha c)) = 32)"

definition sha_fed :: "'c sha256 \<Rightarrow> bytes \<Rightarrow> 'c" where
  "sha_fed sha bs = sha_update sha bs (sha_starts sha (sha_init sha (sha_zero sha)))"

lemma sha_started: "sha_ok sha \<Longrightarrow> sha_starts sha (sha_init sha c) = sha_fed sha []"
  by (simp add: sha_ok_def sha_fed_def)

lemma sha_fed_more: "sha_ok sha \<Longrightarrow> sha_update sha ys (sha_fed sha xs) = sha_fed sha (xs @ ys)"
  by (simp add: sha_ok_def sha_fed_def)

definition io_ok :: "('c, 's, 'f) srv_io \<Rightarrow> ('f \<Rightarrow> nat \<Rightarrow> u8) \<Rightarrow> bool" where
  "io_ok io byte \<longleftrightarrow> nor_rom (srv_flash_rom io) byte \<and> sha_ok (srv_sha io)
     \<and> (\<exists>xs. list_rep (cb_next (srv_cbs io)) (raw_erase_cb_list (srv_cbs io)) xs)"

section \<open>Erasing ahead and writing a buffer\<close>

lemma erase_ahead_ok:
  assumes "io_ok io byte" and "4096 dvd unat (erase_start_addr (dfu_srv_env w))"
    and "unat (erase_start_addr (dfu_srv_env w)) + 4096 \<le> 0x400000"
  obtains f' where
    "erase_ahead io w = Some (w\<lparr>srv_flash := f', dfu_srv_env := (dfu_srv_env w)
       \<lparr>erase_start_addr := erase_start_addr (dfu_srv_env w) + 0x1000\<rparr>\<rparr>)"
    "\<And>a. byte f' a = (if unat (erase_start_addr (dfu_srv_env w)) \<le> a
       \<and> a < unat (erase_start_addr (dfu_srv_env w)) + 4096 then 0xFF else byte (srv_flash w) a)"
proof -
  obtain xs where io: "nor_rom (srv_flash_rom io) byte"
    "list_rep (cb_next (srv_cbs io)) (raw_erase_cb_list (srv_cbs io)) xs"
    using assms(1) by (auto simp: io_ok_def)
  obtain f' log where "raw_flash_erase (srv_flash_rom io) (srv_cbs io) (erase_start_addr (dfu_srv_env w)) 0x1000 (srv_flash w)
      = Some (0, f', log)"
    "\<And>a. byte f' a = (if unat (erase_start_addr (dfu_srv_env w)) \<le> a
       \<and> a < unat (erase_start_addr (dfu_srv_env w)) + 4096 then 0xFF else byte (srv_flash w) a)"
    using erase_page [OF io assms(2,3)] by metis
  then show thesis using that [of f'] by (simp add: erase_ahead_def Let_def)
qed

lemma flush_buffer_ok:
  fixes w :: "('c, 's, 'f) dfu_srv"
  defines "e \<equiv> dfu_srv_env w"
  assumes "io_ok io byte" and "downloading byte A T f0 acc (erase_start_addr e) (srv_flash w)"
    and "unat (erase_start_addr e) = A + length acc + 4096" "A + T \<le> 0x400000" "length acc + 8192 \<le> T"
    and "unat (new_img_addr e) = A" "unat (cur_offset e) = length acc"
    and "p_tem_buf e = Some buf" "bs = take (unat (temp_buf_used_size e)) buf" "bs \<noteq> []" "length bs \<le> 4096"
  obtains f' where
    "flush_buffer io w = Some (w\<lparr>srv_flash := f', dfu_srv_env := e
       \<lparr>sha256_context := sha_update (srv_sha io) bs (sha256_context e),
        cur_offset := cur_offset e + ucast (temp_buf_used_size e), temp_buf_used_size := 0,
        erase_start_addr := erase_start_addr e + 0x1000\<rparr>\<rparr>)"
    "downloading byte A T f0 (acc @ bs) (erase_start_addr e + 0x1000) f'"
    "unat (erase_start_addr e + 0x1000) = A + length acc + 8192"
proof -
  let ?es = "erase_start_addr e"
  have off: "unat (new_img_addr e + cur_offset e) = A + length acc"
    using assms(5-8) by (simp add: unat_word_ariths)
  have nor: "nor_rom (srv_flash_rom io) byte" using assms(2) by (simp add: io_ok_def)
  have fits: "unat (new_img_addr e + cur_offset e) + length bs \<le> 0x400000"
    using assms(5,6,12) unfolding off by linarith
  obtain f1 where f1: "raw_flash_write (srv_flash_rom io) (new_img_addr e + cur_offset e) bs (srv_flash w) = (0, f1)"
    "\<And>a. byte f1 a = (if A + length acc \<le> a \<and> a < A + length acc + length bs
       then byte (srv_flash w) a AND bs ! (a - (A + length acc)) else byte (srv_flash w) a)"
    using write_chunk [OF nor assms(11) fits, of "srv_flash w"] unfolding off by blast
  define w1 where "w1 = w\<lparr>srv_flash := f1, dfu_srv_env := e\<lparr>sha256_context := sha_update (srv_sha io) bs (sha256_context e),
      cur_offset := cur_offset e + ucast (temp_buf_used_size e), temp_buf_used_size := 0\<rparr>\<rparr>"
  have w1: "erase_start_addr (dfu_srv_env w1) = ?es" "srv_flash w1 = f1" by (simp_all add: w1_def)
  have es: "4096 dvd unat ?es" "unat ?es + 4096 \<le> 0x400000"
    using assms(3-6) by (auto simp: downloading_def)
  obtain f' where f': "erase_ahead io w1 = Some (w1\<lparr>srv_flash := f', dfu_srv_env := (dfu_srv_env w1)
       \<lparr>erase_start_addr := ?es + 0x1000\<rparr>\<rparr>)"
    "\<And>a. byte f' a = (if unat ?es \<le> a \<and> a < unat ?es + 4096 then 0xFF else byte f1 a)"
    using erase_ahead_ok [OF assms(2), of w1] es unfolding w1 by metis
  have next_es: "unat (?es + 0x1000) = A + length acc + 8192"
    using assms(4-6) by (simp add: unat_word_ariths)
  show thesis
  proof (rule that)
    show "flush_buffer io w = Some (w\<lparr>srv_flash := f', dfu_srv_env := e
       \<lparr>sha256_context := sha_update (srv_sha io) bs (sha256_context e),
        cur_offset := cur_offset e + ucast (temp_buf_used_size e), temp_buf_used_size := 0,
        erase_start_addr := ?es + 0x1000\<rparr>\<rparr>)"
      using f1(1) f'(1) assms(9,10) by (simp add: flush_buffer_def e_def w1_def Let_def)
    have "4096 dvd unat ?es + 4096" using es(1) by simp
    then have "4096 dvd unat (?es + 0x1000)" using assms(4) next_es by (simp add: ac_simps)
    then show "downloading byte A T f0 (acc @ bs) (?es + 0x1000) f'"
      using assms(3,4,6,12) unfolding downloading_def next_es
      by (auto simp: f'(2) f1(2) nth_append)
  qed (rule next_es)
qed

section \<open>Receiving an image\<close>

text \<open>
  The bytes \<open>got\<close> of an image of \<open>n\<close> bytes have arrived: whole sectors are in the flash at \<open>A\<close>, the rest is in
  the buffer, and one sector more is blank.
\<close>

definition stored :: "bytes \<Rightarrow> bytes" where
  "stored got = take (4096 * (length got div 4096)) got"

definition receiving ::
    "('c, 's, 'f) srv_io \<Rightarrow> ('f \<Rightarrow> nat \<Rightarrow> u8) \<Rightarrow> nat \<Rightarrow> nat \<Rightarrow> 'f \<Rightarrow> nat \<Rightarrow> bytes \<Rightarrow> ('c, 's, 'f) dfu_srv \<Rightarrow> bool" where
  "receiving io byte A T f0 n got w \<longleftrightarrow>
     (let e = dfu_srv_env w in
      srv_state e = DFU_STATE_SRV_DFU_STARTED \<and> length got < n
      \<and> unat (new_img_addr e) = A \<and> unat (ota_img_size e) = n
      \<and> unat (cur_offset e) = length (stored got) \<and> unat (temp_buf_used_size e) = length got mod 4096
      \<and> unat (erase_start_addr e) = A + length (stored got) + 4096
      \<and> (\<exists>buf. p_tem_buf e = Some buf \<and> length buf = 4096
           \<and> take (length got mod 4096) buf = drop (length (stored got)) got)
      \<and> sha256_context e = sha_fed (srv_sha io) (stored got)
      \<and> downloading byte A T f0 (stored got) (erase_start_addr e) (srv_flash w))"

definition received ::
    "('c, 's, 'f) srv_io \<Rightarrow> ('f \<Rightarrow> nat \<Rightarrow> u8) \<Rightarrow> nat \<Rightarrow> nat \<Rightarrow> 'f \<Rightarrow> bytes \<Rightarrow> ('c, 's, 'f) dfu_srv \<Rightarrow> bool" where
  "received io byte A T f0 img w \<longleftrightarrow>
     (let e = dfu_srv_env w in
      srv_state e = DFU_STATE_SRV_DFU_FINISHED
      \<and> sha256_context e = sha_fed (srv_sha io) img
      \<and> unat (erase_start_addr e) = A + T
      \<and> downloading byte A T f0 img (erase_start_addr e) (srv_flash w))"

text \<open>The sectors of an image of \<open>n\<close> bytes and the one behind them.\<close>

definition span :: "nat \<Rightarrow> nat" where
  "span n = 4096 * ((n + 4095) div 4096 + 1)"

text \<open>What the reception of data leaves alone.\<close>

definition frame :: "('c, 's, 'f) dfu_srv \<Rightarrow> bool \<times> bool \<times> bool \<times> 's \<times> u8" where
  "frame w = (srv_registered w, srv_closing w, srv_restarted w, srv_status w, working_bank (dfu_srv_env w))"

lemma stored_parts:
  "length (stored got) = 4096 * (length got div 4096)"
  "stored got @ drop (length (stored got)) got = got"
  "length got - length (stored got) = length got mod 4096"
  by (simp_all add: stored_def minus_mult_div_eq_mod)

lemma buffer_data_ok:
  assumes "receiving io byte A T f0 n got w" and "length got mod 4096 + length bs \<le> 4096"
  obtains buf where
    "buffer_data bs (dfu_srv_env w) = Some ((dfu_srv_env w)\<lparr>p_tem_buf := Some buf,
       temp_buf_used_size := temp_buf_used_size (dfu_srv_env w) + of_nat (length bs)\<rparr>)"
    "length buf = 4096" "take (length got mod 4096 + length bs) buf = drop (length (stored got)) got @ bs"
    "unat (temp_buf_used_size (dfu_srv_env w) + of_nat (length bs)) = length got mod 4096 + length bs"
proof -
  let ?e = "dfu_srv_env w"
  obtain buf where buf: "p_tem_buf ?e = Some buf" "length buf = 4096"
      "take (length got mod 4096) buf = drop (length (stored got)) got"
    and used: "unat (temp_buf_used_size ?e) = length got mod 4096"
    using assms(1) by (auto simp: receiving_def Let_def)
  have "take (length got mod 4096 + length bs) (blit buf (length got mod 4096) bs)
      = drop (length (stored got)) got @ bs"
    using buf(2,3) by (simp add: blit_def stored_parts(3))
  moreover have "unat (temp_buf_used_size ?e + of_nat (length bs)) = length got mod 4096 + length bs"
    using used assms(2) by (simp add: unat_word_ariths unat_of_nat take_bit_nat_eq_self)
  ultimately show thesis
    using that [of "blit buf (length got mod 4096) bs"] buf assms(2)
    by (simp add: buffer_data_def used length_blit)
qed

text \<open>One piece of data that does not cross the end of the buffer and of the image.\<close>

lemma stored_append:
  "length got mod 4096 + length bs < 4096 \<Longrightarrow> stored (got @ bs) = stored got"
  "length got mod 4096 + length bs = 4096 \<Longrightarrow> stored (got @ bs) = got @ bs"
proof -
  assume *: "length got mod 4096 + length bs < 4096"
  have "length (got @ bs) = 4096 * (length got div 4096) + (length got mod 4096 + length bs)" by simp
  then have "length (got @ bs) div 4096 = length got div 4096" using * by (simp only: div_mult_self4)
  then show "stored (got @ bs) = stored got" by (simp add: stored_def)
next
  assume *: "length got mod 4096 + length bs = 4096"
  have "length (got @ bs) = 4096 * (length got div 4096) + (length got mod 4096 + length bs)" by simp
  also have "\<dots> = 4096 * (length got div 4096 + 1)" unfolding * by simp
  finally show "stored (got @ bs) = got @ bs" by (simp add: stored_def)
qed

lemma span_bound: "k < n \<Longrightarrow> 4096 * (k div 4096) + 8192 \<le> span n"
proof -
  assume "k < n"
  then have "k div 4096 + 1 \<le> (n + 4095) div 4096" by (simp add: less_eq_div_iff_mult_less_eq) 
  then show ?thesis by (simp add: span_def)
qed

lemma span_last:
  assumes "k < n" and "n \<le> 4096 * (k div 4096) + 4096"
  shows "span n = 4096 * (k div 4096) + 8192"
proof -
  have "k div 4096 + 1 \<le> (n + 4095) div 4096" using assms(1) by (simp add: less_eq_div_iff_mult_less_eq)
  moreover have "(n + 4095) div 4096 < k div 4096 + 2" using assms(2) by (simp add: less_mult_imp_div_less)
  ultimately have "(n + 4095) div 4096 = k div 4096 + 1" by linarith
  then show ?thesis by (simp add: span_def)
qed

lemma data_buffered:
  assumes "receiving io byte A T f0 n got w" and "length got mod 4096 + length bs < 4096" and "length got + length bs < n"
  obtains w' where "app_dfu_srv_data_cb io bs w = Some w'" "frame w' = frame w" "srv_tx w' = srv_tx w"
    "receiving io byte A T f0 n (got @ bs) w'"
proof -
  let ?e = "dfu_srv_env w"
  obtain buf where buf: "buffer_data bs ?e = Some (?e\<lparr>p_tem_buf := Some buf,
       temp_buf_used_size := temp_buf_used_size ?e + of_nat (length bs)\<rparr>)"
    "length buf = 4096" "take (length got mod 4096 + length bs) buf = drop (length (stored got)) got @ bs"
    "unat (temp_buf_used_size ?e + of_nat (length bs)) = length got mod 4096 + length bs"
    using buffer_data_ok [OF assms(1), of bs] assms(2) by auto
  have e: "srv_state ?e = DFU_STATE_SRV_DFU_STARTED" "unat (cur_offset ?e) = length (stored got)"
      "unat (ota_img_size ?e) = n"
    using assms(1) by (simp_all add: receiving_def Let_def)
  have le: "length (stored got) + length got mod 4096 = length got" by (simp add: stored_parts(1))
  have "cur_offset ?e \<noteq> ota_img_size ?e" using e(2,3) le assms(3) by auto
  moreover have "ucast (temp_buf_used_size ?e + of_nat (length bs)) + cur_offset ?e \<noteq> ota_img_size ?e"
  proof
    assume "ucast (temp_buf_used_size ?e + of_nat (length bs)) + cur_offset ?e = ota_img_size ?e"
    then have "unat (ucast (temp_buf_used_size ?e + of_nat (length bs)) + cur_offset ?e) = n" using e(3) by simp
    moreover have "n < 4294967296" using e(3) unat_u32_lt by metis
    ultimately show False
      using buf(4) e(2) assms(2,3) le by (simp add: unat_word_ariths)
  qed
  ultimately have cb: "app_dfu_srv_data_cb io bs w = Some (w\<lparr>dfu_srv_env := ?e\<lparr>p_tem_buf := Some buf,
       temp_buf_used_size := temp_buf_used_size ?e + of_nat (length bs)\<rparr>\<rparr>)"
    using buf(1,4) e(1) assms(2)
    by (simp add: app_dfu_srv_data_cb_def app_dfu_srv_state_check_def)
  have "length (got @ bs) mod 4096 = (length got mod 4096 + length bs) mod 4096" by (simp add: mod_add_left_eq)
  then have md: "length (got @ bs) mod 4096 = length got mod 4096 + length bs" using assms(2) by simp
  show thesis
    by (rule that [OF cb]) (use assms buf(2-4) md stored_parts(1) [of got] in
      \<open>simp_all add: frame_def receiving_def Let_def stored_append(1)\<close>)
qed

lemma data_flushed:
  assumes "io_ok io byte" and "receiving io byte A (span n) f0 n got w" and "A + span n \<le> 0x400000" and "bs \<noteq> []"
    and "length got mod 4096 + length bs \<le> 4096" and "length got + length bs \<le> n"
    and "length got mod 4096 + length bs = 4096 \<or> length got + length bs = n"
  obtains w' where "app_dfu_srv_data_cb io bs w = Some w'" "frame w' = frame w" "srv_tx w' = srv_tx w"
    "if length got + length bs < n then receiving io byte A (span n) f0 n (got @ bs) w'
     else received io byte A (span n) f0 (got @ bs) w'"
proof -
  let ?e = "dfu_srv_env w"
  define used where "used = temp_buf_used_size ?e + of_nat (length bs)"
  obtain buf where buf: "buffer_data bs ?e = Some (?e\<lparr>p_tem_buf := Some buf, temp_buf_used_size := used\<rparr>)"
    "length buf = 4096" "take (length got mod 4096 + length bs) buf = drop (length (stored got)) got @ bs"
    "unat used = length got mod 4096 + length bs"
    using buffer_data_ok [OF assms(2,5)] by (auto simp: used_def)
  have e: "srv_state ?e = DFU_STATE_SRV_DFU_STARTED" "length got < n" "unat (new_img_addr ?e) = A" "unat (ota_img_size ?e) = n"
      "unat (cur_offset ?e) = length (stored got)" "unat (erase_start_addr ?e) = A + length (stored got) + 4096"
      "sha256_context ?e = sha_fed (srv_sha io) (stored got)"
      "downloading byte A (span n) f0 (stored got) (erase_start_addr ?e) (srv_flash w)"
    using assms(2) by (simp_all add: receiving_def Let_def)
  let ?w1 = "w\<lparr>dfu_srv_env := ?e\<lparr>p_tem_buf := Some buf, temp_buf_used_size := used\<rparr>\<rparr>"
  let ?bs = "drop (length (stored got)) got @ bs"
  have all: "stored got @ ?bs = got @ bs" using stored_parts(2) [of got] by simp
  have len: "length (stored got) + length got mod 4096 = length got" by (simp add: stored_parts(1))
  have room: "length (stored got) + 8192 \<le> span n" using span_bound [OF e(2)] by (simp add: stored_parts(1))
  have ctx: "sha_update (srv_sha io) ?bs (sha_fed (srv_sha io) (stored got)) = sha_fed (srv_sha io) (got @ bs)"
    using assms(1) sha_fed_more [of "srv_sha io" ?bs "stored got"] unfolding all by (simp add: io_ok_def)
  obtain f' where f': "flush_buffer io ?w1 = Some (w\<lparr>srv_flash := f', dfu_srv_env := ?e\<lparr>p_tem_buf := Some buf,
        sha256_context := sha_fed (srv_sha io) (got @ bs), cur_offset := cur_offset ?e + ucast used,
        temp_buf_used_size := 0, erase_start_addr := erase_start_addr ?e + 0x1000\<rparr>\<rparr>)"
    "downloading byte A (span n) f0 (got @ bs) (erase_start_addr ?e + 0x1000) f'"
    "unat (erase_start_addr ?e + 0x1000) = A + length (stored got) + 8192"
    using flush_buffer_ok [OF assms(1), of A "span n" f0 "stored got" ?w1 buf ?bs] e room assms(3-5) buf all
    by (auto simp: ctx stored_parts(3))
  have "n < 4294967296" using e(4) unat_u32_lt by metis
  then have off: "unat (cur_offset ?e + ucast used) = length (got @ bs)"
    using buf(4) e(5) assms(5,6) len by (simp add: unat_word_ariths)
  have flush: "unat used = 4096 \<or> ucast used + cur_offset ?e = ota_img_size ?e"
    using assms(7) buf(4) e(4) off by (auto simp: add.commute intro: word_unat_eq_iff [THEN iffD2])
  have fin: "cur_offset ?e + ucast used = ota_img_size ?e \<longleftrightarrow> length got + length bs = n"
    using off e(4) by (auto simp: word_unat_eq_iff)
  let ?w2 = "w\<lparr>srv_flash := f', dfu_srv_env := ?e\<lparr>p_tem_buf := Some buf,
        sha256_context := sha_fed (srv_sha io) (got @ bs), cur_offset := cur_offset ?e + ucast used,
        temp_buf_used_size := 0, erase_start_addr := erase_start_addr ?e + 0x1000\<rparr>\<rparr>"
  have cb: "app_dfu_srv_data_cb io bs w = Some (if length got + length bs = n
      then app_dfu_srv_state_set DFU_STATE_SRV_DFU_FINISHED ?w2 else ?w2)"
    using buf(1) f'(1) flush fin e(1)
    by (simp add: app_dfu_srv_data_cb_def app_dfu_srv_state_check_def)
  show thesis
  proof (cases "length got + length bs = n")
    case True
    have fits: "n \<le> 4096 * (length got div 4096) + 4096"
      using True assms(5) len unfolding stored_parts(1) by linarith
    have "unat (erase_start_addr ?e + 0x1000) = A + span n"
      using span_last [OF e(2) fits] f'(3) by (simp add: stored_parts(1))
    then show thesis
      using that [OF cb] True f'(2) by (simp add: frame_def received_def app_dfu_srv_state_set_def Let_def)
  next
    case False
    then have full: "length got mod 4096 + length bs = 4096" using assms(7) by blast
    then have "(length got + length bs) mod 4096 = 0" by (metis mod_add_left_eq mod_self)
    moreover have "unat (erase_start_addr ?e + 0x1000) = A + length (got @ bs) + 4096" using f'(3) full len by simp
    ultimately show thesis
      using that [OF cb] False assms(6) buf(2) e off f'(2) stored_append(2) [OF full]
      by (simp add: frame_def receiving_def Let_def)
  qed
qed

lemma data_step:
  assumes "io_ok io byte" and "receiving io byte A (span n) f0 n got w" and "A + span n \<le> 0x400000" and "bs \<noteq> []"
    and "length got mod 4096 + length bs \<le> 4096" and "length got + length bs \<le> n"
  obtains w' where "app_dfu_srv_data_cb io bs w = Some w'" "frame w' = frame w" "srv_tx w' = srv_tx w"
    "if length got + length bs < n then receiving io byte A (span n) f0 n (got @ bs) w'
     else received io byte A (span n) f0 (got @ bs) w'"
proof (cases "length got mod 4096 + length bs = 4096 \<or> length got + length bs = n")
  case True
  then show thesis using data_flushed [OF assms True] that by blast
next
  case False
  then show thesis using data_buffered [OF assms(2)] assms(5,6) that
    by (metis le_neq_implies_less)
qed

section \<open>Preparing\<close>

definition srv_idle :: "('c, 's, 'f) dfu_srv \<Rightarrow> bool" where
  "srv_idle w \<longleftrightarrow> (let e = dfu_srv_env w in
     srv_state e = DFU_STATE_SRV_IDLE \<and> cur_offset e = 0 \<and> temp_buf_used_size e = 0)"

text \<open>Bank \<open>b\<close> is running and the other slot, at \<open>A\<close>, will be written.\<close>

definition mode_set :: "('c, 's, 'f) srv_io \<Rightarrow> nat \<Rightarrow> ('c, 's, 'f) dfu_srv \<Rightarrow> bool" where
  "mode_set io A w \<longleftrightarrow> (let e = dfu_srv_env w in
     srv_state e = DFU_STATE_SRV_MODE_GET \<and> cur_offset e = 0 \<and> temp_buf_used_size e = 0
     \<and> unat (new_img_addr e) = A \<and> unat (erase_start_addr e) = A \<and> sha256_context e = sha_fed (srv_sha io) [])"

definition sized ::
    "('c, 's, 'f) srv_io \<Rightarrow> ('f \<Rightarrow> nat \<Rightarrow> u8) \<Rightarrow> nat \<Rightarrow> 'f \<Rightarrow> nat \<Rightarrow> ('c, 's, 'f) dfu_srv \<Rightarrow> bool" where
  "sized io byte A f0 n w \<longleftrightarrow> (let e = dfu_srv_env w in
     srv_state e = DFU_STATE_SRV_IMAGE_SIZE_GET \<and> cur_offset e = 0 \<and> temp_buf_used_size e = 0
     \<and> unat (new_img_addr e) = A \<and> unat (ota_img_size e) = n \<and> unat (erase_start_addr e) = A + 4096
     \<and> sha256_context e = sha_fed (srv_sha io) [] \<and> downloading byte A (span n) f0 [] (erase_start_addr e) (srv_flash w))"

lemmas command_simps = app_dfu_srv_control_cb_def srv_command_def dfu_srv_cmd_cb_def accept_def
  app_dfu_srv_state_check_def app_dfu_srv_state_set_def ble_ota_srv_tx_def

lemma mode_command:
  assumes "io_ok io byte" and "srv_idle w" and "image_slot b = (addr, len)"
    and "snd (rom_sys_status_get (srv_rom io) 5 (working_bank (dfu_srv_env w)) (srv_status w)) = b"
  obtains w' where "app_dfu_srv_control_cb io mem [0, 0] w = Some w'" "srv_tx w' = srv_tx w @ [[0, 0]]"
    "frame w' = (srv_registered w, srv_closing w, srv_restarted w, srv_status w, b)" "srv_flash w' = srv_flash w"
    "mode_set io (unat addr) w'"
proof -
  obtain r where r: "rom_sys_status_get (srv_rom io) 5 (working_bank (dfu_srv_env w)) (srv_status w) = (r, b)"
    using assms(4) by (metis prod.collapse)
  have sha: "sha_starts (srv_sha io) (sha_init (srv_sha io) c) = sha_fed (srv_sha io) []" for c
    using assms(1) by (intro sha_started) (simp add: io_ok_def)
  show thesis
    using that assms(2,3) r sha
    by (cases "b = 0") (simp_all add: command_simps srv_mode_def frame_def mode_set_def srv_idle_def image_slot_def Let_def)
qed

lemma size_command:
  assumes "io_ok io byte" and "mode_set io A w" and "4096 dvd A" and "A + span n \<le> 0x400000" and "n < 4294967296"
  obtains w' where "app_dfu_srv_control_cb io mem (1 # le32_bytes (of_nat n)) w = Some w'"
    "srv_tx w' = srv_tx w @ [[1, 0]]" "frame w' = frame w" "sized io byte A (srv_flash w) n w'"
proof -
  define w1 where "w1 = w\<lparr>dfu_srv_timer := None, dfu_srv_env := (dfu_srv_env w)\<lparr>ota_img_size := of_nat n\<rparr>\<rparr>"
  have w1: "erase_start_addr (dfu_srv_env w1) = erase_start_addr (dfu_srv_env w)" "srv_flash w1 = srv_flash w"
    by (simp_all add: w1_def)
  have es: "unat (erase_start_addr (dfu_srv_env w)) = A" "4096 \<le> span n"
    using assms(2) by (simp_all add: mode_set_def span_def Let_def)
  then have room: "A + 4096 \<le> 0x400000" using assms(4) by linarith
  obtain f' where f': "erase_ahead io w1 = Some (w1\<lparr>srv_flash := f', dfu_srv_env := (dfu_srv_env w1)
       \<lparr>erase_start_addr := erase_start_addr (dfu_srv_env w) + 0x1000\<rparr>\<rparr>)"
    "\<And>a. byte f' a = (if A \<le> a \<and> a < A + 4096 then 0xFF else byte (srv_flash w) a)"
    using erase_ahead_ok [OF assms(1), of w1] room assms(3) unfolding w1 es(1) by metis
  have next_es: "unat (erase_start_addr (dfu_srv_env w) + 0x1000) = A + 4096"
    using es assms(4) by (simp add: unat_word_ariths)
  have "downloading byte A (span n) (srv_flash w) [] (erase_start_addr (dfu_srv_env w) + 0x1000) f'"
    using es(2) assms(3) by (simp add: downloading_def next_es f'(2))
  then show thesis
    using that f'(1) [unfolded w1_def] assms(2,5) next_es
    by (simp add: command_simps srv_image_size_def sized_def mode_set_def frame_def Let_def unat_of_nat_u32)
qed

lemma start_command:
  assumes "sized io byte A f0 n w" and "length buf = 4096" and "0 < n"
  obtains w' where "app_dfu_srv_control_cb io (Some buf) [2] w = Some w'"
    "srv_tx w' = srv_tx w @ [[2, 0]]" "frame w' = frame w" "receiving io byte A (span n) f0 n [] w'"
  using that assms
  by (simp add: command_simps srv_start_def sized_def receiving_def stored_def frame_def Let_def)

lemma verification_command:
  assumes "io_ok io byte" and "received io byte A T f0 img w"
  obtains w' where
    "app_dfu_srv_control_cb io mem (3 # fst (sha_finish (srv_sha io) (sha_fed (srv_sha io) img))) w = Some w'"
    "srv_tx w' = srv_tx w @ [[3, 0]]" "frame w' = frame w" "srv_flash w' = srv_flash w"
    "srv_state (dfu_srv_env w') = DFU_STATE_SRV_VERIFICATION_PASS"
proof -
  obtain hash c where hash: "sha_finish (srv_sha io) (sha_fed (srv_sha io) img) = (hash, c)" by fastforce
  have "length (fst (sha_finish (srv_sha io) (sha_fed (srv_sha io) img))) = 32"
    using assms(1) by (simp add: io_ok_def sha_ok_def)
  then have "length hash = 32" by (simp add: hash)
  then show thesis
    using that assms(2) hash by (simp add: command_simps srv_verification_def received_def frame_def Let_def)
qed

lemma reboot_command:
  assumes "srv_state (dfu_srv_env w) = DFU_STATE_SRV_VERIFICATION_PASS"
  obtains w' where "app_dfu_srv_control_cb io mem [4] w = Some w'" "srv_tx w' = srv_tx w @ [[4, 0]]"
    "frame w' = frame w" "srv_flash w' = srv_flash w" "srv_state (dfu_srv_env w') = DFU_STATE_SRV_WAIT_LAST_CMD"
  using that assms by (simp add: command_simps srv_reboot_def frame_def)

section \<open>What a switch of images takes\<close>

datatype srv_event = Gatt "bytes option" gatts_msg | Timer_expired

fun srv_event_step ::
    "('c, 's, 'f) srv_io \<Rightarrow> srv_event \<Rightarrow> ('c, 's, 'f) dfu_srv \<Rightarrow> ('c, 's, 'f) dfu_srv option" where
  "srv_event_step io (Gatt mem m) w = ble_ota_srv_cb io mem m w"
| "srv_event_step io Timer_expired w =
     Some (if dfu_srv_timer w = None then w else app_dfu_srv_ota_timer_timeout_cb w)"

fun srv_run ::
    "('c, 's, 'f) srv_io \<Rightarrow> srv_event list \<Rightarrow> ('c, 's, 'f) dfu_srv \<Rightarrow> ('c, 's, 'f) dfu_srv option" where
  "srv_run io [] w = Some w"
| "srv_run io (ev # evs) w = (case srv_event_step io ev w of None \<Rightarrow> None | Some w' \<Rightarrow> srv_run io evs w')"

lemma srv_run_append:
  "srv_run io (xs @ ys) w = (case srv_run io xs w of None \<Rightarrow> None | Some w' \<Rightarrow> srv_run io ys w')"
  by (induction xs arbitrary: w) (simp_all split: option.splits)

definition late :: "('c, 's, 'f) dfu_srv \<Rightarrow> bool" where
  "late w \<longleftrightarrow> srv_state (dfu_srv_env w) \<in> {DFU_STATE_SRV_VERIFICATION_PASS, DFU_STATE_SRV_WAIT_LAST_CMD,
     DFU_STATE_SRV_DISCONNECTING}"

text \<open>The event is a verification command with the digest of what the server received.\<close>

definition verifies :: "('c, 's, 'f) srv_io \<Rightarrow> srv_event \<Rightarrow> ('c, 's, 'f) dfu_srv \<Rightarrow> bool" where
  "verifies io ev w \<longleftrightarrow> srv_state (dfu_srv_env w) = DFU_STATE_SRV_DFU_FINISHED \<and>
     (\<exists>mem. ev = Gatt mem (WRITE_REQ 4 (3 # fst (sha_finish (srv_sha io) (sha256_context (dfu_srv_env w))))))"

text \<open>What the switch depends on: the image flags and whether the device was restarted.\<close>

definition switch :: "('c, 's, 'f) dfu_srv \<Rightarrow> 's \<times> bool" where
  "switch w = (srv_status w, srv_restarted w)"

lemma reset_late [simp]: "\<not> late (app_dfu_srv_reset io w)" "switch (app_dfu_srv_reset io w) = switch w"
  by (simp_all add: late_def switch_def app_dfu_srv_reset_def)

lemma state_set_late [simp]:
  "late (app_dfu_srv_state_set st w) \<longleftrightarrow>
     st \<in> {DFU_STATE_SRV_VERIFICATION_PASS, DFU_STATE_SRV_WAIT_LAST_CMD, DFU_STATE_SRV_DISCONNECTING}"
  "switch (app_dfu_srv_state_set st w) = switch w"
  by (simp_all add: late_def switch_def app_dfu_srv_state_set_def)

lemma erase_ahead_keeps:
  "erase_ahead io w = Some w' \<Longrightarrow> (late w' \<longleftrightarrow> late w) \<and> switch w' = switch w"
  by (auto simp: erase_ahead_def late_def switch_def Let_def)

lemma flush_buffer_keeps:
  "flush_buffer io w = Some w' \<Longrightarrow> (late w' \<longleftrightarrow> late w) \<and> switch w' = switch w"
  by (auto simp: flush_buffer_def late_def switch_def Let_def dest!: erase_ahead_keeps split: prod.splits)

lemma data_cb_keeps:
  assumes "app_dfu_srv_data_cb io bs w = Some w'"
  shows "\<not> late w'" and "switch w' = switch w"
proof -
  have "\<not> late (w\<lparr>dfu_srv_env := e\<rparr>) \<and> switch (w\<lparr>dfu_srv_env := e\<rparr>) = switch w"
    if "buffer_data bs (dfu_srv_env w) = Some e" "srv_state (dfu_srv_env w) = DFU_STATE_SRV_DFU_STARTED" for e
    using that by (auto simp: buffer_data_def late_def switch_def split: option.splits if_splits)
  then have "\<not> late w' \<and> switch w' = switch w"
    using assms by (auto simp: app_dfu_srv_data_cb_def app_dfu_srv_state_check_def Let_def
        dest!: flush_buffer_keeps split: option.splits if_splits)
  then show "\<not> late w'" "switch w' = switch w" by simp_all
qed

fun exit_state :: "'w exit \<Rightarrow> 'w" where
  "exit_state (RETURN w) = w"
| "exit_state (BREAK w) = w"
| "exit_state (ERROR code w) = w"

lemma accept_late [simp]:
  "late (accept opcode st w) \<longleftrightarrow>
     st \<in> {DFU_STATE_SRV_VERIFICATION_PASS, DFU_STATE_SRV_WAIT_LAST_CMD, DFU_STATE_SRV_DISCONNECTING}"
  "switch (accept opcode st w) = switch w"
  by (simp_all add: accept_def) (simp add: switch_def)

lemma env_switch [simp]:
  "switch (w\<lparr>dfu_srv_env := e\<rparr>) = switch w" "switch (w\<lparr>dfu_srv_timer := t\<rparr>) = switch w"
  "switch (ble_ota_srv_tx bs w) = switch w" "late (ble_ota_srv_tx bs w) \<longleftrightarrow> late w"
  "late (w\<lparr>dfu_srv_timer := t\<rparr>) \<longleftrightarrow> late w"
  by (simp_all add: switch_def late_def ble_ota_srv_tx_def)

lemma command_keeps:
  assumes "srv_command io mem opcode ps w = Some x"
  shows "switch (exit_state x) = switch w"
    and "late (exit_state x) \<Longrightarrow> late w \<or> (opcode = 3 \<and> srv_state (dfu_srv_env w) = DFU_STATE_SRV_DFU_FINISHED
      \<and> ps = fst (sha_finish (srv_sha io) (sha256_context (dfu_srv_env w))))
      \<or> (\<exists>code y. x = ERROR code y)"
proof -
  have pass: "srv_state (dfu_srv_env w) = DFU_STATE_SRV_VERIFICATION_PASS \<Longrightarrow> late w" by (simp add: late_def)
  note unfold = srv_command_def srv_mode_def srv_image_size_def srv_start_def srv_verification_def srv_reboot_def
    app_dfu_srv_state_check_def Let_def
  show "switch (exit_state x) = switch w"
    using assms by (auto simp: unfold dest!: erase_ahead_keeps split: if_splits prod.splits)
  show "late w \<or> (opcode = 3 \<and> srv_state (dfu_srv_env w) = DFU_STATE_SRV_DFU_FINISHED
      \<and> ps = fst (sha_finish (srv_sha io) (sha256_context (dfu_srv_env w)))) \<or> (\<exists>code y. x = ERROR code y)"
    if "late (exit_state x)"
    using assms that pass by (auto simp: unfold split: if_splits prod.splits)
qed

lemma control_cb_keeps:
  assumes "app_dfu_srv_control_cb io mem data w = Some w'"
  shows "switch w' = switch w" and "late w' \<Longrightarrow> late w \<or> verifies io (Gatt mem (WRITE_REQ 4 data)) w"
proof -
  let ?w1 = "w\<lparr>dfu_srv_timer := None\<rparr>"
  obtain opcode ps where data: "data = opcode # ps"
    using assms by (auto simp: app_dfu_srv_control_cb_def split: list.splits)
  define c where "c = (if length data \<noteq> fst (dfu_srv_cmd_cb ! unat opcode) then Some (ERROR DFU_ERROR_WRONG_LENGTH ?w1)
     else srv_command io mem opcode ps ?w1)"
  have "(case c of None \<Rightarrow> None | Some (RETURN w2) \<Rightarrow> Some w2 | Some (BREAK w2) \<Rightarrow> Some (ble_ota_srv_tx [opcode, 0] w2)
      | Some (ERROR code w2) \<Rightarrow> Some (app_dfu_srv_reset io (ble_ota_srv_tx [opcode, code] w2))) = Some w'"
    using assms by (simp add: app_dfu_srv_control_cb_def data c_def Let_def split: if_splits)
  then obtain x where c: "c = Some x"
    and w': "w' = (case x of RETURN w2 \<Rightarrow> w2 | BREAK w2 \<Rightarrow> ble_ota_srv_tx [opcode, 0] w2
      | ERROR code w2 \<Rightarrow> app_dfu_srv_reset io (ble_ota_srv_tx [opcode, code] w2))"
    by (cases c) (auto split: exit.splits)
  then have x: "x = ERROR DFU_ERROR_WRONG_LENGTH ?w1 \<or> srv_command io mem opcode ps ?w1 = Some x"
    by (auto simp: c_def split: if_splits)
  have "switch (exit_state x) = switch w" using x command_keeps(1) by fastforce
  then show "switch w' = switch w" by (cases x) (simp_all add: w')
  show "late w \<or> verifies io (Gatt mem (WRITE_REQ 4 data)) w" if "late w'"
    using that x command_keeps(2) [of io mem opcode ps ?w1 x]
    by (auto simp: w' verifies_def data split: exit.splits)
qed

lemma event_keeps:
  assumes "srv_event_step io ev w = Some w'"
  shows "switch w' \<noteq> switch w \<Longrightarrow> late w" and "late w' \<Longrightarrow> late w \<or> verifies io ev w"
proof -
  have disconn: "switch (app_dfu_srv_disconn_cb io w) = switch w \<or> late w"
    "late (app_dfu_srv_disconn_cb io w) \<Longrightarrow> late w"
    by (auto simp: app_dfu_srv_disconn_cb_def app_dfu_srv_state_check_def late_def app_dfu_srv_reset_def switch_def
        split: prod.splits if_splits)
  have ind: "switch (app_dfu_srv_ind_cb ret w) = switch w" "late (app_dfu_srv_ind_cb ret w) \<Longrightarrow> late w" for ret
    by (auto simp: app_dfu_srv_ind_cb_def app_dfu_srv_state_check_def late_def switch_def app_dfu_srv_state_set_def
        split: if_splits)
  have "(switch w' \<noteq> switch w \<longrightarrow> late w) \<and> (late w' \<longrightarrow> late w \<or> verifies io ev w)"
  proof (cases ev)
    case (Gatt mem m)
    then show ?thesis using assms disconn ind
      by (cases m) (auto split: if_splits dest: data_cb_keeps control_cb_keeps)
  next
    case Timer_expired
    then show ?thesis using assms by (auto simp: app_dfu_srv_ota_timer_timeout_cb_def split: if_splits)
  qed
  then show "switch w' \<noteq> switch w \<Longrightarrow> late w" "late w' \<Longrightarrow> late w \<or> verifies io ev w" by auto
qed

lemma switch_verified:
  assumes "\<not> late w" and "srv_run io evs w = Some w'" and "late w' \<or> switch w' \<noteq> switch w"
  shows "\<exists>xs ev ys w1. evs = xs @ ev # ys \<and> srv_run io xs w = Some w1 \<and> verifies io ev w1"
  using assms(2,3)
proof (induction evs arbitrary: w' rule: rev_induct)
  case Nil
  then show ?case using assms(1) by simp
next
  case (snoc ev evs)
  obtain v where v: "srv_run io evs w = Some v" "srv_event_step io ev v = Some w'"
    using snoc.prems(1) by (auto simp: srv_run_append split: option.splits)
  then consider "late v \<or> switch v \<noteq> switch w" | "verifies io ev v"
    using event_keeps [OF v(2)] snoc.prems(2) by metis
  then show ?case
  proof cases
    case 1
    then show ?thesis using snoc.IH [OF v(1)] by fastforce
  qed (use v(1) in blast)
qed

section \<open>The buffer\<close>

lemma span_le: "n \<le> 4096 * k \<Longrightarrow> span n \<le> 4096 * (k + 1)"
proof -
  assume "n \<le> 4096 * k"
  then have "(n + 4095) div 4096 < k + 1" by (simp add: less_mult_imp_div_less)
  then show ?thesis by (simp add: span_def)
qed

lemma slot_span:
  assumes "image_slot b = (addr, len)" and "n \<le> unat len"
  shows "4096 dvd unat addr" "unat addr + span n \<le> 0x400000" "n < 4294967296"
  using assms span_le [of n "0x1E0"] by (auto simp: image_slot_def split: if_splits)

text \<open>The commands in front of the data.\<close>

definition preamble :: "bytes option \<Rightarrow> nat \<Rightarrow> srv_event list" where
  "preamble mem n = [Gatt mem (WRITE_REQ 4 [0, 0]), Gatt mem (WRITE_REQ 4 (1 # le32_bytes (of_nat n))),
     Gatt mem (WRITE_REQ 4 [2])]"

lemma preamble_run:
  assumes "io_ok io byte" and "srv_idle w" and "srv_registered w" and "length buf = 4096" and "0 < n" and "n \<le> 0x1E0000"
  obtains w' A where "srv_run io (preamble (Some buf) n) w = Some w'" "A + span n \<le> 0x400000" "srv_registered w'"
    "receiving io byte A (span n) (srv_flash w) n [] w'"
proof -
  define b where "b = snd (rom_sys_status_get (srv_rom io) 5 (working_bank (dfu_srv_env w)) (srv_status w))"
  obtain addr len where slot: "image_slot b = (addr, len)" by fastforce
  have "n \<le> unat len" using slot assms(6) by (auto simp: image_slot_def split: if_splits)
  note fits = slot_span [OF slot this]
  obtain w1 where w1: "app_dfu_srv_control_cb io (Some buf) [0, 0] w = Some w1"
    "frame w1 = (srv_registered w, srv_closing w, srv_restarted w, srv_status w, b)" "srv_flash w1 = srv_flash w"
    "mode_set io (unat addr) w1"
    using mode_command [OF assms(1,2) slot b_def [symmetric]] by metis
  obtain w2 where w2: "app_dfu_srv_control_cb io (Some buf) (1 # le32_bytes (of_nat n)) w1 = Some w2"
    "frame w2 = frame w1" "sized io byte (unat addr) (srv_flash w1) n w2"
    using size_command [OF assms(1) w1(4) fits] by metis
  obtain w3 where w3: "app_dfu_srv_control_cb io (Some buf) [2] w2 = Some w3"
    "frame w3 = frame w2" "receiving io byte (unat addr) (span n) (srv_flash w1) n [] w3"
    using start_command [OF w2(3) assms(4,5)] by metis
  have "srv_registered w1" "srv_registered w2" "srv_registered w3"
    using assms(3) w1(2) w2(2) w3(2) by (simp_all add: frame_def)
  then show thesis
    using that [of w3 "unat addr"] w1(1,3) w2(1) w3(1,3) fits(2) assms(3) by (simp add: preamble_def)
qed

lemma pieces_run:
  assumes "receiving io byte A T f0 n got w" and "srv_registered w" and "\<forall>x\<in>set xs. length x = p"
    and "length got + length xs * p < 4096" and "4096 < n"
  obtains w' where "srv_run io (map (\<lambda>x. Gatt mem (WRITE_REQ 2 x)) xs) w = Some w'" "srv_registered w'"
    "receiving io byte A T f0 n (got @ concat xs) w'"
proof -
  have "\<exists>w'. srv_run io (map (\<lambda>x. Gatt mem (WRITE_REQ 2 x)) xs) w = Some w' \<and> srv_registered w'
      \<and> receiving io byte A T f0 n (got @ concat xs) w'"
    using assms
  proof (induction xs arbitrary: got w)
    case (Cons x xs)
    have len: "length got + length x < 4096" "length got mod 4096 + length x < 4096" "length got + length x < n"
      using Cons.prems(3-5) by simp_all
    obtain w1 where w1: "app_dfu_srv_data_cb io x w = Some w1" "frame w1 = frame w"
      "receiving io byte A T f0 n (got @ x) w1"
      using data_buffered [OF Cons.prems(1) len(2,3)] by metis
    have "srv_registered w1" using w1(2) Cons.prems(2) by (simp add: frame_def)
    then show ?case
      using Cons.IH [OF w1(3)] Cons.prems w1(1) by simp
  qed simp
  then show thesis using that by blast
qed

lemma data_past_buffer:
  assumes "receiving io byte A T f0 n got w" and "4096 < length got mod 4096 + length bs"
  shows "app_dfu_srv_data_cb io bs w = None"
  using assms by (auto simp: receiving_def app_dfu_srv_data_cb_def app_dfu_srv_state_check_def buffer_data_def Let_def)

section \<open>A device\<close>

text \<open>A digest that keeps the bytes, and a server on a NOR flash.\<close>

definition tail_sha :: "bytes sha256" where
  "tail_sha = \<lparr>sha_zero = [], sha_init = (\<lambda>_. []), sha_starts = (\<lambda>_. []), sha_update = (\<lambda>bs c. c @ bs),
     sha_finish = (\<lambda>c. (take 32 (rev c @ replicate 32 0), c)), sha_free = (\<lambda>_. [])\<rparr>"

lemma tail_sha_ok: "sha_ok tail_sha"
  by (auto simp: sha_ok_def tail_sha_def min_def)

definition nor_srv_io :: "(bytes, status_area, nat \<Rightarrow> u8) srv_io" where
  "nor_srv_io = \<lparr>srv_rom = area_rom, srv_flash_rom = nor_device, srv_cbs = no_cbs, srv_sha = tail_sha\<rparr>"

definition running_area :: "u8 \<Rightarrow> status_area" where
  "running_area b = \<lparr>sa_flag = (\<lambda>_. None)(b := Some 3), sa_running = Some b, sa_counter = 1\<rparr>"

definition idle_srv :: "u8 \<Rightarrow> (bytes, status_area, nat \<Rightarrow> u8) dfu_srv" where
  "idle_srv b = app_dfu_srv_init nor_srv_io \<lparr>dfu_srv_env = undefined, dfu_srv_timer = None, srv_tx = [], srv_registered = False,
     srv_closing = False, srv_restarted = False, srv_status = running_area b, srv_flash = \<lambda>_. 0\<rparr>"

lemma idle_srv_simps [simp]: "srv_status (idle_srv b) = running_area b" "srv_flash (idle_srv b) = (\<lambda>_. 0)"
  by (simp_all add: idle_srv_def app_dfu_srv_init_def app_dfu_srv_reset_def)

lemma nor_srv_io_ok: "io_ok nor_srv_io id"
  using no_cbs_rep by (auto simp: io_ok_def nor_srv_io_def nor_device_ok tail_sha_ok)

lemma idle_srv_ready:
  "srv_idle (idle_srv b)" "srv_registered (idle_srv b)" "\<not> srv_closing (idle_srv b)" "\<not> srv_restarted (idle_srv b)"
  "srv_tx (idle_srv b) = []" "srv_state (dfu_srv_env (idle_srv b)) = DFU_STATE_SRV_IDLE"
  by (simp_all add: idle_srv_def app_dfu_srv_init_def app_dfu_srv_reset_def srv_idle_def)

section \<open>Properties\<close>


lemma one_byte_update:
  obtains evs w' where "srv_run nor_srv_io evs (idle_srv 0) = Some w'" "srv_restarted w'"
proof -
  let ?buf = "replicate 4096 0" let ?h = "fst (sha_finish tail_sha (sha_fed tail_sha [9]))"
  obtain w1 A where w1: "srv_run nor_srv_io (preamble (Some ?buf) 1) (idle_srv 0) = Some w1" "A + span 1 \<le> 0x400000" "srv_registered w1"
    "receiving nor_srv_io id A (span 1) (srv_flash (idle_srv 0)) 1 [] w1"
    using preamble_run [OF nor_srv_io_ok idle_srv_ready(1,2), of ?buf 1] by auto
  obtain w2 where w2: "app_dfu_srv_data_cb nor_srv_io [9] w1 = Some w2" "frame w2 = frame w1"
    "received nor_srv_io id A (span 1) (srv_flash (idle_srv 0)) [9] w2"
    using data_step [OF nor_srv_io_ok w1(4,2), of "[9]"] by auto
  obtain w3 where w3: "app_dfu_srv_control_cb nor_srv_io None (3 # ?h) w2 = Some w3" "frame w3 = frame w2"
    "srv_state (dfu_srv_env w3) = DFU_STATE_SRV_VERIFICATION_PASS"
    using verification_command [OF nor_srv_io_ok w2(3), where mem = None] by (auto simp: nor_srv_io_def)
  obtain w4 where w4: "app_dfu_srv_control_cb nor_srv_io None [4] w3 = Some w4" "frame w4 = frame w3"
    "srv_state (dfu_srv_env w4) = DFU_STATE_SRV_WAIT_LAST_CMD"
    using reboot_command [OF w3(3)] by metis
  define w5 where "w5 = app_dfu_srv_ind_cb 0 w4"
  have "srv_registered w5" "srv_state (dfu_srv_env w5) = DFU_STATE_SRV_DISCONNECTING"
    using w1(3) w2(2) w3(2) w4(2,3) by (simp_all add: w5_def frame_def app_dfu_srv_ind_cb_def app_dfu_srv_state_check_def app_dfu_srv_state_set_def)
  then have "srv_restarted (app_dfu_srv_disconn_cb nor_srv_io w5)"
    by (simp add: app_dfu_srv_disconn_cb_def app_dfu_srv_state_check_def dfu_flag_updates_def nor_srv_io_def area_rom_def)
  moreover have "srv_registered w2" "srv_registered w3" "srv_registered w4"
    using w1(3) w2(2) w3(2) w4(2) by (simp_all add: frame_def)
  ultimately show thesis
    using that [of "preamble (Some ?buf) 1 @ [Gatt None (WRITE_REQ 2 [9]), Gatt None (WRITE_REQ 4 (3 # ?h)), Gatt None (WRITE_REQ 4 [4]),
        Gatt None (NTF_IND_SEND_RSP 4 0), Gatt None (CONN_STATE_CHANGE_IND False)]"]
      w1(1,3) w2(1) w3(1) w4(1) \<open>srv_registered w5\<close>
    by (simp add: srv_run_append w5_def)
qed


text \<open>
  C36: a client that sends the image in pieces of a size that does not divide 4096 makes the server
  copy past the end of its buffer: the buffer is only written to the flash when it is exactly full.
\<close>

theorem dfu_piece_size_overruns:
  assumes "io_ok io byte" and "srv_idle w" and "srv_registered w" and "length buf = 4096"
    and "4096 < n" and "n \<le> 0x1E0000"
    and "0 < p" and "\<not> p dvd 4096" and "length xs = 4096 div p + 1" and "\<forall>x\<in>set xs. length x = p"
  shows "srv_run io (preamble (Some buf) n @ map (\<lambda>x. Gatt mem (WRITE_REQ 2 x)) xs) w = None"
proof -
  obtain w1 A where w1: "srv_run io (preamble (Some buf) n) w = Some w1" "srv_registered w1"
    "receiving io byte A (span n) (srv_flash w) n [] w1"
    using preamble_run [OF assms(1-4) _ assms(6)] assms(5) by (metis less_trans zero_less_numeral)
  obtain ys y where xs: "xs = ys @ [y]" using assms(9) by (cases xs rule: rev_cases) auto
  have ys: "length ys * p < 4096" "4096 < length ys * p + p"
  proof -
    have "length ys = 4096 div p" using assms(9) xs by simp
    then have "length ys * p + 4096 mod p = 4096" by (metis div_mult_mod_eq)
    moreover have "0 < 4096 mod p" "4096 mod p < p" using assms(7,8) by (simp_all add: mod_greater_zero_iff_not_dvd)
    ultimately show "length ys * p < 4096" "4096 < length ys * p + p" by linarith+
  qed
  obtain w2 where w2: "srv_run io (map (\<lambda>x. Gatt mem (WRITE_REQ 2 x)) ys) w1 = Some w2" "srv_registered w2"
    "receiving io byte A (span n) (srv_flash w) n (concat ys) w2"
    using pieces_run [OF w1(3,2), of ys p mem] assms(5,10) ys(1) xs by auto
  have "length (concat ys) = length ys * p" using assms(10) xs by (induction ys arbitrary: xs) auto
  then have "app_dfu_srv_data_cb io y w2 = None"
    using data_past_buffer [OF w2(3)] ys assms(10) xs by simp
  then show ?thesis using w1(1) w2(1,2) by (simp add: xs srv_run_append)
qed

theorem dfu_piece_size_overruns_witness:
  "srv_run nor_srv_io (preamble (Some (replicate 4096 0)) 8192
     @ map (\<lambda>x. Gatt None (WRITE_REQ 2 x)) (replicate 9 (replicate 500 0))) (idle_srv 0) = None"
  by (rule dfu_piece_size_overruns [OF nor_srv_io_ok idle_srv_ready(1,2)]) (simp_all add: dvd_eq_mod_eq_0)

end
