(* ===== verification/Dfu_Session.thy ===== *)
theory Dfu_Session
  imports Dfu_Server
begin

text \<open>
  A whole update over BLE: the client and the server of the theory \<open>Dfu\<close>, connected by a link that keeps
  the order of messages. The steps of the link are the deliveries; every interleaving of them is a
  run. The timers are those of an undisturbed session: they do not expire.
\<close>

section \<open>The link\<close>

datatype up_msg = Written cli_write | Confirmation

text \<open>\<open>up\<close> holds the messages on the way to the server, \<open>down\<close> the indications on the way to the client,
  \<open>unacked\<close> counts the pieces of data whose completion the client was not told yet.\<close>

record ('c, 's, 'f, 'g) dfu_sys =
  sys_cli :: "('c, 'g) dfu_cli"
  sys_srv :: "('c, 's, 'f) dfu_srv"
  up :: "up_msg list"
  down :: "bytes list"
  unacked :: nat

fun to_gatts :: "up_msg \<Rightarrow> gatts_msg" where
  "to_gatts (Written (Cmd bs)) = WRITE_REQ BLE_OTA_SRV_IDX_CONTROL_VAL bs"
| "to_gatts (Written (Data bs)) = WRITE_REQ BLE_OTA_SRV_IDX_DATA_VAL bs"
| "to_gatts (Written Cccd) = WRITE_REQ 5 [1, 0]"
| "to_gatts Confirmation = NTF_IND_SEND_RSP BLE_OTA_SRV_IDX_CONTROL_VAL 0"

fun is_data :: "cli_write \<Rightarrow> bool" where
  "is_data (Data bs) = True"
| "is_data _ = False"

definition from_cli :: "('c, 'g) dfu_cli \<Rightarrow> ('c, 's, 'f, 'g) dfu_sys \<Rightarrow> ('c, 's, 'f, 'g) dfu_sys" where
  "from_cli w y = y\<lparr>sys_cli := w\<lparr>cli_tx := []\<rparr>, up := up y @ map Written (cli_tx w),
     unacked := unacked y + length (filter is_data (cli_tx w))\<rparr>"

inductive dfu_step ::
    "('c, 's, 'f) srv_io \<Rightarrow> bytes option \<Rightarrow> ('c, 'g) cli_io \<Rightarrow> ('c, 's, 'f, 'g) dfu_sys \<Rightarrow> ('c, 's, 'f, 'g) dfu_sys \<Rightarrow> bool"
  for sio mem cio
where
  to_server: "up y = m # q \<Longrightarrow> ble_ota_srv_cb sio mem (to_gatts m) (sys_srv y) = Some w \<Longrightarrow>
    dfu_step sio mem cio y (y\<lparr>sys_srv := w\<lparr>srv_tx := []\<rparr>, up := q, down := down y @ srv_tx w\<rparr>)"
| to_client: "down y = bs # q \<Longrightarrow> ble_ota_cli_cb cio (NTF_IND_RCV BLE_GATT_SVC_OTA_CONTROL_CHAR bs) (sys_cli y) = Some w \<Longrightarrow>
    dfu_step sio mem cio y (from_cli w (y\<lparr>down := q, up := up y @ [Confirmation]\<rparr>))"
| written: "unacked y = Suc k \<Longrightarrow> ble_ota_cli_cb cio (WRITE_RSP BLE_GATT_SVC_OTA_DATA_CHAR) (sys_cli y) = Some w \<Longrightarrow>
    dfu_step sio mem cio y (from_cli w (y\<lparr>unacked := k\<rparr>))"
| closed: "srv_closing (sys_srv y) \<Longrightarrow> ble_ota_srv_cb sio mem (CONN_STATE_CHANGE_IND False) (sys_srv y) = Some w \<Longrightarrow>
    ble_ota_cli_cb cio (CLI_CONN_STATE_CHANGE_IND False) (sys_cli y) = Some v \<Longrightarrow>
    dfu_step sio mem cio y (y\<lparr>sys_srv := w\<lparr>srv_closing := False\<rparr>, sys_cli := v, up := [], down := [], unacked := 0\<rparr>)"



section \<open>The client\<close>

definition cli_ok :: "('c, 'g) cli_io \<Rightarrow> ('g \<Rightarrow> nat \<Rightarrow> u8) \<Rightarrow> bool" where
  "cli_ok cio gbyte \<longleftrightarrow> nor_rom (cli_flash_rom cio) gbyte \<and> sha_ok (cli_sha cio)
     \<and> (\<forall>c. gattc_find_char cio c = 0) \<and> gattc_write_req cio = 0 \<and> gattc_write_cmd cio = 0
     \<and> conn_param_update_req cio = 0"

text \<open>The image in the second slot of the client.\<close>

definition image_in :: "('g \<Rightarrow> nat \<Rightarrow> u8) \<Rightarrow> nat \<Rightarrow> 'g \<Rightarrow> bytes" where
  "image_in gbyte n g = map (gbyte g) [0x1EA000..<0x1EA000 + n]"

text \<open>The client has sent \<open>c\<close> bytes of the image.\<close>

definition cli_at ::
    "('c, 'g) cli_io \<Rightarrow> ('g \<Rightarrow> nat \<Rightarrow> u8) \<Rightarrow> bytes \<Rightarrow> ble_dfu_cli_state_t \<Rightarrow> nat \<Rightarrow> ('c, 'g) dfu_cli \<Rightarrow> bool" where
  "cli_at cio gbyte img st c w \<longleftrightarrow>
     (let e = dfu_cli_env w in
      cli_registered w \<and> cli_state e = st \<and> unat (img_total_size e) = length img \<and> unat (cli_cur_offset e) = c
      \<and> (c < length img \<longrightarrow> cli_sha256_context e = sha_fed (cli_sha cio) (take c img))
      \<and> image_in gbyte (length img) (cli_flash w) = img)"

lemmas cli_simps = app_dfu_cli_control_cb_def proceed_def app_dfu_cli_state_check_def app_dfu_cli_state_set_def
  ble_ota_cli_write_cmd_def ble_ota_cli_write_data_def dfu_cli_cmd_cb_def Let_def

lemma cli_read_ok:
  assumes "cli_ok cio gbyte" and "cli_at cio gbyte img st c w" and "c + k \<le> length img" and "0 < k" and "length img \<le> 0x1E0000"
  shows "cli_read cio k w = Some (take k (drop c img))"
proof -
  have c: "unat (cli_cur_offset (dfu_cli_env w)) = c" and img: "image_in gbyte (length img) (cli_flash w) = img"
    using assms(2) by (simp_all add: cli_at_def Let_def)
  have off: "unat (0x1EA000 + cli_cur_offset (dfu_cli_env w)) = 0x1EA000 + c"
    using c assms(3,5) by (simp add: unat_word_ariths)
  have "range_ok (0x1EA000 + cli_cur_offset (dfu_cli_env w)) k"
    using assms(3-5) range_ok_iff [of k] off by simp
  then have "cli_read cio k w = Some (map (gbyte (cli_flash w)) [0x1EA000 + c..<0x1EA000 + c + k])"
    using nor_read [of "cli_flash_rom cio" gbyte] assms(1,3,5) off
    by (simp add: cli_read_def raw_flash_read_def cli_ok_def word_gt_0)
  also have "map (gbyte (cli_flash w)) [0x1EA000 + c..<0x1EA000 + c + k] = take k (drop c img)"
    using assms(3) by (subst img [symmetric]) (simp add: image_in_def take_map drop_map)
  finally show ?thesis .
qed

lemma cli_start:
  assumes "cli_ok cio gbyte" and "cli_state (dfu_cli_env w) = DFU_STATE_CLI_IDLE" and "cli_registered w"
    and "image_in gbyte (length img) (cli_flash w) = img" and "length img < 4294967296"
  shows "cli_tx (app_ble_dfu_start cio (of_nat (length img)) w) = cli_tx w @ [Cmd [0, 0]]"
    and "cli_at cio gbyte img DFU_STATE_CLI_MODE_SET 0 (app_ble_dfu_start cio (of_nat (length img)) w)"
  using assms by (simp_all add: app_ble_dfu_start_def app_dfu_cli_reset_def cli_simps cli_ok_def cli_at_def
      sha_started unat_of_nat_u32)

lemma cli_mode_set:
  assumes "cli_ok cio gbyte" and "cli_at cio gbyte img DFU_STATE_CLI_MODE_SET 0 w" and "cli_tx w = []"
  obtains w' where "app_dfu_cli_control_cb cio [0, 0] w = Some w'"
    "cli_tx w' = [Cmd (1 # le32_bytes (of_nat (length img)))]" "cli_at cio gbyte img DFU_STATE_CLI_IMAGE_SIZE_GET 0 w'"
proof -
  have "unat (img_total_size (dfu_cli_env w)) = length img" using assms(2) by (simp add: cli_at_def Let_def)
  then have "img_total_size (dfu_cli_env w) = of_nat (length img)"
    using unat_u32_lt [of "img_total_size (dfu_cli_env w)"] by (simp add: word_unat_eq_iff unat_of_nat_u32)
  then show thesis using that assms by (simp add: cli_simps cli_ok_def cli_at_def)
qed

lemma cli_size_set:
  assumes "cli_ok cio gbyte" and "cli_at cio gbyte img DFU_STATE_CLI_IMAGE_SIZE_GET 0 w" and "cli_tx w = []"
  obtains w' where "app_dfu_cli_control_cb cio [1, 0] w = Some w'"
    "cli_tx w' = [Cmd [2]]" "cli_at cio gbyte img DFU_STATE_CLI_DFU_STARTED 0 w'"
  using that assms by (simp add: cli_simps cli_ok_def cli_at_def)

lemma cli_verified:
  assumes "cli_ok cio gbyte" and "cli_at cio gbyte img DFU_STATE_CLI_VERIFICATION (length img) w" and "cli_tx w = []"
  obtains w' where "app_dfu_cli_control_cb cio [3, 0] w = Some w'"
    "cli_tx w' = [Cmd [4]]" "cli_at cio gbyte img DFU_STATE_CLI_REBOOT (length img) w'"
  using that assms by (simp add: cli_simps cli_ok_def cli_at_def)

lemma cli_rebooting:
  assumes "cli_at cio gbyte img DFU_STATE_CLI_REBOOT (length img) w" and "cli_tx w = []"
  obtains w' where "app_dfu_cli_control_cb cio [4, 0] w = Some w'"
    "cli_tx w' = []" "cli_registered w'" "cli_state (dfu_cli_env w') = DFU_STATE_CLI_IDLE"
  using that assms by (simp add: cli_simps app_dfu_cli_reset_def cli_at_def)

text \<open>Piece \<open>i\<close> of the image; the first one is sent with the answer to the start command.\<close>

definition piece :: "bytes \<Rightarrow> nat \<Rightarrow> bytes" where
  "piece img i = take 128 (drop (128 * i) img)"

definition sent :: "bytes \<Rightarrow> nat \<Rightarrow> nat" where
  "sent img i = min (128 * i) (length img)"

lemma length_piece: "length (piece img i) = sent img (Suc i) - sent img i"
  by (simp add: piece_def sent_def)

lemma take_sent: "take (sent img (Suc i)) img = take (sent img i) img @ piece img i"
proof -
  have "take (sent img k) img = take (128 * k) img" for k by (simp add: sent_def min_def)
  then show ?thesis by (simp add: piece_def take_add add.commute [of 128])
qed

lemma send_piece_ok:
  assumes "cli_ok cio gbyte" and "cli_at cio gbyte img st (sent img i) w" and "cli_tx w = []" and "128 * i < length img"
    and "length img < 4294967296"
  shows "cli_tx (send_piece cio (piece img i) w) = [Data (piece img i)]"
    and "cli_at cio gbyte img st (sent img (Suc i)) (send_piece cio (piece img i) w)"
    and "cli_sha256_context (dfu_cli_env (send_piece cio (piece img i) w)) = sha_fed (cli_sha cio) (take (sent img (Suc i)) img)"
proof -
  have lt: "sent img i < length img" using assms(4) by (simp add: sent_def)
  have sum: "sent img i + length (piece img i) = sent img (Suc i)" by (simp add: length_piece sent_def)
  have ctx: "sha_update (cli_sha cio) (piece img i) (sha_fed (cli_sha cio) (take (sent img i) img))
      = sha_fed (cli_sha cio) (take (sent img (Suc i)) img)"
    using assms(1) by (simp add: take_sent sha_fed_more cli_ok_def)
  have cur: "unat (cli_cur_offset (dfu_cli_env w)) = sent img i"
      "cli_sha256_context (dfu_cli_env w) = sha_fed (cli_sha cio) (take (sent img i) img)"
    using assms(2) lt by (simp_all add: cli_at_def Let_def)
  have "sent img (Suc i) \<le> length img" by (simp add: sent_def)
  then have off: "unat (cli_cur_offset (dfu_cli_env w) + of_nat (length (piece img i))) = sent img (Suc i)"
    using cur(1) sum assms(5) by (simp add: unat_word_ariths unat_of_nat take_bit_nat_eq_self)
  show "cli_tx (send_piece cio (piece img i) w) = [Data (piece img i)]"
    "cli_at cio gbyte img st (sent img (Suc i)) (send_piece cio (piece img i) w)"
    "cli_sha256_context (dfu_cli_env (send_piece cio (piece img i) w)) = sha_fed (cli_sha cio) (take (sent img (Suc i)) img)"
    using assms(1-3) cur ctx off
    by (simp_all add: send_piece_def ble_ota_cli_write_data_def cli_ok_def cli_at_def Let_def)
qed

lemma cli_started:
  assumes "cli_ok cio gbyte" and "cli_at cio gbyte img DFU_STATE_CLI_DFU_STARTED 0 w" and "cli_tx w = []"
    and "128 < length img" and "length img \<le> 0x1E0000"
  obtains w' where "app_dfu_cli_control_cb cio [2, 0] w = Some w'"
    "cli_tx w' = [Data (piece img 0)]" "cli_at cio gbyte img DFU_STATE_CLI_VERIFICATION (sent img 1) w'"
proof -
  let ?w1 = "w\<lparr>dfu_cli_timer := None\<rparr>"
  have at: "cli_at cio gbyte img DFU_STATE_CLI_DFU_STARTED (sent img 0) ?w1" "cli_tx ?w1 = []"
    using assms(2,3) by (simp_all add: cli_at_def sent_def Let_def)
  have rd: "cli_read cio 128 ?w1 = Some (piece img 0)"
    using cli_read_ok [OF assms(1) at(1), of 128] assms(4,5) by (simp add: piece_def sent_def)
  have st: "cli_state (dfu_cli_env w) = DFU_STATE_CLI_DFU_STARTED" using assms(2) by (simp add: cli_at_def Let_def)
  have len: "128 * 0 < length img" "length img < 4294967296" using assms(4,5) by linarith+
  note sp = send_piece_ok [OF assms(1) at len]
  show thesis
    by (rule that [of "app_dfu_cli_state_set DFU_STATE_CLI_VERIFICATION
          ((send_piece cio (piece img 0) ?w1)\<lparr>dfu_cli_timer := Some 60000\<rparr>)"])
      (use rd st sp assms(4,5) in \<open>simp_all add: app_dfu_cli_control_cb_def app_dfu_cli_state_check_def
         app_dfu_cli_state_set_def dfu_cli_cmd_cb_def cli_at_def Let_def\<close>)
qed

lemma cli_next_piece:
  assumes "cli_ok cio gbyte" and "cli_at cio gbyte img DFU_STATE_CLI_VERIFICATION (sent img i) w" and "cli_tx w = []"
    and "128 * i < length img" and "length img \<le> 0x1E0000"
  defines "w' \<equiv> app_dfu_cli_data_tx_cb cio w"
  shows "cli_tx w' = Data (piece img i) # (if length img \<le> 128 * Suc i
      then [Cmd (3 # fst (sha_finish (cli_sha cio) (sha_fed (cli_sha cio) img)))] else [])"
    and "cli_at cio gbyte img DFU_STATE_CLI_VERIFICATION (sent img (Suc i)) w'"
proof -
  let ?e = "dfu_cli_env w"
  have e: "unat (img_total_size ?e) = length img" "unat (cli_cur_offset ?e) = 128 * i"
      "cli_state ?e = DFU_STATE_CLI_VERIFICATION"
    using assms(2,4) by (simp_all add: cli_at_def sent_def Let_def)
  have rest: "unat (img_total_size ?e - cli_cur_offset ?e) = length img - 128 * i"
    using e assms(4) by (simp add: unat_sub word_le_nat_alt)
  have len: "unat (ucast (if of_nat 128 < img_total_size ?e - cli_cur_offset ?e then of_nat 128
      else img_total_size ?e - cli_cur_offset ?e) :: u16) = length (piece img i)"
    using rest by (auto simp: length_piece sent_def word_less_nat_alt unsigned_ucast_eq take_bit_nat_eq_self)
  have pos: "0 < length (piece img i)" using assms(4) by (simp add: length_piece sent_def)
  have rd: "cli_read cio (length (piece img i)) w = Some (piece img i)"
    using cli_read_ok [OF assms(1,2) _ pos assms(5)] assms(4)
    by (simp add: length_piece sent_def piece_def) (simp add: min_def)
  have small: "length img < 4294967296" using assms(5) by simp
  note sp = send_piece_ok [OF assms(1-4) small]
  let ?w1 = "send_piece cio (piece img i) w"
  have fin: "cli_cur_offset (dfu_cli_env ?w1) = img_total_size (dfu_cli_env ?w1) \<longleftrightarrow> length img \<le> 128 * Suc i"
    using sp(2) by (auto simp: cli_at_def Let_def sent_def word_unat_eq_iff)
  have w': "w' = (if length img \<le> 128 * Suc i then app_dfu_cli_send_verification_cmd cio ?w1 else ?w1)"
    using rd e(3) fin pos unfolding w'_def app_dfu_cli_data_tx_cb_def Let_def len
    by (simp add: app_dfu_cli_state_check_def)
  show "cli_tx w' = Data (piece img i) # (if length img \<le> 128 * Suc i
      then [Cmd (3 # fst (sha_finish (cli_sha cio) (sha_fed (cli_sha cio) img)))] else [])"
    using sp(1,3) assms(1) by (auto simp: w' app_dfu_cli_send_verification_cmd_def ble_ota_cli_write_cmd_def cli_ok_def
        sent_def Let_def split: prod.splits)
  show "cli_at cio gbyte img DFU_STATE_CLI_VERIFICATION (sent img (Suc i)) w'"
    using sp(2) assms(1) by (auto simp: w' app_dfu_cli_send_verification_cmd_def ble_ota_cli_write_cmd_def cli_ok_def
        cli_at_def sent_def Let_def split: prod.splits)
qed

text \<open>Nothing is sent when the image is through or the session has moved on.\<close>

lemma cli_no_more:
  assumes "cli_state (dfu_cli_env w) \<noteq> DFU_STATE_CLI_VERIFICATION \<or> cli_cur_offset (dfu_cli_env w) = img_total_size (dfu_cli_env w)"
  shows "app_dfu_cli_data_tx_cb cio w = w"
  using assms by (auto simp: app_dfu_cli_data_tx_cb_def app_dfu_cli_state_check_def Let_def)

section \<open>The phases of an update\<close>

lemma drained [simp]:
  "srv_idle (w\<lparr>srv_tx := t\<rparr>) = srv_idle w" "mode_set io A (w\<lparr>srv_tx := t\<rparr>) = mode_set io A w"
  "sized io byte A f n (w\<lparr>srv_tx := t\<rparr>) = sized io byte A f n w"
  "receiving io byte A T f n got (w\<lparr>srv_tx := t\<rparr>) = receiving io byte A T f n got w"
  "received io byte A T f img (w\<lparr>srv_tx := t\<rparr>) = received io byte A T f img w"
  "frame (w\<lparr>srv_tx := t\<rparr>) = frame w"
  "cli_at cio gbyte img st c (v\<lparr>cli_tx := u\<rparr>) = cli_at cio gbyte img st c v"
  by (simp_all add: srv_idle_def mode_set_def sized_def receiving_def received_def frame_def cli_at_def)

lemma drain_empty [simp]: "srv_tx w = [] \<Longrightarrow> w\<lparr>srv_tx := []\<rparr> = w" "cli_tx v = [] \<Longrightarrow> v\<lparr>cli_tx := []\<rparr> = v"
  by (cases w, simp) (cases v, simp)

lemma srv_predicates_state:
  "srv_idle w \<Longrightarrow> srv_state (dfu_srv_env w) = DFU_STATE_SRV_IDLE"
  "mode_set io A w \<Longrightarrow> srv_state (dfu_srv_env w) = DFU_STATE_SRV_MODE_GET"
  "sized io byte A f n w \<Longrightarrow> srv_state (dfu_srv_env w) = DFU_STATE_SRV_IMAGE_SIZE_GET"
  "receiving io byte A T f n got w \<Longrightarrow> srv_state (dfu_srv_env w) = DFU_STATE_SRV_DFU_STARTED"
  "received io byte A T f img w \<Longrightarrow> srv_state (dfu_srv_env w) = DFU_STATE_SRV_DFU_FINISHED"
  by (simp_all add: srv_idle_def mode_set_def sized_def receiving_def received_def Let_def)

lemma confirmation_ignored:
  "srv_state (dfu_srv_env w) \<noteq> DFU_STATE_SRV_WAIT_LAST_CMD \<Longrightarrow> ble_ota_srv_cb io mem (to_gatts Confirmation) w = Some w"
  by (simp add: app_dfu_srv_ind_cb_def app_dfu_srv_state_check_def)

text \<open>
  \<open>Transfer i j\<close>: \<open>i\<close> pieces have been sent and \<open>j\<close> have arrived.
\<close>

datatype phase = Ask_mode | Mode_known | Ask_size | Size_known | Ask_start | Started | Transfer nat nat
  | Passed | Ask_reboot | Rebooting | Last | Closing | Done

definition up_is :: "cli_write list \<Rightarrow> ('c, 's, 'f, 'g) dfu_sys \<Rightarrow> bool" where
  "up_is ms y \<longleftrightarrow> up y = map Written ms \<or> up y = Confirmation # map Written ms"

text \<open>A number that falls with every delivery, for an image of \<open>n\<close> bytes.\<close>

definition rank :: "nat \<Rightarrow> phase \<Rightarrow> ('c, 's, 'f, 'g) dfu_sys \<Rightarrow> nat" where
  "rank n ph y = (case ph of
       Ask_mode \<Rightarrow> 70 + 3 * n | Mode_known \<Rightarrow> 65 + 3 * n | Ask_size \<Rightarrow> 60 + 3 * n | Size_known \<Rightarrow> 55 + 3 * n
     | Ask_start \<Rightarrow> 50 + 3 * n | Started \<Rightarrow> 45 + 3 * n | Transfer i j \<Rightarrow> 40 + 3 * (n - i)
     | Passed \<Rightarrow> 30 | Ask_reboot \<Rightarrow> 25 | Rebooting \<Rightarrow> 20 | Last \<Rightarrow> 15 | Closing \<Rightarrow> 10 | Done \<Rightarrow> 0)
     + length (up y) + unacked y"

text \<open>The client, told to send \<open>n\<close> bytes, and an idle server with nothing on the way.\<close>

definition session ::
    "('c, 'g) cli_io \<Rightarrow> nat \<Rightarrow> ('c, 'g) dfu_cli \<Rightarrow> ('c, 's, 'f) dfu_srv \<Rightarrow> ('c, 's, 'f, 'g) dfu_sys" where
  "session cio n cli srv = from_cli (app_ble_dfu_start cio (of_nat n) cli)
     \<lparr>sys_cli = cli, sys_srv = srv, up = [], down = [], unacked = 0\<rparr>"

definition ready :: "('g \<Rightarrow> nat \<Rightarrow> u8) \<Rightarrow> bytes \<Rightarrow> ('c, 'g) dfu_cli \<Rightarrow> ('c, 's, 'f) dfu_srv \<Rightarrow> bool" where
  "ready gbyte img cli srv \<longleftrightarrow>
     srv_idle srv \<and> srv_registered srv \<and> \<not> srv_closing srv \<and> \<not> srv_restarted srv \<and> srv_tx srv = []
   \<and> cli_state (dfu_cli_env cli) = DFU_STATE_CLI_IDLE \<and> cli_registered cli \<and> cli_tx cli = []
   \<and> image_in gbyte (length img) (cli_flash cli) = img"

locale dfu_link = image_status "srv_rom sio" flag running counter
  for sio :: "('c, 's, 'f) srv_io" and flag :: "'s \<Rightarrow> u8 \<Rightarrow> u8 option" and running and counter +
  fixes cio :: "('c, 'g) cli_io" and byte :: "'f \<Rightarrow> nat \<Rightarrow> u8" and gbyte :: "'g \<Rightarrow> nat \<Rightarrow> u8"
    and buf img :: bytes and b :: u8 and addr len :: u32 and s0 :: 's and f0 :: 'f
  assumes srv_below: "io_ok sio byte" and cli_below: "cli_ok cio gbyte"
    and same_sha: "cli_sha cio = srv_sha sio" and memory: "length buf = 4096"
    and bank: "b = 0 \<or> b = 1" "image_slot b = (addr, len)" "running s0 = Some b"
    and image_size: "128 < length img" "length img \<le> unat len"
begin

abbreviation (input) step :: "('c, 's, 'f, 'g) dfu_sys \<Rightarrow> ('c, 's, 'f, 'g) dfu_sys \<Rightarrow> bool" where
  "step \<equiv> dfu_step sio (Some buf) cio"

lemma size_bound: "length img \<le> 0x1E0000" "length img < 4294967296"
  using bank(1,2) image_size(2) by (auto simp: image_slot_def split: if_splits)

lemmas fits = slot_span [OF bank(2) image_size(2)]

definition installed :: "'f \<Rightarrow> bool" where
  "installed f \<longleftrightarrow> (\<exists>es. unat es = unat addr + span (length img)
     \<and> downloading byte (unat addr) (span (length img)) f0 img es f)"

definition steady :: "('c, 's, 'f) dfu_srv \<Rightarrow> bool" where
  "steady w \<longleftrightarrow> srv_tx w = [] \<and> frame w = (True, False, False, s0, b)"

definition hash :: bytes where
  "hash = fst (sha_finish (srv_sha sio) (sha_fed (srv_sha sio) img))"

abbreviation (input) client :: "ble_dfu_cli_state_t \<Rightarrow> nat \<Rightarrow> ('c, 's, 'f, 'g) dfu_sys \<Rightarrow> bool" where
  "client st c y \<equiv> cli_at cio gbyte img st c (sys_cli y) \<and> cli_tx (sys_cli y) = []"

definition client_idle :: "('c, 's, 'f, 'g) dfu_sys \<Rightarrow> bool" where
  "client_idle y \<longleftrightarrow> cli_state (dfu_cli_env (sys_cli y)) = DFU_STATE_CLI_IDLE \<and> cli_registered (sys_cli y)
     \<and> cli_tx (sys_cli y) = []"

definition srv_after :: "ble_dfu_srv_state_t \<Rightarrow> ('c, 's, 'f) dfu_srv \<Rightarrow> bool" where
  "srv_after st w \<longleftrightarrow> srv_state (dfu_srv_env w) = st \<and> installed (srv_flash w)"

definition got :: "nat \<Rightarrow> ('c, 's, 'f) dfu_srv \<Rightarrow> bool" where
  "got j w \<longleftrightarrow> (if 128 * j < length img
     then receiving sio byte (unat addr) (span (length img)) f0 (length img) (take (128 * j) img) w
     else received sio byte (unat addr) (span (length img)) f0 img w)"

fun in_phase :: "phase \<Rightarrow> ('c, 's, 'f, 'g) dfu_sys \<Rightarrow> bool" where
  "in_phase Ask_mode y \<longleftrightarrow> srv_idle (sys_srv y) \<and> srv_flash (sys_srv y) = f0 \<and> srv_tx (sys_srv y) = []
     \<and> (\<exists>wb. frame (sys_srv y) = (True, False, False, s0, wb)) \<and> client DFU_STATE_CLI_MODE_SET 0 y
     \<and> up y = [Written (Cmd [0, 0])] \<and> down y = [] \<and> unacked y = 0"
| "in_phase Mode_known y \<longleftrightarrow> steady (sys_srv y) \<and> mode_set sio (unat addr) (sys_srv y) \<and> srv_flash (sys_srv y) = f0
     \<and> client DFU_STATE_CLI_MODE_SET 0 y \<and> up y = [] \<and> down y = [[0, 0]] \<and> unacked y = 0"
| "in_phase Ask_size y \<longleftrightarrow> steady (sys_srv y) \<and> mode_set sio (unat addr) (sys_srv y) \<and> srv_flash (sys_srv y) = f0
     \<and> client DFU_STATE_CLI_IMAGE_SIZE_GET 0 y \<and> up_is [Cmd (1 # le32_bytes (of_nat (length img)))] y
     \<and> down y = [] \<and> unacked y = 0"
| "in_phase Size_known y \<longleftrightarrow> steady (sys_srv y) \<and> sized sio byte (unat addr) f0 (length img) (sys_srv y)
     \<and> client DFU_STATE_CLI_IMAGE_SIZE_GET 0 y \<and> up y = [] \<and> down y = [[1, 0]] \<and> unacked y = 0"
| "in_phase Ask_start y \<longleftrightarrow> steady (sys_srv y) \<and> sized sio byte (unat addr) f0 (length img) (sys_srv y)
     \<and> client DFU_STATE_CLI_DFU_STARTED 0 y \<and> up_is [Cmd [2]] y \<and> down y = [] \<and> unacked y = 0"
| "in_phase Started y \<longleftrightarrow> steady (sys_srv y) \<and> got 0 (sys_srv y)
     \<and> client DFU_STATE_CLI_DFU_STARTED 0 y \<and> up y = [] \<and> down y = [[2, 0]] \<and> unacked y = 0"
| "in_phase (Transfer i j) y \<longleftrightarrow> steady (sys_srv y) \<and> got j (sys_srv y)
     \<and> client DFU_STATE_CLI_VERIFICATION (sent img i) y \<and> 0 < i \<and> j \<le> i \<and> 128 * (i - 1) < length img
     \<and> up_is (map (\<lambda>k. Data (piece img k)) [j..<i] @ (if length img \<le> 128 * i then [Cmd (3 # hash)] else [])) y
     \<and> down y = [] \<and> (if length img \<le> 128 * i then unacked y \<le> 1 else unacked y = 1)"
| "in_phase Passed y \<longleftrightarrow> steady (sys_srv y) \<and> srv_after DFU_STATE_SRV_VERIFICATION_PASS (sys_srv y)
     \<and> client DFU_STATE_CLI_VERIFICATION (length img) y \<and> up y = [] \<and> down y = [[3, 0]] \<and> unacked y \<le> 1"
| "in_phase Ask_reboot y \<longleftrightarrow> steady (sys_srv y) \<and> srv_after DFU_STATE_SRV_VERIFICATION_PASS (sys_srv y)
     \<and> client DFU_STATE_CLI_REBOOT (length img) y \<and> up_is [Cmd [4]] y \<and> down y = [] \<and> unacked y \<le> 1"
| "in_phase Rebooting y \<longleftrightarrow> steady (sys_srv y) \<and> srv_after DFU_STATE_SRV_WAIT_LAST_CMD (sys_srv y)
     \<and> client DFU_STATE_CLI_REBOOT (length img) y \<and> up y = [] \<and> down y = [[4, 0]] \<and> unacked y \<le> 1"
| "in_phase Last y \<longleftrightarrow> steady (sys_srv y) \<and> srv_after DFU_STATE_SRV_WAIT_LAST_CMD (sys_srv y)
     \<and> client_idle y \<and> up y = [Confirmation] \<and> down y = [] \<and> unacked y \<le> 1"
| "in_phase Closing y \<longleftrightarrow> frame (sys_srv y) = (True, True, False, s0, b) \<and> srv_tx (sys_srv y) = []
     \<and> srv_after DFU_STATE_SRV_DISCONNECTING (sys_srv y)
     \<and> client_idle y \<and> up y = [] \<and> down y = [] \<and> unacked y \<le> 1"
| "in_phase Done y \<longleftrightarrow> frame (sys_srv y) = (True, False, True, snd (run_updates (srv_rom sio) (dfu_flag_updates b) (0, s0)), b)
     \<and> installed (srv_flash (sys_srv y)) \<and> up y = [] \<and> down y = [] \<and> unacked y = 0"

definition goes :: "phase \<Rightarrow> ('c, 's, 'f, 'g) dfu_sys \<Rightarrow> bool" where
  "goes ph y \<longleftrightarrow> (\<exists>z. step y z) \<and>
     (\<forall>z. step y z \<longrightarrow> (\<exists>ph'. in_phase ph' z \<and> rank (length img) ph' z < rank (length img) ph y))"

lemma goesI:
  assumes "\<And>m q. up y = m # q \<Longrightarrow> \<exists>w ph'. ble_ota_srv_cb sio (Some buf) (to_gatts m) (sys_srv y) = Some w
      \<and> in_phase ph' (y\<lparr>sys_srv := w\<lparr>srv_tx := []\<rparr>, up := q, down := down y @ srv_tx w\<rparr>)
      \<and> rank (length img) ph' (y\<lparr>up := q\<rparr>) < rank (length img) ph y"
    and "\<And>bs q. down y = bs # q \<Longrightarrow> \<exists>w ph'. ble_ota_cli_cb cio (NTF_IND_RCV BLE_GATT_SVC_OTA_CONTROL_CHAR bs) (sys_cli y) = Some w
      \<and> in_phase ph' (from_cli w (y\<lparr>down := q, up := up y @ [Confirmation]\<rparr>))
      \<and> rank (length img) ph' (from_cli w (y\<lparr>up := up y @ [Confirmation]\<rparr>)) < rank (length img) ph y"
    and "\<And>k. unacked y = Suc k \<Longrightarrow> \<exists>w ph'. ble_ota_cli_cb cio (WRITE_RSP BLE_GATT_SVC_OTA_DATA_CHAR) (sys_cli y) = Some w
      \<and> in_phase ph' (from_cli w (y\<lparr>unacked := k\<rparr>)) \<and> rank (length img) ph' (from_cli w (y\<lparr>unacked := k\<rparr>)) < rank (length img) ph y"
    and "\<not> srv_closing (sys_srv y)" and "up y \<noteq> [] \<or> down y \<noteq> [] \<or> unacked y \<noteq> 0"
  shows "goes ph y"
  unfolding goes_def
proof (intro conjI allI impI)
  consider m q where "up y = m # q" | bs q where "down y = bs # q" | k where "unacked y = Suc k"
    using assms(5) by (metis neq_Nil_conv not0_implies_Suc)
  then show "\<exists>z. step y z"
  proof cases
    case 1
    then show ?thesis using assms(1) [OF 1] dfu_step.to_server by blast
  next
    case 2
    then show ?thesis using assms(2) [OF 2] dfu_step.to_client by blast
  next
    case 3
    then show ?thesis using assms(3) [OF 3] dfu_step.written by blast
  qed
next
  fix z
  assume "step y z"
  then show "\<exists>ph'. in_phase ph' z \<and> rank (length img) ph' z < rank (length img) ph y"
  proof cases
    case (to_server m q w)
    then show ?thesis using assms(1) [OF to_server(2)] by (auto simp: rank_def)
  next
    case (to_client bs q w)
    then show ?thesis using assms(2) [OF to_client(2)] by (auto simp: rank_def from_cli_def)
  next
    case (written k w)
    then show ?thesis using assms(3) [OF written(2)] by auto
  qed (use assms(4) in simp)
qed

lemma confirm:
  assumes "up y = Confirmation # q" and "srv_state (dfu_srv_env (sys_srv y)) \<noteq> DFU_STATE_SRV_WAIT_LAST_CMD"
    and "srv_tx (sys_srv y) = []" and "in_phase ph (y\<lparr>up := q\<rparr>)"
  shows "\<exists>w ph'. ble_ota_srv_cb sio (Some buf) (to_gatts Confirmation) (sys_srv y) = Some w
      \<and> in_phase ph' (y\<lparr>sys_srv := w\<lparr>srv_tx := []\<rparr>, up := q, down := down y @ srv_tx w\<rparr>)
      \<and> rank (length img) ph' (y\<lparr>up := q\<rparr>) < rank (length img) ph y"
proof -
  have "y\<lparr>sys_srv := (sys_srv y)\<lparr>srv_tx := []\<rparr>, up := q, down := down y @ srv_tx (sys_srv y)\<rparr> = y\<lparr>up := q\<rparr>"
    using assms(3) by (cases y) simp
  then show ?thesis
    using confirmation_ignored [OF assms(2), of sio "Some buf"] assms(1,4)
    by (intro exI [of _ "sys_srv y"] exI [of _ ph]) (simp add: rank_def)
qed

lemma ack_idle:
  assumes "unacked y = Suc k" and "cli_tx (sys_cli y) = []" and "in_phase ph (y\<lparr>unacked := k\<rparr>)"
    and "cli_state (dfu_cli_env (sys_cli y)) \<noteq> DFU_STATE_CLI_VERIFICATION
      \<or> cli_cur_offset (dfu_cli_env (sys_cli y)) = img_total_size (dfu_cli_env (sys_cli y))"
  shows "\<exists>w ph'. ble_ota_cli_cb cio (WRITE_RSP BLE_GATT_SVC_OTA_DATA_CHAR) (sys_cli y) = Some w
      \<and> in_phase ph' (from_cli w (y\<lparr>unacked := k\<rparr>)) \<and> rank (length img) ph' (from_cli w (y\<lparr>unacked := k\<rparr>)) < rank (length img) ph y"
proof -
  have "from_cli (sys_cli y) (y\<lparr>unacked := k\<rparr>) = y\<lparr>unacked := k\<rparr>"
    using assms(2) by (cases y) (simp add: from_cli_def)
  then show ?thesis
    using cli_no_more [OF assms(4)] assms(1,3)
    by (intro exI [of _ "sys_cli y"] exI [of _ ph]) (simp add: rank_def)
qed

lemma steady_frame:
  "steady w \<Longrightarrow> srv_registered w" "steady w \<Longrightarrow> \<not> srv_closing w" "steady w \<Longrightarrow> srv_tx w = []"
  by (simp_all add: steady_def frame_def)

lemma steady_kept: "steady w \<Longrightarrow> frame w' = frame w \<Longrightarrow> steady (w'\<lparr>srv_tx := []\<rparr>)"
  by (simp add: steady_def)

lemma cli_at_simps:
  "cli_at cio gbyte img st c w \<Longrightarrow> cli_registered w" "cli_at cio gbyte img st c w \<Longrightarrow> cli_state (dfu_cli_env w) = st"
  "cli_at cio gbyte img st (length img) w \<Longrightarrow> cli_cur_offset (dfu_cli_env w) = img_total_size (dfu_cli_env w)"
  by (simp_all add: cli_at_def Let_def word_unat_eq_iff)

text \<open>A phase in which the server has answered, and one in which it has something to handle.\<close>

lemma goes_down:
  assumes "up y = []" and "down y = [bs]" and "steady (sys_srv y)" and "cli_registered (sys_cli y)"
    and "app_dfu_cli_control_cb cio bs (sys_cli y) = Some w"
    and "in_phase ph' (from_cli w (y\<lparr>down := [], up := [Confirmation]\<rparr>))"
    and "rank (length img) ph' (from_cli w (y\<lparr>up := [Confirmation]\<rparr>)) < rank (length img) ph y"
    and "\<And>k. unacked y = Suc k \<Longrightarrow> \<exists>w ph'. ble_ota_cli_cb cio (WRITE_RSP BLE_GATT_SVC_OTA_DATA_CHAR) (sys_cli y) = Some w
      \<and> in_phase ph' (from_cli w (y\<lparr>unacked := k\<rparr>)) \<and> rank (length img) ph' (from_cli w (y\<lparr>unacked := k\<rparr>)) < rank (length img) ph y"
  shows "goes ph y"
  by (rule goesI) (use assms steady_frame in auto)

lemma goes_up:
  assumes "up_is (m # ms) y" and "down y = []" and "steady (sys_srv y)"
    and "srv_state (dfu_srv_env (sys_srv y)) \<noteq> DFU_STATE_SRV_WAIT_LAST_CMD"
    and "in_phase ph (y\<lparr>up := map Written (m # ms)\<rparr>)"
    and "ble_ota_srv_cb sio (Some buf) (to_gatts (Written m)) (sys_srv y) = Some w"
    and "in_phase ph' (y\<lparr>sys_srv := w\<lparr>srv_tx := []\<rparr>, up := map Written ms, down := srv_tx w\<rparr>)"
    and "rank (length img) ph' (y\<lparr>up := map Written ms\<rparr>) < rank (length img) ph (y\<lparr>up := map Written (m # ms)\<rparr>)"
    and "\<And>k. unacked y = Suc k \<Longrightarrow> \<exists>w ph'. ble_ota_cli_cb cio (WRITE_RSP BLE_GATT_SVC_OTA_DATA_CHAR) (sys_cli y) = Some w
      \<and> in_phase ph' (from_cli w (y\<lparr>unacked := k\<rparr>)) \<and> rank (length img) ph' (from_cli w (y\<lparr>unacked := k\<rparr>)) < rank (length img) ph y"
  shows "goes ph y"
proof (rule goesI)
  fix m' q
  assume up: "up y = m' # q"
  have "rank (length img) ph (y\<lparr>up := map Written (m # ms)\<rparr>) \<le> rank (length img) ph y"
    using assms(1) by (auto simp: up_is_def rank_def)
  then have less: "rank (length img) ph' (y\<lparr>up := map Written ms\<rparr>) < rank (length img) ph y" using assms(8) by linarith
  from up assms(1) consider "m' = Confirmation" "q = map Written (m # ms)" | "m' = Written m" "q = map Written ms"
    by (auto simp: up_is_def)
  then show "\<exists>w ph'. ble_ota_srv_cb sio (Some buf) (to_gatts m') (sys_srv y) = Some w
      \<and> in_phase ph' (y\<lparr>sys_srv := w\<lparr>srv_tx := []\<rparr>, up := q, down := down y @ srv_tx w\<rparr>)
      \<and> rank (length img) ph' (y\<lparr>up := q\<rparr>) < rank (length img) ph y"
  proof cases
    case 1
    then show ?thesis using confirm [of y q ph] up assms(4,5) steady_frame(3) [OF assms(3)] by simp
  next
    case 2
    then show ?thesis using assms(2,6,7) less by (intro exI [of _ w] exI [of _ ph']) simp
  qed
qed (use assms steady_frame in \<open>auto simp: up_is_def\<close>)

lemma phase_ask_mode: "in_phase Ask_mode y \<Longrightarrow> goes Ask_mode y"
proof -
  assume ph: "in_phase Ask_mode y"
  let ?w = "sys_srv y"
  have idle: "srv_idle ?w" "srv_registered ?w" "\<not> srv_closing ?w" "srv_status ?w = s0" "\<not> srv_restarted ?w"
    using ph by (auto simp: frame_def)
  have "snd (rom_sys_status_get (srv_rom sio) 5 (working_bank (dfu_srv_env ?w)) (srv_status ?w)) = b"
    using idle(4) get_running [of _ s0] bank(3) by simp
  then obtain w' where w': "app_dfu_srv_control_cb sio (Some buf) [0, 0] ?w = Some w'" "srv_tx w' = srv_tx ?w @ [[0, 0]]"
    "frame w' = (srv_registered ?w, srv_closing ?w, srv_restarted ?w, srv_status ?w, b)" "srv_flash w' = srv_flash ?w"
    "mode_set sio (unat addr) w'"
    using mode_command [OF srv_below idle(1) bank(2), where mem = "Some buf"] by metis
  show ?thesis
  proof (rule goesI)
    fix m q
    assume "up y = m # q"
    then have "m = Written (Cmd [0, 0])" "q = []" using ph by simp_all
    then show "\<exists>w ph'. ble_ota_srv_cb sio (Some buf) (to_gatts m) (sys_srv y) = Some w
      \<and> in_phase ph' (y\<lparr>sys_srv := w\<lparr>srv_tx := []\<rparr>, up := q, down := down y @ srv_tx w\<rparr>)
      \<and> rank (length img) ph' (y\<lparr>up := q\<rparr>) < rank (length img) Ask_mode y"
      using w' idle ph by (intro exI [of _ w'] exI [of _ Mode_known]) (simp add: steady_def rank_def)
  qed (use ph idle in simp_all)
qed

lemma phase_mode_known: "in_phase Mode_known y \<Longrightarrow> goes Mode_known y"
proof -
  assume ph: "in_phase Mode_known y"
  obtain w' where w': "app_dfu_cli_control_cb cio [0, 0] (sys_cli y) = Some w'"
    "cli_tx w' = [Cmd (1 # le32_bytes (of_nat (length img)))]" "cli_at cio gbyte img DFU_STATE_CLI_IMAGE_SIZE_GET 0 w'"
    using cli_mode_set [OF cli_below] ph by auto
  show ?thesis
    by (rule goes_down [OF _ _ _ _ w'(1), where ph' = Ask_size])
      (use ph w' cli_at_simps(1) in \<open>auto simp: from_cli_def up_is_def rank_def\<close>)
qed

lemma phase_ask_size: "in_phase Ask_size y \<Longrightarrow> goes Ask_size y"
proof -
  assume ph: "in_phase Ask_size y"
  then have srv: "steady (sys_srv y)" "mode_set sio (unat addr) (sys_srv y)" "srv_flash (sys_srv y) = f0" by simp_all
  obtain w' where w': "app_dfu_srv_control_cb sio (Some buf) (1 # le32_bytes (of_nat (length img))) (sys_srv y) = Some w'"
    "srv_tx w' = srv_tx (sys_srv y) @ [[1, 0]]" "frame w' = frame (sys_srv y)" "sized sio byte (unat addr) f0 (length img) w'"
    using size_command [OF srv_below srv(2) fits, where mem = "Some buf"] unfolding srv(3) by metis
  show ?thesis
    by (rule goes_up [where w = w' and ph' = Size_known and m = "Cmd (1 # le32_bytes (of_nat (length img)))" and ms = "[]"])
      (use ph w' srv steady_frame [OF srv(1)] steady_kept [OF srv(1) w'(3)] srv_predicates_state(2) [OF srv(2)]
        in \<open>auto simp: up_is_def rank_def\<close>)
qed

lemma phase_size_known: "in_phase Size_known y \<Longrightarrow> goes Size_known y"
proof -
  assume ph: "in_phase Size_known y"
  obtain w' where w': "app_dfu_cli_control_cb cio [1, 0] (sys_cli y) = Some w'"
    "cli_tx w' = [Cmd [2]]" "cli_at cio gbyte img DFU_STATE_CLI_DFU_STARTED 0 w'"
    using cli_size_set [OF cli_below] ph by auto
  show ?thesis
    by (rule goes_down [OF _ _ _ _ w'(1), where ph' = Ask_start])
      (use ph w' cli_at_simps(1) in \<open>auto simp: from_cli_def up_is_def rank_def\<close>)
qed

lemma phase_ask_start: "in_phase Ask_start y \<Longrightarrow> goes Ask_start y"
proof -
  assume ph: "in_phase Ask_start y"
  then have srv: "steady (sys_srv y)" "sized sio byte (unat addr) f0 (length img) (sys_srv y)" by simp_all
  have "0 < length img" using image_size(1) by linarith
  then obtain w' where w': "app_dfu_srv_control_cb sio (Some buf) [2] (sys_srv y) = Some w'"
    "srv_tx w' = srv_tx (sys_srv y) @ [[2, 0]]" "frame w' = frame (sys_srv y)"
    "receiving sio byte (unat addr) (span (length img)) f0 (length img) [] w'"
    using start_command [OF srv(2) memory] by metis
  show ?thesis
    by (rule goes_up [where w = w' and ph' = Started and m = "Cmd [2]" and ms = "[]"])
      (use ph w' srv \<open>0 < length img\<close> steady_frame [OF srv(1)] steady_kept [OF srv(1) w'(3)] srv_predicates_state(3) [OF srv(2)]
        in \<open>auto simp: up_is_def rank_def got_def\<close>)
qed

lemma phase_started: "in_phase Started y \<Longrightarrow> goes Started y"
proof -
  assume ph: "in_phase Started y"
  obtain w' where w': "app_dfu_cli_control_cb cio [2, 0] (sys_cli y) = Some w'"
    "cli_tx w' = [Data (piece img 0)]" "cli_at cio gbyte img DFU_STATE_CLI_VERIFICATION (sent img 1) w'"
    using cli_started [OF cli_below _ _ image_size(1) size_bound(1)] ph by auto
  show ?thesis
    by (rule goes_down [OF _ _ _ _ w'(1), where ph' = "Transfer 1 0"])
      (use ph w' cli_at_simps(1) image_size(1) in \<open>auto simp: from_cli_def up_is_def rank_def\<close>)
qed

lemma got_piece:
  assumes "got j w" and "128 * j < length img"
  obtains w' where "app_dfu_srv_data_cb sio (piece img j) w = Some w'" "frame w' = frame w" "srv_tx w' = srv_tx w" "got (Suc j) w'"
proof -
  have rcv: "receiving sio byte (unat addr) (span (length img)) f0 (length img) (take (128 * j) img) w"
    using assms by (simp add: got_def)
  have len: "length (take (128 * j) img) = 128 * j" "length (piece img j) = min 128 (length img - 128 * j)"
    using assms(2) by (simp_all add: piece_def min.commute)
  have ne: "piece img j \<noteq> []" using len(2) assms(2) by (auto simp: min_def split: if_splits)
  have "128 * j mod 4096 = 128 * (j mod 32)" using mult_mod_right [of 128 j 32] by simp
  moreover have "j mod 32 \<le> 31" by (simp add: less_Suc_eq_le [symmetric])
  ultimately have "128 * j mod 4096 + 128 \<le> 4096" by linarith
  then have room: "length (take (128 * j) img) mod 4096 + length (piece img j) \<le> 4096" unfolding len by linarith
  have inside: "length (take (128 * j) img) + length (piece img j) \<le> length img" unfolding len using assms(2) by linarith
  have all: "take (128 * j) img @ piece img j = take (128 * Suc j) img"
    by (simp add: piece_def take_add add.commute [of 128])
  obtain w' where "app_dfu_srv_data_cb sio (piece img j) w = Some w'" "frame w' = frame w" "srv_tx w' = srv_tx w"
    "if length (take (128 * j) img) + length (piece img j) < length img
     then receiving sio byte (unat addr) (span (length img)) f0 (length img) (take (128 * Suc j) img) w'
     else received sio byte (unat addr) (span (length img)) f0 (take (128 * Suc j) img) w'"
    using data_step [OF srv_below rcv fits(2) ne room inside] unfolding all by metis
  then show thesis using that [of w'] unfolding len got_def by (auto simp: min_def split: if_splits)
qed

lemma transfer_ack:
  assumes "in_phase (Transfer i j) y" and "unacked y = Suc k"
  shows "\<exists>w ph'. ble_ota_cli_cb cio (WRITE_RSP BLE_GATT_SVC_OTA_DATA_CHAR) (sys_cli y) = Some w
      \<and> in_phase ph' (from_cli w (y\<lparr>unacked := k\<rparr>))
      \<and> rank (length img) ph' (from_cli w (y\<lparr>unacked := k\<rparr>)) < rank (length img) (Transfer i j) y"
proof (cases "length img \<le> 128 * i")
  case True
  then have "cli_at cio gbyte img DFU_STATE_CLI_VERIFICATION (length img) (sys_cli y)" "cli_tx (sys_cli y) = []"
    using assms(1) by (simp_all add: sent_def)
  then show ?thesis
    using ack_idle [OF assms(2), of "Transfer i j"] cli_at_simps(3) assms True by (simp add: up_is_def)
next
  case False
  then have cli: "cli_at cio gbyte img DFU_STATE_CLI_VERIFICATION (sent img i) (sys_cli y)" "cli_tx (sys_cli y) = []"
    and less: "128 * i < length img"
    using assms(1) by simp_all
  note more = cli_next_piece [OF cli_below cli less size_bound(1), unfolded same_sha, folded hash_def]
  let ?w = "app_dfu_cli_data_tx_cb cio (sys_cli y)"
  have "cli_tx ?w = Data (piece img i) # (if length img \<le> 128 * Suc i then [Cmd (3 # hash)] else [])"
    by (rule more(1))
  then have "in_phase (Transfer (Suc i) j) (from_cli ?w (y\<lparr>unacked := k\<rparr>))"
    using assms less more(2) by (auto simp: from_cli_def up_is_def)
  moreover have "rank (length img) (Transfer (Suc i) j) (from_cli ?w (y\<lparr>unacked := k\<rparr>)) < rank (length img) (Transfer i j) y"
    using assms(2) less more(1) by (simp add: rank_def from_cli_def) linarith
  moreover have "ble_ota_cli_cb cio (WRITE_RSP BLE_GATT_SVC_OTA_DATA_CHAR) (sys_cli y) = Some ?w"
    using cli_at_simps(1) [OF cli(1)] by simp
  ultimately show ?thesis by blast
qed

lemma received_installed:
  "received sio byte (unat addr) (span (length img)) f0 img w \<Longrightarrow> installed (srv_flash w)"
  by (auto simp: received_def installed_def Let_def)

lemma transfer_up:
  assumes "in_phase (Transfer i j) y" and "up y = m # q"
  shows "\<exists>w ph'. ble_ota_srv_cb sio (Some buf) (to_gatts m) (sys_srv y) = Some w
      \<and> in_phase ph' (y\<lparr>sys_srv := w\<lparr>srv_tx := []\<rparr>, up := q, down := down y @ srv_tx w\<rparr>)
      \<and> rank (length img) ph' (y\<lparr>up := q\<rparr>) < rank (length img) (Transfer i j) y"
proof -
  let ?last = "if length img \<le> 128 * i then [Cmd (3 # hash)] else []"
  have srv: "steady (sys_srv y)" "got j (sys_srv y)" "j \<le> i" "128 * (i - 1) < length img" "0 < i"
    and ups: "up y = map Written (map (\<lambda>k. Data (piece img k)) [j..<i] @ ?last)
      \<or> up y = Confirmation # map Written (map (\<lambda>k. Data (piece img k)) [j..<i] @ ?last)"
    using assms(1) by (simp_all add: up_is_def)
  note still = steady_frame [OF srv(1)]
  consider (conf) "m = Confirmation" "q = map Written (map (\<lambda>k. Data (piece img k)) [j..<i] @ ?last)"
    | (data) "j < i" "m = Written (Data (piece img j))"
    "q = map Written (map (\<lambda>k. Data (piece img k)) [Suc j..<i] @ ?last)"
    | (verify) "j = i" "length img \<le> 128 * i" "m = Written (Cmd (3 # hash))" "q = []"
    using ups assms(2) srv(3) by (cases "j < i") (auto simp: upt_conv_Cons split: if_splits)
  then show ?thesis
  proof cases
    case conf
    have "srv_state (dfu_srv_env (sys_srv y)) \<noteq> DFU_STATE_SRV_WAIT_LAST_CMD"
      using srv(2) by (auto simp: got_def dest: srv_predicates_state split: if_splits)
    moreover have "in_phase (Transfer i j) (y\<lparr>up := q\<rparr>)" using assms(1) conf(2) by (auto simp: up_is_def)
    ultimately show ?thesis
      unfolding conf(1) by (intro confirm [OF assms(2) [unfolded conf(1)] _ still(3)])
  next
    case data
    then have "j \<le> i - 1" by simp
    then have "128 * j < length img" using srv(4) by (meson le_less_trans mult_le_mono2)
    then obtain w' where w': "app_dfu_srv_data_cb sio (piece img j) (sys_srv y) = Some w'" "frame w' = frame (sys_srv y)"
      "srv_tx w' = srv_tx (sys_srv y)" "got (Suc j) w'"
      using got_piece [OF srv(2)] by metis
    have "got (Suc j) (w'\<lparr>srv_tx := []\<rparr>)" using w'(4) by (simp only: got_def drained)
    then show ?thesis
      using w' data assms still steady_kept [OF srv(1) w'(2)]
      by (intro exI [of _ w'] exI [of _ "Transfer i (Suc j)"]) (auto simp: up_is_def rank_def)
  next
    case verify
    then have rcv: "received sio byte (unat addr) (span (length img)) f0 img (sys_srv y)" using srv(2) by (simp add: got_def)
    obtain w' where w': "app_dfu_srv_control_cb sio (Some buf) (3 # hash) (sys_srv y) = Some w'"
      "srv_tx w' = srv_tx (sys_srv y) @ [[3, 0]]" "frame w' = frame (sys_srv y)" "srv_flash w' = srv_flash (sys_srv y)"
      "srv_state (dfu_srv_env w') = DFU_STATE_SRV_VERIFICATION_PASS"
      using verification_command [OF srv_below rcv, where mem = "Some buf"] unfolding hash_def by metis
    have "srv_after DFU_STATE_SRV_VERIFICATION_PASS (w'\<lparr>srv_tx := []\<rparr>)"
      using w'(4,5) received_installed [OF rcv] by (simp add: srv_after_def)
    then show ?thesis
      using w' verify assms still steady_kept [OF srv(1) w'(3)]
      by (intro exI [of _ w'] exI [of _ Passed]) (auto simp: rank_def sent_def)
  qed
qed

lemma phase_transfer:
  assumes "in_phase (Transfer i j) y"
  shows "goes (Transfer i j) y"
  by (rule goesI [OF transfer_up [OF assms] _ transfer_ack [OF assms]])
    (use assms steady_frame(2) in \<open>auto simp: up_is_def split: if_splits\<close>)

lemma phase_passed: "in_phase Passed y \<Longrightarrow> goes Passed y"
proof -
  assume ph: "in_phase Passed y"
  then have at: "cli_at cio gbyte img DFU_STATE_CLI_VERIFICATION (length img) (sys_cli y)" "cli_tx (sys_cli y) = []" by simp_all
  obtain w' where w': "app_dfu_cli_control_cb cio [3, 0] (sys_cli y) = Some w'"
    "cli_tx w' = [Cmd [4]]" "cli_at cio gbyte img DFU_STATE_CLI_REBOOT (length img) w'"
    using cli_verified [OF cli_below at] by metis
  have ack: "in_phase Passed (y\<lparr>unacked := k\<rparr>)" if "unacked y = Suc k" for k using ph that by simp
  show ?thesis
    by (rule goes_down [OF _ _ _ _ w'(1), where ph' = Ask_reboot])
      (use ph w' cli_at_simps(1) [OF at(1)] ack_idle [OF _ at(2) ack] cli_at_simps(3) [OF at(1)]
        in \<open>simp_all add: from_cli_def up_is_def rank_def\<close>)
qed

lemma phase_ask_reboot: "in_phase Ask_reboot y \<Longrightarrow> goes Ask_reboot y"
proof -
  assume ph: "in_phase Ask_reboot y"
  then have srv: "steady (sys_srv y)" "srv_after DFU_STATE_SRV_VERIFICATION_PASS (sys_srv y)"
    and at: "cli_at cio gbyte img DFU_STATE_CLI_REBOOT (length img) (sys_cli y)" "cli_tx (sys_cli y) = []" by simp_all
  have st: "srv_state (dfu_srv_env (sys_srv y)) = DFU_STATE_SRV_VERIFICATION_PASS" using srv(2) by (simp add: srv_after_def)
  obtain w' where w': "app_dfu_srv_control_cb sio (Some buf) [4] (sys_srv y) = Some w'" "srv_tx w' = srv_tx (sys_srv y) @ [[4, 0]]"
    "frame w' = frame (sys_srv y)" "srv_flash w' = srv_flash (sys_srv y)" "srv_state (dfu_srv_env w') = DFU_STATE_SRV_WAIT_LAST_CMD"
    using reboot_command [OF st, of sio "Some buf"] by metis
  have after: "srv_after DFU_STATE_SRV_WAIT_LAST_CMD (w'\<lparr>srv_tx := []\<rparr>)" using w'(4,5) srv(2) by (simp add: srv_after_def)
  have ack: "in_phase Ask_reboot (y\<lparr>unacked := k\<rparr>)" if "unacked y = Suc k" for k using ph that by (simp add: up_is_def)
  show ?thesis
    by (rule goes_up [where w = w' and ph' = Rebooting and m = "Cmd [4]" and ms = "[]"])
      (use ph w' srv st after steady_frame [OF srv(1)] steady_kept [OF srv(1) w'(3)] ack_idle [OF _ at(2) ack] cli_at_simps(2) [OF at(1)]
        in \<open>simp_all add: up_is_def rank_def\<close>)
qed

lemma phase_rebooting: "in_phase Rebooting y \<Longrightarrow> goes Rebooting y"
proof -
  assume ph: "in_phase Rebooting y"
  then have at: "cli_at cio gbyte img DFU_STATE_CLI_REBOOT (length img) (sys_cli y)" "cli_tx (sys_cli y) = []" by simp_all
  obtain w' where w': "app_dfu_cli_control_cb cio [4, 0] (sys_cli y) = Some w'"
    "cli_tx w' = []" "cli_registered w'" "cli_state (dfu_cli_env w') = DFU_STATE_CLI_IDLE"
    using cli_rebooting [OF at] by metis
  have ack: "in_phase Rebooting (y\<lparr>unacked := k\<rparr>)" if "unacked y = Suc k" for k using ph that by simp
  show ?thesis
    by (rule goes_down [OF _ _ _ _ w'(1), where ph' = Last])
      (use ph w' cli_at_simps(1,2) [OF at(1)] ack_idle [OF _ at(2) ack]
        in \<open>simp_all add: from_cli_def rank_def client_idle_def\<close>)
qed

lemma phase_last: "in_phase Last y \<Longrightarrow> goes Last y"
proof -
  assume ph: "in_phase Last y"
  then have idle: "cli_state (dfu_cli_env (sys_cli y)) \<noteq> DFU_STATE_CLI_VERIFICATION" "cli_tx (sys_cli y) = []"
    and srv: "steady (sys_srv y)" "srv_after DFU_STATE_SRV_WAIT_LAST_CMD (sys_srv y)"
    by (simp_all add: client_idle_def)
  let ?w = "app_dfu_srv_ind_cb 0 (sys_srv y)"
  have w: "?w = app_dfu_srv_state_set DFU_STATE_SRV_DISCONNECTING ((sys_srv y)\<lparr>srv_closing := True\<rparr>)"
    using srv(2) by (simp add: app_dfu_srv_ind_cb_def app_dfu_srv_state_check_def srv_after_def)
  have closing: "frame ?w = (True, True, False, s0, b)" "srv_tx ?w = []" "srv_after DFU_STATE_SRV_DISCONNECTING ?w"
    using srv unfolding w by (simp_all add: steady_def frame_def srv_after_def app_dfu_srv_state_set_def)
  have ack: "in_phase Last (y\<lparr>unacked := k\<rparr>)" if "unacked y = Suc k" for k
    using ph that by (simp add: client_idle_def)
  show ?thesis
  proof (rule goesI)
    fix m q
    assume "up y = m # q"
    then have "m = Confirmation" "q = []" using ph by simp_all
    then show "\<exists>w ph'. ble_ota_srv_cb sio (Some buf) (to_gatts m) (sys_srv y) = Some w
      \<and> in_phase ph' (y\<lparr>sys_srv := w\<lparr>srv_tx := []\<rparr>, up := q, down := down y @ srv_tx w\<rparr>)
      \<and> rank (length img) ph' (y\<lparr>up := q\<rparr>) < rank (length img) Last y"
      using closing ph steady_frame [OF srv(1)]
      by (intro exI [of _ ?w] exI [of _ Closing]) (simp add: rank_def client_idle_def)
  qed (use ph steady_frame [OF srv(1)] ack_idle [OF _ idle(2) ack] idle(1) in simp_all)
qed

lemma updates_ok:
  "fst (run_updates (srv_rom sio) (dfu_flag_updates b) (0, s0)) = 0"
proof -
  have ok: "\<exists>s'. rom_sys_set_img_flag (srv_rom sio) i m x s = (0, s')" if "i = 0 \<or> i = 1" for i m x s
    using set_flag(1) [OF that, of m x s] by (metis prod.collapse)
  obtain s1 where s1: "rom_sys_set_img_flag (srv_rom sio) b 0x19 8 s0 = (0, s1)" using ok [OF bank(1)] by blast
  obtain s2 where "rom_sys_set_img_flag (srv_rom sio) (other b) 0x1F 1 s1 = (0, s2)" using ok [of "other b"] by (metis other_def)
  then show ?thesis using s1 by (simp add: dfu_flag_updates_def)
qed

lemma phase_closing: "in_phase Closing y \<Longrightarrow> goes Closing y"
proof -
  assume ph: "in_phase Closing y"
  then have idle: "cli_state (dfu_cli_env (sys_cli y)) \<noteq> DFU_STATE_CLI_VERIFICATION" "cli_tx (sys_cli y) = []" "cli_registered (sys_cli y)"
    and srv: "frame (sys_srv y) = (True, True, False, s0, b)" "srv_after DFU_STATE_SRV_DISCONNECTING (sys_srv y)"
    by (simp_all add: client_idle_def)
  have fields: "srv_registered (sys_srv y)" "srv_closing (sys_srv y)" "srv_status (sys_srv y) = s0" "working_bank (dfu_srv_env (sys_srv y)) = b"
    using srv(1) by (simp_all add: frame_def)
  obtain s1 where s1: "run_updates (srv_rom sio) (dfu_flag_updates b) (0, s0) = (0, s1)"
    using updates_ok by (metis prod.collapse)
  have cb: "ble_ota_srv_cb sio (Some buf) (CONN_STATE_CHANGE_IND False) (sys_srv y)
      = Some ((sys_srv y)\<lparr>srv_status := s1, srv_restarted := True\<rparr>)"
    using fields s1 srv(2) by (simp add: app_dfu_srv_disconn_cb_def app_dfu_srv_state_check_def srv_after_def)
  have ack: "in_phase Closing (y\<lparr>unacked := k\<rparr>)" if "unacked y = Suc k" for k
    using ph that by (simp add: client_idle_def)
  show ?thesis
    unfolding goes_def
  proof (intro conjI allI impI)
    show "\<exists>z. step y z" using dfu_step.closed [OF fields(2) cb, of cio] idle(3) by auto
  next
    fix z
    assume "step y z"
    then show "\<exists>ph'. in_phase ph' z \<and> rank (length img) ph' z < rank (length img) Closing y"
    proof cases
      case (written k w)
      then show ?thesis using ack_idle [OF written(2) idle(2) ack [OF written(2)]] idle(1) by auto
    next
      case (closed w v)
      then have "in_phase Done z" using ph cb s1 srv(2) by (auto simp: frame_def srv_after_def)
      then show ?thesis using closed(1) by (intro exI [of _ Done]) (simp add: rank_def)
    qed (use ph in simp_all)
  qed
qed

lemma done_stops: "in_phase Done y \<Longrightarrow> \<not> step y z"
  by (auto simp: frame_def elim: dfu_step.cases)

lemma phase_goes: "in_phase ph y \<Longrightarrow> ph = Done \<or> goes ph y"
  by (cases ph) (simp_all only: phase_ask_mode phase_mode_known phase_ask_size phase_size_known phase_ask_start phase_started
      phase_transfer phase_passed phase_ask_reboot phase_rebooting phase_last phase_closing, simp_all)

text \<open>Every run is finite, and where it ends the server has been restarted with the new image marked.\<close>

lemma run_ends:
  assumes "in_phase ph y" and "(step ^^ k) y z"
  shows "\<exists>ph'. in_phase ph' z \<and> rank (length img) ph' z + k \<le> rank (length img) ph y"
  using assms(2)
proof (induction k arbitrary: z)
  case 0
  then show ?case using assms(1) by auto
next
  case (Suc k)
  then obtain x where x: "(step ^^ k) y x" "step x z" by auto
  obtain ph' where ph': "in_phase ph' x" "rank (length img) ph' x + k \<le> rank (length img) ph y" using Suc.IH [OF x(1)] by blast
  have "goes ph' x" using phase_goes [OF ph'(1)] done_stops x(2) ph'(1) by blast
  then obtain ph'' where "in_phase ph'' z" "rank (length img) ph'' z < rank (length img) ph' x"
    using x(2) by (auto simp: goes_def)
  then show ?case using ph'(2) by (intro exI [of _ ph'']) simp
qed

lemma stuck_done: "in_phase ph y \<Longrightarrow> (\<And>z. \<not> step y z) \<Longrightarrow> in_phase Done y"
  using phase_goes by (fastforce simp: goes_def)

text \<open>What the loader makes of the flags.\<close>

lemma updated_choice:
  defines "s1 \<equiv> snd (run_updates (srv_rom sio) (dfu_flag_updates b) (0, s0))"
  shows "choice_of (flag s1 0) (flag s1 1) = Inr (other b)"
proof -
  have fl: "flag s1 = (flag s0)(b := Some (set_masked (or_default (flag s0 b)) 0x19 8),
      other b := Some (set_masked (or_default (flag s0 (other b))) 0x1F 1))"
    using bank(1) other_simps(4) [of b] set_flag(2) [of b "0x19" 8 s0]
      set_flag(2) [of "other b" "0x1F" 1 "snd (rom_sys_set_img_flag (srv_rom sio) b 0x19 8 s0)"]
    by (auto simp: s1_def dfu_flag_updates_def split: prod.splits)
  have old: "\<not> newer_usable (set_masked x 0x19 8)" for x
    using set_masked_same [of "0x19" 1 x 8] by (simp add: newer_usable_def)
  have new: "newer_usable (set_masked x 0x1F 1)" for x
    using set_masked_same [of "0x1F" _ x 1] by (simp add: newer_usable_def)
  show ?thesis using bank(1) old new by (auto simp: fl choice_of_def)
qed

lemma done_boots:
  assumes "in_phase Done y" and "secure_boot ibl"
    and "image_good (counter (srv_status (sys_srv y))) (image_of (srv_rom sio) off ibl (other b) (srv_flash (sys_srv y)))"
  shows "fst (mbl_main (srv_rom sio) off ibl ver (srv_flash (sys_srv y)) (srv_status (sys_srv y))) =
    Jump (other b) (RE_FLASH_BASE + image_at off) (image_map (other b))"
proof -
  have "choice_of (flag (srv_status (sys_srv y)) 0) (flag (srv_status (sys_srv y)) 1) = Inr (other b)"
    using updated_choice assms(1) by (simp add: frame_def)
  then obtain s' where "mbl_main (srv_rom sio) off ibl ver (srv_flash (sys_srv y)) (srv_status (sys_srv y)) =
      (if image_good (counter (srv_status (sys_srv y))) (image_of (srv_rom sio) off ibl (other b) (srv_flash (sys_srv y)))
       then Jump (other b) (RE_FLASH_BASE + image_at off) (image_map (other b)) else Boot_failed, s')"
    using boot_chosen [OF assms(2), of "srv_status (sys_srv y)" "other b" off ver "srv_flash (sys_srv y)"] by metis
  then show ?thesis using assms(3) by simp
qed

lemma installed_bytes:
  assumes "installed f"
  shows "map (byte f) [unat addr..<unat addr + length img] = img"
    and "\<And>a. a < unat addr \<or> unat addr + span (length img) \<le> a \<Longrightarrow> byte f a = byte f0 a"
    and "\<And>a. unat addr + length img \<le> a \<Longrightarrow> a < unat addr + span (length img) \<Longrightarrow> byte f a = 0xFF"
proof -
  obtain es where es: "unat es = unat addr + span (length img)" "downloading byte (unat addr) (span (length img)) f0 img es f"
    using assms by (auto simp: installed_def)
  show "map (byte f) [unat addr..<unat addr + length img] = img"
    using es(2) by (intro nth_equalityI) (simp_all add: downloading_def)
  show "byte f a = byte f0 a" if "a < unat addr \<or> unat addr + span (length img) \<le> a" for a
    by (rule downloading_outside [OF es(2) that])
  show "byte f a = 0xFF" if "unat addr + length img \<le> a" "a < unat addr + span (length img)" for a
    using es that by (simp add: downloading_def)
qed

lemma session_phase:
  assumes "ready gbyte img cli srv" and "srv_status srv = s0" and "srv_flash srv = f0"
  shows "in_phase Ask_mode (session cio (length img) cli srv)"
  using assms cli_start [OF cli_below, of cli img] size_bound(2)
  by (simp add: session_def from_cli_def ready_def frame_def)

lemma session_run:
  assumes "ready gbyte img cli srv" and "srv_status srv = s0" and "srv_flash srv = f0"
    and "(step ^^ k) (session cio (length img) cli srv) y"
  shows "k \<le> 71 + 3 * length img" and "(\<And>z. \<not> step y z) \<Longrightarrow> in_phase Done y"
proof -
  let ?y0 = "session cio (length img) cli srv"
  have ph: "in_phase Ask_mode ?y0" by (rule session_phase [OF assms(1-3)])
  obtain ph' where ph': "in_phase ph' y" "rank (length img) ph' y + k \<le> rank (length img) Ask_mode ?y0"
    using run_ends [OF ph assms(4)] by blast
  have "rank (length img) Ask_mode ?y0 = 71 + 3 * length img" using ph by (simp add: rank_def)
  then show "k \<le> 71 + 3 * length img" using ph'(2) by linarith
  show "in_phase Done y" if "\<And>z. \<not> step y z" by (rule stuck_done [OF ph'(1) that])
qed

end

section \<open>Two devices\<close>

definition nor_cli_io :: "(bytes, nat \<Rightarrow> u8) cli_io" where
  "nor_cli_io = \<lparr>cli_flash_rom = nor_device, cli_ofvr = 0, cli_sha = tail_sha, gattc_find_char = (\<lambda>_. 0), gattc_find_desc = 0,
     gattc_write_req = 0, gattc_write_cmd = 0, conn_param_update_req = 0\<rparr>"

lemma nor_cli_io_ok: "cli_ok nor_cli_io id"
  by (simp add: cli_ok_def nor_cli_io_def nor_device_ok tail_sha_ok)

lemma nor_link:
  assumes "b = 0 \<or> b = 1" and "image_slot b = (addr, len)" and "128 < length img" and "length img \<le> unat len"
  shows "dfu_link nor_srv_io sa_flag sa_running sa_counter nor_cli_io id id (replicate 4096 0) img b addr len (running_area b)"
proof -
  have "image_status (srv_rom nor_srv_io) sa_flag sa_running sa_counter"
    using area.image_status_axioms by (simp add: nor_srv_io_def)
  then show ?thesis
    using assms nor_srv_io_ok nor_cli_io_ok by (intro dfu_link.intro dfu_link_axioms.intro)
      (simp_all add: nor_srv_io_def nor_cli_io_def running_area_def)
qed

interpretation over_ble: dfu_link nor_srv_io sa_flag sa_running sa_counter nor_cli_io id id "replicate 4096 0"
    "replicate 200 7" 0 "0x1EA000" "0x1E0000" "running_area 0" "\<lambda>_. 0xFF"
  by (rule nor_link) (simp_all add: image_slot_def)

section \<open>Properties\<close>

text \<open>A relation whose runs from \<open>x\<close> are bounded has a run that ends.\<close>

lemma bounded_runs_stop:
  assumes "\<And>k y. (R ^^ k) x y \<Longrightarrow> k \<le> (B :: nat)"
  obtains k y where "(R ^^ k) x y" "\<And>z. \<not> R y z"
proof -
  define P where "P k \<longleftrightarrow> (\<exists>y. (R ^^ k) x y)" for k
  have bound: "P k \<Longrightarrow> k \<le> B" for k using assms by (auto simp: P_def)
  have "P 0" by (simp add: P_def)
  then have greatest: "P (GREATEST k. P k)" by (rule GreatestI_nat) (rule bound)
  define k where "k = (GREATEST k. P k)"
  have k: "P j \<Longrightarrow> j \<le> k" for j unfolding k_def by (rule Greatest_le_nat [where b = B]) (use bound in auto)
  have "P k" using greatest by (simp only: k_def)
  then obtain y where y: "(R ^^ k) x y" unfolding P_def by blast
  have "\<not> R y z" for z using k [of "Suc k"] y unfolding P_def by (meson Suc_n_not_le_n relpowp_Suc_I)
  then show thesis using that y by blast
qed

lemma session_stops:
  assumes "dfu_link sio flag running counter cio byte gbyte buf img b addr len (srv_status srv)" and "ready gbyte img cli srv"
  obtains k y where "(dfu_step sio (Some buf) cio ^^ k) (session cio (length img) cli srv) y" "\<nexists>z. dfu_step sio (Some buf) cio y z"
  by (rule bounded_runs_stop [OF dfu_link.session_run(1) [OF assms refl refl]]) blast+

text \<open>
  C3: an undisturbed update over BLE ends, under every interleaving of the deliveries and after a bounded number of them,
  with the image of the client, byte by byte, in the slot of the server that is not running, nothing changed
  outside the sectors of the image and the one behind them, and the device restarted; the loader then starts that
  image if the ROM accepts it.
\<close>

theorem dfu_update_completes:
  assumes "dfu_link sio flag running counter cio byte gbyte buf img b addr len (srv_status srv)"
    and "ready gbyte img cli srv"
    and "(dfu_step sio (Some buf) cio ^^ k) (session cio (length img) cli srv) y"
  shows "k \<le> 71 + 3 * length img \<and>
    ((\<nexists>z. dfu_step sio (Some buf) cio y z) \<longrightarrow>
       srv_restarted (sys_srv y)
     \<and> map (byte (srv_flash (sys_srv y))) [unat addr..<unat addr + length img] = img
     \<and> (\<forall>a. a < unat addr \<or> unat addr + span (length img) \<le> a \<longrightarrow> byte (srv_flash (sys_srv y)) a = byte (srv_flash srv) a)
     \<and> (\<forall>off ibl ver. secure_boot ibl \<longrightarrow>
          image_good (counter (srv_status (sys_srv y))) (image_of (srv_rom sio) off ibl (other b) (srv_flash (sys_srv y))) \<longrightarrow>
          fst (mbl_main (srv_rom sio) off ibl ver (srv_flash (sys_srv y)) (srv_status (sys_srv y)))
            = Jump (other b) (RE_FLASH_BASE + image_at off) (image_map (other b))))"
proof -
  note run = dfu_link.session_run [OF assms(1,2) refl refl assms(3)]
  let ?w = "sys_srv y"
  {
    assume "\<nexists>z. dfu_step sio (Some buf) cio y z"
    then have fin: "dfu_link.in_phase sio cio byte gbyte img b addr (srv_status srv) (srv_flash srv) Done y"
      using run(2) by blast
    then have "srv_restarted ?w" and inst: "dfu_link.installed byte img addr (srv_flash srv) (srv_flash ?w)"
      by (simp_all add: dfu_link.in_phase.simps [OF assms(1)] frame_def)
    note bytes = dfu_link.installed_bytes [OF assms(1) inst] and boots = dfu_link.done_boots [OF assms(1) fin]
    have "srv_restarted ?w \<and> map (byte (srv_flash ?w)) [unat addr..<unat addr + length img] = img
      \<and> (\<forall>a. a < unat addr \<or> unat addr + span (length img) \<le> a \<longrightarrow> byte (srv_flash ?w) a = byte (srv_flash srv) a)
      \<and> (\<forall>off ibl ver. secure_boot ibl \<longrightarrow>
          image_good (counter (srv_status ?w)) (image_of (srv_rom sio) off ibl (other b) (srv_flash ?w)) \<longrightarrow>
          fst (mbl_main (srv_rom sio) off ibl ver (srv_flash ?w) (srv_status ?w))
            = Jump (other b) (RE_FLASH_BASE + image_at off) (image_map (other b)))"
      by (intro conjI allI impI \<open>srv_restarted ?w\<close> bytes(1) bytes(2) boots)
  }
  then show ?thesis using run(1) by blast
qed

definition idle_cli :: "(bytes, nat \<Rightarrow> u8) dfu_cli" where
  "idle_cli = app_dfu_cli_init nor_cli_io \<lparr>dfu_cli_env = undefined, dfu_cli_timer = None, cli_tx = [], cli_registered = False,
     cli_flash = \<lambda>_. 7\<rparr>"

lemma idle_ready: "ready id (replicate n 7) idle_cli (idle_srv b)"
  by (simp add: ready_def idle_srv_ready idle_cli_def app_dfu_cli_init_def app_dfu_cli_reset_def image_in_def map_replicate_const)

theorem dfu_update_completes_witness:
  "\<exists>k y. (dfu_step nor_srv_io (Some (replicate 4096 0)) nor_cli_io ^^ k) (session nor_cli_io 200 idle_cli (idle_srv 0)) y
     \<and> srv_restarted (sys_srv y) \<and> map (srv_flash (sys_srv y)) [0x1EA000..<0x1EA000 + 200] = replicate 200 7"
proof -
  have link: "dfu_link nor_srv_io sa_flag sa_running sa_counter nor_cli_io id id (replicate 4096 0) (replicate 200 7) 0
      0x1EA000 0x1E0000 (srv_status (idle_srv 0))"
    unfolding idle_srv_simps by (rule nor_link) (simp_all add: image_slot_def)
  obtain k y where run: "(dfu_step nor_srv_io (Some (replicate 4096 0)) nor_cli_io ^^ k)
      (session nor_cli_io (length (replicate 200 (7 :: u8))) idle_cli (idle_srv 0)) y"
    "\<nexists>z. dfu_step nor_srv_io (Some (replicate 4096 0)) nor_cli_io y z"
    by (rule session_stops [OF link idle_ready])
  then show ?thesis
    using dfu_update_completes [OF link idle_ready run(1)] by (intro exI [of _ k] exI [of _ y]) simp
qed

text \<open>
  C24: an image that fills the slot up to its last sector, sent by an honest client while image 1 is running, ends with the first
  sector of the running image erased: the sector behind the one written last is always erased, and the announced size is not
  compared with the size of the slot.
\<close>

theorem dfu_large_image_erases_running:
  assumes "dfu_link sio flag running counter cio byte gbyte buf img 1 addr len (srv_status srv)"
    and "ready gbyte img cli srv" and "0x1DF000 < length img"
    and "(dfu_step sio (Some buf) cio ^^ k) (session cio (length img) cli srv) y"
    and "\<nexists>z. dfu_step sio (Some buf) cio y z"
  shows "\<forall>a. unat RE_IMG_1_OFFSET \<le> a \<and> a < unat RE_IMG_1_OFFSET + 4096 \<longrightarrow> byte (srv_flash (sys_srv y)) a = 0xFF"
proof -
  have slot: "addr = 0xA000" "len = 0x1E0000" "length img \<le> 0x1E0000"
    using dfu_link.bank(2) [OF assms(1)] dfu_link.image_size(2) [OF assms(1)] by (auto simp: image_slot_def)
  have span: "span (length img) = 0x1E1000"
    using span_last [of "0x1DF000" "length img"] assms(3) slot(3) by simp
  have "dfu_link.in_phase sio cio byte gbyte img 1 addr (srv_status srv) (srv_flash srv) Done y"
    using dfu_link.session_run(2) [OF assms(1,2) refl refl assms(4)] assms(5) by blast
  then have "dfu_link.installed byte img addr (srv_flash srv) (srv_flash (sys_srv y))"
    by (simp add: dfu_link.in_phase.simps [OF assms(1)])
  then show ?thesis
    using dfu_link.installed_bytes(3) [OF assms(1)] slot span by simp
qed

theorem dfu_large_image_erases_running_witness:
  "\<exists>k y. (dfu_step nor_srv_io (Some (replicate 4096 0)) nor_cli_io ^^ k) (session nor_cli_io 0x1E0000 idle_cli (idle_srv 1)) y
     \<and> (\<forall>a. 0x1EA000 \<le> a \<and> a < 0x1EB000 \<longrightarrow> srv_flash (sys_srv y) a = 0xFF)"
proof -
  let ?img = "replicate 0x1E0000 (7 :: u8)"
  have link: "dfu_link nor_srv_io sa_flag sa_running sa_counter nor_cli_io id id (replicate 4096 0) ?img 1
      0xA000 0x1E0000 (srv_status (idle_srv 1))"
    unfolding idle_srv_simps by (rule nor_link) (simp_all add: image_slot_def)
  obtain k y where run: "(dfu_step nor_srv_io (Some (replicate 4096 0)) nor_cli_io ^^ k)
      (session nor_cli_io (length ?img) idle_cli (idle_srv 1)) y"
    "\<nexists>z. dfu_step nor_srv_io (Some (replicate 4096 0)) nor_cli_io y z"
    by (rule session_stops [OF link idle_ready])
  have "0x1DF000 < length ?img" by (simp only: length_replicate)
  from dfu_large_image_erases_running [OF link idle_ready this run] run(1) show ?thesis
    by (intro exI [of _ k] exI [of _ y]) (simp only: length_replicate id_apply, simp)
qed

end
