(* ===== verification/Dhcpd.thy ===== *)
theory Dhcpd
  imports Prelude "HOL-Library.Monad_Syntax"
begin

text \<open>
  The DHCP server of the access point, \<^verbatim>\<open>MSDK/lwip/lwip-2.2.0/port/dhcpd.c\<close>. A message is
  the array of its bytes, the 548 bytes of \<^verbatim>\<open>struct dhcpd\<close> and whatever follows them in the
  buffer; a read past the array is \<open>None\<close>, as is a search that never ends. Addresses are
  words in network order as in the code. The ARP table of the network stack is the parameter
  \<open>arp\<close> of a packet, the content of a local variable before it is set is the parameter
  \<open>junk\<close>. The clean-up of the ARP table, the socket calls and debug output are left out.
\<close>

section \<open>Model\<close>

definition htonl :: "u32 \<Rightarrow> u32" where
  "htonl w = le32 (rev (le32_bytes w))"

abbreviation (input) DELETED :: u8 where "DELETED \<equiv> 8"
abbreviation (input) DHCP_PADDING :: u8 where "DHCP_PADDING \<equiv> 0"
abbreviation (input) DHCP_SUBNET :: u8 where "DHCP_SUBNET \<equiv> 1"
abbreviation (input) DHCP_ROUTER :: u8 where "DHCP_ROUTER \<equiv> 3"
abbreviation (input) DHCP_DNS_SERVER :: u8 where "DHCP_DNS_SERVER \<equiv> 6"
abbreviation (input) DHCP_DOMAIN_NAME :: u8 where "DHCP_DOMAIN_NAME \<equiv> 0x0F"
abbreviation (input) DHCP_REQUESTED_IP :: u8 where "DHCP_REQUESTED_IP \<equiv> 0x32"
abbreviation (input) DHCP_LEASE_TIME :: u8 where "DHCP_LEASE_TIME \<equiv> 0x33"
abbreviation (input) DHCP_OPTION_OVER :: u8 where "DHCP_OPTION_OVER \<equiv> 0x34"
abbreviation (input) DHCP_MESSAGE_TYPE :: u8 where "DHCP_MESSAGE_TYPE \<equiv> 0x35"
abbreviation (input) DHCP_SERVER_ID :: u8 where "DHCP_SERVER_ID \<equiv> 0x36"
abbreviation (input) DHCP_END :: u8 where "DHCP_END \<equiv> 0xFF"
abbreviation (input) DHCPDISCOVER :: u8 where "DHCPDISCOVER \<equiv> 1"
abbreviation (input) DHCPOFFER :: u8 where "DHCPOFFER \<equiv> 2"
abbreviation (input) DHCPREQUEST :: u8 where "DHCPREQUEST \<equiv> 3"
abbreviation (input) DHCPDECLINE :: u8 where "DHCPDECLINE \<equiv> 4"
abbreviation (input) DHCPACK :: u8 where "DHCPACK \<equiv> 5"
abbreviation (input) DHCPNAK :: u8 where "DHCPNAK \<equiv> 6"
abbreviation (input) DHCPRELEASE :: u8 where "DHCPRELEASE \<equiv> 7"

text \<open>The first six bytes of \<^verbatim>\<open>chaddr\<close>, the only ones the server looks at.\<close>

record dhcpOfferedAddr =
  chaddr :: bytes
  yiaddr :: u32
  lflag :: u8

record server_config_t =
  server :: u32
  mask_addr :: u32
  start_addr :: u32
  end_addr :: u32
  max_leases :: nat
  siaddr :: u32

record dhcpd_state =
  leases :: "dhcpOfferedAddr list"
  decline_ip :: "u32 list"
  server_config :: server_config_t
  payload_out :: bytes
  destAddr :: u32
  UdpPcb :: bool

definition zero_mac :: bytes where "zero_mac = [0, 0, 0, 0, 0, 0]"
definition bcast_mac :: bytes where "bcast_mac = [0xFF, 0xFF, 0xFF, 0xFF, 0xFF, 0xFF]"

definition empty_lease :: dhcpOfferedAddr where
  "empty_lease = \<lparr>chaddr = zero_mac, yiaddr = 0, lflag = 0\<rparr>"

definition rd :: "bytes \<Rightarrow> nat \<Rightarrow> u8 option" where
  "rd p k = (if k < length p then Some (p ! k) else None)"

definition rd_n :: "bytes \<Rightarrow> nat \<Rightarrow> nat \<Rightarrow> bytes option" where
  "rd_n p k n = (if k + n \<le> length p then Some (window k n p) else None)"

subsection \<open>Options\<close>

datatype opt_field = OPTION_FIELD | FILE_FIELD | SNAME_FIELD

fun field_base :: "opt_field \<Rightarrow> nat" where
  "field_base OPTION_FIELD = 240"
| "field_base FILE_FIELD = 108"
| "field_base SNAME_FIELD = 44"

fun field_len :: "opt_field \<Rightarrow> nat" where
  "field_len OPTION_FIELD = 308"
| "field_len FILE_FIELD = 128"
| "field_len SNAME_FIELD = 64"

text \<open>
  The search for an option; the result is the data copied. The offset after the overload
  option uses the length byte at the start of the field, as the code does.
\<close>

function pickup_loop ::
    "bytes \<Rightarrow> u8 \<Rightarrow> nat \<Rightarrow> opt_field \<Rightarrow> u8 \<Rightarrow> nat \<Rightarrow> bytes option option" where
  "pickup_loop p code dest_len fld over i =
     (let base = field_base fld; len = field_len fld in
      if len \<le> i then Some None
      else case rd p (base + i) of
        None \<Rightarrow> None
      | Some c \<Rightarrow>
          if c = code then
            (case rd p (base + i + 1) of
               None \<Rightarrow> None
             | Some l \<Rightarrow>
                 if len \<le> i + 1 + unat l \<or> dest_len < unat l then Some None
                 else map_option Some (rd_n p (base + i + 2) (unat l)))
          else if c = DHCP_PADDING then pickup_loop p code dest_len fld over (i + 1)
          else if c = DHCP_OPTION_OVER then
            (case (rd p (base + i + 1), rd p (base + i + 3), rd p (base + 1)) of
               (Some l, ov, l0) \<Rightarrow>
                 if len \<le> i + 1 + unat l then Some None
                 else (case (ov, l0) of
                   (Some ov', Some l0') \<Rightarrow> pickup_loop p code dest_len fld ov' (i + unat l0' + 2)
                 | _ \<Rightarrow> None)
             | _ \<Rightarrow> None)
          else if c = DHCP_END then
            (if fld = OPTION_FIELD \<and> over AND 1 \<noteq> 0 then pickup_loop p code dest_len FILE_FIELD over 0
             else if fld = FILE_FIELD \<and> over AND 2 \<noteq> 0 then pickup_loop p code dest_len SNAME_FIELD over 0
             else Some None)
          else
            (case rd p (base + i + 1) of
               None \<Rightarrow> None
             | Some l \<Rightarrow> pickup_loop p code dest_len fld over (i + unat l + 2)))"
  by pat_completeness auto

termination
  by (relation "measures [\<lambda>(_, _, _, fld, _, _). case fld of OPTION_FIELD \<Rightarrow> 2 | FILE_FIELD \<Rightarrow> 1 | SNAME_FIELD \<Rightarrow> 0,
      \<lambda>(_, _, _, fld, _, i). field_len fld - i]") auto

definition dhcpd_pickup_opt :: "bytes \<Rightarrow> u8 \<Rightarrow> nat \<Rightarrow> bytes option option" where
  "dhcpd_pickup_opt packet code dest_len = pickup_loop packet code dest_len OPTION_FIELD 0 0"

text \<open>The position of the end mark in the array of options.\<close>

function find_end :: "bytes \<Rightarrow> nat \<Rightarrow> nat option" where
  "find_end p e =
     (case rd p e of
        None \<Rightarrow> None
      | Some c \<Rightarrow>
          if c = DHCP_END then Some e
          else if c = DHCP_PADDING then find_end p (e + 1)
          else case rd p (e + 1) of None \<Rightarrow> None | Some l \<Rightarrow> find_end p (e + unat l + 2))"
  by pat_completeness auto

termination
  by (relation "measure (\<lambda>(p, e). length p - e)") (auto simp: rd_def split: if_splits)

definition dhcpd_add_option :: "u8 \<Rightarrow> bytes \<Rightarrow> bytes \<Rightarrow> bytes option" where
  "dhcpd_add_option code d p =
     (case find_end p 0 of
        None \<Rightarrow> None
      | Some e \<Rightarrow>
          if 308 \<le> e + length d + 2 + 1 then Some p
          else Some (blit p e (code # of_nat (length d) # d @ [DHCP_END])))"

subsection \<open>Leases\<close>

text \<open>\<open>find_index P xs\<close>: the first index whose element satisfies \<open>P\<close>.\<close>

fun find_index :: "('a \<Rightarrow> bool) \<Rightarrow> 'a list \<Rightarrow> nat option" where
  "find_index P [] = None"
| "find_index P (x # xs) = (if P x then Some 0 else map_option Suc (find_index P xs))"

definition DHCPD_FindLeaseByYiaddr :: "u32 \<Rightarrow> dhcpd_state \<Rightarrow> nat option" where
  "DHCPD_FindLeaseByYiaddr a s =
     find_index (\<lambda>l. yiaddr l = a) (take (max_leases (server_config s)) (leases s))"

definition DHCPD_FindLeaseByChaddr :: "bytes \<Rightarrow> dhcpd_state \<Rightarrow> nat option" where
  "DHCPD_FindLeaseByChaddr mac s =
     find_index (\<lambda>l. chaddr l = mac) (take (max_leases (server_config s)) (leases s))"

definition dhcpd_find_decline_ip :: "u32 \<Rightarrow> dhcpd_state \<Rightarrow> nat option" where
  "dhcpd_find_decline_ip a s = find_index (\<lambda>d. d = a) (decline_ip s)"

text \<open>The addresses the server never gives out: network, broadcast and its own.\<close>

definition reserved_addr :: "dhcpd_state \<Rightarrow> u32 \<Rightarrow> bool" where
  "reserved_addr s a \<longleftrightarrow> a AND 0xFF = 0 \<or> a AND 0xFF = 0xFF \<or> a = htonl (server (server_config s))"

partial_function (option) find_address_loop ::
    "(u32 \<Rightarrow> bool) \<Rightarrow> dhcpd_state \<Rightarrow> u32 \<Rightarrow> u32 option" where
  "find_address_loop arp s a =
     (if a \<le> htonl (end_addr (server_config s))
      then if reserved_addr s a \<or> arp (htonl a) \<or> DHCPD_FindLeaseByYiaddr (htonl a) s \<noteq> None
           then find_address_loop arp s (a + 1)
           else Some (htonl a)
      else Some 0)"

definition DHCPD_FindAddress :: "(u32 \<Rightarrow> bool) \<Rightarrow> dhcpd_state \<Rightarrow> u32 option" where
  "DHCPD_FindAddress arp s = find_address_loop arp s (htonl (start_addr (server_config s)))"

definition dhcpd_find_ipaddr_by_macaddr :: "bytes \<Rightarrow> dhcpd_state \<Rightarrow> u32" where
  "dhcpd_find_ipaddr_by_macaddr mac s =
     (case DHCPD_FindLeaseByChaddr mac s of
        None \<Rightarrow> 0
      | Some i \<Rightarrow>
          if lflag (leases s ! i) AND DELETED = 0 \<and> dhcpd_find_decline_ip (yiaddr (leases s ! i)) s = None
          then yiaddr (leases s ! i) else 0)"

definition dhcpd_ipaddr_is_valid :: "u32 \<Rightarrow> dhcpd_state \<Rightarrow> bool" where
  "dhcpd_ipaddr_is_valid a s \<longleftrightarrow>
     find_index (\<lambda>l. yiaddr l = a \<and> lflag l AND DELETED = 0)
       (take (max_leases (server_config s)) (leases s)) \<noteq> None"

definition set_lease :: "nat \<Rightarrow> (dhcpOfferedAddr \<Rightarrow> dhcpOfferedAddr) \<Rightarrow> dhcpd_state \<Rightarrow> dhcpd_state" where
  "set_lease i f s = s\<lparr>leases := (leases s)[i := f (leases s ! i)]\<rparr>"

definition dhcpd_delete_ipaddr_by_macaddr :: "bytes \<Rightarrow> dhcpd_state \<Rightarrow> dhcpd_state" where
  "dhcpd_delete_ipaddr_by_macaddr mac s =
     (case DHCPD_FindLeaseByChaddr mac s of
        None \<Rightarrow> s
      | Some i \<Rightarrow> set_lease i (\<lambda>l. l\<lparr>lflag := lflag l OR DELETED\<rparr>) s)"

subsection \<open>Replies\<close>

text \<open>The fields of a reply that come from the request: xid, flags, ciaddr, giaddr and chaddr.\<close>

record request_fields =
  rq_xid :: bytes
  rq_flags :: bytes
  rq_ciaddr :: bytes
  rq_giaddr :: bytes
  rq_chaddr :: bytes

definition request_fields_of :: "bytes \<Rightarrow> request_fields option" where
  "request_fields_of p =
     (case (rd_n p 4 4, rd_n p 10 2, rd_n p 12 4, rd_n p 24 4, rd_n p 28 16) of
        (Some x, Some fl, Some ci, Some gi, Some ch) \<Rightarrow> Some \<lparr>rq_xid = x, rq_flags = fl, rq_ciaddr = ci, rq_giaddr = gi, rq_chaddr = ch\<rparr>
      | _ \<Rightarrow> None)"

definition reply_bytes :: "request_fields \<Rightarrow> u32 \<Rightarrow> u32 \<Rightarrow> bytes \<Rightarrow> bytes \<Rightarrow> bytes" where
  "reply_bytes rq yi si sname options =
     [2, 1, 6, 0] @ rq_xid rq @ [0, 0] @ rq_flags rq @ rq_ciaddr rq @ le32_bytes yi @ le32_bytes si
       @ rq_giaddr rq @ rq_chaddr rq @ sname @ replicate 128 0 @ le32_bytes (htonl 0x63825363) @ options"

definition blank_options :: bytes where
  "blank_options = DHCP_END # replicate 307 0"

fun add_options :: "(u8 \<times> bytes) list \<Rightarrow> bytes \<Rightarrow> bytes option" where
  "add_options [] p = Some p"
| "add_options ((c, d) # os) p = (case dhcpd_add_option c d p of None \<Rightarrow> None | Some p' \<Rightarrow> add_options os p')"

text \<open>\<^verbatim>\<open>DEFAULT_DOMAIN\<close> and \<^verbatim>\<open>DEFAULT_SNAME\<close>, cut to six bytes.\<close>

definition domain_name :: bytes where
  "domain_name = [0x77, 0x77, 0x77, 0x2E, 0x67, 0x69, 0x67, 0x61, 0x64, 0x65, 0x76, 0x69, 0x63, 0x65,
     0x2E, 0x63, 0x6F, 0x6D, 0x2E, 0x63, 0x6E]"

definition default_sname :: bytes where
  "default_sname = [0x67, 0x69, 0x67, 0x61, 0x64, 0x65]"

definition lease_options :: "u8 \<Rightarrow> server_config_t \<Rightarrow> (u8 \<times> bytes) list" where
  "lease_options ty cfg =
     [(DHCP_MESSAGE_TYPE, [ty]),
      (DHCP_SERVER_ID, le32_bytes (server cfg)),
      (DHCP_LEASE_TIME, le32_bytes (htonl 3600)),
      (DHCP_SUBNET, le32_bytes (mask_addr cfg)),
      (DHCP_ROUTER, le32_bytes (server cfg)),
      (DHCP_DNS_SERVER, le32_bytes (server cfg)),
      (DHCP_DOMAIN_NAME, domain_name)]"

definition make_dhcpd_packet :: "bytes \<Rightarrow> u8 \<Rightarrow> u32 \<Rightarrow> server_config_t \<Rightarrow> bytes option" where
  "make_dhcpd_packet oldpacket ty yi cfg =
     (case (request_fields_of oldpacket, add_options (lease_options ty cfg) blank_options) of
        (Some rq, Some os) \<Rightarrow> Some (reply_bytes rq yi (siaddr cfg) (default_sname @ replicate 58 0) os)
      | _ \<Rightarrow> None)"

subsection \<open>Messages\<close>

text \<open>
  The choice of a slot for a new client: the first empty one, otherwise the last deleted one.
  The result is the index the loop stops at and the deleted index.
\<close>

fun slot_loop :: "dhcpOfferedAddr list \<Rightarrow> nat \<Rightarrow> nat option \<Rightarrow> nat \<times> nat option" where
  "slot_loop [] idx del = (idx, del)"
| "slot_loop (l # ls) idx del =
     (if lflag l AND DELETED \<noteq> 0 then slot_loop ls (idx + 1) (Some idx)
      else if chaddr l = zero_mac then (idx, None)
      else slot_loop ls (idx + 1) del)"

definition new_slot :: "dhcpd_state \<Rightarrow> nat option" where
  "new_slot s =
     (let m = max_leases (server_config s); (idx, del) = slot_loop (take m (leases s)) 0 None in
      if m \<le> idx \<and> del = None then None
      else case del of None \<Rightarrow> Some idx | Some d \<Rightarrow> Some d)"

text \<open>A lease whose address the client declined is cleared.\<close>

definition drop_declined :: "nat option \<Rightarrow> dhcpd_state \<Rightarrow> nat option \<times> dhcpd_state" where
  "drop_declined li s =
     (case li of
        None \<Rightarrow> (None, s)
      | Some i \<Rightarrow>
          case dhcpd_find_decline_ip (yiaddr (leases s ! i)) s of
            None \<Rightarrow> (Some i, s)
          | Some k \<Rightarrow> (None, (set_lease i (\<lambda>_. empty_lease) s)\<lparr>decline_ip := (decline_ip s)[k := 0]\<rparr>))"

definition discover :: "(u32 \<Rightarrow> bool) \<Rightarrow> bytes \<Rightarrow> dhcpd_state \<Rightarrow> (int \<times> dhcpd_state) option" where
  "discover arp p s =
     (case rd_n p 28 6 of
        None \<Rightarrow> None
      | Some mac \<Rightarrow>
          if mac = zero_mac \<or> mac = bcast_mac then Some (- 1, s)
          else case DHCPD_FindAddress arp s of
            None \<Rightarrow> None
          | Some addr \<Rightarrow>
              let (li, s1) = drop_declined (DHCPD_FindLeaseByChaddr mac s) s in
              case (case li of Some i \<Rightarrow> Some (i, s1)
                    | None \<Rightarrow> map_option (\<lambda>i. (i, set_lease i (\<lambda>l. l\<lparr>chaddr := mac, yiaddr := addr\<rparr>) s1)) (new_slot s1)) of
                None \<Rightarrow> Some (- 1, s1)
              | Some (i, s2) \<Rightarrow>
                  let yi = yiaddr (leases s2 ! i) in
                  case (make_dhcpd_packet p DHCPOFFER yi (server_config s2), rd_n p 10 2) of
                    (Some out, Some fl) \<Rightarrow>
                      Some (0, s2\<lparr>payload_out := out, destAddr := (if fl = [0, 0] then yi else destAddr s2)\<rparr>)
                  | _ \<Rightarrow> None)"

text \<open>A word read by an option into a local that held \<open>junk\<close>; \<open>None\<close>: option absent.\<close>

definition opt_word :: "bytes \<Rightarrow> u8 \<Rightarrow> bytes \<Rightarrow> (bool \<times> u32) option" where
  "opt_word p code junk =
     map_option (\<lambda>r. case r of None \<Rightarrow> (False, le32 junk) | Some d \<Rightarrow> (True, le32 (d @ drop (length d) junk)))
       (dhcpd_pickup_opt p code 4)"

definition request :: "bytes \<Rightarrow> bytes \<Rightarrow> dhcpd_state \<Rightarrow> (int \<times> dhcpd_state) option" where
  "request junk p s =
     (case (opt_word p DHCP_REQUESTED_IP junk, request_fields_of p, rd_n p 28 6) of
        (Some (_, request_addr), Some rq, Some mac) \<Rightarrow>
          (case DHCPD_FindLeaseByChaddr mac s of
             Some i \<Rightarrow>
               if request_addr = yiaddr (leases s ! i)
               then map_option (\<lambda>os.
                      (0, (set_lease i (\<lambda>l. l\<lparr>lflag := lflag l AND NOT DELETED\<rparr>) s)
                         \<lparr>payload_out := reply_bytes rq request_addr (siaddr (server_config s)) (replicate 64 0) os,
                          destAddr := (if rq_flags rq = [0, 0] then request_addr else destAddr s)\<rparr>))
                    (add_options (lease_options DHCPACK (server_config s)) blank_options)
               else map_option (\<lambda>os. (0, s\<lparr>payload_out := reply_bytes rq 0 0 (replicate 64 0) os\<rparr>))
                    (add_options (take 2 (lease_options DHCPNAK (server_config s))) blank_options)
           | None \<Rightarrow> map_option (\<lambda>os. (0, s\<lparr>payload_out := reply_bytes rq 0 0 (replicate 64 0) os\<rparr>))
                    (add_options (take 2 (lease_options DHCPNAK (server_config s))) blank_options))
      | _ \<Rightarrow> None)"

definition release :: "bytes \<Rightarrow> bytes \<Rightarrow> dhcpd_state \<Rightarrow> (int \<times> dhcpd_state) option" where
  "release junk p s =
     (case (opt_word p DHCP_SERVER_ID junk, rd_n p 28 6) of
        (Some (False, _), _) \<Rightarrow> Some (- 1, s)
      | (Some (True, server_id), Some mac) \<Rightarrow>
          Some (0, if server (server_config s) = server_id then dhcpd_delete_ipaddr_by_macaddr mac s else s)
      | _ \<Rightarrow> None)"

definition decline :: "bytes \<Rightarrow> bytes \<Rightarrow> dhcpd_state \<Rightarrow> (int \<times> dhcpd_state) option" where
  "decline junk p s =
     (case opt_word p DHCP_SERVER_ID junk of
        None \<Rightarrow> None
      | Some (False, _) \<Rightarrow> Some (- 1, s)
      | Some (True, server_id) \<Rightarrow>
          case opt_word p DHCP_REQUESTED_IP junk of
            None \<Rightarrow> None
          | Some (False, _) \<Rightarrow> Some (- 1, s)
          | Some (True, requested_ip) \<Rightarrow>
              Some (0, if server (server_config s) = server_id \<and> dhcpd_find_decline_ip requested_ip s = None
                       then case find_index (\<lambda>d. d = 0) (decline_ip s) of
                              None \<Rightarrow> s
                            | Some k \<Rightarrow> s\<lparr>decline_ip := (decline_ip s)[k := requested_ip]\<rparr>
                       else s))"

definition third_byte :: "u32 \<Rightarrow> u32" where
  "third_byte a = drop_bit 16 a AND 0xFF"

text \<open>The result is 1 when a reply is to be sent, also when \<open>discover\<close> found no lease.\<close>

definition dhcp_process ::
    "(u32 \<Rightarrow> bool) \<Rightarrow> bytes \<Rightarrow> bytes \<Rightarrow> dhcpd_state \<Rightarrow> (nat \<times> dhcpd_state) option" where
  "dhcp_process arp junk p s =
     (case dhcpd_pickup_opt p DHCP_MESSAGE_TYPE 1 of
        None \<Rightarrow> None
      | Some None \<Rightarrow> Some (0, s)
      | Some (Some d) \<Rightarrow>
          let ty = hd (d @ junk) in
          if ty = DHCPDISCOVER then map_option (\<lambda>(_, s'). (1, s')) (discover arp p s)
          else if ty = DHCPREQUEST then
            (case (rd_n p 12 4, opt_word p DHCP_REQUESTED_IP junk) of
               (Some ci, req) \<Rightarrow>
                 if le32 ci \<noteq> 0 \<and> third_byte (le32 ci) \<noteq> third_byte (siaddr (server_config s)) then Some (0, s)
                 else (case req of
                     None \<Rightarrow> None
                   | Some (found, s_addr) \<Rightarrow>
                       if found \<and> third_byte (siaddr (server_config s)) \<noteq> third_byte s_addr then Some (0, s)
                       else map_option (\<lambda>(_, s'). (1, s')) (request junk p s))
             | _ \<Rightarrow> None)
          else if ty = DHCPRELEASE then map_option (\<lambda>(_, s'). (0, s')) (release junk p s)
          else if ty = DHCPDECLINE then map_option (\<lambda>(_, s'). (0, s')) (decline junk p s)
          else Some (0, s))"

text \<open>The reply, when one is sent: destination and bytes; \<open>mem\<close> tells whether a buffer was free.\<close>

definition UDP_Receive ::
    "(u32 \<Rightarrow> bool) \<Rightarrow> bytes \<Rightarrow> bool \<Rightarrow> bytes \<Rightarrow> dhcpd_state \<Rightarrow> ((u32 \<times> bytes) option \<times> dhcpd_state) option" where
  "UDP_Receive arp junk mem p s =
     map_option (\<lambda>(r, s'). (if r \<noteq> 0 \<and> mem then Some (destAddr s', payload_out s') else None, s'))
       (dhcp_process arp junk p (s\<lparr>destAddr := 0xFFFFFFFF\<rparr>))"

subsection \<open>Start and stop\<close>

record netif_addr =
  gw :: u32
  netmask :: u32
  ip_addr :: u32

text \<open>\<open>n\<close> is \<^verbatim>\<open>DHCPD_MAX_LEASES\<close>.\<close>

definition init_config :: "nat \<Rightarrow> netif_addr \<Rightarrow> server_config_t" where
  "init_config n net =
     \<lparr>server = gw net, mask_addr = netmask net,
      start_addr = htonl (htonl (ip_addr net) + 1),
      end_addr = htonl (htonl (ip_addr net) + 1 + of_nat n),
      max_leases = n,
      siaddr = htonl (htonl (ip_addr net) + 1 + of_nat n + 1)\<rparr>"

definition dhcpd_daemon :: "nat \<Rightarrow> netif_addr \<Rightarrow> dhcpd_state \<Rightarrow> dhcpd_state" where
  "dhcpd_daemon n net s =
     (if UdpPcb s then s
      else s\<lparr>decline_ip := map (\<lambda>_. 0) (decline_ip s), server_config := init_config n net,
             leases := map (\<lambda>l. if chaddr l \<noteq> zero_mac then l\<lparr>lflag := lflag l OR DELETED\<rparr> else l) (take n (leases s))
                       @ drop n (leases s),
             UdpPcb := True\<rparr>)"

text \<open>\<open>same\<close> tells whether the server is bound to the interface.\<close>

definition stop_dhcpd_daemon :: "bool \<Rightarrow> dhcpd_state \<Rightarrow> int \<times> dhcpd_state" where
  "stop_dhcpd_daemon same s =
     (if UdpPcb s then if same then (0, s\<lparr>UdpPcb := False\<rparr>) else (- 1, s) else (0, s))"

text \<open>
  The client address in a reply on its way out, for a buffer chain with the lengths of
  IP and UDP header and message; the chain is the list of its segments.
\<close>

definition dhcpd_payload_at :: "bytes list \<Rightarrow> (bytes \<times> nat) option" where
  "dhcpd_payload_at ps =
     (case ps of
        [] \<Rightarrow> None
      | p # rest \<Rightarrow>
          if length p = 20 \<and> rest \<noteq> []
          then if length (rest ! 0) = 8 \<and> 1 < length rest \<and> length (rest ! 1) = 548 then Some (rest ! 1, 0)
               else if length (rest ! 0) = 8 + 548 then Some (p, 8) else None
          else if length p = 28 \<and> rest \<noteq> [] \<and> length (rest ! 0) = 548 then Some (rest ! 0, 0)
          else if length p = 28 + 548 then Some (p, 28) else None)"

definition dhcpd_find_ethaddr_from_packet :: "bytes list \<Rightarrow> bytes option option" where
  "dhcpd_find_ethaddr_from_packet ps =
     (case rd (hd ps) 0 of
        None \<Rightarrow> None
      | Some b \<Rightarrow>
          if drop_bit 4 b \<noteq> 4 then Some None
          else case dhcpd_payload_at ps of
            None \<Rightarrow> Some None
          | Some (seg, k) \<Rightarrow>
              case (rd_n seg (k + 236) 4, rd seg k) of
                (Some c, Some op) \<Rightarrow>
                  if le32 c = htonl 0x63825363 \<and> op = 2 then map_option Some (rd_n seg (k + 28) 6) else Some None
              | _ \<Rightarrow> None)"

declare pickup_loop.simps [simp del] and find_end.simps [simp del]

lemma htonl_htonl [simp]: "htonl (htonl w) = w"
proof -
  obtain a b c d where "le32_bytes w = [a, b, c, d]"
    by (simp add: le32_bytes_def le16_bytes_def)
  then show ?thesis by (simp add: htonl_def) (metis le32_le32_bytes)
qed

section \<open>Leases are distinct\<close>

text \<open>No two elements have the same key, except the key \<open>z\<close>.\<close>

definition apart :: "('a \<Rightarrow> 'k) \<Rightarrow> 'k \<Rightarrow> 'a list \<Rightarrow> bool" where
  "apart key z xs \<longleftrightarrow>
     (\<forall>i<length xs. \<forall>j<length xs. i \<noteq> j \<longrightarrow> key (xs ! i) = key (xs ! j) \<longrightarrow> key (xs ! i) = z)"

lemma apartD:
  "apart key z xs \<Longrightarrow> i < length xs \<Longrightarrow> j < length xs \<Longrightarrow> i \<noteq> j \<Longrightarrow> key (xs ! i) = key (xs ! j) \<Longrightarrow> key (xs ! i) = z"
  unfolding apart_def by blast

lemma apart_cong:
  assumes "map key xs = map key ys" and "apart key z xs"
  shows "apart key z ys"
proof -
  have len: "length xs = length ys" using assms(1) by (rule map_eq_imp_length_eq)
  then have "\<And>i. i < length ys \<Longrightarrow> key (xs ! i) = key (ys ! i)"
    using assms(1) by (metis nth_map)
  then show ?thesis using assms(2) len unfolding apart_def by metis
qed

lemma apart_update:
  assumes "apart key z xs"
    and "\<And>j. j < length xs \<Longrightarrow> j \<noteq> i \<Longrightarrow> key (xs ! j) = key x \<Longrightarrow> key x = z"
  shows "apart key z (xs[i := x])"
  unfolding apart_def
proof (intro allI impI)
  fix a b
  assume ab: "a < length (xs[i := x])" "b < length (xs[i := x])" "a \<noteq> b"
    and eq: "key (xs[i := x] ! a) = key (xs[i := x] ! b)"
  consider "a = i" "b \<noteq> i" | "b = i" "a \<noteq> i" | "a \<noteq> i" "b \<noteq> i" using ab(3) by blast
  then show "key (xs[i := x] ! a) = z"
  proof cases
    case 1
    then show ?thesis using assms(2) [of b] ab eq by simp
  next
    case 2
    then show ?thesis using assms(2) [of a] ab eq by simp
  next
    case 3
    then show ?thesis using apartD [OF assms(1), of a b] ab eq by simp
  qed
qed

definition leases_ok :: "nat \<Rightarrow> dhcpd_state \<Rightarrow> bool" where
  "leases_ok n s \<longleftrightarrow> length (leases s) = n \<and> (UdpPcb s \<longrightarrow> max_leases (server_config s) = n)
     \<and> apart yiaddr 0 (leases s) \<and> apart chaddr zero_mac (leases s)"

lemma find_index_Some: "find_index P xs = Some i \<Longrightarrow> i < length xs \<and> P (xs ! i)"
  by (induction xs arbitrary: i) (auto split: if_splits)

lemma find_index_None: "find_index P xs = None \<longleftrightarrow> (\<forall>x\<in>set xs. \<not> P x)"
  by (induction xs) auto

lemma leases_ok_same:
  assumes "leases_ok n s" and "map yiaddr (leases s') = map yiaddr (leases s)"
    and "map chaddr (leases s') = map chaddr (leases s)" and "UdpPcb s' \<Longrightarrow> max_leases (server_config s') = n"
  shows "leases_ok n s'"
  using assms apart_cong [of yiaddr "leases s" "leases s'"] apart_cong [of chaddr "leases s" "leases s'"]
    map_eq_imp_length_eq [OF assms(2)]
  by (simp add: leases_ok_def)

lemma set_lease_simps [simp]:
  "length (leases (set_lease i f s)) = length (leases s)" "server_config (set_lease i f s) = server_config s"
  "UdpPcb (set_lease i f s) = UdpPcb s" "decline_ip (set_lease i f s) = decline_ip s"
  "j < length (leases s) \<Longrightarrow> leases (set_lease i f s) ! j = (if i = j then f (leases s ! i) else leases s ! j)"
  by (simp_all add: set_lease_def)

lemma leases_ok_set:
  assumes "leases_ok n s" and "yiaddr (f (leases s ! i)) = a" and "chaddr (f (leases s ! i)) = mac"
    and "\<And>j. j < n \<Longrightarrow> j \<noteq> i \<Longrightarrow> yiaddr (leases s ! j) = a \<Longrightarrow> a = 0"
    and "\<And>j. j < n \<Longrightarrow> j \<noteq> i \<Longrightarrow> chaddr (leases s ! j) = mac \<Longrightarrow> mac = zero_mac"
  shows "leases_ok n (set_lease i f s)"
proof -
  have "apart yiaddr 0 ((leases s)[i := f (leases s ! i)])" "apart chaddr zero_mac ((leases s)[i := f (leases s ! i)])"
    using assms by (auto simp: leases_ok_def intro!: apart_update)
  then show ?thesis using assms(1) by (simp add: leases_ok_def set_lease_def)
qed

lemma find_chaddr_None:
  "leases_ok n s \<Longrightarrow> UdpPcb s \<Longrightarrow> DHCPD_FindLeaseByChaddr mac s = None \<Longrightarrow> j < n \<Longrightarrow> chaddr (leases s ! j) \<noteq> mac"
  by (auto simp: DHCPD_FindLeaseByChaddr_def find_index_None leases_ok_def)

lemma find_chaddr_Some:
  "leases_ok n s \<Longrightarrow> UdpPcb s \<Longrightarrow> DHCPD_FindLeaseByChaddr mac s = Some i \<Longrightarrow> i < n \<and> chaddr (leases s ! i) = mac"
  by (auto simp: DHCPD_FindLeaseByChaddr_def leases_ok_def dest!: find_index_Some)

lemma find_yiaddr_None:
  "leases_ok n s \<Longrightarrow> UdpPcb s \<Longrightarrow> DHCPD_FindLeaseByYiaddr a s = None \<Longrightarrow> j < n \<Longrightarrow> yiaddr (leases s ! j) \<noteq> a"
  by (auto simp: DHCPD_FindLeaseByYiaddr_def find_index_None leases_ok_def)

text \<open>The address found is free, not reserved, not seen by ARP and in the range, or 0.\<close>

definition free_addr :: "(u32 \<Rightarrow> bool) \<Rightarrow> dhcpd_state \<Rightarrow> u32 \<Rightarrow> bool" where
  "free_addr arp s r \<longleftrightarrow> DHCPD_FindLeaseByYiaddr r s = None \<and> \<not> arp r \<and>
     (\<exists>a. r = htonl a \<and> \<not> reserved_addr s a \<and> a \<le> htonl (end_addr (server_config s)))"

lemma find_address_loop_free:
  "find_address_loop arp s a = Some r \<Longrightarrow> r = 0 \<or> free_addr arp s r"
proof (rule find_address_loop.raw_induct [where P = "\<lambda>arp s a r. r = 0 \<or> free_addr arp s r"])
  fix loop arp s a r
  assume "\<And>arp s a r. loop arp s a = Some r \<Longrightarrow> r = 0 \<or> free_addr arp s r"
    and "(if a \<le> htonl (end_addr (server_config s))
      then if reserved_addr s a \<or> arp (htonl a) \<or> DHCPD_FindLeaseByYiaddr (htonl a) s \<noteq> None
           then loop arp s (a + 1) else Some (htonl a)
      else Some 0) = Some r"
  then show "r = 0 \<or> free_addr arp s r"
    by (auto simp: free_addr_def split: if_splits)
qed

lemma drop_declined_ok:
  assumes "leases_ok n s" and "UdpPcb s" and "mac \<noteq> zero_mac"
    and "drop_declined (DHCPD_FindLeaseByChaddr mac s) s = (li, s1)"
  shows "leases_ok n s1" "UdpPcb s1" "server_config s1 = server_config s"
    "li = Some i \<Longrightarrow> i < n \<and> chaddr (leases s1 ! i) = mac"
    "li = None \<Longrightarrow> j < n \<Longrightarrow> chaddr (leases s1 ! j) \<noteq> mac"
    "j < n \<Longrightarrow> yiaddr (leases s1 ! j) = yiaddr (leases s ! j) \<or> yiaddr (leases s1 ! j) = 0"
proof -
  have "leases_ok n (set_lease k (\<lambda>_. empty_lease) s)" for k
    by (rule leases_ok_set [OF assms(1)]) (simp_all add: empty_lease_def)
  moreover have "leases_ok n (s'\<lparr>decline_ip := d\<rparr>) = leases_ok n s'" for s' d
    by (simp add: leases_ok_def)
  ultimately show "leases_ok n s1" "UdpPcb s1" "server_config s1 = server_config s"
    using assms by (auto simp: drop_declined_def split: option.splits)
  show "li = Some i \<Longrightarrow> i < n \<and> chaddr (leases s1 ! i) = mac"
    using assms find_chaddr_Some by (fastforce simp: drop_declined_def split: option.splits)
  show "j < n \<Longrightarrow> yiaddr (leases s1 ! j) = yiaddr (leases s ! j) \<or> yiaddr (leases s1 ! j) = 0"
    using assms by (auto simp: drop_declined_def empty_lease_def leases_ok_def split: option.splits)
  assume li: "li = None" and j: "j < n"
  show "chaddr (leases s1 ! j) \<noteq> mac"
  proof (cases "DHCPD_FindLeaseByChaddr mac s")
    case None
    then show ?thesis using assms li j find_chaddr_None by (auto simp: drop_declined_def)
  next
    case (Some k)
    then have k: "k < n" "chaddr (leases s ! k) = mac" using find_chaddr_Some assms(1,2) by blast+
    then have other: "chaddr (leases s ! j) \<noteq> mac" if "j \<noteq> k"
      using apartD [of chaddr zero_mac "leases s" j k] assms(1,3) j that by (auto simp: leases_ok_def)
    have "leases s1 = leases (set_lease k (\<lambda>_. empty_lease) s)"
      using assms(4) Some li by (auto simp: drop_declined_def split: option.splits)
    then show ?thesis
      using other assms(1,3) j by (cases "j = k") (auto simp: leases_ok_def empty_lease_def)
  qed
qed

lemma slot_loop_range:
  "slot_loop ls idx del = (i, d) \<Longrightarrow> i \<le> idx + length ls \<and> (\<forall>k. d = Some k \<longrightarrow> del = Some k \<or> k < idx + length ls)"
  by (induction ls arbitrary: idx del) (fastforce split: if_splits)+

lemma new_slot_range: "new_slot s = Some i \<Longrightarrow> max_leases (server_config s) \<le> length (leases s) \<Longrightarrow> i < max_leases (server_config s)"
  using slot_loop_range [of "take (max_leases (server_config s)) (leases s)" 0 None]
  by (fastforce simp: new_slot_def Let_def split: prod.splits if_splits option.splits)

text \<open>The lease that \<open>discover\<close> gives the client, before the reply is built.\<close>

definition lease_for :: "bytes \<Rightarrow> u32 \<Rightarrow> nat option \<Rightarrow> dhcpd_state \<Rightarrow> (nat \<times> dhcpd_state) option" where
  "lease_for mac addr li s1 =
     (case li of Some i \<Rightarrow> Some (i, s1)
      | None \<Rightarrow> map_option (\<lambda>i. (i, set_lease i (\<lambda>l. l\<lparr>chaddr := mac, yiaddr := addr\<rparr>) s1)) (new_slot s1))"

lemma lease_for_ok:
  assumes "leases_ok n s" and "UdpPcb s" and "mac \<noteq> zero_mac" and "DHCPD_FindAddress arp s = Some addr"
    and "drop_declined (DHCPD_FindLeaseByChaddr mac s) s = (li, s1)" and "lease_for mac addr li s1 = Some (i, s2)"
  shows "leases_ok n s2" "UdpPcb s2" "i < n" "chaddr (leases s2 ! i) = mac"
proof -
  note d = drop_declined_ok [OF assms(1-3,5)]
  have addr: "addr = 0 \<or> DHCPD_FindLeaseByYiaddr addr s = None"
    using assms(4) find_address_loop_free by (fastforce simp: DHCPD_FindAddress_def free_addr_def)
  have "leases_ok n s2 \<and> UdpPcb s2 \<and> i < n \<and> chaddr (leases s2 ! i) = mac"
  proof (cases li)
    case (Some k)
    then show ?thesis using assms(6) d(1,2,4) by (auto simp: lease_for_def)
  next
    case None
    then have s2: "s2 = set_lease i (\<lambda>l. l\<lparr>chaddr := mac, yiaddr := addr\<rparr>) s1" and new: "new_slot s1 = Some i"
      using assms(6) by (auto simp: lease_for_def)
    have "i < n" using new_slot_range [OF new] d(1,2) by (simp add: leases_ok_def)
    moreover have zero: "addr = 0" if "j < n" "yiaddr (leases s1 ! j) = addr" for j
      using d(6) [OF that(1)] that addr find_yiaddr_None [OF assms(1,2) _ that(1)] by metis
    have "leases_ok n s2"
      unfolding s2 by (rule leases_ok_set [OF d(1), where a = addr and mac = mac])
        (use d(5) [OF None] zero in auto)
    ultimately show ?thesis using d(2) s2 by (auto simp: leases_ok_def)
  qed
  then show "leases_ok n s2" "UdpPcb s2" "i < n" "chaddr (leases s2 ! i) = mac" by auto
qed

lemma leases_ok_payload [simp]:
  "leases_ok n (s\<lparr>payload_out := b, destAddr := d\<rparr>) = leases_ok n s" "leases_ok n (s\<lparr>payload_out := b\<rparr>) = leases_ok n s"
  "leases_ok n (s\<lparr>destAddr := d\<rparr>) = leases_ok n s" "leases_ok n (s\<lparr>decline_ip := ds\<rparr>) = leases_ok n s"
  by (simp_all add: leases_ok_def)

lemma discover_cases:
  assumes "discover arp p s = Some (r, s')" and "leases_ok n s" and "UdpPcb s"
  obtains (fails) "r = - 1" "leases_ok n s'" "UdpPcb s'" "payload_out s' = payload_out s" "destAddr s' = destAddr s"
    | (offers) i mac where "r = 0" "leases_ok n s'" "UdpPcb s'" "i < n" "rd_n p 28 6 = Some mac" "mac \<noteq> zero_mac"
        "chaddr (leases s' ! i) = mac"
        "make_dhcpd_packet p DHCPOFFER (yiaddr (leases s' ! i)) (server_config s') = Some (payload_out s')"
proof -
  obtain mac where mac: "rd_n p 28 6 = Some mac"
    using assms(1) by (auto simp: discover_def split: option.splits)
  show thesis
  proof (cases "mac = zero_mac \<or> mac = bcast_mac")
    case True
    then show thesis using assms mac fails by (auto simp: discover_def)
  next
    case False
    then obtain addr where addr: "DHCPD_FindAddress arp s = Some addr"
      using assms(1) mac by (auto simp: discover_def split: option.splits)
    obtain li s1 where li: "drop_declined (DHCPD_FindLeaseByChaddr mac s) s = (li, s1)" by fastforce
    have nz: "mac \<noteq> zero_mac" using False by simp
    note d = drop_declined_ok [OF assms(2,3) nz li]
    have same: "payload_out s1 = payload_out s" "destAddr s1 = destAddr s"
      using li by (auto simp: drop_declined_def set_lease_def split: option.splits)
    show thesis
    proof (cases "lease_for mac addr li s1")
      case None
      then have "r = - 1" "s' = s1" using assms(1) mac False addr li by (auto simp: discover_def lease_for_def)
      then show thesis using fails d(1,2) same by simp
    next
      case (Some is2)
      obtain i s2 where is2: "is2 = (i, s2)" by fastforce
      note l = lease_for_ok [OF assms(2,3) nz addr li Some [unfolded is2]]
      have "r = 0 \<and> (\<exists>out d. s' = s2\<lparr>payload_out := out, destAddr := d\<rparr>
          \<and> make_dhcpd_packet p DHCPOFFER (yiaddr (leases s2 ! i)) (server_config s2) = Some out)"
        using assms(1) mac False addr li Some is2
        by (auto simp: discover_def lease_for_def [symmetric] Let_def split: option.splits)
      then show thesis using offers [OF _ _ _ l(3) mac nz] l by auto
    qed
  qed
qed

lemma map_update_same:
  assumes "\<And>x. key (f x) = key x"
  shows "map key (xs[i := f (xs ! i)]) = map key xs"
proof (cases "i < length xs")
  case True
  then have "(map key xs)[i := key (xs ! i)] = map key xs" by (metis list_update_id nth_map)
  then show ?thesis by (simp add: map_update assms)
qed (simp add: list_update_beyond)

lemma set_flag_ok:
  assumes "leases_ok n s" and "\<And>l. yiaddr (f l) = yiaddr l" and "\<And>l. chaddr (f l) = chaddr l"
  shows "leases_ok n (set_lease i f s)"
  by (rule leases_ok_same [OF assms(1)])
    (use assms in \<open>simp_all add: set_lease_def map_update_same leases_ok_def\<close>)

lemma delete_ok: "leases_ok n s \<Longrightarrow> leases_ok n (dhcpd_delete_ipaddr_by_macaddr mac s)"
  by (auto simp: dhcpd_delete_ipaddr_by_macaddr_def split: option.splits intro: set_flag_ok)

lemma delete_pcb: "UdpPcb (dhcpd_delete_ipaddr_by_macaddr mac s) = UdpPcb s"
  by (simp add: dhcpd_delete_ipaddr_by_macaddr_def split: option.splits)

lemma undelete_ok: "leases_ok n s \<Longrightarrow> leases_ok n (set_lease i (\<lambda>l. l\<lparr>lflag := lflag l AND NOT DELETED\<rparr>) s)"
  by (rule set_flag_ok) simp_all

lemma request_ok: "request junk p s = Some (r, s') \<Longrightarrow> leases_ok n s \<Longrightarrow> leases_ok n s' \<and> UdpPcb s' = UdpPcb s"
  using undelete_ok by (auto simp: request_def split: option.splits if_splits)

lemma release_ok: "release junk p s = Some (r, s') \<Longrightarrow> leases_ok n s \<Longrightarrow> leases_ok n s' \<and> UdpPcb s' = UdpPcb s"
  using delete_ok delete_pcb by (auto simp: release_def split: option.splits bool.splits if_splits)

lemma decline_ok: "decline junk p s = Some (r, s') \<Longrightarrow> leases_ok n s \<Longrightarrow> leases_ok n s' \<and> UdpPcb s' = UdpPcb s"
  by (auto simp: decline_def split: option.splits bool.splits if_splits)

lemma dhcp_process_ok:
  assumes "dhcp_process arp junk p s = Some (r, s')" and "leases_ok n s" and "UdpPcb s"
  shows "leases_ok n s'"
proof -
  have "leases_ok n s''" if "discover arp p s = Some (r', s'')" for r' s''
    by (rule discover_cases [OF that assms(2,3)]) auto
  then show ?thesis
    using assms request_ok release_ok decline_ok
    by (auto simp: dhcp_process_def Let_def split: option.splits if_splits prod.splits; blast?)
qed

inductive dhcpd_step :: "nat \<Rightarrow> dhcpd_state \<Rightarrow> dhcpd_state \<Rightarrow> bool" for n where
  packet: "UdpPcb s \<Longrightarrow> UDP_Receive arp junk mem p s = Some (out, s') \<Longrightarrow> dhcpd_step n s s'"
| delete: "dhcpd_step n s (dhcpd_delete_ipaddr_by_macaddr mac s)"
| start: "dhcpd_step n s (dhcpd_daemon n net s)"
| stop: "dhcpd_step n s (snd (stop_dhcpd_daemon same s))"

lemma leases_ok_step: "dhcpd_step n s s' \<Longrightarrow> leases_ok n s \<Longrightarrow> leases_ok n s'"
proof (induction rule: dhcpd_step.induct)
  case (packet s arp junk mem p out s')
  then show ?case using dhcp_process_ok by (fastforce simp: UDP_Receive_def)
next
  case (delete s mac)
  then show ?case by (rule delete_ok)
next
  case (start s net)
  show ?case
    by (rule leases_ok_same [OF start])
      (use start in \<open>auto simp: dhcpd_daemon_def init_config_def leases_ok_def split: if_splits intro!: nth_equalityI\<close>)
next
  case (stop s same)
  then show ?case by (auto simp: stop_dhcpd_daemon_def leases_ok_def)
qed

section \<open>Options can be read back\<close>

definition enc :: "(u8 \<times> bytes) list \<Rightarrow> bytes" where
  "enc items = concat (map (\<lambda>(c, d). c # of_nat (length d) # d) items)"

lemma enc_simps [simp]: "enc [] = []" "enc ((c, d) # items) = c # of_nat (length d) # d @ enc items"
    "enc (xs @ ys) = enc xs @ enc ys"
  by (simp_all add: enc_def)

definition plain_opt :: "u8 \<times> bytes \<Rightarrow> bool" where
  "plain_opt cd \<longleftrightarrow> fst cd \<noteq> DHCP_PADDING \<and> fst cd \<noteq> DHCP_END \<and> fst cd \<noteq> DHCP_OPTION_OVER \<and> length (snd cd) < 256"

lemma rd_append [simp]: "rd (q @ c # r) (length q) = Some c" "rd (q @ c # l # r) (Suc (length q)) = Some l"
  by (simp_all add: rd_def nth_append)

lemma find_end_enc:
  "list_all plain_opt items \<Longrightarrow> find_end (q @ enc items @ DHCP_END # pad) (length q) = Some (length q + length (enc items))"
proof (induction items arbitrary: q)
  case Nil
  then show ?case by (subst find_end.simps) simp
next
  case (Cons cd items)
  obtain c d where cd: "cd = (c, d)" by fastforce
  have len: "unat (of_nat (length d) :: u8) = length d"
    using Cons.prems by (intro unat_of_nat_u8) (simp add: cd plain_opt_def)
  have "find_end ((q @ c # of_nat (length d) # d) @ enc items @ DHCP_END # pad) (length (q @ c # of_nat (length d) # d))
      = Some (length (q @ c # of_nat (length d) # d) + length (enc items))"
    by (rule Cons.IH) (use Cons.prems in simp)
  then show ?case
    using Cons.prems len by (subst find_end.simps) (simp add: cd plain_opt_def)
qed

lemma add_option_enc:
  assumes "list_all plain_opt items" and "plain_opt (c, d)" and "length (enc items @ DHCP_END # pad) = 308"
    and "length (enc items) + length d + 3 < 308"
  shows "dhcpd_add_option c d (enc items @ DHCP_END # pad)
     = Some (enc (items @ [(c, d)]) @ DHCP_END # drop (length d + 2) pad)"
proof -
  have "find_end (enc items @ DHCP_END # pad) 0 = Some (length (enc items))"
    using find_end_enc [OF assms(1), of "[]"] by simp
  then show ?thesis
    using assms(4) by (simp add: dhcpd_add_option_def blit_def numeral_3_eq_3)
qed

lemma add_options_enc:
  "list_all plain_opt items \<Longrightarrow> list_all plain_opt new \<Longrightarrow> length (enc items @ DHCP_END # pad) = 308 \<Longrightarrow>
   length (enc items) + length (enc new) + 1 < 308 \<Longrightarrow>
   add_options new (enc items @ DHCP_END # pad) = Some (enc (items @ new) @ DHCP_END # drop (length (enc new)) pad)"
proof (induction new arbitrary: items pad)
  case (Cons cd new)
  obtain c d where cd: "cd = (c, d)" by fastforce
  have step: "dhcpd_add_option c d (enc items @ DHCP_END # pad)
      = Some (enc (items @ [(c, d)]) @ DHCP_END # drop (length d + 2) pad)"
    using Cons.prems by (intro add_option_enc) (simp_all add: cd)
  have "add_options new (enc (items @ [(c, d)]) @ DHCP_END # drop (length d + 2) pad)
      = Some (enc ((items @ [(c, d)]) @ new) @ DHCP_END # drop (length (enc new)) (drop (length d + 2) pad))"
    using Cons.prems by (intro Cons.IH) (simp_all add: cd)
  then show ?case using step by (simp add: cd add.commute)
qed simp

lemma pickup_enc:
  "list_all plain_opt items \<Longrightarrow> map_of items code = Some d \<Longrightarrow> length d \<le> dest_len \<Longrightarrow>
   length q = 240 + i \<Longrightarrow> i + length (enc items) < 308 \<Longrightarrow>
   pickup_loop (q @ enc items @ r) code dest_len OPTION_FIELD over i = Some (Some d)"
proof (induction items arbitrary: q i)
  case (Cons cd items)
  obtain c e where cd: "cd = (c, e)" by fastforce
  have len: "unat (of_nat (length e) :: u8) = length e"
    using Cons.prems(1) by (intro unat_of_nat_u8) (simp add: cd plain_opt_def)
  have at: "rd (q @ enc (cd # items) @ r) (240 + i) = Some c"
    "rd (q @ enc (cd # items) @ r) (240 + i + 1) = Some (of_nat (length e))"
    using Cons.prems(4) by (simp_all add: cd rd_def nth_append)
  show ?case
  proof (cases "c = code")
    case True
    then have "e = d" using Cons.prems(2) by (simp add: cd)
    moreover have "rd_n (q @ enc (cd # items) @ r) (240 + i + 2) (length e) = Some e"
      using Cons.prems(4) by (simp add: cd rd_n_def window_def)
    ultimately show ?thesis
      using at True len Cons.prems(3,5) by (subst pickup_loop.simps) (simp add: cd)
  next
    case False
    have "pickup_loop ((q @ c # of_nat (length e) # e) @ enc items @ r) code dest_len OPTION_FIELD over (i + length e + 2)
        = Some (Some d)"
      using Cons.prems False by (intro Cons.IH) (auto simp: cd)
    then show ?thesis
      using at False len Cons.prems(1,5)
      by (subst pickup_loop.simps) (simp add: cd plain_opt_def)
  qed
qed simp

lemma lease_options_plain: "list_all plain_opt (lease_options ty cfg)"
  by (simp add: lease_options_def plain_opt_def domain_name_def)

lemma length_lease_options: "length (enc (lease_options ty cfg)) = 56"
  by (simp add: lease_options_def domain_name_def)

lemma lease_options_added:
  "add_options (lease_options ty cfg) blank_options = Some (enc (lease_options ty cfg) @ DHCP_END # replicate 251 0)"
  using add_options_enc [of "[]" "lease_options ty cfg" "replicate 307 0"] lease_options_plain length_lease_options
  by (simp add: blank_options_def)

lemma request_fields_length:
  "request_fields_of p = Some rq \<Longrightarrow> length (rq_xid rq) = 4 \<and> length (rq_flags rq) = 2 \<and> length (rq_ciaddr rq) = 4
     \<and> length (rq_giaddr rq) = 4 \<and> length (rq_chaddr rq) = 16 \<and> rq_chaddr rq = window 28 16 p \<and> 44 \<le> length p"
  by (auto simp: request_fields_of_def rd_n_def split: option.splits if_splits)

section \<open>Properties\<close>


text \<open>A server with one lease on 192.168.237.1 and a discovery of one client.\<close>

definition net1 :: netif_addr where
  "net1 = \<lparr>gw = htonl 0xC0A8ED01, netmask = htonl 0xFFFFFF00, ip_addr = htonl 0xC0A8ED01\<rparr>"

definition idle :: "nat \<Rightarrow> dhcpd_state" where
  "idle n = \<lparr>leases = replicate n empty_lease, decline_ip = [0],
     server_config = \<lparr>server = 0, mask_addr = 0, start_addr = 0, end_addr = 0, max_leases = 0, siaddr = 0\<rparr>,
     payload_out = [], destAddr = 0, UdpPcb = False\<rparr>"

definition discovery :: bytes where
  "discovery = replicate 28 0 @ [2, 0, 0, 0, 0, 1] @ replicate 206 0 @ [0x35, 1, 1, 0xFF] @ replicate 304 0"


text \<open>
  C18: the reply the server builds carries the address given to it and the hardware address of
  the client, and its own parser reads back every option as it was set: type, server, lease
  time, mask, router, name server and domain.
\<close>

theorem dhcpd_reply_roundtrip:
  assumes "make_dhcpd_packet p ty a cfg = Some out"
  shows "length out = 548 \<and> window 16 4 out = le32_bytes a \<and> window 28 16 out = window 28 16 p
     \<and> (\<forall>(code, d)\<in>set (lease_options ty cfg). dhcpd_pickup_opt out code (length d) = Some (Some d))"
proof -
  obtain rq where rq: "request_fields_of p = Some rq"
    and out: "out = reply_bytes rq a (siaddr cfg) (default_sname @ replicate 58 0)
       (enc (lease_options ty cfg) @ DHCP_END # replicate 251 0)"
    using assms by (auto simp: make_dhcpd_packet_def lease_options_added split: option.splits)
  note len = request_fields_length [OF rq]
  define q where "q = reply_bytes rq a (siaddr cfg) (default_sname @ replicate 58 0) []"
  have q: "out = q @ enc (lease_options ty cfg) @ DHCP_END # replicate 251 0" "length q = 240"
    using len by (auto simp: q_def out reply_bytes_def default_sname_def min_def)
  have "dhcpd_pickup_opt out code (length d) = Some (Some d)" if "(code, d) \<in> set (lease_options ty cfg)" for code d
  proof -
    have "map_of (lease_options ty cfg) code = Some d"
      using that by (auto simp: lease_options_def)
    then show ?thesis
      unfolding dhcpd_pickup_opt_def q(1)
      using pickup_enc [OF lease_options_plain] q(2) length_lease_options by auto
  qed
  moreover have "window 16 4 out = le32_bytes a \<and> window 28 16 out = window 28 16 p"
    using len by (auto simp: out reply_bytes_def window_def)
  moreover have "length out = 548" using q length_lease_options by simp
  ultimately show ?thesis by auto
qed

lemma discovery_fields: "request_fields_of discovery \<noteq> None"
  by (simp add: request_fields_of_def rd_n_def discovery_def)

theorem dhcpd_reply_roundtrip_witness:
  "\<exists>out. make_dhcpd_packet discovery DHCPOFFER 0x02EDA8C0 (init_config 1 net1) = Some out
     \<and> window 16 4 out = le32_bytes 0x02EDA8C0
     \<and> dhcpd_pickup_opt out DHCP_MESSAGE_TYPE 1 = Some (Some [DHCPOFFER])"
proof -
  obtain out where out: "make_dhcpd_packet discovery DHCPOFFER 0x02EDA8C0 (init_config 1 net1) = Some out"
    using discovery_fields by (auto simp: make_dhcpd_packet_def lease_options_added)
  show ?thesis
    using dhcpd_reply_roundtrip [OF out] out by (simp add: lease_options_def)
qed

text \<open>
  C37: the result of a failed discovery is not looked at: when no lease can be given, the server
  broadcasts the last reply it built, which was meant for another client.
\<close>

theorem dhcpd_failed_discover_repeats_reply:
  assumes "dhcpd_pickup_opt p DHCP_MESSAGE_TYPE 1 = Some (Some [DHCPDISCOVER])"
    and "discover arp p (s\<lparr>destAddr := 0xFFFFFFFF\<rparr>) = Some (- 1, s')" and "leases_ok n s" and "UdpPcb s"
  shows "UDP_Receive arp junk True p s = Some (Some (0xFFFFFFFF, payload_out s), s')"
proof -
  have ok: "leases_ok n (s\<lparr>destAddr := 0xFFFFFFFF\<rparr>)" "UdpPcb (s\<lparr>destAddr := 0xFFFFFFFF\<rparr>)"
    using assms(3,4) by simp_all
  have "payload_out s' = payload_out s" "destAddr s' = 0xFFFFFFFF"
    by (rule discover_cases [OF assms(2) ok]; simp)+
  then show ?thesis
    using assms(1,2) by (simp add: UDP_Receive_def dhcp_process_def)
qed

text \<open>The lease belongs to another client.\<close>

definition busy :: dhcpd_state where
  "busy = (dhcpd_daemon 1 net1 (idle 1))
     \<lparr>leases := [\<lparr>chaddr = [2, 0, 0, 0, 0, 9], yiaddr = 0x02EDA8C0, lflag = 0\<rparr>], payload_out := [7]\<rparr>"

definition asked :: dhcpd_state where
  "asked = busy\<lparr>destAddr := 0xFFFFFFFF\<rparr>"

lemma asked_no_slot: "new_slot asked = None" "DHCPD_FindLeaseByChaddr [2, 0, 0, 0, 0, 1] asked = None"
  by (simp_all add: asked_def busy_def idle_def dhcpd_daemon_def init_config_def new_slot_def zero_mac_def
      DHCPD_FindLeaseByChaddr_def)

lemma asked_no_address: "DHCPD_FindAddress (\<lambda>_. True) asked = Some 0"
  by (simp add: DHCPD_FindAddress_def asked_def busy_def idle_def dhcpd_daemon_def init_config_def net1_def)
    (simp add: find_address_loop.simps)

lemma discovery_type: "dhcpd_pickup_opt discovery DHCP_MESSAGE_TYPE 1 = Some (Some [DHCPDISCOVER])"
proof -
  define q :: bytes where "q = replicate 28 0 @ [2, 0, 0, 0, 0, 1] @ replicate 206 0"
  have "discovery = q @ enc [(DHCP_MESSAGE_TYPE, [DHCPDISCOVER])] @ 0xFF # replicate 304 0" "length q = 240"
    by (simp_all add: q_def discovery_def)
  then show ?thesis
    unfolding dhcpd_pickup_opt_def
    using pickup_enc [of "[(DHCP_MESSAGE_TYPE, [DHCPDISCOVER])]" DHCP_MESSAGE_TYPE "[DHCPDISCOVER]" 1 q 0
        "0xFF # replicate 304 0" 0]
    by (simp add: plain_opt_def)
qed

theorem dhcpd_failed_discover_repeats_reply_witness:
  "\<exists>s'. UDP_Receive (\<lambda>_. True) [] True discovery busy = Some (Some (0xFFFFFFFF, [7]), s')"
proof -
  have mac: "rd_n discovery 28 6 = Some [2, 0, 0, 0, 0, 1]"
    by (simp add: rd_n_def window_def discovery_def)
  have d: "discover (\<lambda>_. True) discovery (busy\<lparr>destAddr := 0xFFFFFFFF\<rparr>) = Some (- 1, asked)"
    unfolding asked_def [symmetric]
    by (simp add: discover_def mac asked_no_address asked_no_slot drop_declined_def zero_mac_def bcast_mac_def)
  have "leases_ok 1 busy" "UdpPcb busy" "payload_out busy = [7]"
    by (simp_all add: busy_def idle_def dhcpd_daemon_def init_config_def leases_ok_def apart_def)
  then show ?thesis
    using dhcpd_failed_discover_repeats_reply [OF discovery_type d, of 1 "[]"] by auto
qed

end
