(* ===== verification/Wear_Levelling.thy ===== *)
theory Wear_Levelling
  imports Ota
begin

text \<open>
  The wear levelling below the file system, \<^verbatim>\<open>MSDK/FatFS/port/wear_levelling_flash.c\<close>: a
  spare page wanders through the flash, every erase of a sector moves it by one page. The
  flash operations below (the internal or the serial flash, chosen at build time) are the
  record \<open>wl_io\<close>, with their result codes; what the code relies on is the locale
  \<open>block_flash\<close>, and the internal flash of the theory \<open>Raw_Flash\<close> interprets it. The
  checksum unit is the parameter \<open>wl_crc\<close>.
\<close>

section \<open>Model\<close>

record 'd wl_io =
  io_read :: "u32 \<Rightarrow> nat \<Rightarrow> 'd \<Rightarrow> int \<times> bytes"
  io_write :: "u32 \<Rightarrow> bytes \<Rightarrow> 'd \<Rightarrow> int \<times> 'd"
  io_erase :: "u32 \<Rightarrow> u32 \<Rightarrow> 'd \<Rightarrow> int \<times> 'd"
  wl_crc :: "u32 list \<Rightarrow> u32"

record wl_state_t =
  pos :: u32
  max_pos :: u32
  move_count :: u32
  block_size :: u32
  st_version :: u32
  st_crc :: u32

record wl_config_t =
  start_address :: u32
  full_mem_size :: u32
  page_size :: u32
  sector_size :: u32
  wr_size :: u32
  cfg_version :: u32
  temp_buff_size :: u32
  cfg_crc :: u32

record 'd wl_flash_t =
  wl_state :: wl_state_t
  cfg :: wl_config_t
  addr_cfg :: u32
  addr_state1 :: u32
  addr_state2 :: u32
  flash_size :: u32
  state_size :: u32
  cfg_size :: u32
  dummy_addr :: u32
  device :: 'd

text \<open>\<^verbatim>\<open>ERR_CHECK\<close>: go on only after the result 0.\<close>

definition err_check :: "int \<times> 'a \<Rightarrow> ('a \<Rightarrow> int \<times> 'a) \<Rightarrow> int \<times> 'a" where
  "err_check rx k = (if fst rx \<noteq> 0 then rx else k (snd rx))"

definition on_device :: "('d \<Rightarrow> int \<times> 'd) \<Rightarrow> 'd wl_flash_t \<Rightarrow> int \<times> 'd wl_flash_t" where
  "on_device f w = (let (r, d) = f (device w) in (r, w\<lparr>device := d\<rparr>))"

definition state_bytes :: "wl_state_t \<Rightarrow> bytes" where
  "state_bytes s = le32_bytes (pos s) @ le32_bytes (max_pos s) @ le32_bytes (move_count s)
     @ le32_bytes (block_size s) @ le32_bytes (st_version s) @ le32_bytes (st_crc s)"

definition state_of_bytes :: "bytes \<Rightarrow> wl_state_t" where
  "state_of_bytes b = \<lparr>pos = le32 (window 0 4 b), max_pos = le32 (window 4 4 b),
     move_count = le32 (window 8 4 b), block_size = le32 (window 12 4 b),
     st_version = le32 (window 16 4 b), st_crc = le32 (window 20 4 b)\<rparr>"

definition config_bytes :: "wl_config_t \<Rightarrow> bytes" where
  "config_bytes c = le32_bytes (start_address c) @ le32_bytes (full_mem_size c) @ le32_bytes (page_size c)
     @ le32_bytes (sector_size c) @ le32_bytes (wr_size c) @ le32_bytes (cfg_version c)
     @ le32_bytes (temp_buff_size c) @ le32_bytes (cfg_crc c)"

definition state_crc :: "'d wl_io \<Rightarrow> wl_state_t \<Rightarrow> u32" where
  "state_crc io s = wl_crc io [pos s, max_pos s, move_count s, block_size s, st_version s]"

definition wl_flash_calc_addr :: "'d wl_flash_t \<Rightarrow> u32 \<Rightarrow> u32" where
  "wl_flash_calc_addr w addr =
     (let pa = (flash_size w - move_count (wl_state w) * page_size (cfg w) + addr) mod flash_size w;
          dummy = pos (wl_state w) * page_size (cfg w)
      in if dummy \<le> pa then pa + page_size (cfg w) else pa)"

fun erase_sectors :: "'d wl_io \<Rightarrow> u32 \<Rightarrow> u32 \<Rightarrow> nat \<Rightarrow> u32 \<Rightarrow> 'd \<Rightarrow> int \<times> 'd" where
  "erase_sectors io start sec 0 i d = (0, d)"
| "erase_sectors io start sec (Suc n) i d =
     err_check (io_erase io (start + i * sec) sec d) (erase_sectors io start sec n (i + 1))"

definition wl_flash_erase_raw :: "'d wl_io \<Rightarrow> u32 \<Rightarrow> u32 \<Rightarrow> 'd wl_flash_t \<Rightarrow> int \<times> 'd wl_flash_t" where
  "wl_flash_erase_raw io start sz w =
     on_device (erase_sectors io start (sector_size (cfg w)) (unat (sz div sector_size (cfg w))) 0) w"

fun copy_blocks :: "'d wl_io \<Rightarrow> u32 \<Rightarrow> u32 \<Rightarrow> u32 \<Rightarrow> nat \<Rightarrow> u32 \<Rightarrow> 'd \<Rightarrow> int \<times> 'd" where
  "copy_blocks io src dst tb 0 i d = (0, d)"
| "copy_blocks io src dst tb (Suc n) i d =
     (let (r, b) = io_read io (src + i * tb) (unat tb) d in
      if r \<noteq> 0 then (r, d)
      else err_check (io_write io (dst + i * tb) b d) (copy_blocks io src dst tb n (i + 1)))"

text \<open>The state is written to one of its two places; \<open>24\<close> is \<^verbatim>\<open>sizeof(wl_state_t)\<close>.\<close>

definition put_state :: "'d wl_io \<Rightarrow> u32 \<Rightarrow> wl_state_t \<Rightarrow> 'd wl_flash_t \<Rightarrow> int \<times> 'd wl_flash_t" where
  "put_state io addr s w =
     err_check (wl_flash_erase_raw io addr (state_size w) w) (on_device (io_write io addr (state_bytes s)))"

definition store_state :: "'d wl_io \<Rightarrow> 'd wl_flash_t \<Rightarrow> int \<times> 'd wl_flash_t" where
  "store_state io w =
     (let w1 = w\<lparr>wl_state := (wl_state w)\<lparr>st_crc := state_crc io (wl_state w)\<rparr>\<rparr> in
      err_check (put_state io (addr_state1 w1) (wl_state w1) w1)
        (\<lambda>w2. put_state io (addr_state2 w2) (wl_state w2) w2))"

definition wl_flash_init_sections :: "'d wl_io \<Rightarrow> 'd wl_flash_t \<Rightarrow> int \<times> 'd wl_flash_t" where
  "wl_flash_init_sections io w =
     (let s = (wl_state w)\<lparr>pos := 0, move_count := 0, st_version := cfg_version (cfg w),
                block_size := page_size (cfg w), max_pos := 1 + flash_size w div page_size (cfg w)\<rparr> in
      err_check (store_state io (w\<lparr>wl_state := s\<rparr>)) (\<lambda>w1.
      err_check (wl_flash_erase_raw io (addr_cfg w1) (cfg_size w1) w1) (\<lambda>w2.
      on_device (io_write io (addr_cfg w2) (config_bytes (cfg w2))) w2)))"

text \<open>The first mark that is still blank; when every mark is set the position is not changed.\<close>

fun recover_loop :: "'d wl_io \<Rightarrow> nat \<Rightarrow> u32 \<Rightarrow> 'd wl_flash_t \<Rightarrow> int \<times> 'd wl_flash_t" where
  "recover_loop io 0 i w = (0, w)"
| "recover_loop io (Suc n) i w =
     (let (r, b) = io_read io (addr_state1 w + 24 + i * wr_size (cfg w) div 8) 1 (device w) in
      if r \<noteq> 0 then (r, w)
      else if b = [0xFF] then (0, w\<lparr>wl_state := (wl_state w)\<lparr>pos := i\<rparr>\<rparr>)
      else recover_loop io n (i + 1) w)"

definition wl_flash_recover_pos :: "'d wl_io \<Rightarrow> 'd wl_flash_t \<Rightarrow> int \<times> 'd wl_flash_t" where
  "wl_flash_recover_pos io w =
     err_check (recover_loop io (unat (max_pos (wl_state w))) 0 w) (\<lambda>w1.
       (0, if pos (wl_state w1) = max_pos (wl_state w1)
           then w1\<lparr>wl_state := (wl_state w1)\<lparr>pos := pos (wl_state w1) - 1\<rparr>\<rparr> else w1))"

definition next_data_page :: "wl_state_t \<Rightarrow> u32" where
  "next_data_page s = (if max_pos s \<le> pos s + 1 then 0 else pos s + 1)"

definition advance_pos :: "'d wl_io \<Rightarrow> 'd wl_flash_t \<Rightarrow> int \<times> 'd wl_flash_t" where
  "advance_pos io w =
     (let s = (wl_state w)\<lparr>pos := pos (wl_state w) + 1\<rparr> in
      if max_pos s \<le> pos s
      then let mc = move_count s + 1;
               s1 = s\<lparr>pos := 0, move_count := (if max_pos s - 1 \<le> mc then 0 else mc)\<rparr>
           in store_state io (w\<lparr>wl_state := s1\<rparr>)
      else (0, w\<lparr>wl_state := s\<rparr>))"

text \<open>The page behind the spare page is copied into it and both marks are set.\<close>

definition pass_page :: "'d wl_io \<Rightarrow> 'd wl_flash_t \<Rightarrow> int \<times> 'd wl_flash_t" where
  "pass_page io w =
     (let c = cfg w; s = wl_state w;
          data_addr = start_address c + next_data_page s * page_size c;
          w0 = w\<lparr>dummy_addr := start_address c + pos s * page_size c\<rparr>;
          byte_pos = pos s * wr_size c div 8
      in err_check (wl_flash_erase_raw io (dummy_addr w0) (page_size c) w0) (\<lambda>w1.
         err_check (on_device (copy_blocks io data_addr (dummy_addr w1) (temp_buff_size c)
                      (unat (page_size c div temp_buff_size c)) 0) w1) (\<lambda>w2.
         err_check (on_device (io_write io (addr_state1 w2 + 24 + byte_pos) [1]) w2) (\<lambda>w3.
         on_device (io_write io (addr_state2 w3 + 24 + byte_pos) [1]) w3))))"

definition wl_flash_updatewl :: "'d wl_io \<Rightarrow> 'd wl_flash_t \<Rightarrow> int \<times> 'd wl_flash_t" where
  "wl_flash_updatewl io w = err_check (pass_page io w) (advance_pos io)"

definition wl_flash_erase_sector :: "'d wl_io \<Rightarrow> u32 \<Rightarrow> 'd wl_flash_t \<Rightarrow> int \<times> 'd wl_flash_t" where
  "wl_flash_erase_sector io sector w =
     err_check (wl_flash_updatewl io w) (\<lambda>w1.
       on_device (io_erase io (start_address (cfg w1) + wl_flash_calc_addr w1 (sector * sector_size (cfg w1)))
                    (sector_size (cfg w1))) w1)"

fun erase_range_loop :: "'d wl_io \<Rightarrow> nat \<Rightarrow> u32 \<Rightarrow> 'd wl_flash_t \<Rightarrow> int \<times> 'd wl_flash_t" where
  "erase_range_loop io 0 sector w = (0, w)"
| "erase_range_loop io (Suc n) sector w =
     err_check (wl_flash_erase_sector io sector w) (erase_range_loop io n (sector + 1))"

definition wl_flash_erase_range :: "'d wl_io \<Rightarrow> u32 \<Rightarrow> u32 \<Rightarrow> 'd wl_flash_t \<Rightarrow> int \<times> 'd wl_flash_t" where
  "wl_flash_erase_range io start sz w =
     (let sec = sector_size (cfg w)
      in erase_range_loop io (unat ((sz + sec - 1) div sec)) (start div sec) w)"

fun write_pages :: "'d wl_io \<Rightarrow> u32 \<Rightarrow> nat \<Rightarrow> bytes \<Rightarrow> 'd wl_flash_t \<Rightarrow> int \<times> 'd wl_flash_t" where
  "write_pages io dest 0 src w =
     on_device (io_write io (start_address (cfg w) + wl_flash_calc_addr w dest) src) w"
| "write_pages io dest (Suc n) src w =
     (let ps = unat (page_size (cfg w)) in
      err_check (on_device (io_write io (start_address (cfg w) + wl_flash_calc_addr w dest) (take ps src)) w)
        (write_pages io (dest + page_size (cfg w)) n (drop ps src)))"

text \<open>The number of whole pages before the last piece; the size is not 0.\<close>

definition whole_pages :: "nat \<Rightarrow> 'd wl_flash_t \<Rightarrow> nat" where
  "whole_pages len w = unat ((of_nat len - 1) div page_size (cfg w))"

definition wl_flash_write :: "'d wl_io \<Rightarrow> u32 \<Rightarrow> bytes \<Rightarrow> 'd wl_flash_t \<Rightarrow> int \<times> 'd wl_flash_t" where
  "wl_flash_write io dest src w = write_pages io dest (whole_pages (length src) w) src w"

fun read_pages :: "'d wl_io \<Rightarrow> u32 \<Rightarrow> nat \<Rightarrow> nat \<Rightarrow> 'd wl_flash_t \<Rightarrow> int \<times> bytes" where
  "read_pages io src 0 len w =
     io_read io (start_address (cfg w) + wl_flash_calc_addr w src) len (device w)"
| "read_pages io src (Suc n) len w =
     (let ps = unat (page_size (cfg w));
          (r, b) = io_read io (start_address (cfg w) + wl_flash_calc_addr w src) ps (device w)
      in if r \<noteq> 0 then (r, b)
         else let (r2, bs) = read_pages io (src + page_size (cfg w)) n (len - ps) w in (r2, b @ bs))"

definition wl_flash_read :: "'d wl_io \<Rightarrow> u32 \<Rightarrow> nat \<Rightarrow> 'd wl_flash_t \<Rightarrow> int \<times> bytes" where
  "wl_flash_read io src len w = (if len = 0 then (- 1, []) else read_pages io src (whole_pages len w) len w)"

subsection \<open>Start-up\<close>

fun copy_marks :: "'d wl_io \<Rightarrow> u32 \<Rightarrow> u32 \<Rightarrow> nat \<Rightarrow> u32 \<Rightarrow> 'd \<Rightarrow> int \<times> 'd" where
  "copy_marks io src dst 0 i d = (0, d)"
| "copy_marks io src dst (Suc n) i d =
     (let (r, b) = io_read io (src + 24 + i) 1 d in
      if r \<noteq> 0 then (r, d)
      else if b \<noteq> [0xFF]
      then err_check (io_write io (dst + 24 + i) b d) (copy_marks io src dst n (i + 1))
      else copy_marks io src dst n (i + 1) d)"

definition mark_count :: "wl_config_t \<Rightarrow> u32" where
  "mark_count c = full_mem_size c div sector_size c * wr_size c div 8"

definition restore_state :: "'d wl_io \<Rightarrow> u32 \<Rightarrow> u32 \<Rightarrow> wl_state_t \<Rightarrow> 'd wl_flash_t \<Rightarrow> int \<times> 'd wl_flash_t" where
  "restore_state io src dst s w =
     err_check (put_state io dst s w)
       (on_device (copy_marks io src dst (unat (mark_count (cfg w))) 0))"

definition reload_state :: "'d wl_io \<Rightarrow> u32 \<Rightarrow> 'd wl_flash_t \<Rightarrow> int \<times> 'd wl_flash_t" where
  "reload_state io addr w =
     (let (r, b) = io_read io addr 24 (device w)
      in if r \<noteq> 0 then (r, w) else (0, w\<lparr>wl_state := state_of_bytes b\<rparr>))"

definition config_layout :: "'d wl_flash_t \<Rightarrow> 'd wl_flash_t" where
  "config_layout w =
     (let c = cfg w; sec = sector_size c; full = full_mem_size c;
          need = 24 + mark_count c;
          ss = (if sec < need then (need + sec - 1) div sec * sec else sec);
          cs = (32 + sec - 1) div sec * sec
      in w\<lparr>state_size := ss, cfg_size := cs, addr_cfg := start_address c + full - cs,
           addr_state1 := start_address c + full - ss * 2 - cs,
           addr_state2 := start_address c + full - ss * 1 - cs,
           flash_size := ((full - ss * 2 - cs) div page_size c - 1) * page_size c\<rparr>)"

definition select_state :: "'d wl_io \<Rightarrow> wl_state_t \<Rightarrow> 'd wl_flash_t \<Rightarrow> int \<times> 'd wl_flash_t" where
  "select_state io sa_copy w =
     (let crc1 = state_crc io (wl_state w); crc2 = state_crc io sa_copy;
          ok1 = crc1 = st_crc (wl_state w); ok2 = crc2 = st_crc sa_copy;
          versions = (\<lambda>w. st_version (wl_state w) = cfg_version (cfg w)) in
      if ok1 \<and> ok2
      then if \<not> versions w
           then err_check (wl_flash_init_sections io w) (wl_flash_recover_pos io)
           else err_check (if crc1 \<noteq> crc2
                  then restore_state io (addr_state1 w) (addr_state2 w) (wl_state w) w else (0, w))
                  (\<lambda>w1. (0, snd (wl_flash_recover_pos io w1)))
      else if \<not> ok1 \<and> \<not> ok2
      then err_check (wl_flash_init_sections io w) (wl_flash_recover_pos io)
      else
        err_check
          (if ok1
           then err_check (restore_state io (addr_state1 w) (addr_state2 w) (wl_state w) w)
                  (\<lambda>w1. reload_state io (addr_state2 w1) w1)
           else err_check (err_check (restore_state io (addr_state2 w) (addr_state1 w) sa_copy w)
                  (\<lambda>w1. reload_state io (addr_state1 w1) w1))
                  (\<lambda>w2. (0, w2\<lparr>wl_state := (wl_state w2)\<lparr>pos := max_pos (wl_state w2) - 1\<rparr>\<rparr>)))
          (\<lambda>w3. if \<not> versions w3 then wl_flash_init_sections io w3 else (0, w3)))"

text \<open>
  \<open>mem\<close> tells whether the copy buffer could be allocated. In the branch with two valid
  states the result of the last step does not reach the caller, which is told of success.
\<close>

definition wl_flash_config :: "'d wl_io \<Rightarrow> bool \<Rightarrow> 'd wl_flash_t \<Rightarrow> int \<times> 'd wl_flash_t" where
  "wl_flash_config io mem w =
     (let c = cfg w;
          c1 = c\<lparr>cfg_crc := wl_crc io [start_address c, full_mem_size c, page_size c, sector_size c,
                 wr_size c, cfg_version c, temp_buff_size c]\<rparr>;
          w0 = w\<lparr>cfg := c1\<rparr> in
      if sector_size c mod temp_buff_size c \<noteq> 0 \<or> page_size c < sector_size c \<or> \<not> mem then (- 1, w0)
      else
        let w1 = config_layout w0; (r1, b1) = io_read io (addr_state1 w1) 24 (device w1) in
        if r1 \<noteq> 0 then (r1, w1)
        else
          let w2 = w1\<lparr>wl_state := state_of_bytes b1\<rparr>; (r2, b2) = io_read io (addr_state2 w2) 24 (device w2) in
          if r2 \<noteq> 0 then (r2, w2) else select_state io (state_of_bytes b2) w2)"

section \<open>The page map\<close>

text \<open>
  Virtual page \<open>k\<close> of \<open>M\<close> lies in physical page \<open>pg M q mc k\<close> of \<open>M + 1\<close> when the spare
  page is \<open>q\<close> and it has been around \<open>mc\<close> times.
\<close>

definition pg :: "nat \<Rightarrow> nat \<Rightarrow> nat \<Rightarrow> nat \<Rightarrow> nat" where
  "pg M q mc k = (let p = (M - mc + k) mod M in if p < q then p else p + 1)"

lemma pg_le: "0 < M \<Longrightarrow> pg M q mc k \<le> M"
  using mod_less_divisor [of M "M - mc + k"] by (auto simp: pg_def Let_def Suc_le_eq)

lemma rotate_eq:
  fixes M mc k :: nat
  assumes "mc < M" and "k < M"
  shows "(M - mc + k) mod M = (if k < mc then M - mc + k else k - mc)"
proof (cases "k < mc")
  case False
  then have "M - mc + k = k - mc + M" using assms by simp
  then show ?thesis using False assms by (metis less_imp_diff_less mod_add_self2 mod_less)
qed (use assms in simp)

lemma pg_not_spare: "pg M q mc k \<noteq> q"
  by (simp add: pg_def Let_def)

lemma rotate_inj:
  fixes M mc j k :: nat
  assumes "mc < M" and "j < M" and "k < M" and "(M - mc + j) mod M = (M - mc + k) mod M"
  shows "j = k"
  using assms(4) unfolding rotate_eq [OF assms(1,2)] rotate_eq [OF assms(1,3)]
  using assms(1-3) by (auto split: if_splits)

lemma pg_inj: "mc < M \<Longrightarrow> j < M \<Longrightarrow> k < M \<Longrightarrow> pg M q mc j = pg M q mc k \<Longrightarrow> j = k"
  by (rule rotate_inj) (auto simp: pg_def Let_def split: if_splits)

text \<open>One step of the spare page: the page it passes moves to the old spare page.\<close>

definition next_q :: "nat \<Rightarrow> nat \<Rightarrow> nat" where
  "next_q M q = (if q = M then 0 else q + 1)"

definition next_mc :: "nat \<Rightarrow> nat \<Rightarrow> nat \<Rightarrow> nat" where
  "next_mc M q mc = (if q = M then if M \<le> mc + 1 then 0 else mc + 1 else mc)"

lemma pg_step:
  assumes "q \<le> M" and "mc < M" and "k < M"
  shows "pg M (next_q M q) (next_mc M q mc) k = (if pg M q mc k = next_q M q then q else pg M q mc k)"
proof (cases "q = M")
  case False
  then show ?thesis using assms(1) by (auto simp: pg_def Let_def next_q_def next_mc_def)
next
  case True
  define p where "p = (M - mc + k) mod M"
  have p: "p < M" using assms(2) by (simp add: p_def)
  have "(M - next_mc M M mc + k) mod M = (if p = 0 then M - 1 else p - 1)"
  proof (cases "M \<le> mc + 1")
    case True
    then have "mc = M - 1" using assms(2) by simp
    then show ?thesis
      using assms(2,3) rotate_eq [of mc M k] by (auto simp: p_def next_mc_def)
  next
    case False
    then show ?thesis
      using assms(3) rotate_eq [of mc M k] rotate_eq [of "mc + 1" M k] by (auto simp: p_def next_mc_def)
  qed
  then show ?thesis
    using True p by (auto simp: pg_def Let_def next_q_def p_def [symmetric])
qed

section \<open>A well-formed instance\<close>

text \<open>
  \<open>M\<close> virtual pages of \<open>P\<close> bytes from \<open>lo\<close> on, the two states behind them and below \<open>hi\<close>.
\<close>

definition wl_geometry :: "nat \<Rightarrow> nat \<Rightarrow> nat \<Rightarrow> nat \<Rightarrow> 'd wl_flash_t \<Rightarrow> bool" where
  "wl_geometry lo hi P M w \<longleftrightarrow>
     (let c = cfg w; S = unat (sector_size c); T = unat (temp_buff_size c); ss = unat (state_size w);
          a1 = unat (addr_state1 w); a2 = unat (addr_state2 w) in
      hi < 0x80000000 \<and> 0 < M \<and> 0 < P \<and> unat (page_size c) = P \<and> unat (start_address c) = lo \<and> 4096 dvd lo
    \<and> unat (flash_size w) = M * P \<and> unat (max_pos (wl_state w)) = M + 1
    \<and> 0 < S \<and> 4096 dvd S \<and> S dvd P \<and> 0 < T \<and> T dvd P
    \<and> lo + (M + 1) * P \<le> a1 \<and> 4096 dvd a1 \<and> 4096 dvd a2 \<and> S dvd ss \<and> 0 < ss \<and> a1 + ss \<le> a2 \<and> a2 + ss \<le> hi
    \<and> (M + 1) * unat (wr_size c) < 0x100000000 \<and> 24 + M * unat (wr_size c) div 8 < ss)"

definition wl_ok :: "nat \<Rightarrow> nat \<Rightarrow> nat \<Rightarrow> nat \<Rightarrow> 'd wl_flash_t \<Rightarrow> bool" where
  "wl_ok lo hi P M w \<longleftrightarrow> wl_geometry lo hi P M w
     \<and> unat (pos (wl_state w)) \<le> M \<and> unat (move_count (wl_state w)) < M"

definition same_frame :: "'d wl_flash_t \<Rightarrow> 'd wl_flash_t \<Rightarrow> bool" where
  "same_frame w w' \<longleftrightarrow> cfg w' = cfg w \<and> addr_state1 w' = addr_state1 w \<and> addr_state2 w' = addr_state2 w
     \<and> flash_size w' = flash_size w \<and> state_size w' = state_size w
     \<and> max_pos (wl_state w') = max_pos (wl_state w)"

lemma same_frame_refl [simp]: "same_frame w w"
  by (simp add: same_frame_def)

lemma same_frame_trans: "same_frame w w1 \<Longrightarrow> same_frame w1 w2 \<Longrightarrow> same_frame w w2"
  by (simp add: same_frame_def)

lemma geometry_frame: "same_frame w w' \<Longrightarrow> wl_geometry lo hi P M w \<Longrightarrow> wl_geometry lo hi P M w'"
  by (simp add: same_frame_def wl_geometry_def)

lemma page_word:
  assumes "wl_geometry lo hi P M w" and "unat k \<le> M"
  shows "unat (start_address (cfg w) + k * page_size (cfg w)) = lo + unat k * P"
    and "lo + unat k * P + P \<le> unat (addr_state1 w)"
proof -
  have g: "unat (page_size (cfg w)) = P" "unat (start_address (cfg w)) = lo" "lo + (M + 1) * P \<le> unat (addr_state1 w)"
    "unat (addr_state1 w) < 0x80000000"
    using assms(1) by (auto simp: wl_geometry_def Let_def)
  have "unat k * P + P \<le> (M + 1) * P" using mult_le_mono1 [OF assms(2), of P] by simp
  then show le: "lo + unat k * P + P \<le> unat (addr_state1 w)" using g(3) by linarith
  then have "unat k * P < 0x100000000" "lo + unat k * P < 0x100000000" using g(4) by linarith+
  then show "unat (start_address (cfg w) + k * page_size (cfg w)) = lo + unat k * P"
    using g(1,2) by (simp add: unat_word_ariths)
qed

lemma next_page:
  assumes "wl_ok lo hi P M w"
  shows "unat (next_data_page (wl_state w)) = next_q M (unat (pos (wl_state w)))"
    and "next_q M (unat (pos (wl_state w))) \<le> M"
proof -
  have g: "unat (max_pos (wl_state w)) = M + 1" "unat (pos (wl_state w)) \<le> M" "0 < M"
    using assms by (auto simp: wl_ok_def wl_geometry_def Let_def)
  have "unat (max_pos (wl_state w)) < 4294967296" by simp
  then have "unat (pos (wl_state w)) + 1 < 4294967296" using g(1,2) by linarith
  then have "unat (pos (wl_state w) + 1) = unat (pos (wl_state w)) + 1" by (simp add: unat_word_ariths)
  then show "unat (next_data_page (wl_state w)) = next_q M (unat (pos (wl_state w)))"
    "next_q M (unat (pos (wl_state w))) \<le> M"
    using g by (auto simp: next_data_page_def next_q_def word_le_nat_alt)
qed

lemma mod_pages:
  fixes P M v :: nat
  assumes "0 < P" and "0 < M"
  shows "(a * P + v) mod (M * P) = (a + v div P) mod M * P + v mod P"
proof -
  have "(a * P + v) div P = a + v div P" "(a * P + v) mod P = v mod P" using assms(1) by simp_all
  then show ?thesis by (metis mod_mult2_eq mult.commute add.commute)
qed

lemma page_addr_le: "a < b \<Longrightarrow> r < P \<Longrightarrow> a * P + r < b * (P :: nat)"
  by (metis add.commute add_less_mono1 less_le_trans mult_Suc mult_le_mono1 Suc_leI)

lemma page_less: "a \<le> (M :: nat) \<Longrightarrow> r < P \<Longrightarrow> a * P + r < (M + 1) * P"
  by (intro page_addr_le) auto

lemma calc_addr_pg:
  assumes "wl_ok lo hi P M w" and "v < M * P"
  shows "unat (wl_flash_calc_addr w (of_nat v)) =
    pg M (unat (pos (wl_state w))) (unat (move_count (wl_state w))) (v div P) * P + v mod P"
proof -
  define q where "q = unat (pos (wl_state w))"
  define mc where "mc = unat (move_count (wl_state w))"
  have g: "0 < M" "0 < P" "unat (page_size (cfg w)) = P" "unat (flash_size w) = M * P" "q \<le> M" "mc < M"
    "lo + (M + 1) * P < 0x80000000"
    using assms(1) by (auto simp: wl_ok_def wl_geometry_def Let_def q_def mc_def)
  have small: "(M + 1) * P < 0x80000000" using g(7) by linarith
  have MP: "M * P < 0x80000000" using small by simp
  have mcP: "mc * P \<le> M * P" "q * P \<le> M * P" using g(5,6) by simp_all
  then have lt: "mc * P < 0x100000000" "q * P < 0x100000000" using MP by linarith+
  have 1: "unat (move_count (wl_state w) * page_size (cfg w)) = mc * P"
    using lt g(3) by (simp add: unat_word_ariths mc_def [symmetric])
  have 2: "unat (flash_size w - move_count (wl_state w) * page_size (cfg w)) = (M - mc) * P"
    using 1 mcP(1) g(4) by (simp add: unat_sub word_le_nat_alt diff_mult_distrib)
  have "(M - mc) * P \<le> M * P" by simp
  then have "(M - mc) * P + v < 0x100000000" "v < 0x100000000" using assms(2) MP by linarith+
  then have 3: "unat (flash_size w - move_count (wl_state w) * page_size (cfg w) + of_nat v) = (M - mc) * P + v"
    using 2 by (simp add: unat_word_ariths unat_of_nat_u32)
  define p where "p = (M - mc + v div P) mod M"
  have p: "p < M" using g(1) by (simp add: p_def)
  have r: "v mod P < P" using g(2) by simp
  have pa: "unat ((flash_size w - move_count (wl_state w) * page_size (cfg w) + of_nat v) mod flash_size w)
      = p * P + v mod P"
    using 3 g(4) mod_pages [OF g(2,1)] by (simp add: unat_mod_distrib p_def)
  have dummy: "unat (pos (wl_state w) * page_size (cfg w)) = q * P"
    using g(3) lt by (simp add: unat_word_ariths q_def [symmetric])
  have cmp: "q * P \<le> p * P + v mod P \<longleftrightarrow> \<not> p < q"
    using page_addr_le [OF _ r, of p q] mult_le_mono1 [of q p P] by (metis leD le_add1 le_trans not_le)
  have up: "unat (x + page_size (cfg w)) = unat x + P" if "unat x = p * P + v mod P" for x
    using that page_less [OF less_imp_le [OF p] r] small g(3) by (simp add: unat_word_ariths)
  show ?thesis
    using pa dummy cmp up [OF pa] unfolding q_def [symmetric] mc_def [symmetric]
    by (simp add: wl_flash_calc_addr_def Let_def word_le_nat_alt pg_def p_def [symmetric] ring_distribs)
qed

text \<open>A piece inside one page stays together.\<close>

lemma same_page:
  fixes P a b r s :: nat
  assumes "a * P + r = b * P + s" and "r < P" and "s < P"
  shows "a = b" and "r = s"
proof -
  have "(a * P + r) div P = a" "(b * P + s) div P = b" using assms(2,3) by simp_all
  then show "a = b" using assms(1) by simp
  then show "r = s" using assms(1) by simp
qed

lemma piece_addr:
  assumes "wl_ok lo hi P M w" and "v0 + n \<le> M * P" and "v0 mod P + n \<le> P" and "v < M * P"
  shows "unat (wl_flash_calc_addr w (of_nat v0)) \<le> unat (wl_flash_calc_addr w (of_nat v))
       \<and> unat (wl_flash_calc_addr w (of_nat v)) < unat (wl_flash_calc_addr w (of_nat v0)) + n
     \<longleftrightarrow> v0 \<le> v \<and> v < v0 + n" (is "?in \<longleftrightarrow> _")
    and "v0 \<le> v \<Longrightarrow> v < v0 + n \<Longrightarrow>
      unat (wl_flash_calc_addr w (of_nat v)) = unat (wl_flash_calc_addr w (of_nat v0)) + (v - v0)"
proof -
  define q where "q = unat (pos (wl_state w))"
  define mc where "mc = unat (move_count (wl_state w))"
  define F where "F k = pg M q mc k" for k
  have g: "mc < M" "0 < P" using assms(1) by (auto simp: wl_ok_def wl_geometry_def Let_def mc_def)
  have addr: "unat (wl_flash_calc_addr w (of_nat x)) = F (x div P) * P + x mod P" if "x < M * P" for x
    using calc_addr_pg [OF assms(1) that] by (simp add: F_def q_def mc_def)
  have shift: "(v0 + j) div P = v0 div P" "(v0 + j) mod P = v0 mod P + j" if "j < n" for j
  proof -
    have "v0 + j = v0 div P * P + (v0 mod P + j)" by simp
    moreover have "v0 mod P + j < P" using that assms(3) by linarith
    ultimately show "(v0 + j) div P = v0 div P" "(v0 + j) mod P = v0 mod P + j"
      by (metis add.right_neutral div_less div_mult_self3 g(2) less_numeral_extra(3) add.commute, metis mod_less mod_mult_self3)
  qed
  show at: "unat (wl_flash_calc_addr w (of_nat v)) = unat (wl_flash_calc_addr w (of_nat v0)) + (v - v0)"
    if "v0 \<le> v" "v < v0 + n"
  proof -
    have "v0 < M * P" using that assms(4) by linarith
    then show ?thesis using addr [OF assms(4)] addr [of v0] shift [of "v - v0"] that by simp
  qed
  show "?in \<longleftrightarrow> v0 \<le> v \<and> v < v0 + n"
  proof
    assume "v0 \<le> v \<and> v < v0 + n"
    then show ?in using at by auto
  next
    assume i: ?in
    then have "0 < n" by linarith
    then have v0: "v0 < M * P" using assms(2) by linarith
    have r: "v mod P < P" "v0 mod P < P" using g(2) by simp_all
    define j where "j = F (v div P) * P + v mod P - (F (v0 div P) * P + v0 mod P)"
    have j: "F (v div P) * P + v mod P = F (v0 div P) * P + (v0 mod P + j)" "j < n"
      using i addr [OF assms(4)] addr [OF v0] by (auto simp: j_def)
    have "v0 mod P + j < P" using j(2) assms(3) by linarith
    note eq = same_page [OF j(1) r(1) this]
    have "v div P < M" "v0 div P < M" using assms(4) v0 by (simp_all add: less_mult_imp_div_less)
    then have "v div P = v0 div P" using eq(1) pg_inj [OF g(1)] by (auto simp: F_def)
    then have "v = v0 + j" using eq(2) by (metis add.assoc div_mult_mod_eq)
    then show "v0 \<le> v \<and> v < v0 + n" using j(2) by simp
  qed
qed

text \<open>The virtual content: the byte at virtual address \<open>v\<close>.\<close>

definition wl_content :: "('d \<Rightarrow> nat \<Rightarrow> u8) \<Rightarrow> nat \<Rightarrow> 'd wl_flash_t \<Rightarrow> nat \<Rightarrow> u8" where
  "wl_content byte lo w v = byte (device w) (lo + unat (wl_flash_calc_addr w (of_nat v)))"

text \<open>
  What lies in the flash at each of the two places of the state: the state with position 0, and
  behind it one mark for every step of the spare page since the state was written.
\<close>

definition slot_byte :: "wl_state_t \<Rightarrow> nat \<Rightarrow> nat \<Rightarrow> u8" where
  "slot_byte s q j = (if j < 24 then state_bytes s ! j else if j < 24 + q then 1 else 0xFF)"

definition wl_stored :: "'d wl_io \<Rightarrow> ('d \<Rightarrow> nat \<Rightarrow> u8) \<Rightarrow> nat \<Rightarrow> 'd wl_flash_t \<Rightarrow> bool" where
  "wl_stored io byte M w \<longleftrightarrow>
     wr_size (cfg w) = 8 \<and> st_version (wl_state w) = cfg_version (cfg w)
   \<and> st_crc (wl_state w) = state_crc io ((wl_state w)\<lparr>pos := 0\<rparr>)
   \<and> (\<forall>a\<in>{addr_state1 w, addr_state2 w}. \<forall>j\<le>24 + M. byte (device w) (unat a + j) =
        slot_byte ((wl_state w)\<lparr>pos := 0\<rparr>) (unat (pos (wl_state w))) j)"

lemma stored_device:
  assumes "wl_stored io byte M w" and "unat (addr_state1 w) \<le> unat (addr_state2 w)"
    and "\<And>x. unat (addr_state1 w) \<le> x \<Longrightarrow> byte d' x = byte (device w) x"
  shows "wl_stored io byte M (w\<lparr>device := d'\<rparr>)"
  using assms by (auto simp: wl_stored_def)

end
