(* ===== verification/Wear_Flash.thy ===== *)
theory Wear_Flash
  imports Wear_Levelling
begin

text \<open>
  The wear levelling on top of a flash: the locale \<open>block_flash\<close> states what the code relies on,
  its lemmas follow the operations of the theory \<open>Wear_Levelling\<close> byte by byte, and the internal
  flash of the theory \<open>Raw_Flash\<close> interprets it.
\<close>

section \<open>The flash below\<close>

locale block_flash =
  fixes io :: "'d wl_io" and byte :: "'d \<Rightarrow> nat \<Rightarrow> u8" and lo hi :: nat
  assumes area_end: "hi < 0x80000000"
    and io_read_ok: "lo \<le> unat a \<Longrightarrow> unat a + n \<le> hi \<Longrightarrow> 0 < n \<Longrightarrow>
      io_read io a n d = (0, map (byte d) [unat a..<unat a + n])"
    and io_write_ok: "lo \<le> unat a \<Longrightarrow> unat a + length bs \<le> hi \<Longrightarrow> bs \<noteq> [] \<Longrightarrow>
      \<exists>d'. io_write io a bs d = (0, d') \<and> (\<forall>x. byte d' x =
        (if unat a \<le> x \<and> x < unat a + length bs then byte d x AND bs ! (x - unat a) else byte d x))"
    and io_erase_ok: "lo \<le> unat a \<Longrightarrow> unat a + unat sz \<le> hi \<Longrightarrow> 0 < unat sz \<Longrightarrow> 4096 dvd unat a \<Longrightarrow> 4096 dvd unat sz \<Longrightarrow>
      \<exists>d'. io_erase io a sz d = (0, d') \<and> (\<forall>x. byte d' x =
        (if unat a \<le> x \<and> x < unat a + unat sz then 0xFF else byte d x))"
begin

lemma block_addr:
  fixes start i sec :: u32
  assumes "unat start + (unat i + n) * unat sec \<le> hi" and "0 < n"
  shows "unat (start + i * sec) = unat start + unat i * unat sec"
    and "unat start + unat i * unat sec + unat sec \<le> unat start + (unat i + n) * unat sec"
proof -
  have "unat i * unat sec + unat sec = (unat i + 1) * unat sec" by simp
  also have "\<dots> \<le> (unat i + n) * unat sec" using assms(2) by (intro mult_le_mono1) simp
  finally show le: "unat start + unat i * unat sec + unat sec \<le> unat start + (unat i + n) * unat sec" by linarith
  have "unat start + unat i * unat sec < 0x100000000" "unat i * unat sec < 0x100000000"
    using le assms(1) area_end by linarith+
  then show "unat (start + i * sec) = unat start + unat i * unat sec" by (simp add: unat_word_ariths)
qed

lemma next_index:
  fixes start i sec :: u32
  assumes "unat start + (unat i + Suc n) * unat sec \<le> hi" and "0 < unat sec"
  shows "unat (i + 1) = unat i + 1"
proof -
  have "(unat i + Suc n) * 1 \<le> (unat i + Suc n) * unat sec" using assms(2) by (intro mult_le_mono2) simp
  then have "unat i + Suc n \<le> hi" using assms(1) unfolding mult_1_right by linarith
  then have "unat i + 1 < 0x100000000" using area_end by linarith
  then show ?thesis by (simp add: unat_word_ariths)
qed

lemma erase_sectors_ok:
  assumes "lo \<le> unat start" and "4096 dvd unat start" and "4096 dvd unat sec" and "0 < unat sec"
  shows "unat start + (unat i + n) * unat sec \<le> hi \<Longrightarrow>
    \<exists>d'. erase_sectors io start sec n i d = (0, d') \<and> (\<forall>x. byte d' x =
      (if unat start + unat i * unat sec \<le> x \<and> x < unat start + (unat i + n) * unat sec then 0xFF else byte d x))"
proof (induction n arbitrary: i d)
  case (Suc n)
  note addr = block_addr [OF Suc.prems zero_less_Suc] and idx = next_index [OF Suc.prems assms(4)]
  have room: "lo \<le> unat (start + i * sec)" "unat (start + i * sec) + unat sec \<le> hi"
    using addr assms(1) Suc.prems by linarith+
  have dvd: "4096 dvd unat (start + i * sec)" using addr assms(2,3) by simp
  obtain d1 where d1: "io_erase io (start + i * sec) sec d = (0, d1)"
    "\<And>x. byte d1 x = (if unat start + unat i * unat sec \<le> x \<and> x < unat start + unat i * unat sec + unat sec
       then 0xFF else byte d x)"
    using io_erase_ok [OF room assms(4) dvd assms(3), of d] unfolding addr(1) by blast
  have prem: "unat start + (unat (i + 1) + n) * unat sec \<le> hi" using Suc.prems idx by simp
  obtain d2 where d2: "erase_sectors io start sec n (i + 1) d1 = (0, d2)"
    "\<And>x. byte d2 x = (if unat start + unat (i + 1) * unat sec \<le> x \<and> x < unat start + (unat (i + 1) + n) * unat sec
       then 0xFF else byte d1 x)"
    using Suc.IH [OF prem, of d1] by blast
  have "erase_sectors io start sec (Suc n) i d = (0, d2)" using d1(1) d2(1) by (simp add: err_check_def)
  moreover have "byte d2 x = (if unat start + unat i * unat sec \<le> x \<and> x < unat start + (unat i + Suc n) * unat sec
      then 0xFF else byte d x)" for x
    unfolding d2(2) d1(2) idx by (auto simp: algebra_simps)
  ultimately show ?case by blast
qed auto

lemma write_ok:
  assumes "lo \<le> unat a" and "unat a + length bs \<le> hi" and "bs \<noteq> []"
  obtains d' where "io_write io a bs d = (0, d')" "\<And>x. byte d' x =
        (if unat a \<le> x \<and> x < unat a + length bs then byte d x AND bs ! (x - unat a) else byte d x)"
  using io_write_ok [OF assms, of d] by blast

lemma copy_blocks_ok:
  assumes "lo \<le> unat src" and "lo \<le> unat dst" and "0 < unat tb"
    and "unat src + L \<le> unat dst \<or> unat dst + L \<le> unat src"
  shows "(unat i + n) * unat tb \<le> L \<Longrightarrow> unat src + L \<le> hi \<Longrightarrow> unat dst + L \<le> hi \<Longrightarrow>
    \<exists>d'. copy_blocks io src dst tb n i d = (0, d') \<and> (\<forall>x. byte d' x =
      (if unat dst + unat i * unat tb \<le> x \<and> x < unat dst + (unat i + n) * unat tb
       then byte d x AND byte d (unat src + (x - unat dst)) else byte d x))"
proof (induction n arbitrary: i d)
  case (Suc n)
  have le: "unat src + (unat i + Suc n) * unat tb \<le> hi" "unat dst + (unat i + Suc n) * unat tb \<le> hi"
    using Suc.prems by linarith+
  note a1 = block_addr [OF le(1) zero_less_Suc] and a2 = block_addr [OF le(2) zero_less_Suc]
    and idx = next_index [OF le(1) assms(3)]
  have read: "io_read io (src + i * tb) (unat tb) d =
      (0, map (byte d) [unat src + unat i * unat tb..<unat src + unat i * unat tb + unat tb])"
    using io_read_ok [of "src + i * tb" "unat tb" d] a1 assms(1,3) le(1) by simp
  define b where "b = map (byte d) [unat src + unat i * unat tb..<unat src + unat i * unat tb + unat tb]"
  have room: "lo \<le> unat (dst + i * tb)" "unat (dst + i * tb) + length b \<le> hi" "b \<noteq> []"
    using a2(1) assms(2,3) order_trans [OF a2(2) le(2)] by (auto simp: b_def)
  obtain d1 where d1: "io_write io (dst + i * tb) b d = (0, d1)"
    "\<And>x. byte d1 x = (if unat dst + unat i * unat tb \<le> x \<and> x < unat dst + unat i * unat tb + unat tb
       then byte d x AND byte d (unat src + (x - unat dst)) else byte d x)"
  proof (rule write_ok [OF room, of d])
    fix d1
    assume w: "io_write io (dst + i * tb) b d = (0, d1)" and x: "\<And>x. byte d1 x =
      (if unat (dst + i * tb) \<le> x \<and> x < unat (dst + i * tb) + length b
       then byte d x AND b ! (x - unat (dst + i * tb)) else byte d x)"
    show thesis by (rule that [OF w]) (auto simp: x a2(1) b_def ac_simps)
  qed
  have prem: "(unat (i + 1) + n) * unat tb \<le> L" using Suc.prems(1) idx by simp
  obtain d2 where d2: "copy_blocks io src dst tb n (i + 1) d1 = (0, d2)"
    "\<And>x. byte d2 x = (if unat dst + unat (i + 1) * unat tb \<le> x \<and> x < unat dst + (unat (i + 1) + n) * unat tb
       then byte d1 x AND byte d1 (unat src + (x - unat dst)) else byte d1 x)"
    using Suc.IH [OF prem Suc.prems(2,3), of d1] by blast
  have "unat dst + unat i * unat tb + unat tb \<le> unat dst + L" using a2(2) Suc.prems(1) by linarith
  then have src_same: "byte d1 (unat src + y) = byte d (unat src + y)" if "y < L" for y
    using that assms(4) by (auto simp: d1(2))
  have "copy_blocks io src dst tb (Suc n) i d = (0, d2)"
    using read d1(1) d2(1) by (simp add: err_check_def b_def [symmetric])
  moreover have "byte d2 x = (if unat dst + unat i * unat tb \<le> x \<and> x < unat dst + (unat i + Suc n) * unat tb
      then byte d x AND byte d (unat src + (x - unat dst)) else byte d x)" for x
  proof -
    define B where "B = unat dst + unat i * unat tb + unat tb"
    define C where "C = unat dst + (unat i + Suc n) * unat tb"
    have BC: "B \<le> C" "C \<le> unat dst + L" using a2(2) Suc.prems(1) by (simp_all add: B_def C_def)
    have d2x: "byte d2 x = (if B \<le> x \<and> x < C then byte d1 x AND byte d1 (unat src + (x - unat dst)) else byte d1 x)"
      unfolding d2(2) idx B_def C_def by (simp add: algebra_simps)
    show ?thesis
    proof (cases "B \<le> x \<and> x < C")
      case True
      then have "unat dst \<le> x" "x < unat dst + L" using BC unfolding B_def by linarith+
      then have "x - unat dst < L" by linarith
      then have "byte d1 (unat src + (x - unat dst)) = byte d (unat src + (x - unat dst))" by (rule src_same)
      moreover have "byte d1 x = byte d x" "unat dst + unat i * unat tb \<le> x"
        using True d1(2) [of x] by (auto simp: B_def)
      ultimately show ?thesis unfolding C_def [symmetric] using True d2x by simp
    next
      case False
      then show ?thesis unfolding C_def [symmetric] using d2x d1(2) [of x] BC by (auto simp: B_def)
    qed
  qed
  ultimately show ?case by blast
qed auto

text \<open>The virtual content, and what the levelling changes outside the data pages.\<close>

abbreviation vbyte :: "'d wl_flash_t \<Rightarrow> nat \<Rightarrow> u8" where
  "vbyte \<equiv> wl_content byte lo"

definition same_data :: "nat \<Rightarrow> 'd \<Rightarrow> 'd \<Rightarrow> bool" where
  "same_data e d d' \<longleftrightarrow> (\<forall>x<e. byte d' x = byte d x)"

lemma put_state_ok:
  assumes "wl_geometry lo hi P M w" and "addr = addr_state1 w \<or> addr = addr_state2 w"
  obtains d' where "put_state io addr s w = (0, w\<lparr>device := d'\<rparr>)" "same_data (unat (addr_state1 w)) (device w) d'"
    "\<And>x. byte d' x = (if unat addr \<le> x \<and> x < unat addr + unat (state_size w) then slot_byte s 0 (x - unat addr)
       else byte (device w) x)"
proof -
  define S where "S = unat (sector_size (cfg w))"
  define n where "n = unat (state_size w) div S"
  have g: "0 < S" "4096 dvd S" "unat (state_size w) = n * S" "24 < unat (state_size w)"
      "lo \<le> unat addr" "4096 dvd unat addr" "unat addr + unat (state_size w) \<le> hi" "unat (addr_state1 w) \<le> unat addr"
    using assms by (auto simp: wl_geometry_def Let_def S_def n_def)
  have cnt: "unat (state_size w div sector_size (cfg w)) = n" by (simp add: unat_div_distrib n_def S_def)
  obtain d1 where d1: "erase_sectors io addr (sector_size (cfg w)) n 0 (device w) = (0, d1)"
    "\<And>x. byte d1 x = (if unat addr \<le> x \<and> x < unat addr + n * S then 0xFF else byte (device w) x)"
    using erase_sectors_ok [of addr "sector_size (cfg w)" 0 n "device w"] g by (auto simp: S_def)
  have len: "length (state_bytes s) = 24" by (simp add: state_bytes_def)
  then have room: "unat addr + length (state_bytes s) \<le> hi" "state_bytes s \<noteq> []" using g(4,7) by auto
  obtain d2 where d2: "io_write io addr (state_bytes s) d1 = (0, d2)"
    "\<And>x. byte d2 x = (if unat addr \<le> x \<and> x < unat addr + length (state_bytes s)
       then byte d1 x AND state_bytes s ! (x - unat addr) else byte d1 x)"
    using write_ok [OF g(5) room, of d1] by blast
  show thesis
  proof (rule that [of d2])
    show "put_state io addr s w = (0, w\<lparr>device := d2\<rparr>)"
      using d1(1) d2(1) by (simp add: put_state_def wl_flash_erase_raw_def on_device_def cnt err_check_def)
    show "same_data (unat (addr_state1 w)) (device w) d2"
      using g(8) by (simp add: same_data_def d2(2) d1(2))
    show "byte d2 x = (if unat addr \<le> x \<and> x < unat addr + unat (state_size w) then slot_byte s 0 (x - unat addr)
        else byte (device w) x)" for x
      using g(3,4) by (auto simp: d2(2) d1(2) len slot_byte_def)
  qed
qed

lemma same_data_trans: "same_data e d d1 \<Longrightarrow> same_data e d1 d2 \<Longrightarrow> same_data e d d2"
  by (simp add: same_data_def)

lemma store_state_ok:
  assumes "wl_geometry lo hi P M w"
  obtains w' where "store_state io w = (0, w')" "same_frame w w'" "pos (wl_state w') = pos (wl_state w)"
    "move_count (wl_state w') = move_count (wl_state w)" "same_data (unat (addr_state1 w)) (device w) (device w')"
    "\<And>a x. a \<in> {addr_state1 w, addr_state2 w} \<Longrightarrow> unat a \<le> x \<Longrightarrow> x < unat a + unat (state_size w) \<Longrightarrow>
       byte (device w') x = slot_byte (wl_state w') 0 (x - unat a)"
    "wl_state w' = (wl_state w)\<lparr>st_crc := state_crc io (wl_state w)\<rparr>"
    "w' = w\<lparr>wl_state := wl_state w', device := device w'\<rparr>"
proof -
  define w1 where "w1 = w\<lparr>wl_state := (wl_state w)\<lparr>st_crc := state_crc io (wl_state w)\<rparr>\<rparr>"
  have f1: "same_frame w w1" "device w1 = device w" by (simp_all add: w1_def same_frame_def)
  have g1: "wl_geometry lo hi P M w1" using f1(1) assms by (rule geometry_frame)
  obtain d1 where d1: "put_state io (addr_state1 w1) (wl_state w1) w1 = (0, w1\<lparr>device := d1\<rparr>)"
    "same_data (unat (addr_state1 w1)) (device w1) d1"
    "\<And>x. byte d1 x = (if unat (addr_state1 w) \<le> x \<and> x < unat (addr_state1 w) + unat (state_size w)
       then slot_byte (wl_state w1) 0 (x - unat (addr_state1 w)) else byte (device w) x)"
  proof (rule put_state_ok [OF g1, of "addr_state1 w1" "wl_state w1"])
    fix d1
    assume "put_state io (addr_state1 w1) (wl_state w1) w1 = (0, w1\<lparr>device := d1\<rparr>)"
      "same_data (unat (addr_state1 w1)) (device w1) d1"
      "\<And>x. byte d1 x = (if unat (addr_state1 w1) \<le> x \<and> x < unat (addr_state1 w1) + unat (state_size w1)
         then slot_byte (wl_state w1) 0 (x - unat (addr_state1 w1)) else byte (device w1) x)"
    then show thesis using that [of d1] by (simp add: w1_def)
  qed simp
  define w2 where "w2 = w1\<lparr>device := d1\<rparr>"
  have f2: "same_frame w1 w2" by (simp add: w2_def same_frame_def)
  have g2: "wl_geometry lo hi P M w2" using f2 g1 by (rule geometry_frame)
  obtain d2 where d2: "put_state io (addr_state2 w2) (wl_state w2) w2 = (0, w2\<lparr>device := d2\<rparr>)"
    "same_data (unat (addr_state1 w2)) (device w2) d2"
    "\<And>x. byte d2 x = (if unat (addr_state2 w) \<le> x \<and> x < unat (addr_state2 w) + unat (state_size w)
       then slot_byte (wl_state w1) 0 (x - unat (addr_state2 w)) else byte d1 x)"
  proof (rule put_state_ok [OF g2, of "addr_state2 w2" "wl_state w2"])
    fix d2
    assume "put_state io (addr_state2 w2) (wl_state w2) w2 = (0, w2\<lparr>device := d2\<rparr>)"
      "same_data (unat (addr_state1 w2)) (device w2) d2"
      "\<And>x. byte d2 x = (if unat (addr_state2 w2) \<le> x \<and> x < unat (addr_state2 w2) + unat (state_size w2)
         then slot_byte (wl_state w2) 0 (x - unat (addr_state2 w2)) else byte (device w2) x)"
    then show thesis using that [of d2] by (simp add: w2_def w1_def)
  qed simp
  have apart_slots: "unat (addr_state1 w) + unat (state_size w) \<le> unat (addr_state2 w)"
    using assms by (simp add: wl_geometry_def Let_def)
  show thesis
  proof (rule that [of "w2\<lparr>device := d2\<rparr>"])
    show "store_state io w = (0, w2\<lparr>device := d2\<rparr>)"
      using d1(1) d2(1) by (simp add: store_state_def err_check_def Let_def w1_def [symmetric] w2_def [symmetric])
    show "same_data (unat (addr_state1 w)) (device w) (device (w2\<lparr>device := d2\<rparr>))"
      using same_data_trans [OF d1(2)] d2(2) f1 by (simp add: w2_def same_frame_def)
    show "byte (device (w2\<lparr>device := d2\<rparr>)) x = slot_byte (wl_state (w2\<lparr>device := d2\<rparr>)) 0 (x - unat a)"
      if "a \<in> {addr_state1 w, addr_state2 w}" "unat a \<le> x" "x < unat a + unat (state_size w)" for a x
      using that apart_slots by (auto simp: w2_def d2(3) d1(3))
  qed (simp_all add: w2_def w1_def same_frame_def)
qed

lemma advance_pos_ok:
  assumes "wl_ok lo hi P M w"
  obtains w' where "advance_pos io w = (0, w')" "same_frame w w'"
    "unat (pos (wl_state w')) = next_q M (unat (pos (wl_state w)))"
    "unat (move_count (wl_state w')) = next_mc M (unat (pos (wl_state w))) (unat (move_count (wl_state w)))"
    "same_data (unat (addr_state1 w)) (device w) (device w')"
proof -
  define s where "s = wl_state w"
  have g: "wl_geometry lo hi P M w" "unat (max_pos s) = M + 1" "unat (pos s) \<le> M" "unat (move_count s) < M"
    using assms by (auto simp: wl_ok_def wl_geometry_def Let_def s_def)
  have "unat (max_pos s) < 4294967296" by simp
  then have small: "M + 1 < 4294967296" using g(2) by linarith
  have q1: "unat (pos s + 1) = unat (pos s) + 1" using g(3) small by (simp add: unat_word_ariths)
  have m1: "unat (move_count s + 1) = unat (move_count s) + 1" using g(4) small by (simp add: unat_word_ariths)
  have "max_pos s \<noteq> 0" using g(2) by auto
  then have mp: "unat (max_pos s - 1) = M" using g(2) by (simp add: unat_minus_one)
  have wrap: "max_pos s \<le> pos s + 1 \<longleftrightarrow> unat (pos s) = M" using q1 g(2,3) by (auto simp: word_le_nat_alt)
  show thesis
  proof (cases "unat (pos s) = M")
    case False
    show thesis
      by (rule that [of "w\<lparr>wl_state := s\<lparr>pos := pos s + 1\<rparr>\<rparr>"])
        (use False wrap q1 in \<open>simp_all add: advance_pos_def s_def [symmetric] same_frame_def next_q_def
           next_mc_def same_data_def\<close>)
  next
    case True
    define mc where "mc = (if max_pos s - 1 \<le> move_count s + 1 then 0 else move_count s + 1)"
    define w1 where "w1 = w\<lparr>wl_state := s\<lparr>pos := 0, move_count := mc\<rparr>\<rparr>"
    have mc: "unat mc = next_mc M (unat (pos s)) (unat (move_count s))"
      using True m1 mp by (simp add: mc_def next_mc_def word_le_nat_alt)
    have f: "same_frame w w1" by (simp add: w1_def s_def same_frame_def)
    have gm: "wl_geometry lo hi P M w1" using f g(1) by (rule geometry_frame)
    obtain w' where w': "store_state io w1 = (0, w')" "same_frame w1 w'" "pos (wl_state w') = pos (wl_state w1)"
      "move_count (wl_state w') = move_count (wl_state w1)" "same_data (unat (addr_state1 w1)) (device w1) (device w')"
      by (rule store_state_ok [OF gm]) blast
    have "advance_pos io w = store_state io w1"
      using True wrap by (simp add: advance_pos_def w1_def mc_def s_def [symmetric] Let_def)
    then show thesis
      using that [of w'] w' mc f True same_frame_trans [OF f w'(2)]
      by (simp add: w1_def s_def [symmetric] next_q_def same_frame_def)
  qed
qed

text \<open>
  The position advances after the mark for it was set; the state is written anew when the spare
  page has been around.
\<close>

lemma advance_pos_stored:
  assumes "wl_ok lo hi P M w" and "wr_size (cfg w) = 8" "st_version (wl_state w) = cfg_version (cfg w)"
    and "st_crc (wl_state w) = state_crc io ((wl_state w)\<lparr>pos := 0\<rparr>)"
    and "\<And>a j. a \<in> {addr_state1 w, addr_state2 w} \<Longrightarrow> j \<le> 24 + M \<Longrightarrow> byte (device w) (unat a + j) =
        slot_byte ((wl_state w)\<lparr>pos := 0\<rparr>) (unat (pos (wl_state w)) + 1) j"
    and "advance_pos io w = (0, w')"
  shows "wl_stored io byte M w'"
proof -
  define s where "s = wl_state w"
  have g: "wl_geometry lo hi P M w" "unat (max_pos s) = M + 1" "unat (pos s) \<le> M" "24 + M < unat (state_size w)"
    using assms(1,2) by (auto simp: wl_ok_def wl_geometry_def Let_def s_def)
  have "unat (max_pos s) < 4294967296" by simp
  then have q1: "unat (pos s + 1) = unat (pos s) + 1" using g(2,3) by (simp add: unat_word_ariths)
  show ?thesis
  proof (cases "max_pos s \<le> pos s + 1")
    case False
    then have "w' = w\<lparr>wl_state := s\<lparr>pos := pos s + 1\<rparr>\<rparr>"
      using assms(6) by (simp add: advance_pos_def s_def [symmetric])
    then show ?thesis using assms(2-5) q1 by (simp add: wl_stored_def s_def)
  next
    case True
    define mc where "mc = (if max_pos s - 1 \<le> move_count s + 1 then 0 else move_count s + 1)"
    define w1 where "w1 = w\<lparr>wl_state := s\<lparr>pos := 0, move_count := mc\<rparr>\<rparr>"
    have w1: "advance_pos io w = store_state io w1"
      using True by (simp add: advance_pos_def w1_def mc_def s_def [symmetric] Let_def)
    have "same_frame w w1" by (simp add: w1_def s_def same_frame_def)
    then have "wl_geometry lo hi P M w1" using g(1) by (rule geometry_frame)
    then obtain v where v: "store_state io w1 = (0, v)" "same_frame w1 v"
      "\<And>a x. a \<in> {addr_state1 w1, addr_state2 w1} \<Longrightarrow> unat a \<le> x \<Longrightarrow> x < unat a + unat (state_size w1) \<Longrightarrow>
         byte (device v) x = slot_byte (wl_state v) 0 (x - unat a)"
      "wl_state v = (wl_state w1)\<lparr>st_crc := state_crc io (wl_state w1)\<rparr>"
      by (rule store_state_ok) blast
    have same: "v = w'" "(wl_state w')\<lparr>pos := 0\<rparr> = wl_state w'" "pos (wl_state w') = 0"
      using w1 v(1,4) assms(6) by (auto simp: w1_def)
    have fr: "cfg w' = cfg w" "addr_state1 w' = addr_state1 w" "addr_state2 w' = addr_state2 w"
      "addr_state1 w1 = addr_state1 w" "addr_state2 w1 = addr_state2 w" "state_size w1 = state_size w"
      using v(2) same(1) by (auto simp: same_frame_def w1_def)
    have "byte (device w') (unat a + j) = slot_byte (wl_state w') 0 j"
      if "a \<in> {addr_state1 w, addr_state2 w}" "j \<le> 24 + M" for a j
      using v(3) [of a "unat a + j"] that fr g(4) same(1) by simp
    moreover have "st_version (wl_state w') = cfg_version (cfg w)"
      "st_crc (wl_state w') = state_crc io (wl_state w')"
      using v(4) assms(3) same(1) by (auto simp: w1_def s_def state_crc_def)
    ultimately show ?thesis
      unfolding wl_stored_def same(2,3) fr using assms(2) by simp
  qed
qed

text \<open>The spare page receives the content of the page behind it.\<close>

lemma move_page:
  assumes "wl_ok lo hi P M w"
  defines "D \<equiv> lo + unat (pos (wl_state w)) * P"
    and "A \<equiv> lo + next_q M (unat (pos (wl_state w))) * P"
  obtains d1 d2 where
    "erase_sectors io (start_address (cfg w) + pos (wl_state w) * page_size (cfg w)) (sector_size (cfg w))
       (unat (page_size (cfg w) div sector_size (cfg w))) 0 (device w) = (0, d1)"
    "copy_blocks io (start_address (cfg w) + next_data_page (wl_state w) * page_size (cfg w))
       (start_address (cfg w) + pos (wl_state w) * page_size (cfg w)) (temp_buff_size (cfg w))
       (unat (page_size (cfg w) div temp_buff_size (cfg w))) 0 d1 = (0, d2)"
    "\<And>x. byte d2 x = (if D \<le> x \<and> x < D + P then byte (device w) (A + (x - D)) else byte (device w) x)"
proof -
  define c where "c = cfg w"
  define dst where "dst = start_address c + pos (wl_state w) * page_size c"
  define src where "src = start_address c + next_data_page (wl_state w) * page_size c"
  have g: "wl_geometry lo hi P M w" "unat (pos (wl_state w)) \<le> M" "0 < P"
    "0 < unat (sector_size c)" "4096 dvd unat (sector_size c)" "unat (sector_size c) dvd P"
    "0 < unat (temp_buff_size c)" "unat (temp_buff_size c) dvd P" "unat (page_size c) = P" "4096 dvd lo"
    "unat (addr_state1 w) \<le> hi"
    using assms(1) by (auto simp: wl_ok_def wl_geometry_def Let_def c_def)
  note np = next_page [OF assms(1)]
  have dst: "unat dst = D" "D + P \<le> hi" "lo \<le> D"
    using page_word [OF g(1,2)] g(11) by (simp_all add: dst_def c_def D_def)
  have src: "unat src = A" "A + P \<le> hi" "lo \<le> A"
    using page_word [OF g(1), of "next_data_page (wl_state w)"] np g(11) by (simp_all add: src_def c_def A_def)
  have apart_pages: "A + P \<le> D \<or> D + P \<le> A"
  proof (cases "unat (pos (wl_state w)) = M")
    case True
    have "0 < M" using g(1) by (simp add: wl_geometry_def Let_def)
    then show ?thesis using True by (simp add: A_def D_def next_q_def)
  next
    case False
    then show ?thesis by (simp add: A_def D_def next_q_def)
  qed
  have cs: "unat (page_size c div sector_size c) * unat (sector_size c) = P"
    using g(6,9) by (simp add: unat_div_distrib)
  have ct: "unat (page_size c div temp_buff_size c) * unat (temp_buff_size c) = P"
    using g(8,9) by (simp add: unat_div_distrib)
  have "4096 dvd P" using g(5,6) by (rule dvd_trans)
  then have dvd: "4096 dvd unat dst" using dst(1) g(10) by (simp add: D_def)
  obtain d1 where d1: "erase_sectors io dst (sector_size c) (unat (page_size c div sector_size c)) 0 (device w) = (0, d1)"
    "\<And>x. byte d1 x = (if D \<le> x \<and> x < D + P then 0xFF else byte (device w) x)"
    using erase_sectors_ok [of dst "sector_size c" 0 "unat (page_size c div sector_size c)" "device w"] dst dvd g(4,5) cs
    by auto
  obtain d2 where d2: "copy_blocks io src dst (temp_buff_size c) (unat (page_size c div temp_buff_size c)) 0 d1 = (0, d2)"
    "\<And>x. byte d2 x = (if D \<le> x \<and> x < D + P then byte d1 x AND byte d1 (A + (x - D)) else byte d1 x)"
    using copy_blocks_ok [of src dst "temp_buff_size c" P 0 "unat (page_size c div temp_buff_size c)" d1]
      dst src g(7) apart_pages ct by auto
  have "byte d2 x = (if D \<le> x \<and> x < D + P then byte (device w) (A + (x - D)) else byte (device w) x)" for x
    using apart_pages by (auto simp: d2(2) d1(2))
  then show thesis
    using that [of d1 d2] d1(1) d2(1) by (simp add: c_def [symmetric] dst_def [symmetric] src_def [symmetric])
qed

lemma write_mark:
  assumes "lo \<le> unat e" and "unat e \<le> unat a" and "unat a + 1 \<le> hi"
  obtains d' where "io_write io a [b] d = (0, d')" "same_data (unat e) d d'"
    "\<And>x. byte d' x = (if x = unat a then byte d x AND b else byte d x)"
proof -
  have room: "lo \<le> unat a" "unat a + length [b] \<le> hi" "[b] \<noteq> []" using assms by simp_all
  show thesis
  proof (rule write_ok [OF room, of d])
    fix d'
    assume w: "io_write io a [b] d = (0, d')" and x: "\<And>x. byte d' x =
        (if unat a \<le> x \<and> x < unat a + length [b] then byte d x AND [b] ! (x - unat a) else byte d x)"
    have "byte d' x = (if x = unat a then byte d x AND b else byte d x)" for x by (auto simp: x)
    then show thesis using that [of d'] w assms(2) by (simp add: same_data_def)
  qed
qed

lemma mark_addr:
  assumes "wl_ok lo hi P M w" and "e = addr_state1 w \<or> e = addr_state2 w"
  defines "a \<equiv> e + 24 + pos (wl_state w) * wr_size (cfg w) div 8"
  shows "lo \<le> unat e" "unat (addr_state1 w) \<le> unat a" "unat a + 1 \<le> hi" "lo \<le> unat (addr_state1 w)"
proof -
  define q where "q = unat (pos (wl_state w))"
  define wr where "wr = unat (wr_size (cfg w))"
  have g: "q \<le> M" "(M + 1) * wr < 0x100000000" "24 + M * wr div 8 < unat (state_size w)"
    "unat e + unat (state_size w) \<le> hi" "unat (addr_state1 w) \<le> unat e" "lo \<le> unat (addr_state1 w)"
    using assms(1,2) by (auto simp: wl_ok_def wl_geometry_def Let_def q_def wr_def)
  have "q * wr \<le> M * wr" using g(1) by simp
  moreover have "M * wr < 0x100000000" using g(2) by simp
  ultimately have "q * wr < 0x100000000" "q * wr div 8 \<le> M * wr div 8" by (linarith, intro div_le_mono)
  then have b: "unat (pos (wl_state w) * wr_size (cfg w) div 8) = q * wr div 8" "q * wr div 8 \<le> M * wr div 8"
    by (simp_all add: unat_div_distrib unat_word_ariths q_def wr_def)
  have "unat e + 24 + q * wr div 8 < 0x100000000" "unat e + 24 < 0x100000000"
    using b(2) g(3,4) area_end by linarith+
  then have a: "unat a = unat e + 24 + q * wr div 8"
    using b(1) by (simp add: a_def unat_word_ariths)
  show "lo \<le> unat e" "unat (addr_state1 w) \<le> unat a" "unat a + 1 \<le> hi" "lo \<le> unat (addr_state1 w)"
    using a b(2) g by linarith+
qed

text \<open>One step of the spare page: the page is moved, both marks are set, the position advances.\<close>

lemma pass_page_ok:
  assumes "wl_ok lo hi P M w"
  defines "D \<equiv> lo + unat (pos (wl_state w)) * P"
    and "A \<equiv> lo + next_q M (unat (pos (wl_state w))) * P"
    and "mark \<equiv> \<lambda>e. unat (e + 24 + pos (wl_state w) * wr_size (cfg w) div 8)"
  obtains d2 d4 w4 where
    "pass_page io w = (0, w4)" "wl_ok lo hi P M w4" "same_frame w w4"
    "wl_state w4 = wl_state w" "device w4 = d4" "same_data (unat (addr_state1 w)) d2 d4"
    "\<And>x. byte d2 x = (if D \<le> x \<and> x < D + P then byte (device w) (A + (x - D)) else byte (device w) x)"
    "\<And>x. byte d4 x = (if x = mark (addr_state1 w) \<or> x = mark (addr_state2 w) then byte d2 x AND 1 else byte d2 x)"
proof -
  define c where "c = cfg w"
  obtain d1 d2 where
    er: "erase_sectors io (start_address c + pos (wl_state w) * page_size c) (sector_size c)
       (unat (page_size c div sector_size c)) 0 (device w) = (0, d1)" and
    cp: "copy_blocks io (start_address c + next_data_page (wl_state w) * page_size c)
       (start_address c + pos (wl_state w) * page_size c) (temp_buff_size c)
       (unat (page_size c div temp_buff_size c)) 0 d1 = (0, d2)" and
    d2: "\<And>x. byte d2 x = (if D \<le> x \<and> x < D + P then byte (device w) (A + (x - D)) else byte (device w) x)"
    using move_page [OF assms(1)] unfolding c_def D_def A_def by blast
  note m1 = mark_addr [OF assms(1), of "addr_state1 w"] and m2 = mark_addr [OF assms(1), of "addr_state2 w"]
  obtain d3 where d3: "io_write io (addr_state1 w + 24 + pos (wl_state w) * wr_size c div 8) [1] d2 = (0, d3)"
    "same_data (unat (addr_state1 w)) d2 d3"
    "\<And>x. byte d3 x = (if x = mark (addr_state1 w) then byte d2 x AND 1 else byte d2 x)"
    using write_mark [OF m1(4,2,3), of 1 d2] unfolding c_def mark_def by blast
  obtain d4 where d4: "io_write io (addr_state2 w + 24 + pos (wl_state w) * wr_size c div 8) [1] d3 = (0, d4)"
    "same_data (unat (addr_state1 w)) d3 d4"
    "\<And>x. byte d4 x = (if x = mark (addr_state2 w) then byte d3 x AND 1 else byte d3 x)"
    using write_mark [OF m2(4,2,3), of 1 d3] unfolding c_def mark_def by blast
  define w4 where "w4 = w\<lparr>dummy_addr := start_address c + pos (wl_state w) * page_size c, device := d4\<rparr>"
  have f4: "same_frame w w4" by (simp add: w4_def same_frame_def)
  show thesis
  proof (rule that [of w4 d4 d2])
    show "pass_page io w = (0, w4)"
      using er cp d3(1) d4(1)
      by (simp add: pass_page_def wl_flash_erase_raw_def on_device_def err_check_def c_def [symmetric]
          w4_def Let_def)
    show "wl_ok lo hi P M w4" using assms(1) geometry_frame [OF f4] by (auto simp: wl_ok_def w4_def)
    show "same_data (unat (addr_state1 w)) d2 d4" using d3(2) d4(2) by (rule same_data_trans)
    show "byte d4 x = (if x = mark (addr_state1 w) \<or> x = mark (addr_state2 w) then byte d2 x AND 1 else byte d2 x)" for x
      by (simp add: d4(3) d3(3) and.assoc)
  qed (use f4 d2 in \<open>simp_all add: w4_def\<close>)
qed

lemma updatewl_ok:
  assumes "wl_ok lo hi P M w"
  obtains w' where "wl_flash_updatewl io w = (0, w')" "wl_ok lo hi P M w'" "same_frame w w'"
    "\<And>v. v < M * P \<Longrightarrow> vbyte w' v = vbyte w v"
proof -
  define q where "q = unat (pos (wl_state w))"
  define mc where "mc = unat (move_count (wl_state w))"
  define D where "D = lo + q * P"
  define A where "A = lo + next_q M q * P"
  have g: "wl_geometry lo hi P M w" "q \<le> M" "mc < M" "0 < P" "lo + (M + 1) * P \<le> unat (addr_state1 w)"
    using assms by (auto simp: wl_ok_def wl_geometry_def Let_def q_def mc_def)
  obtain d2 d4 w4 where pass: "pass_page io w = (0, w4)" and ok4: "wl_ok lo hi P M w4" and
    f4: "same_frame w w4" and w4: "wl_state w4 = wl_state w" "device w4 = d4" and
    low4: "same_data (unat (addr_state1 w)) d2 d4" and
    d2: "\<And>x. byte d2 x = (if D \<le> x \<and> x < D + P then byte (device w) (A + (x - D)) else byte (device w) x)"
    unfolding D_def A_def q_def
  proof (rule pass_page_ok [OF assms])
    fix w4 d4 d2
    assume "pass_page io w = (0, w4)" "wl_ok lo hi P M w4" "same_frame w w4" "wl_state w4 = wl_state w"
      "device w4 = d4" "same_data (unat (addr_state1 w)) d2 d4"
      "\<And>x. byte d2 x = (if lo + unat (pos (wl_state w)) * P \<le> x \<and> x < lo + unat (pos (wl_state w)) * P + P
         then byte (device w) (lo + next_q M (unat (pos (wl_state w))) * P + (x - (lo + unat (pos (wl_state w)) * P)))
         else byte (device w) x)"
    then show thesis by (rule that [unfolded D_def A_def q_def])
  qed
  have a4: "addr_state1 w4 = addr_state1 w" using f4 by (simp add: same_frame_def)
  obtain w' where w': "advance_pos io w4 = (0, w')" "same_frame w4 w'"
    "unat (pos (wl_state w')) = next_q M q" "unat (move_count (wl_state w')) = next_mc M q mc"
    "same_data (unat (addr_state1 w)) d4 (device w')"
    using advance_pos_ok [OF ok4] unfolding q_def mc_def w4 a4 by blast
  have frame: "same_frame w w'" using f4 w'(2) by (rule same_frame_trans)
  have upd: "wl_flash_updatewl io w = (0, w')" using pass w'(1) by (simp add: wl_flash_updatewl_def err_check_def)
  have low: "same_data (unat (addr_state1 w)) d2 (device w')" using low4 w'(5) by (rule same_data_trans)
  have ok': "wl_ok lo hi P M w'"
    using geometry_frame [OF frame g(1)] w'(3,4) next_page(2) [OF assms] g(3)
    by (auto simp: wl_ok_def next_mc_def q_def)
  show thesis
  proof (rule that [OF upd ok' frame])
    fix v
    assume v: "v < M * P"
    define k where "k = v div P"
    have k: "k < M" using v g(4) by (simp add: k_def less_mult_imp_div_less)
    have r: "v mod P < P" using g(4) by simp
    have old: "unat (wl_flash_calc_addr w (of_nat v)) = pg M q mc k * P + v mod P"
      using calc_addr_pg [OF assms v] by (simp add: q_def mc_def k_def)
    have new: "unat (wl_flash_calc_addr w' (of_nat v)) = pg M (next_q M q) (next_mc M q mc) k * P + v mod P"
      using calc_addr_pg [OF ok' v] w'(3,4) by (simp add: k_def)
    have "0 < M" using k by simp
    then have "pg M (next_q M q) (next_mc M q mc) k * P + v mod P < (M + 1) * P"
      by (rule page_less [OF pg_le r])
    then have in_area: "lo + (pg M (next_q M q) (next_mc M q mc) k * P + v mod P) < unat (addr_state1 w)"
      using g(5) by linarith
    have eq: "vbyte w' v = byte d2 (lo + (pg M (next_q M q) (next_mc M q mc) k * P + v mod P))"
      using low in_area by (simp add: wl_content_def new same_data_def)
    show "vbyte w' v = vbyte w v"
    proof (cases "pg M q mc k = next_q M q")
      case True
      then have "pg M (next_q M q) (next_mc M q mc) k = q" using pg_step [OF g(2,3) k] by simp
      then show ?thesis
        using eq True r old by (simp add: wl_content_def d2 D_def A_def ac_simps)
    next
      case False
      define p where "p = pg M q mc k"
      have same: "pg M (next_q M q) (next_mc M q mc) k = p" using pg_step [OF g(2,3) k] False by (simp add: p_def)
      have "p \<noteq> q" unfolding p_def by (rule pg_not_spare)
      then have "\<not> (D \<le> lo + (p * P + v mod P) \<and> lo + (p * P + v mod P) < D + P)"
        using page_addr_le [OF _ r, of p q] page_addr_le [of q p 0 P] mult_le_mono1 [of "q + 1" p P] g(4)
        by (cases "p < q") (auto simp: D_def)
      then show ?thesis
        using eq same old by (auto simp: wl_content_def d2 p_def)
    qed
  qed
qed

lemma updatewl_stored:
  assumes "wl_ok lo hi P M w" and "wl_stored io byte M w" and "wl_flash_updatewl io w = (0, w')"
  shows "wl_stored io byte M w'"
proof -
  define q where "q = unat (pos (wl_state w))"
  have g: "q \<le> M" "lo + (M + 1) * P \<le> unat (addr_state1 w)" "24 + M < unat (state_size w)"
    "unat (addr_state1 w) + unat (state_size w) \<le> unat (addr_state2 w)" "unat (addr_state2 w) + unat (state_size w) \<le> hi"
    "(M + 1) * 8 < 0x100000000"
    using assms(1,2) by (auto simp: wl_ok_def wl_geometry_def Let_def q_def wl_stored_def)
  have below: "lo + q * P + P \<le> unat (addr_state1 w)"
    using page_word(2) [of lo hi P M w "pos (wl_state w)"] assms(1) by (simp add: wl_ok_def q_def)
  have mark: "unat (e + 24 + pos (wl_state w) * wr_size (cfg w) div 8) = unat e + (24 + q)"
    if "e \<in> {addr_state1 w, addr_state2 w}" for e
  proof -
    have "unat (pos (wl_state w) * 8 div 8) = q"
      using g(1,6) by (simp add: unat_div_distrib unat_word_ariths q_def)
    then show ?thesis
      using that g(1,3-5) area_end assms(2) by (auto simp: unat_word_ariths wl_stored_def)
  qed
  obtain d2 w4 where pass: "pass_page io w = (0, w4)" and ok4: "wl_ok lo hi P M w4" and
    f4: "same_frame w w4" and w4: "wl_state w4 = wl_state w" and
    d2: "\<And>x. unat (addr_state1 w) \<le> x \<Longrightarrow> byte d2 x = byte (device w) x" and
    d4: "\<And>x. byte (device w4) x = (if x = unat (addr_state1 w) + (24 + q) \<or> x = unat (addr_state2 w) + (24 + q)
       then byte d2 x AND 1 else byte d2 x)"
  proof (rule pass_page_ok [OF assms(1)])
    fix w4 d4 d2
    assume 1: "pass_page io w = (0, w4)" "wl_ok lo hi P M w4" "same_frame w w4" "wl_state w4 = wl_state w"
      "device w4 = d4"
      and 2: "\<And>x. byte d2 x = (if lo + unat (pos (wl_state w)) * P \<le> x \<and> x < lo + unat (pos (wl_state w)) * P + P
         then byte (device w) (lo + next_q M (unat (pos (wl_state w))) * P + (x - (lo + unat (pos (wl_state w)) * P)))
         else byte (device w) x)"
      and 3: "\<And>x. byte d4 x = (if x = unat (addr_state1 w + 24 + pos (wl_state w) * wr_size (cfg w) div 8)
           \<or> x = unat (addr_state2 w + 24 + pos (wl_state w) * wr_size (cfg w) div 8) then byte d2 x AND 1 else byte d2 x)"
    show thesis
    proof (rule that [OF 1(1-4)])
      show "byte d2 x = byte (device w) x" if "unat (addr_state1 w) \<le> x" for x
        using that below by (simp add: 2 q_def)
    qed (simp add: 1(5) 3 mark)
  qed
  have fr: "cfg w4 = cfg w" "addr_state1 w4 = addr_state1 w" "addr_state2 w4 = addr_state2 w"
    using f4 by (auto simp: same_frame_def)
  have "byte (device w4) (unat a + j) = slot_byte ((wl_state w)\<lparr>pos := 0\<rparr>) (q + 1) j"
    if "a \<in> {addr_state1 w, addr_state2 w}" "j \<le> 24 + M" for a j
  proof -
    have old: "byte (device w) (unat a + j) = slot_byte ((wl_state w)\<lparr>pos := 0\<rparr>) q j"
      using assms(2) that by (auto simp: wl_stored_def q_def)
    have "byte d2 (unat a + j) = byte (device w) (unat a + j)" using that g(3,4) by (intro d2) auto
    moreover have "unat a + j = unat (addr_state1 w) + (24 + q) \<or> unat a + j = unat (addr_state2 w) + (24 + q) \<longleftrightarrow> j = 24 + q"
      using that g(1,3,4) by auto
    ultimately show ?thesis using old by (cases "j = 24 + q") (auto simp: d4 slot_byte_def)
  qed
  then show ?thesis
    using advance_pos_stored [OF ok4] assms(2,3) pass unfolding fr w4 q_def wl_stored_def
    by (simp add: wl_flash_updatewl_def err_check_def)
qed

text \<open>The physical address of a virtual one, as the code computes it.\<close>

lemma phys_addr:
  assumes "wl_ok lo hi P M w" and "v + n \<le> M * P" and "v mod P + n \<le> P" and "0 < n"
  shows "unat (start_address (cfg w) + wl_flash_calc_addr w (of_nat v)) = lo + unat (wl_flash_calc_addr w (of_nat v))"
    and "lo + unat (wl_flash_calc_addr w (of_nat v)) + n \<le> hi"
    and "lo + unat (wl_flash_calc_addr w (of_nat v)) + n \<le> unat (addr_state1 w)"
proof -
  define p where "p = pg M (unat (pos (wl_state w))) (unat (move_count (wl_state w))) (v div P)"
  have g: "0 < M" "unat (start_address (cfg w)) = lo" "lo + (M + 1) * P \<le> unat (addr_state1 w)" "unat (addr_state1 w) \<le> hi"
    using assms(1) by (auto simp: wl_ok_def wl_geometry_def Let_def)
  have "v < M * P" using assms(2,4) by linarith
  then have a: "unat (wl_flash_calc_addr w (of_nat v)) = p * P + v mod P"
    using calc_addr_pg [OF assms(1)] by (simp add: p_def)
  have "p \<le> M" unfolding p_def by (rule pg_le [OF g(1)])
  then have "p * P \<le> M * P" by simp
  then have "p * P + P \<le> (M + 1) * P" by simp
  then show le: "lo + unat (wl_flash_calc_addr w (of_nat v)) + n \<le> unat (addr_state1 w)"
    using a assms(3) g(3) by linarith
  then show "lo + unat (wl_flash_calc_addr w (of_nat v)) + n \<le> hi" using g(4) by linarith
  then have "lo + unat (wl_flash_calc_addr w (of_nat v)) < 0x100000000" using area_end by linarith
  then show "unat (start_address (cfg w) + wl_flash_calc_addr w (of_nat v)) = lo + unat (wl_flash_calc_addr w (of_nat v))"
    using g(2) by (simp add: unat_word_ariths)
qed

lemma ok_device: "wl_ok lo hi P M w \<Longrightarrow> wl_ok lo hi P M (w\<lparr>device := d\<rparr>)"
  "same_frame w (w\<lparr>device := d\<rparr>)" "wl_flash_calc_addr (w\<lparr>device := d\<rparr>) = wl_flash_calc_addr w"
  by (simp_all add: wl_ok_def wl_geometry_def same_frame_def wl_flash_calc_addr_def Let_def fun_eq_iff)

lemma dvd_room:
  fixes r s p :: nat
  assumes "r < p" and "s dvd r" and "0 < s" and "s dvd p"
  shows "r + s \<le> p"
proof -
  have "s dvd p - r" using assms(2,4) by (rule dvd_diff_nat [rotated])
  then show ?thesis using assms(1) dvd_imp_le [of s "p - r"] by simp
qed

text \<open>Changing one piece of the flash changes the same piece of the virtual content.\<close>

lemma piece_changed:
  assumes "wl_ok lo hi P M w" and "v0 + n \<le> M * P" and "v0 mod P + n \<le> P" and "v < M * P"
    and "\<And>x. byte d' x = (if lo + unat (wl_flash_calc_addr w (of_nat v0)) \<le> x
           \<and> x < lo + unat (wl_flash_calc_addr w (of_nat v0)) + n
         then f x else byte (device w) x)"
  shows "vbyte (w\<lparr>device := d'\<rparr>) v =
    (if v0 \<le> v \<and> v < v0 + n then f (lo + unat (wl_flash_calc_addr w (of_nat v))) else vbyte w v)"
  using piece_addr(1) [OF assms(1-4)] by (auto simp: wl_content_def assms(5) ok_device)

lemma slots_order: "wl_ok lo hi P M w \<Longrightarrow> unat (addr_state1 w) \<le> unat (addr_state2 w)"
  by (simp add: wl_ok_def wl_geometry_def Let_def)

lemma erase_sector_ok:
  assumes "wl_ok lo hi P M w"
  defines "S \<equiv> unat (sector_size (cfg w))"
  assumes "(unat k + 1) * S \<le> M * P"
  obtains w' where "wl_flash_erase_sector io k w = (0, w')" "wl_ok lo hi P M w'" "same_frame w w'"
    "\<And>v. v < M * P \<Longrightarrow> vbyte w' v = (if unat k * S \<le> v \<and> v < unat k * S + S then 0xFF else vbyte w v)"
    "wl_stored io byte M w \<Longrightarrow> wl_stored io byte M w'"
proof -
  obtain w1 where w1: "wl_flash_updatewl io w = (0, w1)" "wl_ok lo hi P M w1" "same_frame w w1"
    "\<And>v. v < M * P \<Longrightarrow> vbyte w1 v = vbyte w v"
    using updatewl_ok [OF assms(1)] by blast
  define sec where "sec = sector_size (cfg w1)"
  have S: "unat sec = S" using w1(3) by (simp add: sec_def S_def same_frame_def)
  have g: "0 < S" "4096 dvd S" "S dvd P" "0 < P" "4096 dvd lo" "lo + (M + 1) * P < 0x80000000"
    using assms(1) by (auto simp: wl_ok_def wl_geometry_def Let_def S_def)
  have fits: "unat k * S + S \<le> M * P" using assms(3) by (simp add: S_def)
  have small: "unat k * S < 0x100000000" using fits g(6) by simp
  have at: "k * sec = of_nat (unat k * S)" by (simp flip: S)
  define v0 where "v0 = unat k * S"
  have dvd: "S dvd v0 mod P" using g(3) by (simp add: v0_def dvd_mod)
  have "v0 mod P < P" using g(4) by simp
  then have in_page: "v0 mod P + S \<le> P" using dvd g(1,3) by (rule dvd_room)
  note a = phys_addr [OF w1(2) fits [folded v0_def] in_page g(1)]
  have "4096 dvd v0 mod P" "4096 dvd P" using dvd g(2,3) by (blast intro: dvd_trans)+
  moreover have "v0 < M * P" using fits g(1) by (simp add: v0_def)
  ultimately have al: "4096 dvd lo + unat (wl_flash_calc_addr w1 (of_nat v0))"
    using calc_addr_pg [OF w1(2)] g(5) by simp
  obtain d' where d': "io_erase io (start_address (cfg w1) + wl_flash_calc_addr w1 (of_nat v0)) sec (device w1) = (0, d')"
    "\<And>x. byte d' x = (if lo + unat (wl_flash_calc_addr w1 (of_nat v0)) \<le> x
       \<and> x < lo + unat (wl_flash_calc_addr w1 (of_nat v0)) + S then 0xFF else byte (device w1) x)"
    using io_erase_ok [of "start_address (cfg w1) + wl_flash_calc_addr w1 (of_nat v0)" sec "device w1"] a al g(1,2)
    unfolding S a(1) by auto
  show thesis
  proof (rule that [of "w1\<lparr>device := d'\<rparr>"])
    show "wl_flash_erase_sector io k w = (0, w1\<lparr>device := d'\<rparr>)"
      using w1(1) d'(1) unfolding v0_def at [symmetric]
      by (simp add: wl_flash_erase_sector_def err_check_def on_device_def sec_def [symmetric])
    show "vbyte (w1\<lparr>device := d'\<rparr>) v = (if unat k * S \<le> v \<and> v < unat k * S + S then 0xFF else vbyte w v)"
      if "v < M * P" for v
      using piece_changed [OF w1(2) fits [folded v0_def] in_page that d'(2)] w1(4) [OF that] by (simp add: v0_def)
    show "wl_stored io byte M (w1\<lparr>device := d'\<rparr>)" if "wl_stored io byte M w"
      using updatewl_stored [OF assms(1) that w1(1)] a(3)
      by (intro stored_device [OF _ slots_order [OF w1(2)]]) (auto simp: d'(2))
  qed (rule ok_device(1) [OF w1(2)], rule same_frame_trans [OF w1(3) ok_device(2)])
qed

lemma erase_range_ok:
  "wl_ok lo hi P M w \<Longrightarrow> (unat k + n) * unat (sector_size (cfg w)) \<le> M * P \<Longrightarrow>
   \<exists>w'. erase_range_loop io n k w = (0, w') \<and> wl_ok lo hi P M w' \<and> same_frame w w'
    \<and> (\<forall>v<M * P. vbyte w' v =
        (if unat k * unat (sector_size (cfg w)) \<le> v \<and> v < (unat k + n) * unat (sector_size (cfg w))
         then 0xFF else vbyte w v))
    \<and> (wl_stored io byte M w \<longrightarrow> wl_stored io byte M w')"
proof (induction n arbitrary: k w)
  case (Suc n)
  define S where "S = unat (sector_size (cfg w))"
  have g: "0 < S" "lo + (M + 1) * P < 0x80000000"
    using Suc.prems(1) by (auto simp: wl_ok_def wl_geometry_def Let_def S_def)
  have fits: "(unat k + 1) * S \<le> M * P" using Suc.prems(2) by (simp add: S_def algebra_simps)
  have "(unat k + 1) * 1 \<le> (unat k + 1) * S" using g(1) by (intro mult_le_mono2) simp
  moreover have "M * P \<le> (M + 1) * P" by simp
  ultimately have "unat k + 1 < 0x100000000" using fits g(2) unfolding mult_1_right by linarith
  then have k1: "unat (k + 1) = unat k + 1" by (simp add: unat_word_ariths)
  obtain w1 where w1: "wl_flash_erase_sector io k w = (0, w1)" "wl_ok lo hi P M w1" "same_frame w w1"
    "\<And>v. v < M * P \<Longrightarrow> vbyte w1 v = (if unat k * S \<le> v \<and> v < unat k * S + S then 0xFF else vbyte w v)"
    "wl_stored io byte M w \<Longrightarrow> wl_stored io byte M w1"
    unfolding S_def by (rule erase_sector_ok [OF Suc.prems(1) fits [unfolded S_def]]) blast
  have S1: "unat (sector_size (cfg w1)) = S" using w1(3) by (simp add: same_frame_def S_def)
  have "(unat (k + 1) + n) * unat (sector_size (cfg w1)) \<le> M * P" using Suc.prems(2) by (simp add: k1 S1 S_def)
  from Suc.IH [OF w1(2) this] obtain w2 where w2: "erase_range_loop io n (k + 1) w1 = (0, w2)" "wl_ok lo hi P M w2"
    "same_frame w1 w2" "\<And>v. v < M * P \<Longrightarrow>
      vbyte w2 v = (if (unat k + 1) * S \<le> v \<and> v < (unat k + 1 + n) * S then 0xFF else vbyte w1 v)"
    "wl_stored io byte M w1 \<longrightarrow> wl_stored io byte M w2"
    unfolding k1 S1 by blast
  have "vbyte w2 v = (if unat k * S \<le> v \<and> v < (unat k + Suc n) * S then 0xFF else vbyte w v)" if "v < M * P" for v
    unfolding w2(4) [OF that] w1(4) [OF that] by (auto simp: algebra_simps)
  moreover have "erase_range_loop io (Suc n) k w = (0, w2)" using w1(1) w2(1) by (simp add: err_check_def)
  ultimately show ?case using w2(2,5) w1(5) same_frame_trans [OF w1(3) w2(3)] unfolding S_def by blast
qed auto

subsection \<open>Reading and writing\<close>

lemma read_piece:
  assumes "wl_ok lo hi P M w" and "v + n \<le> M * P" and "v mod P + n \<le> P" and "0 < n"
  shows "io_read io (start_address (cfg w) + wl_flash_calc_addr w (of_nat v)) n (device w)
    = (0, map (vbyte w) [v..<v + n])"
proof -
  note a = phys_addr [OF assms]
  have "byte (device w) (lo + unat (wl_flash_calc_addr w (of_nat v)) + i) = vbyte w (v + i)" if "i < n" for i
    using piece_addr(2) [OF assms(1-3), of "v + i"] that assms(2) by (simp add: wl_content_def add.assoc)
  then have "map (byte (device w)) [lo + unat (wl_flash_calc_addr w (of_nat v))..<lo + unat (wl_flash_calc_addr w (of_nat v)) + n]
      = map (vbyte w) [v..<v + n]"
    by (intro nth_equalityI) simp_all
  then show ?thesis using io_read_ok [of _ n "device w"] a assms(4) by simp
qed

lemma write_piece:
  assumes "wl_ok lo hi P M w" and "v + length bs \<le> M * P" and "v mod P + length bs \<le> P" and "bs \<noteq> []"
  obtains w' where
    "on_device (io_write io (start_address (cfg w) + wl_flash_calc_addr w (of_nat v)) bs) w = (0, w')"
    "wl_ok lo hi P M w'" "same_frame w w'"
    "\<And>x. x < M * P \<Longrightarrow> vbyte w' x = (if v \<le> x \<and> x < v + length bs then vbyte w x AND bs ! (x - v) else vbyte w x)"
    "wl_stored io byte M w \<Longrightarrow> wl_stored io byte M w'"
proof -
  define A where "A = lo + unat (wl_flash_calc_addr w (of_nat v))"
  have "0 < length bs" using assms(4) by simp
  note a = phys_addr [OF assms(1-3) this]
  have room: "lo \<le> unat (start_address (cfg w) + wl_flash_calc_addr w (of_nat v))"
    "unat (start_address (cfg w) + wl_flash_calc_addr w (of_nat v)) + length bs \<le> hi"
    using a by linarith+
  obtain d' where d': "io_write io (start_address (cfg w) + wl_flash_calc_addr w (of_nat v)) bs (device w) = (0, d')"
    "\<And>x. byte d' x = (if A \<le> x \<and> x < A + length bs then byte (device w) x AND bs ! (x - A) else byte (device w) x)"
    using write_ok [OF room assms(4), of "device w"] unfolding a(1) A_def by blast
  show thesis
  proof (rule that [of "w\<lparr>device := d'\<rparr>"])
    fix x
    assume x: "x < M * P"
    show "vbyte (w\<lparr>device := d'\<rparr>) x = (if v \<le> x \<and> x < v + length bs then vbyte w x AND bs ! (x - v) else vbyte w x)"
      using piece_changed [OF assms(1-3) x d'(2) [unfolded A_def]] piece_addr(2) [OF assms(1-3) x]
      by (auto simp: wl_content_def)
  next
    show "wl_stored io byte M (w\<lparr>device := d'\<rparr>)" if "wl_stored io byte M w"
      using a(3) by (intro stored_device [OF that slots_order [OF assms(1)]]) (auto simp: d'(2) A_def)
  qed (use assms(1) ok_device d'(1) in \<open>auto simp: on_device_def\<close>)
qed

lemma whole_pages_eq:
  assumes "wl_ok lo hi P M w" and "0 < len" and "len \<le> M * P"
  shows "whole_pages len w = (len - 1) div P"
proof -
  have g: "unat (page_size (cfg w)) = P" "lo + (M + 1) * P < 0x80000000"
    using assms(1) by (auto simp: wl_ok_def wl_geometry_def Let_def)
  moreover have "M * P \<le> (M + 1) * P" by simp
  ultimately have "len < 0x100000000" using assms(3) by linarith
  then have "unat (of_nat len - 1 :: u32) = len - 1"
    using assms(2) by (simp add: unat_sub word_le_nat_alt unat_of_nat_u32)
  then show ?thesis using g(1) by (simp add: whole_pages_def unat_div_distrib)
qed

lemma page_steps:
  fixes len P n :: nat
  assumes "(len - 1) div P = Suc n" and "0 < P"
  shows "P < len" and "(len - P - 1) div P = n"
proof -
  have "P \<le> len - 1" using assms by (metis div_less not_le Zero_not_Suc)
  then show "P < len" using assms(2) by simp
  show "(len - P - 1) div P = n"
    using assms \<open>P \<le> len - 1\<close> le_div_geq [of P "len - 1"] by (simp add: diff_commute)
qed

lemma last_page:
  fixes len P :: nat
  assumes "(len - 1) div P = 0" and "0 < P" and "0 < len"
  shows "len \<le> P"
  using assms by (auto simp: div_eq_0_iff)

lemma read_pages_ok:
  "wl_ok lo hi P M w \<Longrightarrow> P dvd v \<Longrightarrow> v + len \<le> M * P \<Longrightarrow> 0 < len \<Longrightarrow> (len - 1) div P = n \<Longrightarrow>
   read_pages io (of_nat v) n len w = (0, map (wl_content byte lo w) [v..<v + len])"
proof (induction n arbitrary: v len)
  case 0
  have "0 < P" using "0.prems"(1) by (simp add: wl_ok_def wl_geometry_def Let_def)
  then have "len \<le> P" by (rule last_page [OF "0.prems"(5) _ "0.prems"(4)])
  then have "v mod P + len \<le> P" using "0.prems"(2) by simp
  then show ?case using read_piece [OF "0.prems"(1,3) _ "0.prems"(4)] by simp
next
  case (Suc n)
  have P: "0 < P" "unat (page_size (cfg w)) = P" using Suc.prems(1) by (simp_all add: wl_ok_def wl_geometry_def Let_def)
  note st = page_steps [OF Suc.prems(5) P(1)]
  have vP: "of_nat v + page_size (cfg w) = (of_nat (v + P) :: u32)" by (simp flip: P(2))
  have 1: "io_read io (start_address (cfg w) + wl_flash_calc_addr w (of_nat v)) P (device w) = (0, map (vbyte w) [v..<v + P])"
    using read_piece [OF Suc.prems(1)] Suc.prems(2,3) st(1) P(1) by simp
  have 2: "read_pages io (of_nat (v + P)) n (len - P) w = (0, map (vbyte w) [v + P..<v + P + (len - P)])"
    using Suc.IH [OF Suc.prems(1), of "v + P" "len - P"] Suc.prems(2,3) st by simp
  have "[v..<v + P] @ [v + P..<v + len] = [v..<v + len]"
    using st(1) upt_add_eq_append [of v "v + P" "len - P"] by simp
  then have "map (vbyte w) [v..<v + len] = map (vbyte w) [v..<v + P] @ map (vbyte w) [v + P..<v + len]"
    by (metis map_append)
  then show ?case using st(1) by (simp add: read_pages.simps(2) P(2) 1 vP 2 del: of_nat_add)
qed

lemma write_pages_ok:
  "wl_ok lo hi P M w \<Longrightarrow> P dvd v \<Longrightarrow> v + length bs \<le> M * P \<Longrightarrow> bs \<noteq> [] \<Longrightarrow> (length bs - 1) div P = n \<Longrightarrow>
   \<exists>w'. write_pages io (of_nat v) n bs w = (0, w') \<and> wl_ok lo hi P M w' \<and> same_frame w w'
     \<and> (\<forall>x<M * P. vbyte w' x = (if v \<le> x \<and> x < v + length bs then vbyte w x AND bs ! (x - v) else vbyte w x))
     \<and> (wl_stored io byte M w \<longrightarrow> wl_stored io byte M w')"
proof (induction n arbitrary: v bs w)
  case 0
  have "0 < P" using "0.prems"(1) by (simp add: wl_ok_def wl_geometry_def Let_def)
  then have "length bs \<le> P" using last_page [OF "0.prems"(5)] "0.prems"(4) by simp
  then have "v mod P + length bs \<le> P" using "0.prems"(2) by simp
  from write_piece [OF "0.prems"(1,3) this "0.prems"(4)] show ?case unfolding write_pages.simps by metis
next
  case (Suc n)
  have P: "0 < P" "unat (page_size (cfg w)) = P" using Suc.prems(1) by (simp_all add: wl_ok_def wl_geometry_def Let_def)
  note st = page_steps [OF Suc.prems(5) P(1)]
  have vP: "of_nat v + page_size (cfg w) = (of_nat (v + P) :: u32)" by (simp flip: P(2))
  have p1: "v + length (take P bs) \<le> M * P" "v mod P + length (take P bs) \<le> P" "take P bs \<noteq> []"
    using Suc.prems(2,3) st(1) P(1) by auto
  obtain w1 where w1: "on_device (io_write io (start_address (cfg w) + wl_flash_calc_addr w (of_nat v)) (take P bs)) w = (0, w1)"
    "wl_ok lo hi P M w1" "same_frame w w1" "\<And>x. x < M * P \<Longrightarrow>
      vbyte w1 x = (if v \<le> x \<and> x < v + length (take P bs) then vbyte w x AND take P bs ! (x - v) else vbyte w x)"
    "wl_stored io byte M w \<Longrightarrow> wl_stored io byte M w1"
    by (rule write_piece [OF Suc.prems(1) p1]) blast
  have p2: "P dvd v + P" "v + P + length (drop P bs) \<le> M * P" "drop P bs \<noteq> []" "(length (drop P bs) - 1) div P = n"
    using Suc.prems(2,3) st by auto
  obtain w2 where w2: "write_pages io (of_nat (v + P)) n (drop P bs) w1 = (0, w2)" "wl_ok lo hi P M w2" "same_frame w1 w2"
    "\<And>x. x < M * P \<Longrightarrow> vbyte w2 x =
       (if v + P \<le> x \<and> x < v + P + length (drop P bs) then vbyte w1 x AND drop P bs ! (x - (v + P)) else vbyte w1 x)"
    "wl_stored io byte M w1 \<longrightarrow> wl_stored io byte M w2"
    using Suc.IH [OF w1(2) p2] by metis
  have "vbyte w2 x = (if v \<le> x \<and> x < v + length bs then vbyte w x AND bs ! (x - v) else vbyte w x)" if "x < M * P" for x
    unfolding w2(4) [OF that] w1(4) [OF that] using st(1) by auto
  moreover have "write_pages io (of_nat v) (Suc n) bs w = (0, w2)"
    using w1(1) w2(1) by (simp add: P(2) vP err_check_def Let_def)
  ultimately show ?case using w2(2,5) w1(5) same_frame_trans [OF w1(3) w2(3)] by blast
qed

text \<open>Both exported operations, with the number of whole pages as the code computes it.\<close>

lemma wl_read_ok:
  assumes "wl_ok lo hi P M w" and "P dvd v" and "v + len \<le> M * P" and "0 < len"
  shows "wl_flash_read io (of_nat v) len w = (0, map (wl_content byte lo w) [v..<v + len])"
  using read_pages_ok [OF assms refl] whole_pages_eq [OF assms(1,4)] assms(3,4) by (simp add: wl_flash_read_def)

lemma wl_write_ok:
  assumes "wl_ok lo hi P M w" and "P dvd v" and "v + length bs \<le> M * P" and "bs \<noteq> []"
  obtains w' where "wl_flash_write io (of_nat v) bs w = (0, w')" "wl_ok lo hi P M w'" "same_frame w w'"
    "\<And>x. x < M * P \<Longrightarrow> vbyte w' x = (if v \<le> x \<and> x < v + length bs then vbyte w x AND bs ! (x - v) else vbyte w x)"
    "wl_stored io byte M w \<Longrightarrow> wl_stored io byte M w'"
  using write_pages_ok [OF assms refl] whole_pages_eq [OF assms(1), of "length bs"] assms(3,4)
  by (auto simp: wl_flash_write_def)

subsection \<open>Recovering the position\<close>

lemma recover_loop_ok:
  assumes "wr_size (cfg w) = 8" and "lo \<le> unat (addr_state1 w)" and "unat (addr_state1 w) + 24 + (i0 + n0) \<le> hi"
    and "i0 + n0 < 0x20000000"
  shows "unat i + n = i0 + n0 \<Longrightarrow>
    (\<And>j. unat i \<le> j \<Longrightarrow> j < q \<Longrightarrow> byte (device w) (unat (addr_state1 w) + 24 + j) \<noteq> 0xFF) \<Longrightarrow>
    (q < i0 + n0 \<Longrightarrow> byte (device w) (unat (addr_state1 w) + 24 + q) = 0xFF) \<Longrightarrow> unat i \<le> q \<Longrightarrow> q \<le> i0 + n0 \<Longrightarrow>
    recover_loop io n i w = (0, if q < i0 + n0 then w\<lparr>wl_state := (wl_state w)\<lparr>pos := of_nat q\<rparr>\<rparr> else w)"
proof (induction n arbitrary: i)
  case (Suc n)
  have i: "unat i + Suc n < 0x20000000" using Suc.prems(1) assms(4) by linarith
  have "unat (i * 8 div 8) = unat i" using i by (simp add: unat_div_distrib unat_word_ariths)
  then have a: "unat (addr_state1 w + 24 + i * wr_size (cfg w) div 8) = unat (addr_state1 w) + 24 + unat i"
    using i assms(1,3) Suc.prems(1) area_end by (simp add: unat_word_ariths)
  have rd: "io_read io (addr_state1 w + 24 + i * wr_size (cfg w) div 8) 1 (device w)
      = (0, [byte (device w) (unat (addr_state1 w) + 24 + unat i)])"
  proof -
    define A where "A = unat (addr_state1 w) + 24 + unat i"
    have "lo \<le> A" "A + 1 \<le> hi" using assms(2,3) Suc.prems(1) by (simp_all add: A_def)
    then show ?thesis
      using io_read_ok [of "addr_state1 w + 24 + i * wr_size (cfg w) div 8" 1 "device w"]
      unfolding a A_def [symmetric] by simp
  qed
  show ?case
  proof (cases "unat i = q")
    case True
    then have "q < i0 + n0" "of_nat q = i" using Suc.prems(1) by auto
    then show ?thesis using rd Suc.prems(3) True by simp
  next
    case False
    then have "unat i < q" using Suc.prems(4) by simp
    then have nb: "byte (device w) (unat (addr_state1 w) + 24 + unat i) \<noteq> 0xFF" using Suc.prems(2) by simp
    have i1: "unat (i + 1) = unat i + 1" using i by (simp add: unat_word_ariths)
    have "recover_loop io n (i + 1) w = (0, if q < i0 + n0 then w\<lparr>wl_state := (wl_state w)\<lparr>pos := of_nat q\<rparr>\<rparr> else w)"
      using Suc.prems \<open>unat i < q\<close> by (intro Suc.IH) (auto simp: i1)
    then show ?thesis using rd nb by simp
  qed
qed auto

lemma recover_pos_ok:
  assumes "wl_ok lo hi P M w" and "wr_size (cfg w) = 8" and "q \<le> M + 1"
    and "\<And>j. j < q \<Longrightarrow> byte (device w) (unat (addr_state1 w) + 24 + j) \<noteq> 0xFF"
    and "q \<le> M \<Longrightarrow> byte (device w) (unat (addr_state1 w) + 24 + q) = 0xFF"
  shows "wl_flash_recover_pos io w = (0, if q \<le> M then w\<lparr>wl_state := (wl_state w)\<lparr>pos := of_nat q\<rparr>\<rparr> else w)"
proof -
  have g: "lo \<le> unat (addr_state1 w)" "unat (addr_state1 w) + 24 + (0 + (M + 1)) \<le> hi" "0 + (M + 1) < 0x20000000"
    "(M + 1) * 8 < 0x100000000" "unat (max_pos (wl_state w)) = M + 1" "unat (pos (wl_state w)) \<le> M"
    using assms(1,2) area_end by (auto simp: wl_ok_def wl_geometry_def Let_def)
  have r: "recover_loop io (M + 1) 0 w = (0, if q < 0 + (M + 1) then w\<lparr>wl_state := (wl_state w)\<lparr>pos := of_nat q\<rparr>\<rparr> else w)"
    using assms(3-5) by (intro recover_loop_ok [OF assms(2) g(1-3)]) auto
  have "of_nat q \<noteq> max_pos (wl_state w)" if "q \<le> M"
    using that g(3,5) unat_of_nat_u32 [of q] by auto
  moreover have "pos (wl_state w) \<noteq> max_pos (wl_state w)" using g(5,6) by auto
  ultimately show ?thesis using r g(5) by (auto simp: wl_flash_recover_pos_def err_check_def)
qed

end

section \<open>The internal flash\<close>

text \<open>
  The build without \<^verbatim>\<open>USE_QSPI_FLASH\<close>: the operations are those of \<open>Raw_Flash\<close>. A callback
  list that never ends is excluded by the hypothesis \<open>list_rep\<close> of every lemma.
\<close>

definition raw_io :: "'d rom_flash \<Rightarrow> erase_cbs \<Rightarrow> u32 \<Rightarrow> (u32 list \<Rightarrow> u32) \<Rightarrow> 'd wl_io" where
  "raw_io rom cbs ofvr crc = \<lparr>
     io_read = (\<lambda>off n d. case raw_flash_read rom ofvr off n d of None \<Rightarrow> (- 1, []) | Some b \<Rightarrow> (0, b)),
     io_write = raw_flash_write rom,
     io_erase = (\<lambda>off sz d. case raw_flash_erase rom cbs off (unat sz) d of
        Some (r, d', log) \<Rightarrow> (r, d') | None \<Rightarrow> (- 1, d)),
     wl_crc = crc\<rparr>"

lemma raw_block_flash:
  assumes "nor_rom rom byte" and "list_rep (cb_next cbs) (raw_erase_cb_list cbs) xs" and "hi \<le> 0x400000"
  shows "block_flash (raw_io rom cbs ofvr crc) byte lo hi"
proof
  show "hi < 0x80000000" using assms(3) by linarith
next
  fix a :: u32 and n d
  assume "lo \<le> unat a" "unat a + n \<le> hi" "0 < n"
  then have r: "unat a + n \<le> 0x400000" "range_ok a n" using assms(3) range_ok_iff [of n a] by auto
  show "io_read (raw_io rom cbs ofvr crc) a n d = (0, map (byte d) [unat a..<unat a + n])"
    using r(2) nor_read [OF assms(1) r(1), of d] by (auto simp: raw_io_def raw_flash_read_def word_gt_0)
next
  fix a :: u32 and bs :: bytes and d
  assume "lo \<le> unat a" "unat a + length bs \<le> hi" "bs \<noteq> []"
  then have r: "unat a + length bs \<le> 0x400000" "range_ok a (length bs)"
    using assms(3) range_ok_iff [of "length bs" a] by auto
  obtain d' where "rom_flash_write rom a bs d = Some d'" "\<And>x. byte d' x = (if unat a \<le> x \<and> x < unat a + length bs
       then byte d x AND bs ! (x - unat a) else byte d x)"
    using nor_write [OF assms(1) r(1), of d] by blast
  then show "\<exists>d'. io_write (raw_io rom cbs ofvr crc) a bs d = (0, d') \<and> (\<forall>x. byte d' x =
      (if unat a \<le> x \<and> x < unat a + length bs then byte d x AND bs ! (x - unat a) else byte d x))"
    using r(2) by (simp add: raw_io_def raw_flash_write_def)
next
  fix a sz :: u32 and d
  assume a: "lo \<le> unat a" "unat a + unat sz \<le> hi" "0 < unat sz" "4096 dvd unat a" "4096 dvd unat sz"
  have r: "unat a + unat sz \<le> 0x400000" using a(2) assms(3) by linarith
  obtain d' log where "raw_flash_erase rom cbs a (unat sz) d = Some (0, d', log)"
    "\<And>x. byte d' x = (if unat a \<le> x \<and> x < unat a + unat sz then 0xFF else byte d x)"
    using erase_pages [OF assms(1,2) a(4,5,3) r, of d] by blast
  then show "\<exists>d'. io_erase (raw_io rom cbs ofvr crc) a sz d = (0, d') \<and> (\<forall>x. byte d' x =
      (if unat a \<le> x \<and> x < unat a + unat sz then 0xFF else byte d x))"
    by (simp add: raw_io_def)
qed

interpretation internal: block_flash "raw_io nor_device no_cbs 0 crc" id lo "0x400000"
  for crc lo
  by (rule raw_block_flash [OF nor_device_ok no_cbs_rep]) simp

end
