(* ===== verification/Fatfs_Disk.thy ===== *)
theory Fatfs_Disk
  imports Wear_Flash
begin

text \<open>
  The disk of the file system, \<^verbatim>\<open>MSDK/FatFS/port/fatfs.c\<close> and the three entry points of
  \<^verbatim>\<open>MSDK/FatFS/src/diskio.c\<close>: sectors of 4096 bytes on top of the wear levelling of the theory
  \<open>Wear_Levelling\<close>. A disk refines an array of sectors; the number of sectors it reports is
  larger than the number it has.
\<close>

section \<open>Model\<close>

definition FATFS_FULL_MEM_SIZE :: u32 where "FATFS_FULL_MEM_SIZE = 0xC0000"
definition FATFS_SECTOR_SIZE :: u32 where "FATFS_SECTOR_SIZE = 0x1000"
definition FATFS_FLASH_START_ADDR :: u32 where "FATFS_FLASH_START_ADDR = 0x1EA000"

definition RES_OK :: int where "RES_OK = 0"
definition RES_ERROR :: int where "RES_ERROR = 1"

definition wl_zero :: "'d \<Rightarrow> 'd wl_flash_t" where
  "wl_zero d = \<lparr>wl_state = \<lparr>pos = 0, max_pos = 0, move_count = 0, block_size = 0, st_version = 0, st_crc = 0\<rparr>,
     cfg = \<lparr>start_address = 0, full_mem_size = 0, page_size = 0, sector_size = 0, wr_size = 0, cfg_version = 0,
       temp_buff_size = 0, cfg_crc = 0\<rparr>,
     addr_cfg = 0, addr_state1 = 0, addr_state2 = 0, flash_size = 0, state_size = 0, cfg_size = 0, dummy_addr = 0,
     device = d\<rparr>"

text \<open>The configuration \<^verbatim>\<open>fatfs_mk_mount\<close> sets up before it starts the wear levelling.\<close>

definition fatfs_wl_setup :: "'d \<Rightarrow> 'd wl_flash_t" where
  "fatfs_wl_setup d = (wl_zero d)\<lparr>cfg := \<lparr>start_address = FATFS_FLASH_START_ADDR,
     full_mem_size = FATFS_FULL_MEM_SIZE, page_size = FATFS_SECTOR_SIZE, sector_size = FATFS_SECTOR_SIZE,
     wr_size = 8, cfg_version = 1, temp_buff_size = FATFS_SECTOR_SIZE, cfg_crc = 0\<rparr>\<rparr>"

text \<open>
  \<open>buff\<close> holds at least the bytes of \<open>count\<close> sectors.
\<close>

definition fs_flash_write :: "'d wl_io \<Rightarrow> u32 \<Rightarrow> bytes \<Rightarrow> u32 \<Rightarrow> 'd wl_flash_t \<Rightarrow> int \<times> 'd wl_flash_t" where
  "fs_flash_write io sector buff count w =
     (if flash_size w < sector * FATFS_SECTOR_SIZE then (RES_ERROR, w)
      else
        let (r, w1) = wl_flash_erase_range io (sector * FATFS_SECTOR_SIZE) (count * FATFS_SECTOR_SIZE) w in
        if r \<noteq> 0 then (RES_ERROR, w1)
        else
          let (r2, w2) = wl_flash_write io (sector * FATFS_SECTOR_SIZE)
                (take (unat (count * FATFS_SECTOR_SIZE)) buff) w1
          in (if r2 \<noteq> 0 then RES_ERROR else RES_OK, w2))"

definition fs_flash_read :: "'d wl_io \<Rightarrow> u32 \<Rightarrow> u32 \<Rightarrow> 'd wl_flash_t \<Rightarrow> int \<times> bytes" where
  "fs_flash_read io sector count w =
     (if FATFS_FULL_MEM_SIZE < sector * FATFS_SECTOR_SIZE then (RES_ERROR, [])
      else
        let (r, b) = wl_flash_read io (sector * FATFS_SECTOR_SIZE) (unat (count * FATFS_SECTOR_SIZE)) w
        in (if r \<noteq> 0 then RES_ERROR else RES_OK, b))"

definition fs_flash_size :: u32 where
  "fs_flash_size = FATFS_FULL_MEM_SIZE"

definition disk_read :: "'d wl_io \<Rightarrow> u32 \<Rightarrow> u32 \<Rightarrow> 'd wl_flash_t \<Rightarrow> int \<times> bytes" where
  "disk_read io sector count w =
     (let (r, b) = fs_flash_read io sector count w in (if r \<noteq> 0 then RES_ERROR else RES_OK, b))"

definition disk_write :: "'d wl_io \<Rightarrow> bytes \<Rightarrow> u32 \<Rightarrow> u32 \<Rightarrow> 'd wl_flash_t \<Rightarrow> int \<times> 'd wl_flash_t" where
  "disk_write io buff sector count w =
     (let (r, w') = fs_flash_write io sector buff count w in (if r \<noteq> 0 then RES_ERROR else RES_OK, w'))"

datatype ioctl_cmd = GET_SECTOR_COUNT | GET_SECTOR_SIZE | GET_BLOCK_SIZE | OTHER_CMD

text \<open>The number written through the pointer, if any.\<close>

definition disk_ioctl :: "ioctl_cmd \<Rightarrow> int \<times> u32 option" where
  "disk_ioctl cmd = (RES_OK, case cmd of
     GET_SECTOR_COUNT \<Rightarrow> Some (fs_flash_size div FATFS_SECTOR_SIZE)
   | GET_SECTOR_SIZE \<Rightarrow> Some FATFS_SECTOR_SIZE
   | _ \<Rightarrow> None)"

section \<open>The disk of the shipped configuration\<close>

text \<open>
  192 sectors in all: one is spare, two hold the states, one the configuration, which leaves
  188 sectors for data.
\<close>

definition disk_ok :: "'d wl_flash_t \<Rightarrow> bool" where
  "disk_ok w \<longleftrightarrow> wl_ok 0x1EA000 0x400000 4096 188 w \<and> sector_size (cfg w) = 0x1000"

definition disk_bytes :: "('d \<Rightarrow> nat \<Rightarrow> u8) \<Rightarrow> 'd wl_flash_t \<Rightarrow> bytes" where
  "disk_bytes byte w = map (wl_content byte 0x1EA000 w) [0..<188 * 4096]"

lemma length_disk_bytes [simp]: "length (disk_bytes byte w) = 188 * 4096"
  by (simp add: disk_bytes_def)

lemma nth_disk_bytes: "v < 188 * 4096 \<Longrightarrow> disk_bytes byte w ! v = wl_content byte 0x1EA000 w v"
  by (simp add: disk_bytes_def)

lemma setup_layout:
  "wl_geometry 0x1EA000 0x400000 4096 188
     ((config_layout (fatfs_wl_setup d))\<lparr>wl_state := s\<lparr>max_pos := 189\<rparr>\<rparr>)"
  by (simp add: config_layout_def fatfs_wl_setup_def mark_count_def wl_geometry_def Let_def
      FATFS_FLASH_START_ADDR_def FATFS_FULL_MEM_SIZE_def FATFS_SECTOR_SIZE_def)

lemma sector_word:
  assumes "unat (k :: u32) \<le> 192"
  shows "unat (k * FATFS_SECTOR_SIZE) = unat k * 4096" and "k * FATFS_SECTOR_SIZE = of_nat (unat k * 4096)"
    and "k * FATFS_SECTOR_SIZE div 0x1000 = k" and "unat ((k * FATFS_SECTOR_SIZE + 0x1000 - 1) div 0x1000) = unat k"
proof -
  show 1: "unat (k * FATFS_SECTOR_SIZE) = unat k * 4096"
    using assms by (simp add: FATFS_SECTOR_SIZE_def unat_word_ariths)
  show "k * FATFS_SECTOR_SIZE = of_nat (unat k * 4096)" by (simp add: FATFS_SECTOR_SIZE_def)
  show "k * FATFS_SECTOR_SIZE div 0x1000 = k"
    using 1 by (simp add: word_unat_eq_iff unat_div_distrib)
  have "unat (k * FATFS_SECTOR_SIZE + 0x1000 - 1) = unat k * 4096 + 4095"
    using 1 assms by (simp add: unat_word_ariths)
  then show "unat ((k * FATFS_SECTOR_SIZE + 0x1000 - 1) div 0x1000) = unat k"
    by (simp add: unat_div_distrib)
qed

lemma disk_geometry:
  assumes "disk_ok w"
  shows "unat (flash_size w) = 188 * 4096" and "unat (sector_size (cfg w)) = 4096" and "unat (page_size (cfg w)) = 4096"
  using assms by (simp_all add: disk_ok_def wl_ok_def wl_geometry_def Let_def)

section \<open>A disk is an array of sectors\<close>

text \<open>
  What the file system relies on: a read returns the addressed part of the content, a write
  replaces it, and both succeed inside the disk of \<open>n\<close> sectors of \<open>sz\<close> bytes.
\<close>

locale sector_disk =
  fixes rd :: "u32 \<Rightarrow> u32 \<Rightarrow> 's \<Rightarrow> int \<times> bytes" and wr :: "bytes \<Rightarrow> u32 \<Rightarrow> u32 \<Rightarrow> 's \<Rightarrow> int \<times> 's"
    and inv :: "'s \<Rightarrow> bool" and content :: "'s \<Rightarrow> bytes" and n sz :: nat
  assumes content_length: "inv s \<Longrightarrow> length (content s) = n * sz"
    and rd_law: "inv s \<Longrightarrow> unat a + unat c \<le> n \<Longrightarrow> 0 < unat c \<Longrightarrow>
      rd a c s = (0, window (unat a * sz) (unat c * sz) (content s))"
    and wr_law: "inv s \<Longrightarrow> unat a + unat c \<le> n \<Longrightarrow> 0 < unat c \<Longrightarrow> length b = unat c * sz \<Longrightarrow>
      \<exists>s'. wr b a c s = (0, s') \<and> inv s' \<and> content s' = blit (content s) (unat a * sz) b"
begin

lemma fits: "unat (a :: u32) + unat (c :: u32) \<le> n \<Longrightarrow> unat a * sz + unat c * sz \<le> n * sz"
  by (metis add_mult_distrib mult_le_mono1)

text \<open>What was written is read back, and the sectors beside it are as before.\<close>

lemma write_read:
  assumes "inv s" and "unat a + unat c \<le> n" and "0 < unat c" and "length b = unat c * sz"
  obtains s' where "wr b a c s = (0, s')" "inv s'" "rd a c s' = (0, b)"
    "\<And>a' c'. unat a' + unat c' \<le> n \<Longrightarrow> 0 < unat c' \<Longrightarrow> unat a' + unat c' \<le> unat a \<or> unat a + unat c \<le> unat a' \<Longrightarrow>
      rd a' c' s' = rd a' c' s"
proof -
  obtain s' where s': "wr b a c s = (0, s')" "inv s'" "content s' = blit (content s) (unat a * sz) b"
    using wr_law [OF assms] by blast
  have le: "unat a * sz + length b \<le> length (content s)"
    using fits [OF assms(2)] assms(4) content_length [OF assms(1)] by simp
  show thesis
  proof (rule that [OF s'(1,2)])
    show "rd a c s' = (0, b)"
      using rd_law [OF s'(2) assms(2,3)] s'(3) window_blit_same [OF le] assms(4) by simp
    fix a' c' :: u32
    assume p: "unat a' + unat c' \<le> n" "0 < unat c'" "unat a' + unat c' \<le> unat a \<or> unat a + unat c \<le> unat a'"
    have "unat a' * sz + unat c' * sz \<le> unat a * sz \<or> unat a * sz + length b \<le> unat a' * sz"
      using p(3) assms(4) by (metis add_mult_distrib mult_le_mono1)
    then have "window (unat a' * sz) (unat c' * sz) (content s') = window (unat a' * sz) (unat c' * sz) (content s)"
      using window_blit_disjoint [OF le] s'(3) by simp
    then show "rd a' c' s' = rd a' c' s" using rd_law p assms(1) s'(2) by simp
  qed
qed

end

section \<open>The disk on the internal flash\<close>

lemma disk_read_ok:
  assumes "block_flash io byte 0x1EA000 0x400000" and "disk_ok w" and "unat a + unat c \<le> 188" and "0 < unat c"
  shows "disk_read io a c w = (0, window (unat a * 4096) (unat c * 4096) (disk_bytes byte w))"
proof -
  have le: "unat a * 4096 + unat c * 4096 \<le> 188 * 4096" "unat a \<le> 192" "unat c \<le> 192" using assms(3) by linarith+
  have "wl_flash_read io (of_nat (unat a * 4096)) (unat c * 4096) w
      = (0, map (wl_content byte 0x1EA000 w) [unat a * 4096..<unat a * 4096 + unat c * 4096])"
    using assms(2,4) le(1) by (intro block_flash.wl_read_ok [OF assms(1)]) (auto simp: disk_ok_def)
  moreover have "\<not> FATFS_FULL_MEM_SIZE < a * FATFS_SECTOR_SIZE"
    using sector_word(1) [OF le(2)] le(1) by (simp add: word_less_nat_alt FATFS_FULL_MEM_SIZE_def)
  moreover have "map (wl_content byte 0x1EA000 w) [unat a * 4096..<unat a * 4096 + unat c * 4096]
      = window (unat a * 4096) (unat c * 4096) (disk_bytes byte w)"
    using le(1) by (intro nth_equalityI) (simp_all add: nth_window nth_disk_bytes)
  ultimately show ?thesis
    using sector_word(1) [OF le(3)] sector_word(2) [OF le(2)]
    by (simp add: disk_read_def fs_flash_read_def RES_OK_def)
qed

lemma disk_write_ok:
  assumes "block_flash io byte 0x1EA000 0x400000" and "disk_ok w" and "unat a + unat c \<le> 188" and "0 < unat c"
    and "length buff = unat c * 4096"
  obtains w' where "disk_write io buff a c w = (0, w')" "disk_ok w'"
    "disk_bytes byte w' = blit (disk_bytes byte w) (unat a * 4096) buff"
    "same_frame w w'" "wl_stored io byte 188 w \<Longrightarrow> wl_stored io byte 188 w'"
proof -
  have le: "unat a * 4096 + unat c * 4096 \<le> 188 * 4096" "unat a \<le> 192" "unat c \<le> 192" using assms(3) by linarith+
  note g = disk_geometry [OF assms(2)] and sa = sector_word [OF le(2)] and sc = sector_word [OF le(3)]
  have sec: "sector_size (cfg w) = 0x1000" using assms(2) by (simp add: disk_ok_def)
  have wl: "wl_ok 0x1EA000 0x400000 4096 188 w" using assms(2) by (simp add: disk_ok_def)
  have "(unat a + unat c) * unat (sector_size (cfg w)) \<le> 188 * 4096" using le(1) g(2) by simp
  from block_flash.erase_range_ok [OF assms(1) wl this] obtain w1 where
    w1: "erase_range_loop io (unat c) a w = (0, w1)" "wl_ok 0x1EA000 0x400000 4096 188 w1" "same_frame w w1"
      "\<And>v. v < 188 * 4096 \<Longrightarrow> wl_content byte 0x1EA000 w1 v =
        (if unat a * 4096 \<le> v \<and> v < (unat a + unat c) * 4096 then 0xFF else wl_content byte 0x1EA000 w v)"
      "wl_stored io byte 188 w \<longrightarrow> wl_stored io byte 188 w1"
    unfolding g(2) by blast
  have "buff \<noteq> []" using assms(4,5) by auto
  then obtain w2 where
    w2: "wl_flash_write io (of_nat (unat a * 4096)) buff w1 = (0, w2)" "wl_ok 0x1EA000 0x400000 4096 188 w2" "same_frame w1 w2"
      "\<And>v. v < 188 * 4096 \<Longrightarrow> wl_content byte 0x1EA000 w2 v = (if unat a * 4096 \<le> v \<and> v < unat a * 4096 + length buff
         then wl_content byte 0x1EA000 w1 v AND buff ! (v - unat a * 4096) else wl_content byte 0x1EA000 w1 v)"
      "wl_stored io byte 188 w1 \<longrightarrow> wl_stored io byte 188 w2"
    using block_flash.wl_write_ok [OF assms(1) w1(2), of "unat a * 4096" buff] le(1) assms(5) by auto
  have "\<not> flash_size w < a * FATFS_SECTOR_SIZE" using g(1) sa(1) le(1) by (simp add: word_less_nat_alt)
  then have "disk_write io buff a c w = (0, w2)"
    using w1(1) w2(1) sa(2,3) sc(1,4) assms(5)
    by (simp add: disk_write_def fs_flash_write_def wl_flash_erase_range_def sec RES_OK_def)
  moreover have "disk_ok w2" using w2(2,3) w1(3) sec by (simp add: disk_ok_def same_frame_def)
  moreover have "disk_bytes byte w2 = blit (disk_bytes byte w) (unat a * 4096) buff"
    using le(1) assms(5) w1(4) w2(4)
    by (intro nth_equalityI) (auto simp: length_blit nth_blit nth_disk_bytes)
  ultimately show thesis using w1(5) w2(5) by (intro that [OF _ _ _ same_frame_trans [OF w1(3) w2(3)]]) auto
qed

lemma raw_sector_disk:
  fixes ofvr :: u32 and crc :: "u32 list \<Rightarrow> u32"
  assumes "nor_rom rom byte" and "list_rep (cb_next cbs) (raw_erase_cb_list cbs) xs"
  defines "io \<equiv> raw_io rom cbs ofvr crc"
  shows "sector_disk (disk_read io) (disk_write io) disk_ok (disk_bytes byte) 188 4096"
proof
  note bf = raw_block_flash [OF assms(1,2) order_refl, of ofvr crc "0x1EA000", folded io_def]
  show "disk_read io a c w = (0, window (unat a * 4096) (unat c * 4096) (disk_bytes byte w))"
    if "disk_ok w" "unat a + unat c \<le> 188" "0 < unat c" for w a c
    using disk_read_ok [OF bf that] .
  show "\<exists>w'. disk_write io b a c w = (0, w') \<and> disk_ok w' \<and> disk_bytes byte w' = blit (disk_bytes byte w) (unat a * 4096) b"
    if "disk_ok w" "unat a + unat c \<le> 188" "0 < unat c" "length b = unat c * 4096" for w a c b
    using disk_write_ok [OF bf that] by metis
qed simp

interpretation fat: sector_disk "disk_read (raw_io nor_device no_cbs 0 crc)" "disk_write (raw_io nor_device no_cbs 0 crc)"
    disk_ok "disk_bytes id" 188 4096
  for crc
  by (rule raw_sector_disk [OF nor_device_ok no_cbs_rep])

section \<open>Properties\<close>

definition sample_disk :: "(nat \<Rightarrow> u8) wl_flash_t" where
  "sample_disk = (config_layout (fatfs_wl_setup (\<lambda>_. 0xFF)))\<lparr>wl_state :=
     \<lparr>pos = 188, max_pos = 189, move_count = 187, block_size = 4096, st_version = 1, st_crc = 0\<rparr>\<rparr>"

lemma sample_disk_ok: "disk_ok sample_disk"
proof -
  have "sample_disk = (config_layout (fatfs_wl_setup (\<lambda>_. 0xFF)))\<lparr>wl_state :=
     \<lparr>pos = 188, max_pos = 0, move_count = 187, block_size = 4096, st_version = 1, st_crc = 0\<rparr>\<lparr>max_pos := 189\<rparr>\<rparr>"
    by (simp add: sample_disk_def)
  then have "wl_geometry 0x1EA000 0x400000 4096 188 sample_disk" using setup_layout by metis
  then show ?thesis
    by (simp add: disk_ok_def wl_ok_def sample_disk_def config_layout_def fatfs_wl_setup_def FATFS_SECTOR_SIZE_def Let_def)
qed

text \<open>
  C5: on the internal flash a disk refines an array of 188 sectors: writing sectors, which moves
  the spare page once for every sector, replaces exactly their bytes in the content the disk
  stands for, reading returns the addressed bytes of the content, and both succeed; what was
  written is what is read back.
\<close>

theorem disk_refines_sectors:
  assumes "nor_rom rom byte" and "list_rep (cb_next cbs) (raw_erase_cb_list cbs) xs"
    and "disk_ok w" and "unat a + unat c \<le> 188" and "0 < unat c" and "length b = unat c * 4096"
  shows "disk_read (raw_io rom cbs ofvr crc) a c w = (0, window (unat a * 4096) (unat c * 4096) (disk_bytes byte w))
    \<and> (\<exists>w'. disk_write (raw_io rom cbs ofvr crc) b a c w = (0, w') \<and> disk_ok w'
         \<and> disk_bytes byte w' = blit (disk_bytes byte w) (unat a * 4096) b
         \<and> disk_read (raw_io rom cbs ofvr crc) a c w' = (0, b))"
proof -
  note sd = raw_sector_disk [OF assms(1,2), of ofvr crc]
  obtain w' where w': "disk_write (raw_io rom cbs ofvr crc) b a c w = (0, w')" "disk_ok w'"
    "disk_bytes byte w' = blit (disk_bytes byte w) (unat a * 4096) b"
    using sector_disk.wr_law [OF sd assms(3-6)] by blast
  moreover have "disk_read (raw_io rom cbs ofvr crc) a c w' = (0, b)"
    using sector_disk.write_read [OF sd assms(3-6)] w'(1) by (metis old.prod.inject)
  ultimately show ?thesis using sector_disk.rd_law [OF sd assms(3-5)] by blast
qed

theorem disk_refines_sectors_witness:
  "\<exists>w'. disk_write (raw_io nor_device no_cbs 0 sum_list) (replicate 8192 7) 186 2 sample_disk = (0, w')
     \<and> disk_read (raw_io nor_device no_cbs 0 sum_list) 186 2 w' = (0, replicate 8192 7)"
  using disk_refines_sectors [OF nor_device_ok no_cbs_rep sample_disk_ok, of 186 2 "replicate 8192 7" 0 sum_list]
  by auto

text \<open>A sector behind the last one is mapped to the first sectors.\<close>

lemma calc_addr_wraps:
  assumes "disk_ok w" and "a < 188 * 4096"
  shows "wl_flash_calc_addr w (of_nat (188 * 4096 + a)) = wl_flash_calc_addr w (of_nat a)"
proof -
  define x where "x = flash_size w - move_count (wl_state w) * page_size (cfg w)"
  have g: "unat (flash_size w) = 188 * 4096" "unat (page_size (cfg w)) = 4096" "unat (move_count (wl_state w)) < 188"
    using assms(1) by (auto simp: disk_ok_def wl_ok_def wl_geometry_def Let_def)
  have mc: "unat (move_count (wl_state w) * page_size (cfg w)) = unat (move_count (wl_state w)) * 4096"
    using g by (simp add: unat_word_ariths)
  then have "unat x \<le> 188 * 4096" using g by (simp add: x_def unat_sub word_le_nat_alt)
  then have "unat (x + of_nat (188 * 4096 + a)) = unat x + a + 188 * 4096" "unat (x + of_nat a) = unat x + a"
    using assms(2) by (simp_all add: unat_word_ariths unat_of_nat_u32)
  then have "(x + of_nat (188 * 4096 + a)) mod flash_size w = (x + of_nat a) mod flash_size w"
    by (simp add: word_unat_eq_iff unat_mod_distrib g(1))
  then show ?thesis by (simp add: wl_flash_calc_addr_def x_def [symmetric] Let_def)
qed

lemma disk_frame: "disk_ok w \<Longrightarrow> same_frame w w' \<Longrightarrow> wl_ok 0x1EA000 0x400000 4096 188 w' \<Longrightarrow> disk_ok w'"
  by (simp add: disk_ok_def same_frame_def)

lemma erase_sector_wraps:
  assumes "block_flash io byte 0x1EA000 0x400000" and "disk_ok w"
  shows "wl_flash_erase_sector io 188 w = wl_flash_erase_sector io 0 w"
proof -
  obtain w1 where w1: "wl_flash_updatewl io w = (0, w1)" "wl_ok 0x1EA000 0x400000 4096 188 w1" "same_frame w w1"
    using block_flash.updatewl_ok [OF assms(1), of 4096 188 w] assms(2) by (auto simp: disk_ok_def)
  have ok: "disk_ok w1" using disk_frame [OF assms(2) w1(3,2)] .
  then have "wl_flash_calc_addr w1 (188 * sector_size (cfg w1)) = wl_flash_calc_addr w1 0"
    using calc_addr_wraps [OF ok, of 0] by (simp add: disk_ok_def)
  then show ?thesis using w1(1) by (simp add: wl_flash_erase_sector_def err_check_def)
qed

lemma write_page_wraps:
  assumes "disk_ok w" and "length b = 4096"
  shows "wl_flash_write io 0xBC000 b w = wl_flash_write io 0 b w"
proof -
  have "whole_pages 4096 w = 0"
    using disk_geometry(3) [OF assms(1)] by (simp add: whole_pages_def unat_div_distrib)
  then show ?thesis
    using calc_addr_wraps [OF assms(1), of 0] assms(2) by (simp add: wl_flash_write_def)
qed

lemma disk_write_wraps:
  assumes "block_flash io byte 0x1EA000 0x400000" and "disk_ok w" and "length b = 4096"
  shows "disk_write io b 188 1 w = disk_write io b 0 1 w"
proof -
  have sec: "sector_size (cfg w) = 0x1000" "\<not> flash_size w < 0xBC000"
    using assms(2) disk_geometry(1) [OF assms(2)] by (auto simp: disk_ok_def word_less_nat_alt)
  have er: "wl_flash_erase_range io 0xBC000 0x1000 w = wl_flash_erase_range io 0 0x1000 w"
    using erase_sector_wraps [OF assms(1,2)] by (simp add: wl_flash_erase_range_def sec err_check_def)
  have "(unat (0 :: u32) + 1) * unat (sector_size (cfg w)) \<le> 188 * 4096" by (simp add: sec)
  from block_flash.erase_sector_ok [OF assms(1) _ this] obtain w1 where
    w1: "wl_flash_erase_sector io 0 w = (0, w1)" "wl_ok 0x1EA000 0x400000 4096 188 w1" "same_frame w w1"
    using assms(2) unfolding disk_ok_def by metis
  have r: "wl_flash_erase_range io 0 0x1000 w = (0, w1)"
    using w1(1) by (simp add: wl_flash_erase_range_def sec err_check_def)
  show ?thesis
    using er r write_page_wraps [OF disk_frame [OF assms(2) w1(3,2)] assms(3)] sec(2) assms(3)
    by (simp add: disk_write_def fs_flash_write_def FATFS_SECTOR_SIZE_def)
qed

lemma disk_read_wraps:
  assumes "disk_ok w" and "k \<in> {189, 190, 191 :: u32}"
  shows "disk_read io k 1 w = disk_read io (k - 188) 1 w"
proof -
  have "whole_pages 4096 w = 0"
    using disk_geometry(3) [OF assms(1)] by (simp add: whole_pages_def unat_div_distrib)
  moreover have "wl_flash_calc_addr w (k * FATFS_SECTOR_SIZE) = wl_flash_calc_addr w ((k - 188) * FATFS_SECTOR_SIZE)"
    using assms(2) calc_addr_wraps [OF assms(1), of 4096] calc_addr_wraps [OF assms(1), of 8192]
      calc_addr_wraps [OF assms(1), of 12288] by (auto simp: FATFS_SECTOR_SIZE_def)
  moreover have "\<not> FATFS_FULL_MEM_SIZE < k * FATFS_SECTOR_SIZE" "\<not> FATFS_FULL_MEM_SIZE < (k - 188) * FATFS_SECTOR_SIZE"
    using assms(2) by (auto simp: FATFS_FULL_MEM_SIZE_def FATFS_SECTOR_SIZE_def)
  ultimately show ?thesis
    by (simp add: disk_read_def fs_flash_read_def wl_flash_read_def FATFS_SECTOR_SIZE_def)
qed

text \<open>
  C26: the disk reports 192 sectors to the file system although it has 188: a write to sector 188
  is a write to sector 0, the boot sector, the writes behind it are refused, and reading sector
  189, 190 or 191 returns sector 1, 2 or 3.
\<close>

theorem disk_overcommitted:
  assumes "nor_rom rom byte" and "list_rep (cb_next cbs) (raw_erase_cb_list cbs) xs"
    and "disk_ok w" and "length b = 4096"
  shows "disk_ioctl GET_SECTOR_COUNT = (RES_OK, Some 192)
    \<and> disk_write (raw_io rom cbs ofvr crc) b 188 1 w = disk_write (raw_io rom cbs ofvr crc) b 0 1 w
    \<and> (\<exists>w'. disk_write (raw_io rom cbs ofvr crc) b 188 1 w = (0, w') \<and> disk_read (raw_io rom cbs ofvr crc) 0 1 w' = (0, b))
    \<and> (\<forall>k\<in>{189, 190, 191}. disk_write (raw_io rom cbs ofvr crc) b k 1 w = (RES_ERROR, w)
         \<and> disk_read (raw_io rom cbs ofvr crc) k 1 w = disk_read (raw_io rom cbs ofvr crc) (k - 188) 1 w)"
proof -
  note bf = raw_block_flash [OF assms(1,2) order_refl, of ofvr crc "0x1EA000"]
  note eq = disk_write_wraps [OF bf assms(3,4)]
  have "\<exists>w'. disk_write (raw_io rom cbs ofvr crc) b 0 1 w = (0, w') \<and> disk_read (raw_io rom cbs ofvr crc) 0 1 w' = (0, b)"
    using sector_disk.write_read [OF raw_sector_disk [OF assms(1,2)] assms(3), of 0 1 b] assms(4) by auto metis
  moreover have "disk_write (raw_io rom cbs ofvr crc) b k 1 w = (RES_ERROR, w)" if "k \<in> {189, 190, 191}" for k
  proof -
    have "flash_size w < k * FATFS_SECTOR_SIZE"
      using that disk_geometry(1) [OF assms(3)] by (auto simp: word_less_nat_alt FATFS_SECTOR_SIZE_def)
    then show ?thesis by (simp add: disk_write_def fs_flash_write_def RES_ERROR_def)
  qed
  ultimately show ?thesis
    using eq disk_read_wraps [OF assms(3)]
    by (simp add: disk_ioctl_def fs_flash_size_def FATFS_FULL_MEM_SIZE_def FATFS_SECTOR_SIZE_def)
qed

theorem disk_overcommitted_witness:
  "\<exists>w'. disk_write (raw_io nor_device no_cbs 0 sum_list) (replicate 4096 7) 188 1 sample_disk = (0, w')
     \<and> disk_read (raw_io nor_device no_cbs 0 sum_list) 0 1 w' = (0, replicate 4096 7)"
  by (rule disk_overcommitted [OF nor_device_ok no_cbs_rep sample_disk_ok, THEN conjunct2, THEN conjunct2,
      THEN conjunct1]) simp

end
