(* ===== verification/Fatfs_Restart.thy ===== *)
theory Fatfs_Restart
  imports Fatfs_Disk
begin

text \<open>
  Restarting the device: \<^verbatim>\<open>wl_flash_config\<close> finds the state of the wear levelling in the flash
  again. Between two operations nothing is lost, whatever was written before; a loss of power
  in the last step of a round of the spare page, after the marks were set and before the state
  is written, shifts the whole disk by one sector.
\<close>

section \<open>A mounted disk\<close>

lemma state_of_state_bytes [simp]: "state_of_bytes (state_bytes s) = s"
  by (simp add: state_of_bytes_def state_bytes_def window_def)

lemma pos_same: "pos s = q \<Longrightarrow> s\<lparr>pos := q\<rparr> = s"
  by (cases s) simp

text \<open>\<^verbatim>\<open>fatfs_mk_mount\<close> up to the start of the file system itself.\<close>

definition fatfs_mount :: "'d wl_io \<Rightarrow> bool \<Rightarrow> 'd \<Rightarrow> int \<times> 'd wl_flash_t" where
  "fatfs_mount io mem d = wl_flash_config io mem (fatfs_wl_setup d)"

definition shipped_cfg :: "'d wl_io \<Rightarrow> wl_config_t" where
  "shipped_cfg io = \<lparr>start_address = 0x1EA000, full_mem_size = 0xC0000, page_size = 0x1000, sector_size = 0x1000,
     wr_size = 8, cfg_version = 1, temp_buff_size = 0x1000,
     cfg_crc = wl_crc io [0x1EA000, 0xC0000, 0x1000, 0x1000, 8, 1, 0x1000]\<rparr>"

definition shipped :: "'d wl_io \<Rightarrow> wl_state_t \<Rightarrow> 'd \<Rightarrow> 'd wl_flash_t" where
  "shipped io s d = \<lparr>wl_state = s, cfg = shipped_cfg io, addr_cfg = 0x2A9000, addr_state1 = 0x2A7000,
     addr_state2 = 0x2A8000, flash_size = 0xBC000, state_size = 0x1000, cfg_size = 0x1000, dummy_addr = 0, device = d\<rparr>"

lemma shipped_simps [simp]:
  "wl_state (shipped io s d) = s" "cfg (shipped io s d) = shipped_cfg io" "addr_state1 (shipped io s d) = 0x2A7000"
  "addr_state2 (shipped io s d) = 0x2A8000" "device (shipped io s d) = d" "flash_size (shipped io s d) = 0xBC000"
  "state_size (shipped io s d) = 0x1000" "(shipped io s d)\<lparr>wl_state := s'\<rparr> = shipped io s' d"
  "(shipped io s d)\<lparr>device := d'\<rparr> = shipped io s d'" "addr_cfg (shipped io s d) = 0x2A9000"
  "cfg_size (shipped io s d) = 0x1000"
  by (simp_all add: shipped_def)

lemma shipped_cfg_simps [simp]:
  "wr_size (shipped_cfg io) = 8" "cfg_version (shipped_cfg io) = 1" "page_size (shipped_cfg io) = 0x1000"
  "sector_size (shipped_cfg io) = 0x1000" "start_address (shipped_cfg io) = 0x1EA000"
  by (simp_all add: shipped_cfg_def)

text \<open>Both states are read and the choice between them is made.\<close>

lemma mount_reads:
  assumes "block_flash io byte 0x1EA000 0x400000"
  defines "st \<equiv> \<lambda>d a. state_of_bytes (map (byte d) [a..<a + 24])"
  shows "fatfs_mount io True d = select_state io (st d 0x2A8000) (shipped io (st d 0x2A7000) d)"
proof -
  have rd: "io_read io a 24 d = (0, map (byte d) [unat a..<unat a + 24])" if "a \<in> {0x2A7000, 0x2A8000}" for a
    using that by (intro block_flash.io_read_ok [OF assms(1)]) auto
  have lay: "config_layout ((fatfs_wl_setup d)\<lparr>cfg := shipped_cfg io\<rparr>)\<lparr>wl_state := s\<rparr> = shipped io s d" for s
    by (simp add: config_layout_def fatfs_wl_setup_def wl_zero_def mark_count_def shipped_def shipped_cfg_def Let_def)
  have c: "(cfg (fatfs_wl_setup d))\<lparr>cfg_crc := wl_crc io [0x1EA000, 0xC0000, 0x1000, 0x1000, 8, 1, 0x1000]\<rparr> = shipped_cfg io"
    by (simp add: fatfs_wl_setup_def shipped_cfg_def FATFS_FLASH_START_ADDR_def FATFS_FULL_MEM_SIZE_def FATFS_SECTOR_SIZE_def)
  define w1 where "w1 = config_layout ((fatfs_wl_setup d)\<lparr>cfg := shipped_cfg io\<rparr>)"
  have w1: "addr_state1 w1 = 0x2A7000" "device w1 = d" "w1\<lparr>wl_state := s\<rparr> = shipped io s d" for s
    using lay by (simp_all add: w1_def config_layout_def fatfs_wl_setup_def wl_zero_def mark_count_def shipped_cfg_def Let_def)
  have sz: "sector_size (cfg (fatfs_wl_setup d)) = 0x1000" "temp_buff_size (cfg (fatfs_wl_setup d)) = 0x1000"
    "page_size (cfg (fatfs_wl_setup d)) = 0x1000" "start_address (cfg (fatfs_wl_setup d)) = 0x1EA000"
    "full_mem_size (cfg (fatfs_wl_setup d)) = 0xC0000" "wr_size (cfg (fatfs_wl_setup d)) = 8"
    "cfg_version (cfg (fatfs_wl_setup d)) = 1"
    by (simp_all add: fatfs_wl_setup_def FATFS_SECTOR_SIZE_def FATFS_FLASH_START_ADDR_def FATFS_FULL_MEM_SIZE_def)
  show ?thesis
    unfolding fatfs_mount_def wl_flash_config_def Let_def sz c w1_def [symmetric]
    by (simp add: w1 rd st_def)
qed

definition disk_mounted :: "'d wl_io \<Rightarrow> ('d \<Rightarrow> nat \<Rightarrow> u8) \<Rightarrow> 'd wl_flash_t \<Rightarrow> bool" where
  "disk_mounted io byte w \<longleftrightarrow> disk_ok w \<and> wl_stored io byte 188 w \<and> same_frame (shipped io (wl_state w) (device w)) w"

lemma shipped_same:
  assumes "same_frame (shipped io (wl_state w) (device w)) w"
  shows "disk_ok (shipped io (wl_state w) (device w)) = disk_ok w"
    and "wl_stored io byte M (shipped io (wl_state w) (device w)) = wl_stored io byte M w"
    and "disk_bytes byte (shipped io (wl_state w) (device w)) = disk_bytes byte w"
  using assms
  by (simp_all add: same_frame_def disk_ok_def wl_ok_def wl_geometry_def Let_def wl_stored_def disk_bytes_def
      wl_content_def wl_flash_calc_addr_def)

lemma stored_state_read:
  assumes "wl_stored io byte M w" and "a \<in> {addr_state1 w, addr_state2 w}"
  shows "state_of_bytes (map (byte (device w)) [unat a..<unat a + 24]) = (wl_state w)\<lparr>pos := 0\<rparr>"
proof -
  have "length (state_bytes ((wl_state w)\<lparr>pos := 0\<rparr>)) = 24" by (simp add: state_bytes_def)
  then have "map (byte (device w)) [unat a..<unat a + 24] = state_bytes ((wl_state w)\<lparr>pos := 0\<rparr>)"
    using assms by (intro nth_equalityI) (auto simp: wl_stored_def slot_byte_def)
  then show ?thesis by simp
qed

section \<open>Restart between two operations\<close>

lemma valid_states_selected:
  assumes "st_crc s = state_crc io s" and "st_version s = 1" and "cfg w = shipped_cfg io" and "wl_state w = s"
  shows "select_state io s w = (0, snd (wl_flash_recover_pos io w))"
  using assms by (simp add: select_state_def err_check_def Let_def)

lemma restart_ok:
  assumes "block_flash io byte 0x1EA000 0x400000" and "disk_mounted io byte w"
  defines "w' \<equiv> shipped io (wl_state w) (device w)"
  shows "fatfs_mount io True (device w) = (0, w')" and "disk_mounted io byte w'" and "disk_bytes byte w' = disk_bytes byte w"
proof -
  have m: "disk_ok w" "wl_stored io byte 188 w" "same_frame w' w" using assms(2) by (simp_all add: disk_mounted_def w'_def)
  have w': "disk_ok w'" "wl_stored io byte 188 w'" "disk_bytes byte w' = disk_bytes byte w"
    using shipped_same [OF m(3) [unfolded w'_def]] m(1,2) by (simp_all add: w'_def)
  then show "disk_mounted io byte w'" "disk_bytes byte w' = disk_bytes byte w" by (simp_all add: disk_mounted_def w'_def)
  define s where "s = (wl_state w)\<lparr>pos := 0\<rparr>"
  define w0 where "w0 = shipped io s (device w)"
  have rd: "state_of_bytes (map (byte (device w)) [unat a..<unat a + 24]) = s" if "a \<in> {0x2A7000, 0x2A8000}" for a :: u32
    using stored_state_read [OF w'(2), of a] that by (simp add: w'_def s_def)
  have sel: "fatfs_mount io True (device w) = select_state io s w0"
    using mount_reads [OF assms(1)] rd [of "0x2A7000"] rd [of "0x2A8000"] by (simp add: w0_def)
  have ok: "st_crc s = state_crc io s" "st_version s = 1"
    using w'(2) by (simp_all add: wl_stored_def w'_def s_def state_crc_def)
  have wl0: "wl_ok 0x1EA000 0x400000 4096 188 w0"
    using w'(1) by (simp add: disk_ok_def wl_ok_def wl_geometry_def Let_def w'_def w0_def s_def)
  define q where "q = unat (pos (wl_state w))"
  have q: "q \<le> 188" using m(1) by (simp add: disk_ok_def wl_ok_def q_def)
  have marks: "byte (device w) (0x2A7000 + 24 + j) = (if j < q then 1 else 0xFF)" if "j \<le> 188" for j
  proof -
    have "\<forall>j\<le>24 + 188. byte (device w) (unat (addr_state1 w') + j) = slot_byte s q j"
      using w'(2) unfolding wl_stored_def s_def q_def w'_def by simp
    then show ?thesis using that by (auto simp: w'_def slot_byte_def add.assoc dest: spec [of _ "24 + j"])
  qed
  have "wl_flash_recover_pos io w0 = (0, if q \<le> 188 then w0\<lparr>wl_state := (wl_state w0)\<lparr>pos := of_nat q\<rparr>\<rparr> else w0)"
    using marks q by (intro block_flash.recover_pos_ok [OF assms(1) wl0]) (auto simp: w0_def)
  moreover have "s\<lparr>pos := of_nat q\<rparr> = wl_state w" by (simp add: s_def q_def)
  ultimately have "snd (wl_flash_recover_pos io w0) = w'" using q by (simp add: w0_def w'_def)
  then show "fatfs_mount io True (device w) = (0, w')"
    using sel valid_states_selected [OF ok] by (simp add: w0_def)
qed

lemma write_mounted:
  assumes "block_flash io byte 0x1EA000 0x400000" and "disk_mounted io byte w" and "unat a + unat c \<le> 188" and "0 < unat c"
    and "length buff = unat c * 4096"
  obtains w' where "disk_write io buff a c w = (0, w')" "disk_mounted io byte w'"
    "disk_bytes byte w' = blit (disk_bytes byte w) (unat a * 4096) buff"
proof (rule disk_write_ok [OF assms(1) _ assms(3-5)])
  show "disk_ok w" using assms(2) by (simp add: disk_mounted_def)
  fix w'
  assume w': "disk_write io buff a c w = (0, w')" "disk_ok w'" "same_frame w w'"
    "wl_stored io byte 188 w \<Longrightarrow> wl_stored io byte 188 w'"
    "disk_bytes byte w' = blit (disk_bytes byte w) (unat a * 4096) buff"
  then have "disk_mounted io byte w'" using assms(2) by (auto simp: disk_mounted_def same_frame_def)
  then show thesis using that w' by blast
qed

section \<open>The first mount\<close>

lemma shipped_ok:
  "max_pos s = 189 \<Longrightarrow> pos s = 0 \<Longrightarrow> move_count s = 0 \<Longrightarrow> disk_ok (shipped io s d)"
  by (simp add: disk_ok_def wl_ok_def wl_geometry_def Let_def shipped_def shipped_cfg_def)

lemma init_sections_ok:
  assumes "block_flash io byte 0x1EA000 0x400000"
  obtains s' d' where "wl_flash_init_sections io (shipped io s d) = (0, shipped io s' d')"
    "disk_mounted io byte (shipped io s' d')" "pos s' = 0"
proof -
  define s1 where "s1 = s\<lparr>pos := 0, move_count := 0, st_version := 1, block_size := 0x1000, max_pos := 189\<rparr>"
  have ok1: "disk_ok (shipped io s1 d)" by (rule shipped_ok) (simp_all add: s1_def)
  then have geo: "wl_geometry 0x1EA000 0x400000 4096 188 (shipped io s1 d)" by (simp add: disk_ok_def wl_ok_def)
  define s2 where "s2 = s1\<lparr>st_crc := state_crc io s1\<rparr>"
  obtain d1 where st: "store_state io (shipped io s1 d) = (0, shipped io s2 d1)" and
    slots: "\<And>a x. a \<in> {0x2A7000, 0x2A8000 :: u32} \<Longrightarrow> unat a \<le> x \<Longrightarrow> x < unat a + 0x1000 \<Longrightarrow>
       byte d1 x = slot_byte s2 0 (x - unat a)"
  proof (rule block_flash.store_state_ok [OF assms geo])
    fix v
    assume "store_state io (shipped io s1 d) = (0, v)"
      and "\<And>a x. a \<in> {addr_state1 (shipped io s1 d), addr_state2 (shipped io s1 d)} \<Longrightarrow> unat a \<le> x \<Longrightarrow>
        x < unat a + unat (state_size (shipped io s1 d)) \<Longrightarrow> byte (device v) x = slot_byte (wl_state v) 0 (x - unat a)"
      and "wl_state v = (wl_state (shipped io s1 d))\<lparr>st_crc := state_crc io (wl_state (shipped io s1 d))\<rparr>"
      and "v = (shipped io s1 d)\<lparr>wl_state := wl_state v, device := device v\<rparr>"
    then show thesis using that [of "device v"] by (simp add: s2_def)
  qed
  have len: "length (config_bytes (shipped_cfg io)) = 32" by (simp add: config_bytes_def)
  obtain d2 where er: "erase_sectors io 0x2A9000 0x1000 1 0 d1 = (0, d2)" and
    d2: "\<And>x. x < 0x2A9000 \<Longrightarrow> byte d2 x = byte d1 x"
    using block_flash.erase_sectors_ok [OF assms, of "0x2A9000" "0x1000" 0 1 d1] by auto
  obtain d3 where wr: "io_write io 0x2A9000 (config_bytes (shipped_cfg io)) d2 = (0, d3)" and
    d3: "\<And>x. x < 0x2A9000 \<Longrightarrow> byte d3 x = byte d2 x"
    using block_flash.io_write_ok [OF assms, of "0x2A9000" "config_bytes (shipped_cfg io)" d2] len by force
  have init: "wl_flash_init_sections io (shipped io s d) = (0, shipped io s2 d3)"
    using st er wr by (simp add: wl_flash_init_sections_def err_check_def wl_flash_erase_raw_def on_device_def
        s1_def [symmetric] Let_def)
  have "byte d3 (unat a + j) = slot_byte s2 0 j" if "a \<in> {0x2A7000, 0x2A8000 :: u32}" "j \<le> 24 + 188" for a j
    using slots [of a "unat a + j"] that d2 [of "unat a + j"] d3 [of "unat a + j"] by auto
  moreover have "pos s2 = 0" "st_version s2 = 1" "st_crc s2 = state_crc io s2"
    by (simp_all add: s2_def s1_def state_crc_def)
  ultimately have "wl_stored io byte 188 (shipped io s2 d3)" by (simp add: wl_stored_def pos_same)
  then have "disk_mounted io byte (shipped io s2 d3)"
    using shipped_ok [of s2 io d3] by (simp add: disk_mounted_def s2_def s1_def)
  with init show thesis by (rule that) (simp add: s2_def s1_def)
qed

lemma first_mount_ok:
  assumes "block_flash io byte 0x1EA000 0x400000"
    and "\<And>a. a \<in> {0x2A7000, 0x2A8000} \<Longrightarrow>
      st_crc (state_of_bytes (map (byte d) [a..<a + 24])) \<noteq> state_crc io (state_of_bytes (map (byte d) [a..<a + 24]))"
  obtains w where "fatfs_mount io True d = (0, w)" "disk_mounted io byte w"
proof -
  define s where "s = state_of_bytes (map (byte d) [0x2A7000..<0x2A7000 + 24])"
  obtain s' d' where i: "wl_flash_init_sections io (shipped io s d) = (0, shipped io s' d')"
    "disk_mounted io byte (shipped io s' d')" "pos s' = 0"
    using init_sections_ok [OF assms(1)] by metis
  have m: "wl_ok 0x1EA000 0x400000 4096 188 (shipped io s' d')" "byte d' 0x2A7018 = 0xFF"
    using i(2,3) by (auto simp: disk_mounted_def disk_ok_def wl_stored_def slot_byte_def dest: spec [of _ 24])
  have "wl_flash_recover_pos io (shipped io s' d')
      = (0, if (0 :: nat) \<le> 188 then (shipped io s' d')\<lparr>wl_state := s'\<lparr>pos := of_nat 0\<rparr>\<rparr> else shipped io s' d')"
    using m(2) block_flash.recover_pos_ok [OF assms(1) m(1), of 0] by simp
  then have r: "wl_flash_recover_pos io (shipped io s' d') = (0, shipped io s' d')" using pos_same [OF i(3)] by simp
  have "fatfs_mount io True d = (0, shipped io s' d')"
    using mount_reads [OF assms(1), of d] assms(2) [of "0x2A7000"] assms(2) [of "0x2A8000"] i(1) r
    by (simp add: s_def select_state_def err_check_def Let_def)
  then show thesis using i(2) by (rule that)
qed

section \<open>Writes and restarts in any order\<close>

datatype disk_event = Write bytes u32 u32 | Restart

fun valid_event :: "disk_event \<Rightarrow> bool" where
  "valid_event (Write b a c) \<longleftrightarrow> unat a + unat c \<le> 188 \<and> 0 < unat c \<and> length b = unat c * 4096"
| "valid_event Restart \<longleftrightarrow> True"

fun disk_run :: "'d wl_io \<Rightarrow> disk_event list \<Rightarrow> 'd wl_flash_t \<Rightarrow> int \<times> 'd wl_flash_t" where
  "disk_run io [] w = (0, w)"
| "disk_run io (Write b a c # es) w = err_check (disk_write io b a c w) (disk_run io es)"
| "disk_run io (Restart # es) w = err_check (fatfs_mount io True (device w)) (disk_run io es)"

fun event_effect :: "disk_event \<Rightarrow> bytes \<Rightarrow> bytes" where
  "event_effect (Write b a c) xs = blit xs (unat a * 4096) b"
| "event_effect Restart xs = xs"

lemma disk_run_ok:
  assumes "block_flash io byte 0x1EA000 0x400000"
  shows "disk_mounted io byte w \<Longrightarrow> list_all valid_event es \<Longrightarrow>
    \<exists>w'. disk_run io es w = (0, w') \<and> disk_mounted io byte w' \<and> disk_bytes byte w' = fold event_effect es (disk_bytes byte w)"
proof (induction es arbitrary: w)
  case (Cons e es)
  show ?case
  proof (cases e)
    case (Write b a c)
    then have v: "unat a + unat c \<le> 188" "0 < unat c" "length b = unat c * 4096" using Cons.prems(2) by simp_all
    obtain w1 where w1: "disk_write io b a c w = (0, w1)" "disk_mounted io byte w1"
      "disk_bytes byte w1 = blit (disk_bytes byte w) (unat a * 4096) b"
      by (rule write_mounted [OF assms Cons.prems(1) v]) blast
    then show ?thesis using Cons.IH [OF w1(2)] Cons.prems(2) Write by (simp add: err_check_def)
  next
    case Restart
    then show ?thesis
      using restart_ok [OF assms Cons.prems(1)] Cons.IH [OF restart_ok(2) [OF assms Cons.prems(1)]] Cons.prems(2)
      by (simp add: err_check_def)
  qed
qed simp

section \<open>Power loss in the last step of a round\<close>

lemma rotated_page:
  fixes P M v mc :: nat
  assumes "0 < P" and "mc < M" and "v < M * P"
  defines "u \<equiv> (P + v) mod (M * P)"
  shows "u < M * P" and "u mod P = v mod P"
    and "pg M M mc (u div P) = (if pg M 0 mc (v div P) = M then 0 else pg M 0 mc (v div P))"
proof -
  have M: "0 < M" using assms(2) by simp
  define k where "k = v div P"
  have k: "k < M" using assms(1,3) by (simp add: k_def less_mult_imp_div_less)
  show "u < M * P" using assms(1) M by (simp add: u_def)
  have u: "u = (1 + k) mod M * P + v mod P" using mod_pages [OF assms(1) M, of 1 v] by (simp add: u_def k_def)
  then show "u mod P = v mod P" by simp
  have d: "u div P = (1 + k) mod M" using u assms(1) by simp
  have "pg M M mc (u div P) = (M - mc + u div P) mod M" using M by (simp add: pg_def Let_def)
  also have "\<dots> = (Suc (M - mc + k)) mod M" by (simp add: d mod_simps)
  also have "\<dots> = (if Suc ((M - mc + k) mod M) = M then 0 else Suc ((M - mc + k) mod M))" by (rule mod_Suc)
  finally show "pg M M mc (u div P) = (if pg M 0 mc (v div P) = M then 0 else pg M 0 mc (v div P))"
    by (simp add: pg_def Let_def k_def)
qed

text \<open>
  In the flash left behind by a step of the spare page in the last place every mark is set; the
  states in front of them are those of the round before.
\<close>

lemma marks_all_set:
  assumes "block_flash io byte 0x1EA000 0x400000" and "disk_mounted io byte w" and "pos (wl_state w) = 188"
  obtains w4 where "pass_page io w = (0, w4)"
    "\<And>a j. a \<in> {0x2A7000, 0x2A8000 :: u32} \<Longrightarrow> j \<le> 24 + 188 \<Longrightarrow>
       byte (device w4) (unat a + j) = slot_byte ((wl_state w)\<lparr>pos := 0\<rparr>) 189 j"
    "\<And>x. x < 0x2A7000 \<Longrightarrow> byte (device w4) x =
       (if 0x2A6000 \<le> x then byte (device w) (0x1EA000 + (x - 0x2A6000)) else byte (device w) x)"
proof -
  have m: "wl_ok 0x1EA000 0x400000 4096 188 w" "wr_size (cfg w) = 8" "addr_state1 w = 0x2A7000" "addr_state2 w = 0x2A8000"
    and st: "wl_stored io byte 188 w"
    using assms(2) by (auto simp: disk_mounted_def disk_ok_def same_frame_def)
  have old: "byte (device w) (unat a + j) = slot_byte ((wl_state w)\<lparr>pos := 0\<rparr>) 188 j"
    if "a \<in> {0x2A7000, 0x2A8000 :: u32}" "j \<le> 24 + 188" for a j
    using st that m(3,4) assms(3) unfolding wl_stored_def by auto
  show thesis
  proof (rule block_flash.pass_page_ok [OF assms(1) m(1)])
    fix w4 d4 d2
    assume p: "pass_page io w = (0, w4)" "device w4 = d4"
      and d2: "\<And>x. byte d2 x = (if 0x1EA000 + unat (pos (wl_state w)) * 4096 \<le> x
           \<and> x < 0x1EA000 + unat (pos (wl_state w)) * 4096 + 4096
         then byte (device w) (0x1EA000 + next_q 188 (unat (pos (wl_state w))) * 4096
           + (x - (0x1EA000 + unat (pos (wl_state w)) * 4096))) else byte (device w) x)"
      and d4: "\<And>x. byte d4 x = (if x = unat (addr_state1 w + 24 + pos (wl_state w) * wr_size (cfg w) div 8)
           \<or> x = unat (addr_state2 w + 24 + pos (wl_state w) * wr_size (cfg w) div 8) then byte d2 x AND 1 else byte d2 x)"
    have d4': "byte d4 x = (if x = 0x2A7000 + 212 \<or> x = 0x2A8000 + 212 then byte d2 x AND 1 else byte d2 x)" for x
      using d4 [of x] m(2-4) assms(3) by simp
    have d2': "byte d2 x = (if 0x2A6000 \<le> x \<and> x < 0x2A7000 then byte (device w) (0x1EA000 + (x - 0x2A6000)) else byte (device w) x)" for x
      using d2 [of x] assms(3) by (simp add: next_q_def)
    show thesis
    proof (rule that [OF p(1)])
      fix a and j :: nat
      assume a: "a \<in> {0x2A7000, 0x2A8000 :: u32}" "j \<le> 24 + 188"
      have "byte d2 (unat a + j) = slot_byte ((wl_state w)\<lparr>pos := 0\<rparr>) 188 j" using old [OF a] a d2' by auto
      then show "byte (device w4) (unat a + j) = slot_byte ((wl_state w)\<lparr>pos := 0\<rparr>) 189 j"
        using a by (cases "j = 212") (auto simp: p(2) d4' slot_byte_def)
    qed (auto simp: p(2) d4' d2')
  qed
qed

lemma shifted_mount:
  assumes "block_flash io byte 0x1EA000 0x400000" and "disk_mounted io byte w" and "pos (wl_state w) = 188"
    and "\<And>a j. a \<in> {0x2A7000, 0x2A8000 :: u32} \<Longrightarrow> j \<le> 24 + 188 \<Longrightarrow>
       byte d (unat a + j) = slot_byte ((wl_state w)\<lparr>pos := 0\<rparr>) 189 j"
  defines "w' \<equiv> shipped io ((wl_state w)\<lparr>pos := 0\<rparr>) d"
  shows "fatfs_mount io True d = (0, w')" and "wl_ok 0x1EA000 0x400000 4096 188 w'"
proof -
  define s where "s = (wl_state w)\<lparr>pos := 0\<rparr>"
  have m: "wl_stored io byte 188 w" "wl_ok 0x1EA000 0x400000 4096 188 w" "same_frame (shipped io (wl_state w) (device w)) w"
    using assms(2) by (auto simp: disk_mounted_def disk_ok_def)
  show ok: "wl_ok 0x1EA000 0x400000 4096 188 w'"
    using m(2,3) by (simp add: wl_ok_def wl_geometry_def Let_def same_frame_def w'_def)
  have len: "length (state_bytes s) = 24" by (simp add: state_bytes_def)
  have rd: "map (byte d) [unat a..<unat a + 24] = state_bytes s" if "a \<in> {0x2A7000, 0x2A8000 :: u32}" for a
    using assms(4) [OF that] len by (intro nth_equalityI) (simp_all add: slot_byte_def s_def)
  have sel: "fatfs_mount io True d = select_state io s w'"
    using mount_reads [OF assms(1), of d] rd [of "0x2A7000"] rd [of "0x2A8000"] by (simp add: w'_def s_def)
  have crc: "st_crc s = state_crc io s" "st_version s = 1"
    using m(1,3) by (simp_all add: wl_stored_def s_def state_crc_def same_frame_def)
  have "byte d (0x2A7000 + 24 + j) = 1" if "j < 189" for j
    using assms(4) [of "0x2A7000" "24 + j"] that by (simp add: slot_byte_def add.assoc)
  then have "wl_flash_recover_pos io w' = (0, if (189 :: nat) \<le> 188
      then w'\<lparr>wl_state := (wl_state w')\<lparr>pos := of_nat 189\<rparr>\<rparr> else w')"
    by (intro block_flash.recover_pos_ok [OF assms(1) ok]) (auto simp: w'_def)
  then show "fatfs_mount io True d = (0, w')"
    using sel valid_states_selected [OF crc] by (simp add: w'_def s_def)
qed

section \<open>Properties\<close>

text \<open>
  C4: a mounted disk keeps its content through any sequence of sector writes and restarts: every
  step succeeds, each write replaces its sectors and each restart finds the same content again,
  wherever the spare page stands.
\<close>

theorem disk_survives_restarts:
  assumes "nor_rom rom byte" and "list_rep (cb_next cbs) (raw_erase_cb_list cbs) xs"
    and "disk_mounted (raw_io rom cbs ofvr crc) byte w" and "list_all valid_event es"
  shows "\<exists>w'. disk_run (raw_io rom cbs ofvr crc) es w = (0, w') \<and> disk_mounted (raw_io rom cbs ofvr crc) byte w'
    \<and> disk_bytes byte w' = fold event_effect es (disk_bytes byte w)"
  using disk_run_ok [OF raw_block_flash [OF assms(1,2) order_refl] assms(3,4)] .

abbreviation sample_io :: "(nat \<Rightarrow> u8) wl_io" where
  "sample_io \<equiv> raw_io nor_device no_cbs 0 (\<lambda>_. 0)"

lemma blank_mount:
  obtains w where "fatfs_mount sample_io True (\<lambda>_. 0xFF) = (0, w)" "disk_mounted sample_io id w"
proof (rule first_mount_ok [OF raw_block_flash [OF nor_device_ok no_cbs_rep order_refl, of 0 "\<lambda>_. 0" "0x1EA000"], of "\<lambda>_. 0xFF"])
  have "map (\<lambda>_. 0xFF :: u8) [a..<a + 24] = replicate 24 0xFF" for a :: nat by (simp add: map_replicate_const)
  then show "st_crc (state_of_bytes (map (id (\<lambda>_. 0xFF)) [a..<a + 24])) \<noteq>
      state_crc sample_io (state_of_bytes (map (id (\<lambda>_. 0xFF)) [a..<a + 24]))" for a
    by (simp add: state_of_bytes_def state_crc_def raw_io_def le32_def le16_def window_def)
qed (use that in auto)

theorem disk_survives_restarts_witness:
  "\<exists>w w'. fatfs_mount sample_io True (\<lambda>_. 0xFF) = (0, w)
     \<and> disk_run sample_io [Write (replicate 4096 7) 3 1, Restart] w = (0, w')
     \<and> disk_bytes id w' = blit (disk_bytes id w) (3 * 4096) (replicate 4096 7)"
proof (rule blank_mount)
  fix w
  assume w: "fatfs_mount sample_io True (\<lambda>_. 0xFF) = (0, w)" "disk_mounted sample_io id w"
  show ?thesis
    using disk_survives_restarts [OF nor_device_ok no_cbs_rep w(2), of "[Write (replicate 4096 7) 3 1, Restart]"] w(1)
    by auto
qed

lemma shifted_content:
  assumes "wl_ok 0x1EA000 0x400000 4096 188 w" and "pos (wl_state w) = 188"
    and "wl_ok 0x1EA000 0x400000 4096 188 w'" and "pos (wl_state w') = 0"
    and "move_count (wl_state w') = move_count (wl_state w)"
    and "\<And>x. x < 0x2A7000 \<Longrightarrow> byte (device w') x =
       (if 0x2A6000 \<le> x then byte (device w) (0x1EA000 + (x - 0x2A6000)) else byte (device w) x)"
    and "v < 188 * 4096"
  shows "wl_content byte 0x1EA000 w' v = wl_content byte 0x1EA000 w ((4096 + v) mod (188 * 4096))"
proof -
  define mc where "mc = unat (move_count (wl_state w))"
  define p where "p = pg 188 0 mc (v div 4096)"
  define r where "r = v mod 4096"
  have mc: "mc < 188" using assms(1) by (simp add: wl_ok_def mc_def)
  have p: "p \<le> 188" unfolding p_def by (rule pg_le) simp
  have r: "r < 4096" by (simp add: r_def)
  note rot = rotated_page [of 4096 mc 188 v, OF _ mc assms(7)]
  have new: "unat (wl_flash_calc_addr w' (of_nat v)) = p * 4096 + r"
    using calc_addr_pg [OF assms(3,7)] assms(4,5) by (simp add: p_def r_def mc_def)
  have old: "unat (wl_flash_calc_addr w (of_nat ((4096 + v) mod (188 * 4096)))) = (if p = 188 then 0 else p) * 4096 + r"
    using calc_addr_pg [OF assms(1) rot(1)] rot(2,3) assms(2) by (simp add: p_def r_def mc_def)
  show ?thesis
  proof (cases "p = 188")
    case True
    then show ?thesis using new old r assms(6) [of "0x2A6000 + r"] by (simp add: wl_content_def)
  next
    case False
    then have "p * 4096 \<le> 187 * 4096" using p by linarith
    then have "0x1EA000 + (p * 4096 + r) < 0x2A6000" using r by linarith
    then show ?thesis using new old False assms(6) [of "0x1EA000 + (p * 4096 + r)"] by (simp add: wl_content_def)
  qed
qed

text \<open>
  C25: when the power is lost in the last step of a round of the spare page, after the marks were
  set and before the state is written anew, the restart succeeds and every sector of the disk
  holds the content of the sector behind it: the position is not recovered because no blank mark
  is left.
\<close>

theorem disk_power_loss_shifts:
  assumes "nor_rom rom byte" and "list_rep (cb_next cbs) (raw_erase_cb_list cbs) xs"
    and "disk_mounted (raw_io rom cbs ofvr crc) byte w" and "pos (wl_state w) = 188"
  shows "\<exists>w1 w'. pass_page (raw_io rom cbs ofvr crc) w = (0, w1)
    \<and> fatfs_mount (raw_io rom cbs ofvr crc) True (device w1) = (0, w')
    \<and> disk_bytes byte w' = rotate 4096 (disk_bytes byte w)"
proof -
  define io where "io = raw_io rom cbs ofvr crc"
  note bf = raw_block_flash [OF assms(1,2) order_refl, of ofvr crc "0x1EA000", folded io_def]
  note m = assms(3) [folded io_def]
  have ok: "wl_ok 0x1EA000 0x400000 4096 188 w" using m by (simp add: disk_mounted_def disk_ok_def)
  obtain w1 where w1: "pass_page io w = (0, w1)"
    "\<And>a j. a \<in> {0x2A7000, 0x2A8000 :: u32} \<Longrightarrow> j \<le> 24 + 188 \<Longrightarrow>
       byte (device w1) (unat a + j) = slot_byte ((wl_state w)\<lparr>pos := 0\<rparr>) 189 j"
    "\<And>x. x < 0x2A7000 \<Longrightarrow> byte (device w1) x =
       (if 0x2A6000 \<le> x then byte (device w) (0x1EA000 + (x - 0x2A6000)) else byte (device w) x)"
    by (rule marks_all_set [OF bf m assms(4)]) blast
  define w' where "w' = shipped io ((wl_state w)\<lparr>pos := 0\<rparr>) (device w1)"
  note sm = shifted_mount [OF bf m assms(4) w1(2), folded w'_def]
  have "disk_bytes byte w' = rotate 4096 (disk_bytes byte w)"
  proof (rule nth_equalityI)
    fix v
    assume "v < length (disk_bytes byte w')"
    then have v: "v < 188 * 4096" by simp
    have "wl_content byte 0x1EA000 w' v = wl_content byte 0x1EA000 w ((4096 + v) mod (188 * 4096))"
      using w1(3) by (intro shifted_content [OF ok assms(4) sm(2) _ _ _ v]) (auto simp: w'_def)
    then show "disk_bytes byte w' ! v = rotate 4096 (disk_bytes byte w) ! v"
      using v by (simp add: nth_rotate nth_disk_bytes)
  qed simp
  then show ?thesis using w1(1) sm(1) unfolding io_def by blast
qed

definition worn_state :: wl_state_t where
  "worn_state = \<lparr>pos = 188, max_pos = 189, move_count = 5, block_size = 0x1000, st_version = 1, st_crc = 0\<rparr>"

definition worn_flash :: "nat \<Rightarrow> u8" where
  "worn_flash x = (if 0x2A7000 \<le> x \<and> x < 0x2A8000 then slot_byte (worn_state\<lparr>pos := 0\<rparr>) 188 (x - 0x2A7000)
     else if 0x2A8000 \<le> x \<and> x < 0x2A9000 then slot_byte (worn_state\<lparr>pos := 0\<rparr>) 188 (x - 0x2A8000) else 0xFF)"

lemma worn_mounted: "disk_mounted sample_io id (shipped sample_io worn_state worn_flash)"
  by (simp add: disk_mounted_def disk_ok_def wl_ok_def wl_geometry_def Let_def wl_stored_def shipped_def shipped_cfg_def
      worn_flash_def worn_state_def state_crc_def raw_io_def)

theorem disk_power_loss_shifts_witness:
  "\<exists>w1 w'. pass_page sample_io (shipped sample_io worn_state worn_flash) = (0, w1)
    \<and> fatfs_mount sample_io True (device w1) = (0, w')
    \<and> disk_bytes id w' = rotate 4096 (disk_bytes id (shipped sample_io worn_state worn_flash))"
  by (rule disk_power_loss_shifts [OF nor_device_ok no_cbs_rep worn_mounted]) (simp add: worn_state_def)

end
