(* ===== verification/Wifi_Eloop.thy ===== *)
theory Wifi_Eloop
  imports Prelude "HOL-Library.Multiset"
begin

text \<open>
  The event loop of the Wi-Fi manager, \<^verbatim>\<open>MSDK/wifi_manager/wifi_eloop.c\<close>: registered events, the
  message queue of the task, timeouts in order of their time. Contexts (\<^verbatim>\<open>void *\<close>) are numbers,
  \<open>ELOOP_ALL_CTX\<close> is the pointer \<open>-1\<close>; handlers are values of an arbitrary type. The timeouts
  hang on a doubly linked list of the theory \<open>Dlinked\<close>; here they are the list it stands for.
  Times are 32-bit milliseconds that wrap; the signed difference of \<^verbatim>\<open>SYS_TIME_AFTER_EQ\<close> wraps
  too, as the compiled code does.
\<close>

section \<open>Model\<close>

type_synonym ctx = u32

definition ELOOP_ALL_CTX :: ctx where "ELOOP_ALL_CTX = - 1"

definition ELOOP_EVENT_WAKEUP :: u16 where "ELOOP_EVENT_WAKEUP = 1"
definition ELOOP_EVENT_TERMINATE :: u16 where "ELOOP_EVENT_TERMINATE = 2"
definition ELOOP_EVENT_MAX :: u16 where "ELOOP_EVENT_MAX = 4"

definition ELOOP_EVENT_ID :: "u8 \<Rightarrow> u16 \<Rightarrow> u16" where
  "ELOOP_EVENT_ID vif_idx event = push_bit 12 (ucast vif_idx) + event"

definition ELOOP_EVENT_GET_VIF :: "u16 \<Rightarrow> u8" where
  "ELOOP_EVENT_GET_VIF event_id = ucast (drop_bit 12 event_id AND 0xF)"

definition ELOOP_EVENT_GET_EV :: "u16 \<Rightarrow> u16" where
  "ELOOP_EVENT_GET_EV event_id = event_id AND 0xFFF"

record 'p eloop_message_t =
  event_id :: u16
  msg_reason :: u16
  msg_param :: "'p option"

record 'h eloop_event =
  ev_data :: ctx
  ev_user :: ctx
  ev_handler :: 'h
  ev_id :: u16

record 'h eloop_timeout =
  to_time :: u32
  to_data :: ctx
  to_user :: ctx
  to_handler :: 'h

text \<open>The queue of the task belongs to the operating system; it holds \<open>MGMT_TASK_QUEUE_SIZE\<close> messages.\<close>

record ('h, 'p) eloop_data =
  events :: "'h eloop_event list"
  timeouts :: "'h eloop_timeout list"
  terminate :: bool
  task_queue :: "'p eloop_message_t list"

definition MGMT_TASK_QUEUE_SIZE :: nat where "MGMT_TASK_QUEUE_SIZE = 24"

definition wifi_eloop_init :: "'p eloop_message_t list \<Rightarrow> ('h, 'p) eloop_data" where
  "wifi_eloop_init queue = \<lparr>events = [], timeouts = [], terminate = False, task_queue = queue\<rparr>"

definition eloop_event_register ::
    "bool \<Rightarrow> u16 \<Rightarrow> 'h \<Rightarrow> ctx \<Rightarrow> ctx \<Rightarrow> ('h, 'p) eloop_data \<Rightarrow> int \<times> ('h, 'p) eloop_data" where
  "eloop_event_register mem eid h ed ud e =
     (if terminate e \<or> \<not> mem then (- 1, e)
      else (0, e\<lparr>events := events e @ [\<lparr>ev_data = ed, ev_user = ud, ev_handler = h, ev_id = eid\<rparr>]\<rparr>))"

text \<open>Only the first entry of the event is removed.\<close>

fun remove_first :: "('a \<Rightarrow> bool) \<Rightarrow> 'a list \<Rightarrow> 'a list" where
  "remove_first P [] = []"
| "remove_first P (x # xs) = (if P x then xs else x # remove_first P xs)"

definition eloop_event_unregister :: "u16 \<Rightarrow> ('h, 'p) eloop_data \<Rightarrow> ('h, 'p) eloop_data" where
  "eloop_event_unregister eid e =
     (if terminate e then e else e\<lparr>events := remove_first (\<lambda>v. ev_id v = eid) (events e)\<rparr>)"

definition sys_task_post :: "'p eloop_message_t \<Rightarrow> ('h, 'p) eloop_data \<Rightarrow> int \<times> ('h, 'p) eloop_data" where
  "sys_task_post m e =
     (if length (task_queue e) < MGMT_TASK_QUEUE_SIZE then (0, e\<lparr>task_queue := task_queue e @ [m]\<rparr>) else (- 1, e))"

definition eloop_message_send ::
    "u8 \<Rightarrow> u16 \<Rightarrow> u16 \<Rightarrow> 'p option \<Rightarrow> ('h, 'p) eloop_data \<Rightarrow> int \<times> ('h, 'p) eloop_data" where
  "eloop_message_send vif_idx event rsn p e =
     (if terminate e then (- 1, e)
      else sys_task_post \<lparr>event_id = ELOOP_EVENT_ID vif_idx event, msg_reason = rsn, msg_param = p\<rparr> e)"

definition eloop_event_send :: "u8 \<Rightarrow> u16 \<Rightarrow> ('h, 'p) eloop_data \<Rightarrow> int \<times> ('h, 'p) eloop_data" where
  "eloop_event_send vif_idx event e =
     (if terminate e then (- 1, e)
      else sys_task_post \<lparr>event_id = ELOOP_EVENT_ID vif_idx event, msg_reason = 0, msg_param = None\<rparr> e)"

definition earlier :: "'h eloop_timeout \<Rightarrow> 'h eloop_timeout \<Rightarrow> bool" where
  "earlier s t \<longleftrightarrow> to_time s < to_time t"

definition eloop_timeout_register ::
    "bool \<Rightarrow> u32 \<Rightarrow> u32 \<Rightarrow> 'h \<Rightarrow> ctx \<Rightarrow> ctx \<Rightarrow> ('h, 'p) eloop_data \<Rightarrow> int \<times> ('h, 'p) eloop_data" where
  "eloop_timeout_register mem now msecs h ed ud e =
     (if terminate e \<or> \<not> mem then (- 1, e)
      else (0, e\<lparr>timeouts := insert_before earlier
             \<lparr>to_time = now + msecs, to_data = ed, to_user = ud, to_handler = h\<rparr> (timeouts e)\<rparr>))"

definition cancels :: "'h \<Rightarrow> ctx \<Rightarrow> ctx \<Rightarrow> 'h eloop_timeout \<Rightarrow> bool" where
  "cancels h ed ud t \<longleftrightarrow> to_handler t = h \<and> (to_data t = ed \<or> ed = ELOOP_ALL_CTX) \<and> (to_user t = ud \<or> ud = ELOOP_ALL_CTX)"

definition eloop_timeout_cancel :: "'h \<Rightarrow> ctx \<Rightarrow> ctx \<Rightarrow> ('h, 'p) eloop_data \<Rightarrow> int \<times> ('h, 'p) eloop_data" where
  "eloop_timeout_cancel h ed ud e =
     (if terminate e then (- 1, e)
      else (int (length (filter (cancels h ed ud) (timeouts e))),
            e\<lparr>timeouts := filter (\<lambda>t. \<not> cancels h ed ud t) (timeouts e)\<rparr>))"

definition eloop_timeout_all_cancel :: "('h, 'p) eloop_data \<Rightarrow> ('h, 'p) eloop_data" where
  "eloop_timeout_all_cancel e = e\<lparr>timeouts := []\<rparr>"

definition eloop_timeout_is_registered :: "'h \<Rightarrow> ctx \<Rightarrow> ctx \<Rightarrow> ('h, 'p) eloop_data \<Rightarrow> bool" where
  "eloop_timeout_is_registered h ed ud e \<longleftrightarrow>
     list_ex (\<lambda>t. to_handler t = h \<and> to_data t = ed \<and> to_user t = ud) (timeouts e)"

definition SYS_TIME_AFTER_EQ :: "u32 \<Rightarrow> u32 \<Rightarrow> bool" where
  "SYS_TIME_AFTER_EQ a b \<longleftrightarrow> 0 \<le> sint (a - b)"

definition SYS_TIME_BEFORE :: "u32 \<Rightarrow> u32 \<Rightarrow> bool" where
  "SYS_TIME_BEFORE a b \<longleftrightarrow> sint (a - b) < 0"

text \<open>The first timeout is taken off the list when it is due; its handler is called afterwards.\<close>

definition eloop_timeout_handle :: "u32 \<Rightarrow> ('h, 'p) eloop_data \<Rightarrow> 'h eloop_timeout option \<times> ('h, 'p) eloop_data" where
  "eloop_timeout_handle now e = (case timeouts e of
     [] \<Rightarrow> (None, e)
   | t # ts \<Rightarrow> if SYS_TIME_AFTER_EQ now (to_time t) then (Some t, e\<lparr>timeouts := ts\<rparr>) else (None, e))"

text \<open>
  What the loop does before it handles a timeout: it yields when one is due, and otherwise waits
  for a message, for ever when there is no timeout.
\<close>

datatype loop_wait = Yield | Wait_for u32 | Wait_forever

definition loop_wait_of :: "u32 \<Rightarrow> ('h, 'p) eloop_data \<Rightarrow> loop_wait" where
  "loop_wait_of now e = (case timeouts e of
     [] \<Rightarrow> Wait_forever
   | t # ts \<Rightarrow>
       let remain = (if SYS_TIME_BEFORE now (to_time t) then to_time t - now else 0)
       in if remain = 0 then Yield else Wait_for remain)"

definition wifi_eloop_terminate :: "('h, 'p) eloop_data \<Rightarrow> ('h, 'p) eloop_data" where
  "wifi_eloop_terminate e = snd (eloop_event_send 0 ELOOP_EVENT_TERMINATE e)"

definition wifi_eloop_destroy :: "('h, 'p) eloop_data \<Rightarrow> ('h, 'p) eloop_data" where
  "wifi_eloop_destroy e = e\<lparr>task_queue := [], timeouts := [], events := []\<rparr>"

section \<open>Event numbers\<close>

lemma event_id_roundtrip:
  assumes "vif_idx < 16" and "event < 0x1000"
  shows "ELOOP_EVENT_GET_VIF (ELOOP_EVENT_ID vif_idx event) = vif_idx"
    and "ELOOP_EVENT_GET_EV (ELOOP_EVENT_ID vif_idx event) = event"
proof -
  have v: "unat vif_idx < 16" and e: "unat event < 4096" using assms by (simp_all add: word_less_nat_alt)
  have "ELOOP_EVENT_ID vif_idx event = ucast vif_idx * 0x1000 + event"
    by (simp add: ELOOP_EVENT_ID_def push_bit_eq_mult)
  then have id: "unat (ELOOP_EVENT_ID vif_idx event) = unat vif_idx * 4096 + unat event"
    using v e by (simp add: unat_word_ariths)
  have "(0xF :: u16) = 2 ^ 4 - 1" "(0xFFF :: u16) = 2 ^ 12 - 1" by simp_all
  then have m: "x AND 0xF = take_bit 4 x" "x AND 0xFFF = take_bit 12 x" for x :: u16
    by (simp_all add: take_bit_eq_mask mask_eq_exp_minus_1)
  have "unat (ELOOP_EVENT_GET_VIF (ELOOP_EVENT_ID vif_idx event)) = unat vif_idx"
    using v e id by (simp add: ELOOP_EVENT_GET_VIF_def m unsigned_ucast_eq unsigned_take_bit_eq unsigned_drop_bit_eq
        take_bit_nat_def drop_bit_nat_def)
  then show "ELOOP_EVENT_GET_VIF (ELOOP_EVENT_ID vif_idx event) = vif_idx" by (simp add: word_unat_eq_iff)
  have "unat (ELOOP_EVENT_GET_EV (ELOOP_EVENT_ID vif_idx event)) = unat event"
    using e id by (simp add: ELOOP_EVENT_GET_EV_def m unsigned_take_bit_eq take_bit_nat_def)
  then show "ELOOP_EVENT_GET_EV (ELOOP_EVENT_ID vif_idx event) = event" by (simp add: word_unat_eq_iff)
qed

section \<open>The order of the timeouts\<close>

interpretation by_time: ordered_insert earlier
  by unfold_locales (auto simp: earlier_def)

definition sorted_timeouts :: "('h, 'p) eloop_data \<Rightarrow> bool" where
  "sorted_timeouts e \<longleftrightarrow> sorted_wrt (\<lambda>s t. to_time s \<le> to_time t) (timeouts e)"

lemma sorted_timeouts_ordered: "sorted_timeouts e \<longleftrightarrow> by_time.ordered (timeouts e)"
  by (simp add: sorted_timeouts_def by_time.ordered_def earlier_def not_less)

lemma register_sorted:
  "sorted_timeouts e \<Longrightarrow> sorted_timeouts (snd (eloop_timeout_register mem now msecs h ed ud e))"
  by (simp add: sorted_timeouts_ordered eloop_timeout_register_def by_time.ordered_insert_before)

lemma cancel_sorted: "sorted_timeouts e \<Longrightarrow> sorted_timeouts (snd (eloop_timeout_cancel h ed ud e))"
  by (simp add: sorted_timeouts_ordered eloop_timeout_cancel_def by_time.ordered_filter)

lemma handle_sorted: "sorted_timeouts e \<Longrightarrow> sorted_timeouts (snd (eloop_timeout_handle now e))"
  by (cases "timeouts e") (auto simp: sorted_timeouts_def eloop_timeout_handle_def)

lemma send_timeouts [simp]:
  "timeouts (snd (eloop_event_send v ev e)) = timeouts e" "timeouts (snd (eloop_message_send v ev r p e)) = timeouts e"
  "terminate (snd (eloop_event_send v ev e)) = terminate e" "terminate (snd (eloop_message_send v ev r p e)) = terminate e"
  by (simp_all add: eloop_event_send_def eloop_message_send_def sys_task_post_def)

text \<open>Times that do not wrap around and lie within half of the range from now compare as numbers.\<close>

definition near :: "u32 \<Rightarrow> u32 \<Rightarrow> bool" where
  "near now t \<longleftrightarrow> unat t < unat now + 0x80000000 \<and> unat now < unat t + 0x80000000"

lemma top_bit: "bit (w :: u32) 31 \<longleftrightarrow> \<not> unat w < 0x80000000"
proof -
  have "bit w 31 = bit (unat w) 31" by (simp add: bit_unsigned_iff)
  also have "\<dots> = odd (unat w div 2 ^ 31)" by (rule bit_iff_odd)
  also have "unat w div 2 ^ 31 = (if unat w < 2147483648 then 0 else 1)"
  proof -
    have "unat w - 2147483648 < 2147483648" using unat_u32_lt [of w] by linarith
    then show ?thesis by (simp add: le_div_geq)
  qed
  finally show ?thesis by simp
qed

lemma sint_nonneg: "0 \<le> sint (w :: u32) \<longleftrightarrow> unat w < 0x80000000"
  using bit_last_iff [of w] top_bit [of w] by (auto simp: not_less)

lemma after_eq_unat: "SYS_TIME_AFTER_EQ now t \<longleftrightarrow> unat (now - t) < 0x80000000"
  by (simp add: SYS_TIME_AFTER_EQ_def sint_nonneg)

lemma before_iff: "SYS_TIME_BEFORE now t \<longleftrightarrow> \<not> SYS_TIME_AFTER_EQ now t"
  by (auto simp: SYS_TIME_BEFORE_def SYS_TIME_AFTER_EQ_def)

lemma after_eq_near:
  assumes "near now t"
  shows "SYS_TIME_AFTER_EQ now t \<longleftrightarrow> t \<le> now"
proof (cases "t \<le> now")
  case True
  then have "unat (now - t) = unat now - unat t" by (simp add: unat_sub)
  then show ?thesis using True assms by (auto simp: after_eq_unat near_def)
next
  case False
  then have lt: "unat now < unat t" by (simp add: word_le_nat_alt)
  then have "unat (now - t) = unat now + 0x100000000 - unat t"
    by (simp add: unat_sub_if' word_le_nat_alt)
  then show ?thesis using False lt assms by (auto simp: after_eq_unat near_def)
qed

section \<open>Properties\<close>



text \<open>
  C23: the order of the list is that of the unwrapped numbers, but whether a timeout is due is a
  question of the wrapped difference: a timeout registered shortly before the clock wraps, for a
  time after it, is put in front of the ones before it, which are then held back until it is due,
  however long they are overdue.
\<close>

theorem eloop_wraparound_holds_back:
  assumes "0x100000000 \<le> unat now + unat msecs" and "unat msecs < 0x80000000"
    and "timeouts e = [t]" and "\<not> terminate e" and "now \<le> to_time t" and "to_time t \<le> later"
    and "eloop_timeout_register True now msecs h ed ud e = (0, e1)"
  shows "SYS_TIME_AFTER_EQ later (to_time t) \<and> fst (eloop_timeout_handle later e1) = None
    \<and> (\<exists>r. loop_wait_of later e1 = Wait_for r \<and> unat r = unat now + unat msecs - unat later)"
proof -
  have now: "unat (to_time t) \<le> unat later" "unat now \<le> unat (to_time t)"
    using assms(5,6) by (auto simp: word_le_nat_alt)
  define w where "w = now + msecs"
  have b: "unat now < 0x100000000" "unat later < 0x100000000" "unat (to_time t) < 0x100000000" by simp_all
  have nt: "unat w = unat now + unat msecs - 0x100000000"
    using assms(1) by (simp add: w_def unat_plus_if')
  then have "unat w < unat now" using assms(1,2) by linarith
  then have lt: "w < to_time t" "w < later" using now by (simp_all add: word_less_nat_alt)
  have e1: "timeouts e1 = [\<lparr>to_time = w, to_data = ed, to_user = ud, to_handler = h\<rparr>, t]"
    using assms(3,4,7) lt(1) by (auto simp: eloop_timeout_register_def earlier_def w_def)
  have "\<not> later \<le> w" using lt(2) by simp
  then have diff: "unat (later - w) = unat later - unat w" "unat (w - later) = unat w + 0x100000000 - unat later"
    using lt(2) by (simp_all add: unat_sub unat_sub_if' word_le_nat_alt)
  have nd: "\<not> SYS_TIME_AFTER_EQ later w"
    using diff(1) nt assms(1,2) now b unfolding after_eq_unat by linarith
  have "unat later - unat (to_time t) < 0x80000000" using now assms(1,2) b(2) by linarith
  then have "SYS_TIME_AFTER_EQ later (to_time t)" using assms(6) by (simp add: after_eq_unat unat_sub)
  moreover have "w - later \<noteq> 0" using lt(2) by auto
  ultimately show ?thesis
    using nd e1 diff(2) nt assms(1) by (simp add: eloop_timeout_handle_def loop_wait_of_def before_iff Let_def)
qed

theorem eloop_wraparound_holds_back_witness:
  "\<exists>e1. eloop_timeout_register True 0xFFFFFF00 60000 ''late'' 0 0
      (snd (eloop_timeout_register True 0xFFFFFF00 10 ''soon'' 0 0 (wifi_eloop_init ([] :: unit eloop_message_t list)))) = (0, e1)
    \<and> fst (eloop_timeout_handle 0xFFFFFFF0 e1) = None"
proof -
  define e where "e = snd (eloop_timeout_register True 0xFFFFFF00 10 ''soon'' 0 0
      (wifi_eloop_init ([] :: unit eloop_message_t list)))"
  obtain e1 where e1: "eloop_timeout_register True 0xFFFFFF00 60000 ''late'' 0 0 e = (0, e1)"
    by (simp add: e_def eloop_timeout_register_def wifi_eloop_init_def)
  have "timeouts e = [\<lparr>to_time = 0xFFFFFF0A, to_data = 0, to_user = 0, to_handler = ''soon''\<rparr>]" "\<not> terminate e"
    by (simp_all add: e_def eloop_timeout_register_def wifi_eloop_init_def)
  then show ?thesis
    using eloop_wraparound_holds_back [of "0xFFFFFF00" 60000 e _ "0xFFFFFFF0", OF _ _ _ _ _ _ e1] e1
    unfolding e_def [symmetric] by auto
qed

end
