(* ===== verification/Wifi_Manager.thy ===== *)
theory Wifi_Manager
  imports Wifi_Eloop
begin

text \<open>
  The connection manager, \<^verbatim>\<open>MSDK/wifi_manager/wifi_management.c\<close>, in its default build: two
  interfaces, soft access point and concurrent mode, without WPS, EAP-TLS and IPv6. The state
  machines run in the manager task, driven by the event loop of the theory \<open>Wifi_Eloop\<close>; the
  functions for other tasks put messages into the queue of the task and wait for an answer in
  \<^verbatim>\<open>mgmt_wait_queue\<close>. The layers below (\<^verbatim>\<open>wifi_netlink.c\<close>, \<^verbatim>\<open>wifi_wpa.c\<close>, \<^verbatim>\<open>wifi_net_ip.c\<close> and the MAC
  library) appear as a log of the calls made; what they return is the record \<open>env\<close>.
\<close>

section \<open>State\<close>

datatype wifi_vif_type = WVIF_UNKNOWN | WVIF_STA | WVIF_AP | WVIF_MONITOR

text \<open>
  The states of \<^verbatim>\<open>MAINTAIN_CONNECTION\<close>, in order. The same member of a union holds the state of
  the access point and of the monitor, whose states are numbered 0 and 1 as well.
\<close>

datatype conn_state = IDLE | WPS | SCAN | CONNECT | HANDSHAKE | DHCP | CONNECTED

abbreviation SOFTAP_INIT :: conn_state where "SOFTAP_INIT \<equiv> IDLE"
abbreviation SOFTAP_STARTED :: conn_state where "SOFTAP_STARTED \<equiv> WPS"
abbreviation MONITOR_INIT :: conn_state where "MONITOR_INIT \<equiv> IDLE"
abbreviation MONITOR_STARTED :: conn_state where "MONITOR_STARTED \<equiv> WPS"

datatype sta_state_t = STA_IDLE | STA_WPS | STA_SCAN | STA_CONNECT | STA_HANDSHAKE | STA_IP_GETTING | STA_CONNECTED

datatype ap_state_t = AP_STATE_INIT | AP_STATE_STARTED

datatype mgmt_event = EV_START | EV_INIT | EV_SWITCH_MODE_CMD | EV_RX_MGMT | EV_RX_EAPOL | EV_SCAN_CMD | EV_CONNECT_CMD
  | EV_DISCONNECT_CMD | EV_AUTO_CONNECT_CMD | EV_WPS_CMD | EV_SCAN_DONE | EV_SCAN_FAIL | EV_SCAN_RESULT
  | EV_EXTERNAL_AUTH_REQUIRED | EV_ASSOC_SUCCESS | EV_DHCP_START | EV_DHCP_SUCCESS | EV_DHCP_FAIL
  | EV_CONNECT_SUCCESS | EV_CONNECT_FAIL | EV_DISCONNECT | EV_ROAMING_START | EV_RX_UNPROT_DEAUTH | EV_RX_ACTION
  | EV_WPS_SUCCESS | EV_WPS_FAIL | EV_WPS_CRED | EV_START_AP_CMD | EV_STOP_AP_CMD | EV_AP_SWITCH_CHNL_CMD
  | EV_TX_MGMT_DONE | EV_CLIENT_ADDED | EV_CLIENT_REMOVED | EV_MONITOR_START_CMD | EV_EAP_SUCCESS

text \<open>The enumeration starts at \<open>ELOOP_EVENT_MAX\<close>.\<close>

definition all_events :: "mgmt_event list" where
  "all_events = [EV_START, EV_INIT, EV_SWITCH_MODE_CMD, EV_RX_MGMT, EV_RX_EAPOL, EV_SCAN_CMD, EV_CONNECT_CMD,
    EV_DISCONNECT_CMD, EV_AUTO_CONNECT_CMD, EV_WPS_CMD, EV_SCAN_DONE, EV_SCAN_FAIL, EV_SCAN_RESULT,
    EV_EXTERNAL_AUTH_REQUIRED, EV_ASSOC_SUCCESS, EV_DHCP_START, EV_DHCP_SUCCESS, EV_DHCP_FAIL,
    EV_CONNECT_SUCCESS, EV_CONNECT_FAIL, EV_DISCONNECT, EV_ROAMING_START, EV_RX_UNPROT_DEAUTH, EV_RX_ACTION,
    EV_WPS_SUCCESS, EV_WPS_FAIL, EV_WPS_CRED, EV_START_AP_CMD, EV_STOP_AP_CMD, EV_AP_SWITCH_CHNL_CMD,
    EV_TX_MGMT_DONE, EV_CLIENT_ADDED, EV_CLIENT_REMOVED, EV_MONITOR_START_CMD, EV_EAP_SUCCESS]"

fun index_of :: "'a \<Rightarrow> 'a list \<Rightarrow> nat" where
  "index_of x [] = 0"
| "index_of x (y # ys) = (if x = y then 0 else index_of x ys + 1)"

definition event_num :: "mgmt_event \<Rightarrow> u16" where
  "event_num ev = 4 + of_nat (index_of ev all_events)"

definition num_event :: "u16 \<Rightarrow> mgmt_event option" where
  "num_event n = (if 4 \<le> n \<and> unat (n - 4) < length all_events then Some (all_events ! unat (n - 4)) else None)"

text \<open>Reasons of a failed or lost connection.\<close>

definition WIFI_MGMT_CONN_NO_AP :: u16 where "WIFI_MGMT_CONN_NO_AP = 2"
definition WIFI_MGMT_CONN_DHCP_FAIL :: u16 where "WIFI_MGMT_CONN_DHCP_FAIL = 6"
definition WIFI_MGMT_DISCON_RECV_DEAUTH :: u16 where "WIFI_MGMT_DISCON_RECV_DEAUTH = 11"
definition WIFI_MGMT_DISCON_NO_BEACON :: u16 where "WIFI_MGMT_DISCON_NO_BEACON = 12"
definition WIFI_MGMT_DISCON_UNSPECIFIED :: u16 where "WIFI_MGMT_DISCON_UNSPECIFIED = 15"
definition WIFI_MGMT_DISCON_SA_QUERY_FAIL :: u16 where "WIFI_MGMT_DISCON_SA_QUERY_FAIL = 16"

definition WIFI_MGMT_SCAN_SUCCESS :: u16 where "WIFI_MGMT_SCAN_SUCCESS = 0"
definition WIFI_MGMT_SCAN_START_FAIL :: u16 where "WIFI_MGMT_SCAN_START_FAIL = 1"
definition WIFI_MGMT_SCAN_FAIL :: u16 where "WIFI_MGMT_SCAN_FAIL = 2"

definition MAC_ST_SUCCESSFUL :: u16 where "MAC_ST_SUCCESSFUL = 0"
definition MAC_ST_FAILURE :: u16 where "MAC_ST_FAILURE = 1"

record sta_cfg =
  ssid :: bytes
  channel :: u8
  bssid :: bytes
  conn_with_bssid :: bool
  passphrase :: bytes
  conn_blocked :: bool
  flush_cache_req :: bool

record ap_cfg =
  ap_ssid :: bytes
  ap_channel :: u8
  ap_hidden :: bool
  ap_passphrase :: bytes
  ap_akm :: u32
  ap_mfp :: u8

datatype mgmt_param = P_STA_CFG sta_cfg | P_SSID bytes | P_AP_CFG ap_cfg | P_MONITOR u8 | P_FRAME bytes

datatype mgmt_handler = H_DHCP_POLLING | H_LINK_STATUS_POLLING | H_CONNECT_RETRY

record sm_data =
  vif_idx :: nat
  init :: bool
  sm_state :: conn_state
  sm_event :: u16
  sm_reason :: u16
  sm_param :: "mgmt_param option"
  dhcp_polling_count :: u8
  delayed_connect_retry :: bool
  retry_count :: u32
  retry_limit :: u32
  retry_interval :: u32
  preroam_enable :: bool
  preroam_start :: bool
  polling_scan :: bool
  polling_scan_count :: u16
  preroam_bssid_bk :: bytes
  scan_blocked :: bool

record wvif =
  wvif_type :: wifi_vif_type
  sta_cfg_of :: sta_cfg
  sta_state :: sta_state_t
  last_reason :: u32
  history_ip :: u32
  ap_state :: ap_state_t
  ap_cfg_of :: ap_cfg
  monitor_channel :: u8

datatype wait_evt = WAIT_SCAN_DONE | WAIT_CONN_DONE | WAIT_DISCONN_DONE | WAIT_AP_START_DONE | WAIT_MONITOR_START_DONE

datatype sta_sm = STA_SM_SAE | STA_SM_EAPOL

datatype netcall = NET_SCAN nat u8 | NET_SCAN_SSID nat bytes u8 | NET_CONNECT_REQ nat sta_cfg | NET_DISCONNECT_REQ nat
  | NET_ASSOC_DONE nat "mgmt_param option" | NET_DHCP_DONE nat | NET_AP_STOP nat | NET_AP_START nat ap_cfg
  | NET_MONITOR_CFG nat u8 | NET_AP_STORE sta_cfg | NET_PMKSA_FLUSH nat | NET_PS_MODE | NET_ENABLE_PS
  | WPA_STA_STEP nat mgmt_event sta_sm | WPA_AP_STEP nat mgmt_event | WPAS_UNPROT nat | WPAS_ACTION nat
  | IP_NONE nat | IP_DHCP_CLIENT nat | IF_DOWN nat | IF_DEFAULT nat | VIF_RESET nat wifi_vif_type | VIF_TYPE_SET nat wifi_vif_type

record mgr =
  sm :: "nat \<Rightarrow> sm_data"
  vif :: "nat \<Rightarrow> wvif"
  eloop :: "(mgmt_handler, mgmt_param) eloop_data"
  waitq :: "(nat \<times> wait_evt \<times> u16) list"
  concurrent :: bool
  calls :: "netcall list"

text \<open>
  What the layers below answer during one step. \<^verbatim>\<open>wifi_netlink_connect_req\<close> completes the
  configuration of the station from the access point it found and may set \<open>last_reason\<close>;
  \<^verbatim>\<open>wifi_netlink_joined_ap_load\<close> takes the configuration from the store. Neither writes
  \<open>conn_blocked\<close>. Signal strengths are of type \<^verbatim>\<open>int8_t\<close>.
\<close>

record env =
  now :: u32
  mem :: bool
  scan_fails :: bool
  connect_ret :: u16
  connect_cfg :: "sta_cfg \<Rightarrow> sta_cfg"
  connect_last :: "u32 option"
  loaded :: "((sta_cfg \<Rightarrow> sta_cfg) \<times> u32) option"
  is_static_ip :: bool
  dhcp_obtained :: bool
  if_ip :: u32
  auto_conn :: bool
  candidate :: "(bytes \<times> int \<times> u8) option"
  sta_rssi :: int
  rssi_thresh :: int
  softap_chan :: u8
  mac_type_ok :: bool
  ap_start_ok :: bool
  monitor_ret :: int
  type_set_ok :: bool

definition CFG_VIF_NUM :: nat where "CFG_VIF_NUM = 2"
definition WIFI_VIF_INDEX_DEFAULT :: nat where "WIFI_VIF_INDEX_DEFAULT = 0"
definition WIFI_VIF_INDEX_STA_MODE :: nat where "WIFI_VIF_INDEX_STA_MODE = 0"
definition WIFI_VIF_INDEX_SOFTAP_MODE :: nat where "WIFI_VIF_INDEX_SOFTAP_MODE = 1"
definition MGMT_WAIT_QUEUE_MSG_SIZE :: nat where "MGMT_WAIT_QUEUE_MSG_SIZE = 5"

definition upd_sm :: "nat \<Rightarrow> (sm_data \<Rightarrow> sm_data) \<Rightarrow> mgr \<Rightarrow> mgr" where
  "upd_sm i f m = m\<lparr>sm := (sm m)(i := f (sm m i))\<rparr>"

definition upd_vif :: "nat \<Rightarrow> (wvif \<Rightarrow> wvif) \<Rightarrow> mgr \<Rightarrow> mgr" where
  "upd_vif i f m = m\<lparr>vif := (vif m)(i := f (vif m i))\<rparr>"

definition upd_loop :: "((mgmt_handler, mgmt_param) eloop_data \<Rightarrow> int \<times> (mgmt_handler, mgmt_param) eloop_data) \<Rightarrow> mgr \<Rightarrow> mgr" where
  "upd_loop f m = m\<lparr>eloop := snd (f (eloop m))\<rparr>"

definition log_call :: "netcall \<Rightarrow> mgr \<Rightarrow> mgr" where
  "log_call c m = m\<lparr>calls := calls m @ [c]\<rparr>"

text \<open>The interface the data of a state machine names.\<close>

definition vx :: "nat \<Rightarrow> mgr \<Rightarrow> nat" where
  "vx i m = vif_idx (sm m i)"

definition cfg_upd :: "(sta_cfg \<Rightarrow> sta_cfg) \<Rightarrow> wvif \<Rightarrow> wvif" where
  "cfg_upd f w = w\<lparr>sta_cfg_of := f (sta_cfg_of w)\<rparr>"

text \<open>The context of a timeout is the address of the data of the interface.\<close>

definition sm_ctx :: "nat \<Rightarrow> ctx" where
  "sm_ctx i = of_nat i + 1"

definition cancel :: "mgmt_handler \<Rightarrow> mgr \<Rightarrow> mgr" where
  "cancel h = upd_loop (eloop_timeout_cancel h ELOOP_ALL_CTX ELOOP_ALL_CTX)"

definition register :: "env \<Rightarrow> u32 \<Rightarrow> mgmt_handler \<Rightarrow> nat \<Rightarrow> mgr \<Rightarrow> mgr" where
  "register env msecs h i = upd_loop (eloop_timeout_register (mem env) (now env) msecs h (sm_ctx i) 0)"

definition send_event :: "nat \<Rightarrow> mgmt_event \<Rightarrow> mgr \<Rightarrow> mgr" where
  "send_event i ev = upd_loop (eloop_event_send (of_nat i) (event_num ev))"

definition send_message :: "nat \<Rightarrow> mgmt_event \<Rightarrow> u16 \<Rightarrow> mgmt_param option \<Rightarrow> mgr \<Rightarrow> mgr" where
  "send_message i ev r p = upd_loop (eloop_message_send (of_nat i) (event_num ev) r p)"

section \<open>Answers to waiting tasks\<close>

definition post_wait :: "nat \<Rightarrow> wait_evt \<Rightarrow> u16 \<Rightarrow> mgr \<Rightarrow> mgr" where
  "post_wait i ev r m =
     (if length (waitq m) < MGMT_WAIT_QUEUE_MSG_SIZE then m\<lparr>waitq := waitq m @ [(i, ev, r)]\<rparr> else m)"

text \<open>The first entry for the caller; the entries before it are lost. \<open>0xFFFF\<close> is the time-out.\<close>

fun mgmt_wait_queue_fetch :: "nat \<Rightarrow> wait_evt \<Rightarrow> (nat \<times> wait_evt \<times> u16) list \<Rightarrow> u16 \<times> (nat \<times> wait_evt \<times> u16) list" where
  "mgmt_wait_queue_fetch i ev [] = (0xFFFF, [])"
| "mgmt_wait_queue_fetch i ev ((v, e, r) # q) =
     (if v = i \<and> e = ev then (r, q) else mgmt_wait_queue_fetch i ev q)"

definition mgmt_post_conn_done :: "nat \<Rightarrow> u16 \<Rightarrow> mgr \<Rightarrow> mgr" where
  "mgmt_post_conn_done i r m =
     (if \<not> conn_blocked (sta_cfg_of (vif m i)) then m
      else post_wait i WAIT_CONN_DONE r (upd_vif i (cfg_upd (\<lambda>c. c\<lparr>conn_blocked := False\<rparr>)) m))"

definition mgmt_post_disconn_done :: "nat \<Rightarrow> mgr \<Rightarrow> mgr" where
  "mgmt_post_disconn_done i = post_wait i WAIT_DISCONN_DONE 0"

definition mgmt_post_scan_done :: "nat \<Rightarrow> u16 \<Rightarrow> mgr \<Rightarrow> mgr" where
  "mgmt_post_scan_done i r m =
     (if \<not> scan_blocked (sm m i) then m
      else post_wait i WAIT_SCAN_DONE r (upd_sm i (\<lambda>s. s\<lparr>scan_blocked := False\<rparr>) m))"

definition mgmt_post_ap_start_done :: "nat \<Rightarrow> u16 \<Rightarrow> mgr \<Rightarrow> mgr" where
  "mgmt_post_ap_start_done i r = post_wait i WAIT_AP_START_DONE r"

definition mgmt_post_monitor_start_done :: "nat \<Rightarrow> u16 \<Rightarrow> mgr \<Rightarrow> mgr" where
  "mgmt_post_monitor_start_done i r = post_wait i WAIT_MONITOR_START_DONE r"

definition mgmt_wait_queue_flush :: "mgr \<Rightarrow> mgr" where
  "mgmt_wait_queue_flush m = m\<lparr>waitq := []\<rparr>"

section \<open>Retries and roaming\<close>

definition WIFI_MGMT_ROAMING_RETRY_LIMIT :: u32 where "WIFI_MGMT_ROAMING_RETRY_LIMIT = 100"
definition WIFI_MGMT_ROAMING_RETRY_INTERVAL :: u32 where "WIFI_MGMT_ROAMING_RETRY_INTERVAL = 2500"
definition WIFI_MGMT_CONNECT_RETRY_LIMIT :: u32 where "WIFI_MGMT_CONNECT_RETRY_LIMIT = 3"
definition WIFI_MGMT_CONNECT_RETRY_INTERVAL :: u32 where "WIFI_MGMT_CONNECT_RETRY_INTERVAL = 2000"
definition WIFI_MGMT_MAX_RETRY_INTERVAL :: u32 where "WIFI_MGMT_MAX_RETRY_INTERVAL = 300000"
definition WIFI_MGMT_DHCP_POLLING_LIMIT :: u8 where "WIFI_MGMT_DHCP_POLLING_LIMIT = 200"
definition WIFI_MGMT_DHCP_POLLING_INTERVAL :: u32 where "WIFI_MGMT_DHCP_POLLING_INTERVAL = 100"
definition WIFI_MGMT_LINK_POLLING_INTERVAL :: u32 where "WIFI_MGMT_LINK_POLLING_INTERVAL = 3000"
definition WIFI_MGMT_POLLING_SCAN_TRIGGER_POINT :: u16 where "WIFI_MGMT_POLLING_SCAN_TRIGGER_POINT = 10"
definition WIFI_MGMT_ROAMING_RSSI_RELATIVE_GAIN :: int where "WIFI_MGMT_ROAMING_RSSI_RELATIVE_GAIN = 10"
definition VIF_RSSI_HYSTERESIS :: nat where "VIF_RSSI_HYSTERESIS = 5"

definition zero_addr :: bytes where "zero_addr = replicate 6 0"

definition mgmt_connected_scan_done :: "env \<Rightarrow> nat \<Rightarrow> mgr \<Rightarrow> mgr" where
  "mgmt_connected_scan_done env i m0 =
    (let v = vx i m0; m = upd_sm i (\<lambda>s. s\<lparr>polling_scan := False\<rparr>) m0
     in case candidate env of
          None \<Rightarrow> m
        | Some (addr, rssi, chan) \<Rightarrow>
            if addr = bssid (sta_cfg_of (vif m v)) then m
            else if sta_rssi env + WIFI_MGMT_ROAMING_RSSI_RELATIVE_GAIN \<le> rssi
            then send_event v EV_CONNECT_CMD (upd_vif v (cfg_upd (\<lambda>c. c\<lparr>channel := chan\<rparr>)) m)
            else m)"

definition mgmt_preroam_rollback :: "nat \<Rightarrow> mgr \<Rightarrow> mgr" where
  "mgmt_preroam_rollback i m =
    (let v = vx i m; bk = preroam_bssid_bk (sm m i)
     in if preroam_start (sm m i) \<and> bk \<noteq> zero_addr
        then send_event v EV_CONNECT_CMD
          (upd_vif v (cfg_upd (\<lambda>c. c\<lparr>channel := 0xFF, bssid := bk, conn_with_bssid := True\<rparr>))
            (upd_sm i (\<lambda>s. s\<lparr>preroam_start := False, polling_scan_count := 0, preroam_bssid_bk := zero_addr\<rparr>) m))
        else m)"

text \<open>\<^verbatim>\<open>WIFI_MGMT_UNLIMITED_ROAMING_RETRY()\<close> is 0.\<close>

definition mgmt_connect_retry_param_set :: "nat \<Rightarrow> bool \<Rightarrow> mgr \<Rightarrow> mgr" where
  "mgmt_connect_retry_param_set i roaming_required = upd_sm i (\<lambda>s.
     if roaming_required
     then s\<lparr>retry_count := WIFI_MGMT_ROAMING_RETRY_LIMIT - 1, retry_limit := WIFI_MGMT_ROAMING_RETRY_LIMIT,
            retry_interval := WIFI_MGMT_ROAMING_RETRY_INTERVAL\<rparr>
     else s\<lparr>retry_count := WIFI_MGMT_CONNECT_RETRY_LIMIT - 1, retry_limit := WIFI_MGMT_CONNECT_RETRY_LIMIT,
            retry_interval := WIFI_MGMT_CONNECT_RETRY_INTERVAL\<rparr>)"

definition retry_interval_of :: "sm_data \<Rightarrow> u32" where
  "retry_interval_of s =
    (let n = retry_limit s - retry_count s;
         r = (if 30 < n then retry_interval s * (n - 30) else retry_interval s)
     in if WIFI_MGMT_MAX_RETRY_INTERVAL < r then WIFI_MGMT_MAX_RETRY_INTERVAL else r)"

definition mgmt_register_delayed_connect_retry :: "env \<Rightarrow> nat \<Rightarrow> mgr \<Rightarrow> mgr" where
  "mgmt_register_delayed_connect_retry env i m =
    (if eloop_timeout_is_registered H_CONNECT_RETRY (sm_ctx i) 0 (eloop m) then m
     else register env (retry_interval_of (sm m i)) H_CONNECT_RETRY i m)"

definition mgmt_link_is_ongoing :: "nat \<Rightarrow> mgr \<Rightarrow> mgr" where
  "mgmt_link_is_ongoing i m =
    mgmt_post_conn_done (vx i m) MAC_ST_FAILURE (upd_vif (vx i m) (cfg_upd (\<lambda>c. c\<lparr>conn_blocked := True\<rparr>)) m)"

section \<open>Entering the states of a station\<close>

definition sm_idle :: "nat \<Rightarrow> mgr \<Rightarrow> mgr" where
  "sm_idle i m0 =
    (let v = vx i m0;
         m1 = upd_sm i (\<lambda>s. s\<lparr>sm_state := IDLE, delayed_connect_retry := False\<rparr>) m0;
         m2 = cancel H_CONNECT_RETRY (cancel H_LINK_STATUS_POLLING (cancel H_DHCP_POLLING m1));
         m3 = mgmt_post_disconn_done v (log_call (NET_DISCONNECT_REQ v) m2)
     in upd_vif v (\<lambda>w. w\<lparr>sta_state := STA_IDLE\<rparr>) m3)"

definition full_scan :: "u32 \<Rightarrow> bool" where
  "full_scan r \<longleftrightarrow> r = ucast WIFI_MGMT_CONN_NO_AP \<or> r = ucast WIFI_MGMT_DISCON_NO_BEACON
     \<or> r = ucast WIFI_MGMT_DISCON_RECV_DEAUTH \<or> r = ucast WIFI_MGMT_DISCON_UNSPECIFIED"

definition sm_scan :: "env \<Rightarrow> nat \<Rightarrow> mgr \<Rightarrow> mgr" where
  "sm_scan env i m0 =
    (let v = vx i m0;
         m1 = upd_vif v (\<lambda>w. w\<lparr>sta_state := STA_SCAN\<rparr>) (upd_sm i (\<lambda>s. s\<lparr>sm_state := SCAN\<rparr>) m0);
         m2 = cancel H_LINK_STATUS_POLLING (cancel H_DHCP_POLLING m1)
     in if delayed_connect_retry (sm m2 i) then m2
        else let w = vif m2 v;
                 target_channel = (if full_scan (last_reason w) then 0xFF else channel (sta_cfg_of w));
                 m3 = (if conn_with_bssid (sta_cfg_of w) then log_call (NET_SCAN v target_channel) m2
                       else log_call (NET_SCAN_SSID v (ssid (sta_cfg_of w)) target_channel) m2)
             in if scan_fails env then send_event v EV_SCAN_FAIL m3 else m3)"

definition netlink_connect_req :: "env \<Rightarrow> nat \<Rightarrow> mgr \<Rightarrow> mgr" where
  "netlink_connect_req env v m =
    upd_vif v (\<lambda>w. (cfg_upd (\<lambda>c. (connect_cfg env c)\<lparr>conn_blocked := conn_blocked c\<rparr>) w)
        \<lparr>last_reason := (case connect_last env of None \<Rightarrow> last_reason w | Some r \<Rightarrow> r)\<rparr>)
      (log_call (NET_CONNECT_REQ v (sta_cfg_of (vif m v))) m)"

definition sm_connect :: "env \<Rightarrow> nat \<Rightarrow> mgr \<Rightarrow> mgr" where
  "sm_connect env i m0 =
    (let v = vx i m0;
         m1 = upd_vif v (\<lambda>w. w\<lparr>sta_state := STA_CONNECT\<rparr>) (upd_sm i (\<lambda>s. s\<lparr>sm_state := CONNECT\<rparr>) m0);
         m2 = netlink_connect_req env v m1;
         ap = vif m2 WIFI_VIF_INDEX_SOFTAP_MODE; chan = channel (sta_cfg_of (vif m2 v))
     in if connect_ret env \<noteq> 0 then send_message v EV_CONNECT_FAIL (connect_ret env) None m2
        else if concurrent m2 \<and> wvif_type ap = WVIF_AP \<and> ap_state ap = AP_STATE_STARTED
          \<and> softap_chan env > 0 \<and> softap_chan env \<noteq> chan
        then send_message WIFI_VIF_INDEX_SOFTAP_MODE EV_AP_SWITCH_CHNL_CMD (ucast chan) None m2
        else m2)"

definition sm_handshake :: "nat \<Rightarrow> mgr \<Rightarrow> mgr" where
  "sm_handshake i m0 =
    (let v = vx i m0;
         m1 = upd_vif v (\<lambda>w. w\<lparr>sta_state := STA_HANDSHAKE\<rparr>) (upd_sm i (\<lambda>s. s\<lparr>sm_state := HANDSHAKE\<rparr>) m0)
     in log_call (NET_ASSOC_DONE v (sm_param (sm m1 i))) m1)"

definition sm_dhcp :: "env \<Rightarrow> nat \<Rightarrow> mgr \<Rightarrow> mgr" where
  "sm_dhcp env i m0 =
    (let v = vx i m0;
         m1 = upd_vif v (\<lambda>w. w\<lparr>sta_state := STA_IP_GETTING\<rparr>) (upd_sm i (\<lambda>s. s\<lparr>sm_state := DHCP\<rparr>) m0);
         m2 = (if is_static_ip env then m1
               else log_call (IP_DHCP_CLIENT v) (upd_sm i (\<lambda>s. s\<lparr>dhcp_polling_count := WIFI_MGMT_DHCP_POLLING_LIMIT\<rparr>) m1))
     in register env WIFI_MGMT_DHCP_POLLING_INTERVAL H_DHCP_POLLING i m2)"

text \<open>\<^verbatim>\<open>CONFIG_FAST_RECONNECT\<close> is defined.\<close>

definition sm_connected :: "env \<Rightarrow> nat \<Rightarrow> mgr \<Rightarrow> mgr" where
  "sm_connected env i m0 =
    (let v = vx i m0;
         m1 = upd_vif v (\<lambda>w. w\<lparr>sta_state := STA_CONNECTED, last_reason := 0\<rparr>)
           (upd_sm i (\<lambda>s. s\<lparr>sm_state := CONNECTED\<rparr>) m0);
         m2 = (if \<not> conn_blocked (sta_cfg_of (vif m1 v)) then send_event v EV_CONNECT_SUCCESS m1
               else mgmt_post_conn_done v MAC_ST_SUCCESSFUL m1);
         m3 = upd_sm i (\<lambda>s. s\<lparr>preroam_start := False, polling_scan_count := 0, preroam_bssid_bk := zero_addr\<rparr>) m2;
         m4 = upd_vif v (\<lambda>w. (cfg_upd (\<lambda>c. c\<lparr>conn_with_bssid := False\<rparr>) w)\<lparr>history_ip := if_ip env\<rparr>) m3
     in if auto_conn env then log_call (NET_AP_STORE (sta_cfg_of (vif m4 v))) m4 else m4)"

section \<open>The station\<close>

text \<open>A configuration and the data of a state machine after \<^verbatim>\<open>memset\<close>.\<close>

definition zero_cfg :: sta_cfg where
  "zero_cfg = \<lparr>ssid = [], channel = 0, bssid = zero_addr, conn_with_bssid = False, passphrase = [],
     conn_blocked = False, flush_cache_req = False\<rparr>"

definition zero_ap_cfg :: ap_cfg where
  "zero_ap_cfg = \<lparr>ap_ssid = [], ap_channel = 0, ap_hidden = False, ap_passphrase = [], ap_akm = 0, ap_mfp = 0\<rparr>"

definition zero_sm :: sm_data where
  "zero_sm = \<lparr>vif_idx = 0, init = False, sm_state = IDLE, sm_event = 0, sm_reason = 0, sm_param = None,
     dhcp_polling_count = 0, delayed_connect_retry = False, retry_count = 0, retry_limit = 0, retry_interval = 0,
     preroam_enable = False, preroam_start = False, polling_scan = False, polling_scan_count = 0,
     preroam_bssid_bk = zero_addr, scan_blocked = False\<rparr>"

text \<open>The answer to \<^verbatim>\<open>WIFI_MGMT_EVENT_SCAN_CMD\<close>, whose parameter is a name to look for or none.\<close>

definition scan_cmd :: "env \<Rightarrow> nat \<Rightarrow> mgr \<Rightarrow> mgr" where
  "scan_cmd env i m =
    (let v = vx i m;
         m1 = (case sm_param (sm m i) of
             Some (P_SSID n) \<Rightarrow> log_call (NET_SCAN_SSID v n 0xFF) m
           | _ \<Rightarrow> log_call (NET_SCAN v 0xFF) m)
     in if scan_fails env then mgmt_post_scan_done v WIFI_MGMT_SCAN_START_FAIL m1 else m1)"

text \<open>A failed connection is tried again later, or given up.\<close>

definition give_up :: "nat \<Rightarrow> mgr \<Rightarrow> mgr" where
  "give_up i m =
    (let m1 = mgmt_preroam_rollback i m
     in sm_idle i (mgmt_post_conn_done (vx i m1) (sm_reason (sm m1 i)) m1))"

definition retry_or_give_up :: "env \<Rightarrow> nat \<Rightarrow> mgr \<Rightarrow> mgr" where
  "retry_or_give_up env i m =
    (if retry_count (sm m i) > 0
     then mgmt_register_delayed_connect_retry env i
       (sm_scan env i (upd_sm i (\<lambda>s. s\<lparr>delayed_connect_retry := True\<rparr>) m))
     else give_up i m)"

definition set_last_reason :: "nat \<Rightarrow> mgr \<Rightarrow> mgr" where
  "set_last_reason i m = upd_vif (vx i m) (\<lambda>w. w\<lparr>last_reason := ucast (sm_reason (sm m i))\<rparr>) m"

definition copy_cfg :: "nat \<Rightarrow> mgr \<Rightarrow> mgr" where
  "copy_cfg i m = (case sm_param (sm m i) of
     Some (P_STA_CFG c) \<Rightarrow> upd_vif (vx i m) (cfg_upd (\<lambda>_. c)) m
   | _ \<Rightarrow> m)"

definition step_init :: "nat \<Rightarrow> mgr \<Rightarrow> mgr" where
  "step_init i m = sm_idle i (mgmt_connect_retry_param_set i False
     (upd_sm i (\<lambda>_. zero_sm\<lparr>init := True, preroam_enable := True\<rparr>) m))"

definition auto_connect :: "env \<Rightarrow> nat \<Rightarrow> mgr \<Rightarrow> mgr" where
  "auto_connect env i m = (case loaded env of
     None \<Rightarrow> sm_idle i m
   | Some (f, ip) \<Rightarrow> sm_scan env i (mgmt_connect_retry_param_set i True
       (upd_vif (vx i m) (\<lambda>w. (cfg_upd (\<lambda>c. (f c)\<lparr>conn_blocked := conn_blocked c\<rparr>) w)\<lparr>history_ip := ip\<rparr>) m)))"

definition step_idle :: "env \<Rightarrow> nat \<Rightarrow> mgmt_event \<Rightarrow> mgr \<Rightarrow> mgr" where
  "step_idle env i ev m =
    (if ev = EV_SCAN_CMD then scan_cmd env i m
     else if ev = EV_CONNECT_CMD then sm_scan env i (mgmt_connect_retry_param_set i False (copy_cfg i m))
     else if ev = EV_AUTO_CONNECT_CMD then auto_connect env i m
     else if ev = EV_SCAN_DONE then mgmt_post_scan_done (vx i m) WIFI_MGMT_SCAN_SUCCESS m
     else if ev = EV_DISCONNECT_CMD then mgmt_post_disconn_done (vx i m) m
     else m)"

definition step_scan :: "env \<Rightarrow> nat \<Rightarrow> mgmt_event \<Rightarrow> mgr \<Rightarrow> mgr" where
  "step_scan env i ev m =
    (if ev = EV_SCAN_CMD \<or> ev = EV_CONNECT_CMD then mgmt_link_is_ongoing i m
     else if ev = EV_DISCONNECT_CMD \<or> ev = EV_CONNECT_FAIL then sm_idle i m
     else if ev = EV_SCAN_DONE then sm_connect env i m
     else if ev = EV_SCAN_FAIL
     then if retry_count (sm m i) > 0 then mgmt_register_delayed_connect_retry env i m else give_up i m
     else m)"

definition step_connect :: "env \<Rightarrow> nat \<Rightarrow> mgmt_event \<Rightarrow> mgr \<Rightarrow> mgr" where
  "step_connect env i ev m =
    (let v = vx i m
     in if ev = EV_SCAN_CMD \<or> ev = EV_CONNECT_CMD then mgmt_link_is_ongoing i m
     else if ev = EV_SCAN_RESULT then log_call (WPA_STA_STEP v ev STA_SM_EAPOL) m
     else if ev = EV_DISCONNECT_CMD then sm_idle i m
     else if ev = EV_EXTERNAL_AUTH_REQUIRED \<or> ev = EV_RX_MGMT then log_call (WPA_STA_STEP v ev STA_SM_SAE) m
     else if ev = EV_ASSOC_SUCCESS then sm_handshake i m
     else if ev = EV_CONNECT_FAIL \<or> ev = EV_DISCONNECT
     then retry_or_give_up env i (log_call (WPA_STA_STEP v EV_DISCONNECT STA_SM_SAE) (set_last_reason i m))
     else m)"

text \<open>Leaving the later states: the machines for SAE and EAPOL are stopped.\<close>

definition stop_wpa :: "nat \<Rightarrow> mgr \<Rightarrow> mgr" where
  "stop_wpa v m = log_call (WPA_STA_STEP v EV_DISCONNECT STA_SM_EAPOL) (log_call (WPA_STA_STEP v EV_DISCONNECT STA_SM_SAE) m)"

definition link_lost :: "env \<Rightarrow> nat \<Rightarrow> bool \<Rightarrow> mgr \<Rightarrow> mgr" where
  "link_lost env i disconnect m =
    (let v = vx i m; m1 = (if disconnect then log_call (NET_DISCONNECT_REQ v) m else m)
     in retry_or_give_up env i (stop_wpa v (set_last_reason i m1)))"

definition step_handshake :: "env \<Rightarrow> nat \<Rightarrow> mgmt_event \<Rightarrow> mgr \<Rightarrow> mgr" where
  "step_handshake env i ev m =
    (let v = vx i m
     in if ev = EV_SCAN_CMD \<or> ev = EV_CONNECT_CMD then mgmt_link_is_ongoing i m
     else if ev = EV_RX_EAPOL \<or> ev = EV_EAP_SUCCESS then log_call (WPA_STA_STEP v ev STA_SM_EAPOL) m
     else if ev = EV_DISCONNECT_CMD then sm_idle i m
     else if ev = EV_CONNECT_FAIL then link_lost env i True m
     else if ev = EV_DISCONNECT then link_lost env i False m
     else if ev = EV_DHCP_START then sm_dhcp env i m
     else m)"

definition step_dhcp :: "env \<Rightarrow> nat \<Rightarrow> mgmt_event \<Rightarrow> mgr \<Rightarrow> mgr" where
  "step_dhcp env i ev m =
    (let v = vx i m
     in if ev = EV_SCAN_CMD \<or> ev = EV_CONNECT_CMD then mgmt_link_is_ongoing i m
     else if ev = EV_DISCONNECT_CMD then sm_idle i m
     else if ev = EV_RX_EAPOL then log_call (WPA_STA_STEP v ev STA_SM_EAPOL) m
     else if ev = EV_DHCP_SUCCESS then cancel H_CONNECT_RETRY (sm_connected env i (log_call (NET_DHCP_DONE v) m))
     else if ev = EV_DHCP_FAIL \<or> ev = EV_CONNECT_FAIL then link_lost env i True m
     else if ev = EV_DISCONNECT then link_lost env i False m
     else m)"

definition reconnects :: "u16 \<Rightarrow> bool" where
  "reconnects r \<longleftrightarrow> r = WIFI_MGMT_DISCON_NO_BEACON \<or> r = WIFI_MGMT_DISCON_UNSPECIFIED
     \<or> r = WIFI_MGMT_DISCON_RECV_DEAUTH \<or> r = WIFI_MGMT_DISCON_SA_QUERY_FAIL"

definition connection_lost :: "env \<Rightarrow> nat \<Rightarrow> mgr \<Rightarrow> mgr" where
  "connection_lost env i m =
    (let v = vx i m; r = sm_reason (sm m i);
         m1 = set_last_reason i (stop_wpa v m);
         m2 = (if r = WIFI_MGMT_DISCON_SA_QUERY_FAIL then log_call (NET_DISCONNECT_REQ v) m1 else m1)
     in if reconnects r then sm_scan env i (mgmt_connect_retry_param_set i True m2) else sm_idle i m2)"

definition roaming_start :: "env \<Rightarrow> nat \<Rightarrow> mgr \<Rightarrow> mgr" where
  "roaming_start env i m =
    (if preroam_enable (sm m i)
     then register env 1 H_LINK_STATUS_POLLING i
       (upd_sm i (\<lambda>s. s\<lparr>preroam_start := True, preroam_bssid_bk := bssid (sta_cfg_of (vif m (vx i m)))\<rparr>) m)
     else m)"

text \<open>The case of \<^verbatim>\<open>WIFI_MGMT_EVENT_SCAN_DONE\<close> falls through into that of \<^verbatim>\<open>WIFI_MGMT_EVENT_SCAN_FAIL\<close>.\<close>

definition step_connected :: "env \<Rightarrow> nat \<Rightarrow> mgmt_event \<Rightarrow> mgr \<Rightarrow> mgr" where
  "step_connected env i ev m =
    (let v = vx i m
     in if ev = EV_SCAN_CMD then scan_cmd env i m
     else if ev = EV_CONNECT_CMD
     then sm_scan env i (mgmt_connect_retry_param_set i False (sm_idle i (copy_cfg i m)))
     else if ev = EV_DISCONNECT_CMD then sm_idle i m
     else if ev = EV_SCAN_DONE
     then mgmt_post_scan_done v WIFI_MGMT_SCAN_FAIL (mgmt_post_scan_done v WIFI_MGMT_SCAN_SUCCESS
       (if polling_scan (sm m i) then mgmt_connected_scan_done env i m else m))
     else if ev = EV_SCAN_FAIL then mgmt_post_scan_done v WIFI_MGMT_SCAN_FAIL m
     else if ev = EV_RX_EAPOL then log_call (WPA_STA_STEP v ev STA_SM_EAPOL) m
     else if ev = EV_DISCONNECT then connection_lost env i m
     else if ev = EV_ROAMING_START then roaming_start env i m
     else if ev = EV_RX_UNPROT_DEAUTH then log_call (WPAS_UNPROT v) m
     else if ev = EV_RX_ACTION then log_call (WPAS_ACTION v) m
     else m)"

text \<open>\<^verbatim>\<open>SM_STEP(MAINTAIN_CONNECTION)\<close>; without \<^verbatim>\<open>CFG_WPS\<close> the state \<open>WPS\<close> has no branch.\<close>

definition maintain_connection :: "env \<Rightarrow> nat \<Rightarrow> mgr \<Rightarrow> mgr" where
  "maintain_connection env i m =
    (if \<not> init (sm m i) \<or> sm_event (sm m i) = event_num EV_INIT then step_init i m
     else case num_event (sm_event (sm m i)) of
       None \<Rightarrow> m
     | Some ev \<Rightarrow> (case sm_state (sm m i) of
         IDLE \<Rightarrow> step_idle env i ev m
       | WPS \<Rightarrow> m
       | SCAN \<Rightarrow> step_scan env i ev m
       | CONNECT \<Rightarrow> step_connect env i ev m
       | HANDSHAKE \<Rightarrow> step_handshake env i ev m
       | DHCP \<Rightarrow> step_dhcp env i ev m
       | CONNECTED \<Rightarrow> step_connected env i ev m))"

section \<open>The access point\<close>

definition CO_BIT :: "nat \<Rightarrow> u32" where
  "CO_BIT n = push_bit n 1"


text \<open>Setting the addresses of the interface and the state of the MAC are calls into other layers.\<close>

definition wifi_netlink_ap_start :: "env \<Rightarrow> nat \<Rightarrow> ap_cfg option \<Rightarrow> mgr \<Rightarrow> int \<times> mgr" where
  "wifi_netlink_ap_start env v cfg m =
    (if v \<ge> CFG_VIF_NUM then (- 1, m)
     else if wvif_type (vif m v) \<noteq> WVIF_AP then (- 2, m)
     else if \<not> mac_type_ok env then (- 3, m)
     else if (case cfg of None \<Rightarrow> False | Some c \<Rightarrow> ap_ssid c = [] \<or> ap_channel c = 0) then (- 4, m)
     else let m1 = (case cfg of
              None \<Rightarrow> m
            | Some c \<Rightarrow> upd_vif v (\<lambda>w. w\<lparr>ap_cfg_of := c\<lparr>ap_mfp :=
                  (if ap_akm c AND CO_BIT MAC_AKM_SAE \<noteq> 0
                   then if ap_akm c AND CO_BIT MAC_AKM_PSK \<noteq> 0 then 1 else 2
                   else 0)\<rparr>\<rparr>) m);
            m2 = log_call (WPA_AP_STEP v EV_START_AP_CMD) m1
          in if \<not> ap_start_ok env then (- 4, m2)
             else (0, log_call (NET_AP_START v (ap_cfg_of (vif m2 v))) m2))"

definition wifi_netlink_ap_stop :: "env \<Rightarrow> nat \<Rightarrow> mgr \<Rightarrow> mgr" where
  "wifi_netlink_ap_stop env v m =
    (if v \<ge> CFG_VIF_NUM \<or> wvif_type (vif m v) \<noteq> WVIF_AP \<or> \<not> mac_type_ok env \<or> ap_state (vif m v) \<noteq> AP_STATE_STARTED then m
     else log_call (NET_AP_STOP v) (log_call (IP_NONE v) (log_call (WPA_AP_STEP v EV_STOP_AP_CMD) m)))"

definition sm_softap_init :: "env \<Rightarrow> nat \<Rightarrow> mgr \<Rightarrow> mgr" where
  "sm_softap_init env i m =
    (let v = vx i m
     in upd_vif v (\<lambda>w. w\<lparr>ap_state := AP_STATE_INIT\<rparr>)
          (wifi_netlink_ap_stop env v (upd_sm i (\<lambda>s. s\<lparr>sm_state := SOFTAP_INIT\<rparr>) m)))"

definition sm_softap_started :: "nat \<Rightarrow> mgr \<Rightarrow> mgr" where
  "sm_softap_started i m =
    upd_vif (vx i m) (\<lambda>w. w\<lparr>ap_state := AP_STATE_STARTED\<rparr>) (upd_sm i (\<lambda>s. s\<lparr>sm_state := SOFTAP_STARTED\<rparr>) m)"

definition ap_param :: "mgmt_param option \<Rightarrow> ap_cfg option" where
  "ap_param p = (case p of Some (P_AP_CFG c) \<Rightarrow> Some c | _ \<Rightarrow> None)"

definition switch_channel :: "env \<Rightarrow> nat \<Rightarrow> mgr \<Rightarrow> mgr" where
  "switch_channel env i m =
    (let v = vx i m; new_channel = ucast (sm_reason (sm m i));
         m1 = upd_vif v (\<lambda>w. w\<lparr>ap_state := AP_STATE_INIT, ap_cfg_of := (ap_cfg_of w)\<lparr>ap_channel := new_channel\<rparr>\<rparr>)
           (wifi_netlink_ap_stop env v m)
     in upd_vif v (\<lambda>w. w\<lparr>ap_state := AP_STATE_STARTED\<rparr>) (snd (wifi_netlink_ap_start env v None m1)))"

text \<open>\<^verbatim>\<open>SM_STEP(MAINTAIN_SOFTAP)\<close>\<close>

definition maintain_softap :: "env \<Rightarrow> nat \<Rightarrow> mgr \<Rightarrow> mgr" where
  "maintain_softap env i m =
    (if \<not> init (sm m i) \<or> sm_event (sm m i) = event_num EV_INIT
     then sm_softap_init env i (upd_sm i (\<lambda>_. zero_sm\<lparr>init := True\<rparr>) m)
     else case num_event (sm_event (sm m i)) of
       None \<Rightarrow> m
     | Some ev \<Rightarrow>
       let v = vx i m
       in if sm_state (sm m i) = SOFTAP_INIT
          then if ev = EV_START_AP_CMD
               then let (ret, m1) = wifi_netlink_ap_start env v (ap_param (sm_param (sm m i))) m
                    in if ret = 0 then mgmt_post_ap_start_done v 0 (sm_softap_started i m1)
                       else mgmt_post_ap_start_done v 1 (sm_softap_init env i m1)
               else m
          else if sm_state (sm m i) = SOFTAP_STARTED
          then if ev = EV_STOP_AP_CMD then sm_softap_init env i m
               else if ev = EV_RX_MGMT \<or> ev = EV_TX_MGMT_DONE \<or> ev = EV_RX_EAPOL then log_call (WPA_AP_STEP v ev) m
               else if ev = EV_AP_SWITCH_CHNL_CMD then switch_channel env i m
               else if ev = EV_SCAN_CMD then scan_cmd env i m
               else if ev = EV_SCAN_DONE then mgmt_post_scan_done v WIFI_MGMT_SCAN_SUCCESS m
               else if ev = EV_SCAN_FAIL then mgmt_post_scan_done v WIFI_MGMT_SCAN_FAIL m
               else m
          else m)"

section \<open>The monitor\<close>

definition wifi_netlink_monitor_start :: "env \<Rightarrow> nat \<Rightarrow> mgmt_param option \<Rightarrow> mgr \<Rightarrow> int \<times> mgr" where
  "wifi_netlink_monitor_start env v cfg m =
    (if v \<ge> CFG_VIF_NUM then (- 1, m)
     else case cfg of
       Some (P_MONITOR chan) \<Rightarrow>
         if wvif_type (vif m v) \<noteq> WVIF_MONITOR \<or> \<not> mac_type_ok env then (- 2, m)
         else let m1 = upd_vif v (\<lambda>w. w\<lparr>monitor_channel := chan\<rparr>) m
              in (monitor_ret env, if monitor_ret env = - 3 then m1 else log_call (NET_MONITOR_CFG v chan) m1)
     | _ \<Rightarrow> (0, m))"

definition sm_monitor :: "conn_state \<Rightarrow> nat \<Rightarrow> mgr \<Rightarrow> mgr" where
  "sm_monitor st i = upd_sm i (\<lambda>s. s\<lparr>sm_state := st\<rparr>)"

text \<open>\<^verbatim>\<open>SM_STEP(MAINTAIN_MONITOR)\<close>\<close>

definition maintain_monitor :: "env \<Rightarrow> nat \<Rightarrow> mgr \<Rightarrow> mgr" where
  "maintain_monitor env i m =
    (if \<not> init (sm m i) \<or> sm_event (sm m i) = event_num EV_INIT
     then sm_monitor MONITOR_INIT i (upd_sm i (\<lambda>_. zero_sm\<lparr>init := True\<rparr>) m)
     else case num_event (sm_event (sm m i)) of
       None \<Rightarrow> m
     | Some ev \<Rightarrow>
       let v = vx i m
       in if sm_state (sm m i) = MONITOR_INIT
          then if ev = EV_MONITOR_START_CMD
               then let (ret, m1) = wifi_netlink_monitor_start env v (sm_param (sm m i)) m
                    in if ret = 0 then mgmt_post_monitor_start_done v 0 (sm_monitor MONITOR_STARTED i m1)
                       else mgmt_post_monitor_start_done v 1 (sm_monitor MONITOR_INIT i m1)
               else m
          else if sm_state (sm m i) = MONITOR_STARTED
          then if ev = EV_SCAN_CMD then scan_cmd env i m
               else if ev = EV_SCAN_DONE then mgmt_post_scan_done v WIFI_MGMT_SCAN_SUCCESS m
               else if ev = EV_SCAN_FAIL then mgmt_post_scan_done v WIFI_MGMT_SCAN_FAIL m
               else m
          else m)"

section \<open>Changing the mode of an interface\<close>

definition wifi_vif_reset :: "nat \<Rightarrow> wifi_vif_type \<Rightarrow> mgr \<Rightarrow> mgr" where
  "wifi_vif_reset v t m = log_call (VIF_RESET v t) (upd_vif v (\<lambda>w0.
     let w = w0\<lparr>wvif_type := t\<rparr>
     in case t of
          WVIF_STA \<Rightarrow> w\<lparr>sta_state := STA_IDLE, sta_cfg_of := zero_cfg\<rparr>
        | WVIF_AP \<Rightarrow> w\<lparr>ap_state := AP_STATE_INIT, ap_cfg_of := zero_ap_cfg\<rparr>
        | WVIF_MONITOR \<Rightarrow> w\<lparr>monitor_channel := 0\<rparr>
        | WVIF_UNKNOWN \<Rightarrow> w) m)"

text \<open>The numbers of the types; the reason of the command is one of them.\<close>

definition vif_type_of :: "u16 \<Rightarrow> wifi_vif_type" where
  "vif_type_of r = (if r = 1 then WVIF_STA else if r = 2 then WVIF_AP else if r = 3 then WVIF_MONITOR else WVIF_UNKNOWN)"

definition leave_mode :: "env \<Rightarrow> nat \<Rightarrow> wifi_vif_type \<Rightarrow> mgr \<Rightarrow> mgr" where
  "leave_mode env i t m = (case t of
     WVIF_STA \<Rightarrow> log_call (NET_PMKSA_FLUSH (vx i m)) (sm_idle i m)
   | WVIF_AP \<Rightarrow> sm_softap_init env i m
   | WVIF_MONITOR \<Rightarrow> sm_monitor MONITOR_INIT i m
   | WVIF_UNKNOWN \<Rightarrow> m)"

definition enter_mode :: "nat \<Rightarrow> wifi_vif_type \<Rightarrow> wifi_vif_type \<Rightarrow> mgr \<Rightarrow> mgr" where
  "enter_mode i prev t m = (case t of
     WVIF_STA \<Rightarrow> log_call NET_PS_MODE (upd_sm i (\<lambda>s. s\<lparr>sm_state := IDLE\<rparr>)
       (mgmt_connect_retry_param_set i False (upd_sm i (\<lambda>s. s\<lparr>polling_scan := False\<rparr>) m)))
   | WVIF_AP \<Rightarrow> upd_sm i (\<lambda>s. s\<lparr>sm_state := SOFTAP_INIT\<rparr>) m
   | WVIF_MONITOR \<Rightarrow> upd_sm i (\<lambda>s. s\<lparr>sm_state := MONITOR_INIT\<rparr>) m
   | WVIF_UNKNOWN \<Rightarrow> if concurrent m \<and> prev = WVIF_AP then log_call NET_ENABLE_PS m else m)"

definition mgmt_switch_mode :: "env \<Rightarrow> nat \<Rightarrow> mgr \<Rightarrow> int \<times> mgr" where
  "mgmt_switch_mode env i m =
    (let v = vx i m; prev = wvif_type (vif m v); t = vif_type_of (sm_reason (sm m i))
     in if prev = t then (0, m)
        else let m1 = leave_mode env i prev (log_call (IF_DOWN v) (log_call (IP_NONE v) m));
                 m2 = upd_vif v (\<lambda>w. w\<lparr>wvif_type := t\<rparr>) (wifi_vif_reset v prev m1)
             in if \<not> type_set_ok env then (- 2, m2)
                else (0, enter_mode i prev t (upd_sm i (\<lambda>s. s\<lparr>sm_event := 0, sm_reason := 0, init := True\<rparr>)
                  (log_call (VIF_TYPE_SET v t) m2))))"

section \<open>The manager task\<close>

definition mgmt_dhcp_polling :: "env \<Rightarrow> nat \<Rightarrow> mgr \<Rightarrow> mgr" where
  "mgmt_dhcp_polling env i m =
    (let v = vx i m
     in if dhcp_obtained env \<or> is_static_ip env
        then send_event v EV_DHCP_SUCCESS (log_call (IF_DEFAULT v) m)
        else let m1 = upd_sm i (\<lambda>s. s\<lparr>dhcp_polling_count := dhcp_polling_count s - 1\<rparr>) m
             in if dhcp_polling_count (sm m1 i) \<noteq> 0
                then register env WIFI_MGMT_DHCP_POLLING_INTERVAL H_DHCP_POLLING i m1
                else send_event v EV_DHCP_FAIL (upd_sm i (\<lambda>s. s\<lparr>sm_reason := WIFI_MGMT_CONN_DHCP_FAIL\<rparr>) m1))"

text \<open>Signal strengths are compared as unsigned bytes; the sum is one of integers.\<close>

definition mgmt_link_status_polling :: "env \<Rightarrow> nat \<Rightarrow> mgr \<Rightarrow> mgr" where
  "mgmt_link_status_polling env i m =
    (let v = vx i m; s = sm m i
     in if \<not> (preroam_enable s \<and> preroam_start s) then m
        else if unat (word_of_int (sta_rssi env) :: u8) > unat (word_of_int (rssi_thresh env) :: u8) + VIF_RSSI_HYSTERESIS
        then upd_sm i (\<lambda>s. s\<lparr>preroam_start := False, polling_scan_count := 0, preroam_bssid_bk := zero_addr\<rparr>) m
        else let n = polling_scan_count s;
                 m1 = (if n < 10 \<or> n mod WIFI_MGMT_POLLING_SCAN_TRIGGER_POINT = 0
                       then upd_sm i (\<lambda>s. s\<lparr>polling_scan := True\<rparr>) (log_call (NET_SCAN v 0xFF) m) else m)
             in register env WIFI_MGMT_LINK_POLLING_INTERVAL H_LINK_STATUS_POLLING i
                  (upd_sm i (\<lambda>s. s\<lparr>polling_scan_count := n + 1\<rparr>) m1))"

definition mgmt_connect_retry :: "env \<Rightarrow> nat \<Rightarrow> mgr \<Rightarrow> mgr" where
  "mgmt_connect_retry env i m =
    sm_scan env i (upd_sm i (\<lambda>s. s\<lparr>retry_count := retry_count s - 1, delayed_connect_retry := False\<rparr>) m)"

text \<open>The message is handled by the machine of the mode; its parameter is freed and forgotten.\<close>

definition wifi_mgmt_cb_run_state_machine :: "env \<Rightarrow> mgmt_param eloop_message_t \<Rightarrow> mgr \<Rightarrow> mgr" where
  "wifi_mgmt_cb_run_state_machine env msg m =
    (let event = ELOOP_EVENT_GET_EV (event_id msg); i = unat (ELOOP_EVENT_GET_VIF (event_id msg))
     in if i \<ge> CFG_VIF_NUM \<or> event < event_num EV_INIT then m
        else let m1 = upd_sm i (\<lambda>s. s\<lparr>vif_idx := i, sm_event := event, sm_reason := msg_reason msg, sm_param := msg_param msg\<rparr>) m;
                 m2 = (if event = event_num EV_SWITCH_MODE_CMD then snd (mgmt_switch_mode env i m1)
                       else case wvif_type (vif m1 i) of
                         WVIF_STA \<Rightarrow> maintain_connection env i m1
                       | WVIF_AP \<Rightarrow> maintain_softap env i m1
                       | WVIF_MONITOR \<Rightarrow> maintain_monitor env i m1
                       | WVIF_UNKNOWN \<Rightarrow> m1)
             in upd_sm i (\<lambda>s. s\<lparr>sm_param := None\<rparr>) m2)"

text \<open>
  One message of the queue: \<^verbatim>\<open>eloop_event_dispatch\<close> with the predefined handler; handlers that
  applications register are called after it and are not modelled.
\<close>

definition eloop_event_dispatch :: "env \<Rightarrow> mgmt_param eloop_message_t \<Rightarrow> mgr \<Rightarrow> mgr" where
  "eloop_event_dispatch env msg m =
    (let event = ELOOP_EVENT_GET_EV (event_id msg)
     in if event = ELOOP_EVENT_WAKEUP then m
        else if event = ELOOP_EVENT_TERMINATE then m\<lparr>eloop := (eloop m)\<lparr>terminate := True\<rparr>\<rparr>
        else wifi_mgmt_cb_run_state_machine env msg m)"

definition take_message :: "env \<Rightarrow> mgr \<Rightarrow> mgr" where
  "take_message env m = (case task_queue (eloop m) of
     [] \<Rightarrow> m
   | msg # q \<Rightarrow> eloop_event_dispatch env msg (m\<lparr>eloop := (eloop m)\<lparr>task_queue := q\<rparr>\<rparr>))"

definition timeout_slot :: "mgmt_handler eloop_timeout \<Rightarrow> nat" where
  "timeout_slot t = unat (to_data t) - 1"

definition take_timeout :: "env \<Rightarrow> mgr \<Rightarrow> mgr" where
  "take_timeout env m = (case eloop_timeout_handle (now env) (eloop m) of
     (None, _) \<Rightarrow> m
   | (Some t, e) \<Rightarrow> let i = timeout_slot t; m1 = m\<lparr>eloop := e\<rparr>
       in case to_handler t of
            H_DHCP_POLLING \<Rightarrow> mgmt_dhcp_polling env i m1
          | H_LINK_STATUS_POLLING \<Rightarrow> mgmt_link_status_polling env i m1
          | H_CONNECT_RETRY \<Rightarrow> mgmt_connect_retry env i m1)"

text \<open>One round of \<^verbatim>\<open>wifi_eloop_run\<close>.\<close>

definition eloop_round :: "env \<Rightarrow> env \<Rightarrow> mgr \<Rightarrow> mgr" where
  "eloop_round env env' m =
    (if terminate (eloop m) then m
     else take_timeout env' (case loop_wait_of (now env) (eloop m) of Yield \<Rightarrow> m | _ \<Rightarrow> take_message env m))"

end
