(* ===== verification/Wifi_Api.thy ===== *)
theory Wifi_Api
  imports Wifi_Manager
begin

text \<open>
  The functions of \<^verbatim>\<open>wifi_management.c\<close> that other tasks call. A call that waits for an answer takes
  as an argument what the other tasks do meanwhile (\<open>run\<close>): a function on the state of the
  manager, in the theorems a sequence of its steps. The argument \<open>opened\<close> is the test of
  \<^verbatim>\<open>WIFI_CLOSED_CHECK\<close>; \<open>alloc\<close> tells whether memory can be had.
\<close>

section \<open>Sending and waiting\<close>

definition send :: "nat \<Rightarrow> mgmt_event \<Rightarrow> u16 \<Rightarrow> mgmt_param option \<Rightarrow> mgr \<Rightarrow> int \<times> mgr" where
  "send i ev r p m = (fst (eloop_message_send (of_nat i) (event_num ev) r p (eloop m)), send_message i ev r p m)"

definition wait_for :: "nat \<Rightarrow> wait_evt \<Rightarrow> (mgr \<Rightarrow> mgr) \<Rightarrow> mgr \<Rightarrow> u16 \<times> mgr" where
  "wait_for i ev run m =
    (let m1 = run m; (r, q) = mgmt_wait_queue_fetch i ev (waitq m1) in (r, m1\<lparr>waitq := q\<rparr>))"

text \<open>The numbers of the modes, as the reason of a command to switch.\<close>

definition type_num :: "wifi_vif_type \<Rightarrow> u16" where
  "type_num t = (case t of WVIF_UNKNOWN \<Rightarrow> 0 | WVIF_STA \<Rightarrow> 1 | WVIF_AP \<Rightarrow> 2 | WVIF_MONITOR \<Rightarrow> 3)"

definition switch_mode_cmd :: "nat \<Rightarrow> wifi_vif_type \<Rightarrow> mgr \<Rightarrow> int \<times> mgr" where
  "switch_mode_cmd i t = send i EV_SWITCH_MODE_CMD (type_num t) None"

section \<open>Scanning and connecting\<close>

definition WIFI_SSID_MAX_LEN :: nat where "WIFI_SSID_MAX_LEN = 32"
definition WPAS_MIN_PASSPHRASE_LEN :: nat where "WPAS_MIN_PASSPHRASE_LEN = 8"
definition WPAS_MAX_PASSPHRASE_LEN :: nat where "WPAS_MAX_PASSPHRASE_LEN = 63"
definition WPAS_WEP40_ASCII_LEN :: nat where "WPAS_WEP40_ASCII_LEN = 5"

text \<open>The length of the name is kept in one byte.\<close>

definition wifi_management_scan ::
    "bool \<Rightarrow> bool \<Rightarrow> (mgr \<Rightarrow> mgr) \<Rightarrow> bool \<Rightarrow> bytes option \<Rightarrow> mgr \<Rightarrow> int \<times> mgr" where
  "wifi_management_scan opened alloc run blocked name m =
    (let ssid_len = (case name of None \<Rightarrow> 0 | Some n \<Rightarrow> length n mod 256)
     in if \<not> opened then (- 1, m)
        else if ssid_len \<noteq> 0 \<and> \<not> alloc then (- 1, m)
        else let p = (case name of Some n \<Rightarrow> if ssid_len \<noteq> 0 then Some (P_SSID (take ssid_len n)) else None | None \<Rightarrow> None);
                 (ret, m1) = send WIFI_VIF_INDEX_DEFAULT EV_SCAN_CMD 0 p m
             in if ret \<noteq> 0 then (- 2, m1)
                else let m2 = upd_sm WIFI_VIF_INDEX_DEFAULT (\<lambda>s. s\<lparr>scan_blocked := blocked\<rparr>) (mgmt_wait_queue_flush m1)
                     in if blocked
                        then let (r, m3) = wait_for WIFI_VIF_INDEX_DEFAULT WAIT_SCAN_DONE run m2 in (uint r, m3)
                        else (0, m2))"

definition wifi_management_disconnect :: "bool \<Rightarrow> (mgr \<Rightarrow> mgr) \<Rightarrow> mgr \<Rightarrow> int \<times> mgr" where
  "wifi_management_disconnect opened run m =
    (if \<not> opened then (- 1, m)
     else if wvif_type (vif m WIFI_VIF_INDEX_DEFAULT) = WVIF_STA
     then let (ret, m1) = send WIFI_VIF_INDEX_DEFAULT EV_DISCONNECT_CMD 0 None (mgmt_wait_queue_flush m)
          in if ret \<noteq> 0 then (- 1, m1)
             else let (r, m2) = wait_for WIFI_VIF_INDEX_DEFAULT WAIT_DISCONN_DONE run m1
                  in (uint r, upd_vif WIFI_VIF_INDEX_DEFAULT (\<lambda>w. w\<lparr>last_reason := 0\<rparr>) m2)
     else (0, m))"

text \<open>An empty password is none.\<close>

definition password_of :: "bytes option \<Rightarrow> bytes" where
  "password_of pw = (case pw of None \<Rightarrow> [] | Some p \<Rightarrow> p)"

text \<open>
  The request of a connection: the mode is switched first, then the configuration is sent. The
  configuration replaces that of the interface when the message is handled; the old one is
  compared here, in the task of the caller.
\<close>

definition connect_request :: "bool \<Rightarrow> sta_cfg \<Rightarrow> bool \<Rightarrow> bool \<Rightarrow> mgr \<Rightarrow> int \<times> mgr" where
  "connect_request alloc cfg new_ap flush m =
    (let (ret, m1) = switch_mode_cmd WIFI_VIF_INDEX_DEFAULT WVIF_STA m
     in if ret < 0 then (- 3, m1)
        else if \<not> alloc then (- 4, m1)
        else let m2 = (if new_ap then upd_vif WIFI_VIF_INDEX_DEFAULT (\<lambda>w. w\<lparr>history_ip := 0\<rparr>) m1 else m1);
                 (ret, m3) = send WIFI_VIF_INDEX_DEFAULT EV_CONNECT_CMD 0 (Some (P_STA_CFG (cfg\<lparr>flush_cache_req := flush\<rparr>)))
                   (mgmt_wait_queue_flush m2)
             in if ret < 0 then (- 5, m3) else (0, m3))"

definition wifi_management_connect ::
    "bool \<Rightarrow> bool \<Rightarrow> (mgr \<Rightarrow> mgr) \<Rightarrow> (mgr \<Rightarrow> mgr) \<Rightarrow> bytes option \<Rightarrow> bytes option \<Rightarrow> bool \<Rightarrow> mgr \<Rightarrow> int \<times> mgr" where
  "wifi_management_connect opened alloc run run' name password blocked m =
    (case name of
       None \<Rightarrow> (- 1, m)
     | Some n \<Rightarrow>
       let pw = password_of password; prev = sta_cfg_of (vif m WIFI_VIF_INDEX_DEFAULT);
           cfg = zero_cfg\<lparr>ssid := n, passphrase := pw, channel := 0xFF, conn_blocked := blocked\<rparr>
       in if \<not> opened \<or> length n > WIFI_SSID_MAX_LEN then (- 1, m)
          else if pw \<noteq> [] \<and> (length pw > WPAS_MAX_PASSPHRASE_LEN
            \<or> (length pw < WPAS_MIN_PASSPHRASE_LEN \<and> length pw \<noteq> WPAS_WEP40_ASCII_LEN)) then (- 2, m)
          else let (ret, m1) = connect_request alloc cfg (n \<noteq> ssid prev) (n \<noteq> ssid prev \<or> pw \<noteq> passphrase prev) m
               in if ret \<noteq> 0 \<or> \<not> blocked then (ret, m1)
                  else let (r, m2) = wait_for WIFI_VIF_INDEX_DEFAULT WAIT_CONN_DONE run m1;
                           m3 = upd_vif WIFI_VIF_INDEX_DEFAULT (\<lambda>w. w\<lparr>last_reason := ucast r\<rparr>) m2
                       in if r = 0xFFFF then (uint r, snd (wifi_management_disconnect opened run' m3)) else (uint r, m3))"

definition wifi_management_connect_with_bssid ::
    "bool \<Rightarrow> bool \<Rightarrow> (mgr \<Rightarrow> mgr) \<Rightarrow> bytes option \<Rightarrow> bytes option \<Rightarrow> bool \<Rightarrow> mgr \<Rightarrow> int \<times> mgr" where
  "wifi_management_connect_with_bssid opened alloc run addr password blocked m =
    (case addr of
       None \<Rightarrow> (- 1, m)
     | Some a \<Rightarrow>
       let pw = password_of password; prev = sta_cfg_of (vif m WIFI_VIF_INDEX_DEFAULT);
           cfg = zero_cfg\<lparr>bssid := a, conn_with_bssid := True, passphrase := pw, channel := 0xFF, conn_blocked := blocked\<rparr>
       in if \<not> opened then (- 1, m)
          else if pw \<noteq> [] \<and> (length pw > WPAS_MAX_PASSPHRASE_LEN \<or> length pw < WPAS_MIN_PASSPHRASE_LEN) then (- 2, m)
          else let (ret, m1) = connect_request alloc cfg (a \<noteq> bssid prev) (pw \<noteq> passphrase prev) m
               in if ret \<noteq> 0 \<or> \<not> blocked then (ret, m1)
                  else let (r, m2) = wait_for WIFI_VIF_INDEX_DEFAULT WAIT_CONN_DONE run m1 in (uint r, m2))"

section \<open>Access point, monitor and modes\<close>

datatype wifi_ap_auth_mode_t = AUTH_MODE_OPEN | AUTH_MODE_WEP | AUTH_MODE_WPA | AUTH_MODE_WPA2 | AUTH_MODE_WPA_WPA2
  | AUTH_MODE_WPA2_WPA3 | AUTH_MODE_WPA3 | AUTH_MODE_UNKNOWN

definition wifi_wpa_auth_mode_2_akm :: "wifi_ap_auth_mode_t \<Rightarrow> u32" where
  "wifi_wpa_auth_mode_2_akm a = (case a of
     AUTH_MODE_OPEN \<Rightarrow> CO_BIT MAC_AKM_NONE
   | AUTH_MODE_WEP \<Rightarrow> CO_BIT MAC_AKM_PRE_RSN
   | AUTH_MODE_WPA \<Rightarrow> CO_BIT MAC_AKM_PSK OR CO_BIT MAC_AKM_PRE_RSN
   | AUTH_MODE_WPA2 \<Rightarrow> CO_BIT MAC_AKM_PSK
   | AUTH_MODE_WPA_WPA2 \<Rightarrow> CO_BIT MAC_AKM_PSK
   | AUTH_MODE_WPA2_WPA3 \<Rightarrow> CO_BIT MAC_AKM_PSK OR CO_BIT MAC_AKM_SAE
   | AUTH_MODE_WPA3 \<Rightarrow> CO_BIT MAC_AKM_SAE
   | AUTH_MODE_UNKNOWN \<Rightarrow> CO_BIT MAC_AKM_NONE)"

definition wifi_management_ap_stop :: "bool \<Rightarrow> mgr \<Rightarrow> int \<times> mgr" where
  "wifi_management_ap_stop opened m =
    (if \<not> opened then (- 1, m)
     else if concurrent m
     then let (ret, m1) = switch_mode_cmd WIFI_VIF_INDEX_SOFTAP_MODE WVIF_UNKNOWN m in (if ret \<noteq> 0 then - 2 else 0, m1)
     else let (ret, m1) = switch_mode_cmd WIFI_VIF_INDEX_DEFAULT WVIF_STA m in (if ret \<noteq> 0 then - 1 else 0, m1))"

text \<open>Where the access point runs and on which channel: beside a connected station on its channel.\<close>

definition ap_place :: "u8 \<Rightarrow> u32 \<Rightarrow> mgr \<Rightarrow> (int + nat \<times> u32) \<times> mgr" where
  "ap_place cur_channel chan m =
    (let w = vif m WIFI_VIF_INDEX_STA_MODE
     in if \<not> concurrent m then (Inr (WIFI_VIF_INDEX_DEFAULT, chan), m)
        else if wvif_type w = WVIF_STA \<and> sta_state w \<notin> {STA_IDLE, STA_WPS, STA_SCAN}
        then if cur_channel = 0 then (Inl (- 4), m)
             else (Inr (WIFI_VIF_INDEX_SOFTAP_MODE, if chan \<noteq> ucast cur_channel then ucast cur_channel else chan), m)
        else let (ret, m1) = switch_mode_cmd WIFI_VIF_INDEX_STA_MODE WVIF_STA m
             in (if ret \<noteq> 0 then Inl (- 5) else Inr (WIFI_VIF_INDEX_SOFTAP_MODE, chan), m1))"

definition ap_request :: "bool \<Rightarrow> (mgr \<Rightarrow> mgr) \<Rightarrow> nat \<Rightarrow> ap_cfg \<Rightarrow> mgr \<Rightarrow> int \<times> mgr" where
  "ap_request alloc run i cfg m =
    (let (ret, m1) = switch_mode_cmd i WVIF_AP m
     in if ret \<noteq> 0 then (- 6, m1)
        else if \<not> alloc then (- 7, m1)
        else let (ret, m2) = send i EV_START_AP_CMD 0 (Some (P_AP_CFG cfg)) (mgmt_wait_queue_flush m1)
             in if ret \<noteq> 0 then (- 8, m2)
                else let (r, m3) = wait_for i WAIT_AP_START_DONE run m2 in (if r \<noteq> 0 then - 9 else 0, m3))"

definition wifi_management_ap_start ::
    "bool \<Rightarrow> bool \<Rightarrow> (mgr \<Rightarrow> mgr) \<Rightarrow> u8 \<Rightarrow> bytes option \<Rightarrow> bytes option \<Rightarrow> u32 \<Rightarrow> wifi_ap_auth_mode_t \<Rightarrow> bool \<Rightarrow> mgr \<Rightarrow> int \<times> mgr" where
  "wifi_management_ap_start opened alloc run cur_channel name password chan auth_mode hide m =
    (case name of
       None \<Rightarrow> (- 1, m)
     | Some n \<Rightarrow>
       let pw = password_of password; auth = (if pw = [] then AUTH_MODE_OPEN else auth_mode)
       in if \<not> opened \<or> length n > WIFI_SSID_MAX_LEN then (- 1, m)
          else if pw \<noteq> [] \<and> (length pw > WPAS_MAX_PASSPHRASE_LEN \<or> length pw < WPAS_MIN_PASSPHRASE_LEN) then (- 2, m)
          else if chan > 14 \<or> chan < 1 then (- 3, m)
          else case ap_place cur_channel chan (snd (wifi_management_ap_stop opened m)) of
            (Inl err, m1) \<Rightarrow> (err, m1)
          | (Inr (i, c), m1) \<Rightarrow>
              ap_request alloc run i \<lparr>ap_ssid = n, ap_channel = ucast c, ap_hidden = hide,
                ap_passphrase = (if auth = AUTH_MODE_OPEN then [] else pw), ap_akm = wifi_wpa_auth_mode_2_akm auth, ap_mfp = 0\<rparr> m1)"

definition wifi_management_sta_start :: "bool \<Rightarrow> mgr \<Rightarrow> int \<times> mgr" where
  "wifi_management_sta_start opened m =
    (if \<not> opened then (- 1, m)
     else let (ret, m1) = switch_mode_cmd WIFI_VIF_INDEX_DEFAULT WVIF_STA m in (if ret \<noteq> 0 then - 1 else 0, m1))"

definition wifi_management_monitor_start :: "bool \<Rightarrow> bool \<Rightarrow> (mgr \<Rightarrow> mgr) \<Rightarrow> u8 \<Rightarrow> mgr \<Rightarrow> int \<times> mgr" where
  "wifi_management_monitor_start opened alloc run chan m =
    (if \<not> opened then (- 1, m)
     else let (ret, m1) = (if wvif_type (vif m WIFI_VIF_INDEX_DEFAULT) = WVIF_MONITOR
                           then switch_mode_cmd WIFI_VIF_INDEX_DEFAULT WVIF_STA m else (0, m))
     in if ret \<noteq> 0 then (- 1, m1)
     else let (ret, m2) = (if concurrent m1 then switch_mode_cmd WIFI_VIF_INDEX_SOFTAP_MODE WVIF_UNKNOWN m1 else (0, m1))
     in if ret \<noteq> 0 then (- 2, m2)
     else let (ret, m3) = switch_mode_cmd WIFI_VIF_INDEX_DEFAULT WVIF_MONITOR m2
     in if ret \<noteq> 0 then (- 3, m3)
     else if \<not> alloc then (- 4, m3)
     else let (ret, m4) = send WIFI_VIF_INDEX_DEFAULT EV_MONITOR_START_CMD (type_num WVIF_MONITOR) (Some (P_MONITOR chan)) m3
     in if ret \<noteq> 0 then (- 5, m4)
     else let (r, m5) = wait_for WIFI_VIF_INDEX_DEFAULT WAIT_MONITOR_START_DONE run (mgmt_wait_queue_flush m4)
     in (if r \<noteq> 0 then - 6 else 0, m5))"

definition wifi_management_concurrent_set :: "bool \<Rightarrow> bool \<Rightarrow> mgr \<Rightarrow> int \<times> mgr" where
  "wifi_management_concurrent_set opened enable m =
    (if \<not> opened then (- 1, m)
     else (0, if enable then m\<lparr>concurrent := True\<rparr> else (snd (wifi_management_ap_stop opened m))\<lparr>concurrent := False\<rparr>))"

definition wifi_management_concurrent_get :: "mgr \<Rightarrow> bool" where
  "wifi_management_concurrent_get m = concurrent m"

text \<open>The threshold goes to the MAC.\<close>

definition wifi_management_roaming_set :: "bool \<Rightarrow> mgr \<Rightarrow> mgr" where
  "wifi_management_roaming_set enable = upd_sm WIFI_VIF_INDEX_DEFAULT (\<lambda>s. s\<lparr>preroam_enable := enable\<rparr>)"

definition wifi_management_roaming_get :: "mgr \<Rightarrow> bool" where
  "wifi_management_roaming_get m = preroam_enable (sm m WIFI_VIF_INDEX_DEFAULT)"

text \<open>Start and end of the manager; the interfaces are set up by \<^verbatim>\<open>wifi_netlink_start\<close>.\<close>

definition wifi_management_init :: "bool \<Rightarrow> mgr \<Rightarrow> mgr" where
  "wifi_management_init auto m =
    (let m1 = m\<lparr>sm := \<lambda>_. zero_sm, waitq := [], eloop := wifi_eloop_init []\<rparr>;
         m2 = send_event WIFI_VIF_INDEX_DEFAULT EV_INIT m1
     in if auto
        then send_event WIFI_VIF_INDEX_DEFAULT EV_AUTO_CONNECT_CMD
          (send_message WIFI_VIF_INDEX_DEFAULT EV_SWITCH_MODE_CMD (type_num WVIF_STA) None m2)
        else m2)"

definition wifi_management_deinit :: "mgr \<Rightarrow> mgr" where
  "wifi_management_deinit m = m\<lparr>eloop := wifi_eloop_terminate (eloop m)\<rparr>"

end
