(* ===== verification/Wifi_Manager_Inv.thy ===== *)
theory Wifi_Manager_Inv
  imports Wifi_Api
begin

text \<open>
  What holds of the connection manager in every state it can reach, under any order of messages
  and timeouts: the state the rest of the firmware reads is that of the machine, timers run only
  in the states that use them, and retries are counted down without wrapping.
\<close>

section \<open>What the elementary steps change\<close>

definition pending :: "mgmt_handler \<Rightarrow> mgr \<Rightarrow> nat" where
  "pending h m = length (filter (\<lambda>t. to_handler t = h) (timeouts (eloop m)))"

text \<open>Timers belong to the default interface.\<close>

definition timers_ok :: "mgr \<Rightarrow> bool" where
  "timers_ok m \<longleftrightarrow> list_all (\<lambda>t. to_data t = sm_ctx 0 \<and> to_user t = 0) (timeouts (eloop m))"

text \<open>
  Messages other tasks send: the second interface is switched between access point and unused
  only, and is not initialised by a message; the first is never switched to unused.
\<close>

definition message_ok :: "mgmt_param eloop_message_t \<Rightarrow> bool" where
  "message_ok msg \<longleftrightarrow>
    (let event = ELOOP_EVENT_GET_EV (event_id msg); i = ELOOP_EVENT_GET_VIF (event_id msg);
         t = vif_type_of (msg_reason msg); switch = (event = event_num EV_SWITCH_MODE_CMD)
     in if i = 0 then switch \<longrightarrow> t \<noteq> WVIF_UNKNOWN
        else event \<noteq> event_num EV_INIT \<and> (switch \<longrightarrow> t \<in> {WVIF_UNKNOWN, WVIF_AP}))"

definition queue_ok :: "mgr \<Rightarrow> bool" where
  "queue_ok m \<longleftrightarrow> list_all message_ok (task_queue (eloop m))"

named_theorems prim "effects of the elementary steps"

lemma upd_sm_prim [prim]:
  "sm (upd_sm i f m) = (sm m)(i := f (sm m i))" "vif (upd_sm i f m) = vif m" "eloop (upd_sm i f m) = eloop m"
  "waitq (upd_sm i f m) = waitq m" "calls (upd_sm i f m) = calls m" "concurrent (upd_sm i f m) = concurrent m"
  by (simp_all add: upd_sm_def)

lemma upd_vif_prim [prim]:
  "sm (upd_vif i g m) = sm m" "vif (upd_vif i g m) = (vif m)(i := g (vif m i))" "eloop (upd_vif i g m) = eloop m"
  "waitq (upd_vif i g m) = waitq m" "calls (upd_vif i g m) = calls m" "concurrent (upd_vif i g m) = concurrent m"
  by (simp_all add: upd_vif_def)

lemma log_call_prim [prim]:
  "sm (log_call c m) = sm m" "vif (log_call c m) = vif m" "eloop (log_call c m) = eloop m" "waitq (log_call c m) = waitq m"
  "calls (log_call c m) = calls m @ [c]" "concurrent (log_call c m) = concurrent m"
  by (simp_all add: log_call_def)

lemma post_wait_prim [prim]:
  "sm (post_wait i ev r m) = sm m" "vif (post_wait i ev r m) = vif m" "eloop (post_wait i ev r m) = eloop m"
  "calls (post_wait i ev r m) = calls m" "concurrent (post_wait i ev r m) = concurrent m"
  by (simp_all add: post_wait_def)

lemma loop_prim [prim]:
  "sm (upd_loop f m) = sm m" "vif (upd_loop f m) = vif m" "eloop (upd_loop f m) = snd (f (eloop m))"
  "waitq (upd_loop f m) = waitq m" "calls (upd_loop f m) = calls m" "concurrent (upd_loop f m) = concurrent m"
  by (simp_all add: upd_loop_def)

lemma cancel_prim [prim]:
  "sm (cancel h m) = sm m" "vif (cancel h m) = vif m" "waitq (cancel h m) = waitq m" "calls (cancel h m) = calls m"
  "concurrent (cancel h m) = concurrent m" "terminate (eloop (cancel h m)) = terminate (eloop m)"
  "task_queue (eloop (cancel h m)) = task_queue (eloop m)"
  by (simp_all add: cancel_def prim eloop_timeout_cancel_def)

lemma register_prim [prim]:
  "sm (register env k h i m) = sm m" "vif (register env k h i m) = vif m" "waitq (register env k h i m) = waitq m"
  "calls (register env k h i m) = calls m" "concurrent (register env k h i m) = concurrent m"
  "terminate (eloop (register env k h i m)) = terminate (eloop m)"
  "task_queue (eloop (register env k h i m)) = task_queue (eloop m)"
  by (simp_all add: register_def prim eloop_timeout_register_def)

lemma send_prim [prim]:
  "sm (send_event i ev m) = sm m" "vif (send_event i ev m) = vif m" "waitq (send_event i ev m) = waitq m"
  "calls (send_event i ev m) = calls m" "concurrent (send_event i ev m) = concurrent m"
  "terminate (eloop (send_event i ev m)) = terminate (eloop m)" "timeouts (eloop (send_event i ev m)) = timeouts (eloop m)"
  "sm (send_message i ev r p m) = sm m" "vif (send_message i ev r p m) = vif m" "waitq (send_message i ev r p m) = waitq m"
  "calls (send_message i ev r p m) = calls m" "concurrent (send_message i ev r p m) = concurrent m"
  "terminate (eloop (send_message i ev r p m)) = terminate (eloop m)"
  "timeouts (eloop (send_message i ev r p m)) = timeouts (eloop m)"
  by (simp_all add: send_event_def send_message_def prim)

text \<open>Timers and messages.\<close>

lemma filter_insert_before:
  "length (filter P (insert_before lt x xs)) = length (filter P xs) + (if P x then 1 else 0)"
  by (induction xs) auto

lemma pending_prim [prim]:
  "pending h (upd_sm i f m) = pending h m" "pending h (upd_vif i g m) = pending h m" "pending h (log_call c m) = pending h m"
  "pending h (post_wait i w r m) = pending h m" "pending h (send_event i ev m) = pending h m"
  "pending h (send_message i ev r p m) = pending h m"
  by (simp_all add: pending_def prim)

lemma timers_prim [prim]:
  "timers_ok (upd_sm i f m) = timers_ok m" "timers_ok (upd_vif i g m) = timers_ok m" "timers_ok (log_call c m) = timers_ok m"
  "timers_ok (post_wait i w r m) = timers_ok m" "timers_ok (send_event i ev m) = timers_ok m"
  "timers_ok (send_message i ev r p m) = timers_ok m" "timers_ok m \<Longrightarrow> timers_ok (cancel h m)"
  "timers_ok m \<Longrightarrow> timers_ok (register env k h 0 m)"
  by (simp_all add: timers_ok_def prim cancel_def register_def eloop_timeout_cancel_def eloop_timeout_register_def
      list_all_iff)

lemma pending_cancel [prim]:
  "\<not> terminate (eloop m) \<Longrightarrow> pending h (cancel h' m) = (if h = h' then 0 else pending h m)"
  by (auto simp: pending_def cancel_def prim eloop_timeout_cancel_def cancels_def filter_empty_conv
      intro!: arg_cong [where f = length] filter_cong)

lemma pending_register [prim]:
  "\<not> terminate (eloop m) \<Longrightarrow>
     pending h (register env k h' i m) = pending h m + (if mem env \<and> h = h' then 1 else 0)"
  by (simp add: pending_def register_def prim eloop_timeout_register_def filter_insert_before)

lemma event_num_lt: "event_num ev < 0x1000"
  by (cases ev) (simp_all add: event_num_def all_events_def)

lemma num_event_num [simp]: "num_event (event_num ev) = Some ev"
  by (cases ev) (simp_all add: event_num_def num_event_def all_events_def)

lemma event_num_inject [simp]: "event_num ev = event_num ev' \<longleftrightarrow> ev = ev'"
  by (metis num_event_num option.inject)

lemma event_id_default [simp]:
  "ELOOP_EVENT_GET_VIF (ELOOP_EVENT_ID 0 (event_num ev)) = 0" "ELOOP_EVENT_GET_EV (ELOOP_EVENT_ID 0 (event_num ev)) = event_num ev"
  "ELOOP_EVENT_GET_VIF (ELOOP_EVENT_ID 1 (event_num ev)) = 1" "ELOOP_EVENT_GET_EV (ELOOP_EVENT_ID 1 (event_num ev)) = event_num ev"
  by (simp_all add: event_id_roundtrip event_num_lt)

lemma queue_prim [prim]:
  "queue_ok (upd_sm i f m) = queue_ok m" "queue_ok (upd_vif i g m) = queue_ok m" "queue_ok (log_call c m) = queue_ok m"
  "queue_ok (post_wait i w r m) = queue_ok m" "queue_ok (cancel h m) = queue_ok m" "queue_ok (register env k h i m) = queue_ok m"
  by (simp_all add: queue_ok_def prim)

lemma queue_send [prim]:
  "queue_ok m \<Longrightarrow> ev \<noteq> EV_SWITCH_MODE_CMD \<Longrightarrow> queue_ok (send_event 0 ev m)"
  "queue_ok m \<Longrightarrow> ev \<noteq> EV_SWITCH_MODE_CMD \<Longrightarrow> queue_ok (send_message 0 ev r p m)"
  "queue_ok m \<Longrightarrow> queue_ok (send_message WIFI_VIF_INDEX_SOFTAP_MODE EV_AP_SWITCH_CHNL_CMD r p m)"
  by (simp_all add: queue_ok_def send_event_def send_message_def prim eloop_event_send_def eloop_message_send_def
      sys_task_post_def message_ok_def WIFI_VIF_INDEX_SOFTAP_MODE_def)

section \<open>The invariant\<close>

fun mirror :: "conn_state \<Rightarrow> sta_state_t" where
  "mirror IDLE = STA_IDLE"
| "mirror WPS = STA_WPS"
| "mirror SCAN = STA_SCAN"
| "mirror CONNECT = STA_CONNECT"
| "mirror HANDSHAKE = STA_HANDSHAKE"
| "mirror DHCP = STA_IP_GETTING"
| "mirror CONNECTED = STA_CONNECTED"

definition station_ok :: "mgr \<Rightarrow> bool" where
  "station_ok m \<longleftrightarrow> (let s = sm m 0 in
     sm_state s \<noteq> WPS \<and> sta_state (vif m 0) = mirror (sm_state s)
   \<and> (\<not> init s \<longrightarrow> sm_state s = IDLE)
   \<and> pending H_CONNECT_RETRY m \<le> 1
   \<and> (pending H_CONNECT_RETRY m > 0 \<longrightarrow> retry_count s > 0 \<and> sm_state s \<in> {SCAN, CONNECT, HANDSHAKE, DHCP})
   \<and> pending H_DHCP_POLLING m \<le> 1
   \<and> (pending H_DHCP_POLLING m > 0 \<longrightarrow> sm_state s \<in> {DHCP, CONNECTED})
   \<and> (pending H_LINK_STATUS_POLLING m > 0 \<longrightarrow> sm_state s = CONNECTED))"

definition no_station :: "mgr \<Rightarrow> bool" where
  "no_station m \<longleftrightarrow> (\<forall>h. pending h m = 0) \<and> sta_state (vif m 0) = STA_IDLE \<and> sm_state (sm m 0) \<in> {IDLE, WPS}"

definition common_ok :: "mgr \<Rightarrow> bool" where
  "common_ok m \<longleftrightarrow> vif_idx (sm m 0) = 0 \<and> retry_count (sm m 0) \<le> retry_limit (sm m 0) \<and> timers_ok m \<and> queue_ok m
     \<and> wvif_type (vif m 0) \<noteq> WVIF_UNKNOWN \<and> wvif_type (vif m 1) \<in> {WVIF_UNKNOWN, WVIF_AP}"

definition mgr_ok :: "mgr \<Rightarrow> bool" where
  "mgr_ok m \<longleftrightarrow> common_ok m \<and> (if wvif_type (vif m 0) = WVIF_STA then station_ok m else no_station m)"

lemmas mgr_ok_defs = mgr_ok_def common_ok_def station_ok_def no_station_def

lemmas mgr_defs = Let_def vx_def sm_idle_def sm_scan_def sm_connect_def netlink_connect_req_def sm_handshake_def sm_dhcp_def
  sm_connected_def give_up_def retry_or_give_up_def set_last_reason_def copy_cfg_def scan_cmd_def mgmt_post_conn_done_def
  mgmt_post_disconn_done_def mgmt_post_scan_done_def mgmt_connect_retry_param_set_def mgmt_preroam_rollback_def cfg_upd_def
  stop_wpa_def mgmt_link_is_ongoing_def

lemma registered_pending:
  "timers_ok m \<Longrightarrow> eloop_timeout_is_registered h (sm_ctx 0) 0 (eloop m) \<longleftrightarrow> pending h m > 0"
  by (auto simp: eloop_timeout_is_registered_def pending_def timers_ok_def list_all_iff list_ex_iff filter_empty_conv)

text \<open>What entering a state does, on a running loop.\<close>

lemma sm_idle_effect [simp]:
  assumes "vif_idx (sm m 0) = 0" and "\<not> terminate (eloop m)"
  shows "sm (sm_idle 0 m) = (sm m)(0 := (sm m 0)\<lparr>sm_state := IDLE, delayed_connect_retry := False\<rparr>)"
    and "vif (sm_idle 0 m) = (vif m)(0 := (vif m 0)\<lparr>sta_state := STA_IDLE\<rparr>)"
    and "pending h (sm_idle 0 m) = 0"
    and "terminate (eloop (sm_idle 0 m)) = terminate (eloop m)"
    and "queue_ok (sm_idle 0 m) = queue_ok m"
    and "timers_ok m \<Longrightarrow> timers_ok (sm_idle 0 m)"
  using assms by (cases h; simp add: mgr_defs prim)+

lemma sm_scan_effect [simp]:
  assumes "vif_idx (sm m 0) = 0" and "\<not> terminate (eloop m)"
  shows "sm (sm_scan env 0 m) = (sm m)(0 := (sm m 0)\<lparr>sm_state := SCAN\<rparr>)"
    and "vif (sm_scan env 0 m) = (vif m)(0 := (vif m 0)\<lparr>sta_state := STA_SCAN\<rparr>)"
    and "pending h (sm_scan env 0 m) = (if h = H_CONNECT_RETRY then pending h m else 0)"
    and "terminate (eloop (sm_scan env 0 m)) = terminate (eloop m)"
    and "queue_ok m \<Longrightarrow> queue_ok (sm_scan env 0 m)"
    and "timers_ok m \<Longrightarrow> timers_ok (sm_scan env 0 m)"
  using assms by (cases h; simp add: mgr_defs prim)+

text \<open>Steps that leave the link alone.\<close>

definition same_link :: "mgr \<Rightarrow> mgr \<Rightarrow> bool" where
  "same_link m m' \<longleftrightarrow>
     vif_idx (sm m' 0) = vif_idx (sm m 0) \<and> init (sm m' 0) = init (sm m 0) \<and> sm_state (sm m' 0) = sm_state (sm m 0)
   \<and> retry_count (sm m' 0) = retry_count (sm m 0) \<and> retry_limit (sm m' 0) = retry_limit (sm m 0)
   \<and> (\<forall>h. pending h m' = pending h m) \<and> terminate (eloop m') = terminate (eloop m)
   \<and> (timers_ok m \<longrightarrow> timers_ok m') \<and> (queue_ok m \<longrightarrow> queue_ok m')
   \<and> (\<forall>i. wvif_type (vif m' i) = wvif_type (vif m i)) \<and> sta_state (vif m' 0) = sta_state (vif m 0)"

lemma same_link_refl [simp, intro]: "same_link m m"
  by (simp add: same_link_def)

lemma same_link_ok:
  assumes "same_link m m'" and "mgr_ok m"
  shows "mgr_ok m'"
proof -
  have "station_ok m' = station_ok m" "no_station m' = no_station m" "common_ok m \<Longrightarrow> common_ok m'"
    "wvif_type (vif m' 0) = wvif_type (vif m 0)"
    using assms(1) unfolding same_link_def station_ok_def no_station_def common_ok_def Let_def by simp_all
  then show ?thesis using assms(2) by (simp add: mgr_ok_def)
qed

lemma same_link_steps [simp, intro]:
  "same_link m (log_call c m)" "same_link m (mgmt_post_conn_done v r m)" "same_link m (mgmt_post_disconn_done v m)"
  "same_link m (mgmt_post_scan_done v r m)" "same_link m (mgmt_link_is_ongoing i m)" "same_link m (scan_cmd env i m)"
  "same_link m (set_last_reason i m)" "same_link m (stop_wpa v m)" "same_link m (copy_cfg i m)"
  by (auto simp: same_link_def mgr_defs prim split: option.split mgmt_param.split)

lemma same_link_roam:
  "vif_idx (sm m 0) = 0 \<Longrightarrow> same_link m (mgmt_preroam_rollback 0 m)"
  "vif_idx (sm m 0) = 0 \<Longrightarrow> same_link m (mgmt_connected_scan_done env 0 m)"
  by (auto simp: same_link_def mgr_defs mgmt_connected_scan_done_def prim split: option.split prod.split)

lemma same_link_trans: "same_link m m' \<Longrightarrow> same_link m' m'' \<Longrightarrow> same_link m m''"
  by (simp add: same_link_def)

text \<open>Entering a state keeps the invariant, from the states that lead there.\<close>

definition running :: "mgr \<Rightarrow> bool" where
  "running m \<longleftrightarrow> common_ok m \<and> station_ok m \<and> \<not> terminate (eloop m) \<and> wvif_type (vif m 0) = WVIF_STA \<and> init (sm m 0)"

lemma runningI: "mgr_ok m \<Longrightarrow> \<not> terminate (eloop m) \<Longrightarrow> wvif_type (vif m 0) = WVIF_STA \<Longrightarrow> init (sm m 0) \<Longrightarrow> running m"
  by (simp add: running_def mgr_ok_def)

lemma station_okI: "common_ok m \<and> station_ok m \<and> wvif_type (vif m 0) = WVIF_STA \<Longrightarrow> mgr_ok m"
  by (simp add: mgr_ok_def)

lemma running_ok: "running m \<Longrightarrow> mgr_ok m"
  by (simp add: running_def mgr_ok_def)

lemma running_idx: "running m \<Longrightarrow> vif_idx (sm m 0) = 0"
  by (simp add: running_def common_ok_def)

lemma same_link_running: "same_link m m' \<Longrightarrow> running m \<Longrightarrow> running m'"
  using same_link_ok [of m m'] by (simp add: running_def same_link_def mgr_ok_def)

lemmas running_defs = running_def common_ok_def station_ok_def Let_def

lemma idle_ok: "running m \<Longrightarrow> mgr_ok (sm_idle 0 m)"
  by (rule station_okI) (auto simp: running_defs Let_def)

lemma scan_ok: "running m \<Longrightarrow> mgr_ok (sm_scan env 0 m)"
  by (rule station_okI) (auto simp: running_defs Let_def)

lemma connect_ok: "running m \<Longrightarrow> sm_state (sm m 0) = SCAN \<Longrightarrow> mgr_ok (sm_connect env 0 m)"
  by (rule station_okI) (auto simp: running_defs mgr_defs prim)

lemma handshake_ok: "running m \<Longrightarrow> sm_state (sm m 0) = CONNECT \<Longrightarrow> mgr_ok (sm_handshake 0 m)"
  by (rule station_okI) (auto simp: running_defs mgr_defs prim)

lemma dhcp_ok: "running m \<Longrightarrow> sm_state (sm m 0) = HANDSHAKE \<Longrightarrow> mgr_ok (sm_dhcp env 0 m)"
  by (rule station_okI) (auto simp: running_defs mgr_defs prim)

lemma connected_ok:
  "running m \<Longrightarrow> sm_state (sm m 0) = DHCP \<Longrightarrow> mgr_ok (cancel H_CONNECT_RETRY (sm_connected env 0 m))"
  by (rule station_okI) (auto simp: running_defs mgr_defs prim)

lemma retry_ok:
  "running m \<Longrightarrow> sm_state (sm m 0) = SCAN \<Longrightarrow> retry_count (sm m 0) > 0 \<Longrightarrow>
     mgr_ok (mgmt_register_delayed_connect_retry env 0 m)"
  by (rule station_okI) (auto simp: running_defs Let_def prim mgmt_register_delayed_connect_retry_def registered_pending)

lemma same_link_delayed: "same_link m (upd_sm 0 (\<lambda>s. s\<lparr>delayed_connect_retry := b\<rparr>) m)"
  by (simp add: same_link_def prim)

lemma running_scan: "running m \<Longrightarrow> running (sm_scan env 0 m)"
  by (rule runningI [OF scan_ok]) (simp_all add: running_defs)

lemma give_up_ok:
  assumes "running m"
  shows "mgr_ok (give_up 0 m)"
proof -
  have "running (mgmt_preroam_rollback 0 m)"
    using assms running_idx same_link_roam(1) same_link_running by blast
  then show ?thesis
    unfolding give_up_def Let_def by (rule idle_ok [OF same_link_running [OF same_link_steps(2)]])
qed

lemma retry_or_give_up_ok:
  assumes "running m"
  shows "mgr_ok (retry_or_give_up env 0 m)"
proof (cases "retry_count (sm m 0) > 0")
  case True
  have d: "running (upd_sm 0 (\<lambda>s. s\<lparr>delayed_connect_retry := True\<rparr>) m)"
    by (rule same_link_running [OF same_link_delayed assms])
  have "mgr_ok (mgmt_register_delayed_connect_retry env 0
      (sm_scan env 0 (upd_sm 0 (\<lambda>s. s\<lparr>delayed_connect_retry := True\<rparr>) m)))"
    using True d running_idx [OF d]
    by (intro retry_ok running_scan) (simp_all add: prim running_def)
  then show ?thesis using True by (simp add: retry_or_give_up_def)
next
  case False
  then show ?thesis using assms by (simp add: retry_or_give_up_def give_up_ok)
qed

lemma running_retry_params: "running m \<Longrightarrow> pending H_CONNECT_RETRY m = 0 \<Longrightarrow> running (mgmt_connect_retry_param_set 0 b m)"
  by (simp add: running_defs mgmt_connect_retry_param_set_def prim Let_def WIFI_MGMT_ROAMING_RETRY_LIMIT_def
      WIFI_MGMT_CONNECT_RETRY_LIMIT_def)

lemma no_retry_pending:
  "running m \<Longrightarrow> sm_state (sm m 0) \<in> {IDLE, CONNECTED} \<Longrightarrow> pending H_CONNECT_RETRY m = 0"
  by (auto simp: running_defs Let_def)

lemma rescan_ok:
  assumes "running m" and "sm_state (sm m 0) \<in> {IDLE, CONNECTED}"
  shows "mgr_ok (sm_scan env 0 (mgmt_connect_retry_param_set 0 b m))"
  using assms by (intro scan_ok running_retry_params no_retry_pending)

section \<open>Messages to the station\<close>

lemma running_steps:
  "running m \<Longrightarrow> running (log_call c m)" "running m \<Longrightarrow> running (set_last_reason i m)" "running m \<Longrightarrow> running (stop_wpa v m)"
  "running m \<Longrightarrow> running (copy_cfg i m)"
  using same_link_running same_link_steps by blast+

lemma same_link_state: "same_link m m' \<Longrightarrow> sm_state (sm m' 0) = sm_state (sm m 0)"
  by (simp add: same_link_def)

lemma state_steps [simp]:
  "sm_state (sm (copy_cfg i m) 0) = sm_state (sm m 0)" "sm_state (sm (set_last_reason i m) 0) = sm_state (sm m 0)"
  "sm_state (sm (stop_wpa v m) 0) = sm_state (sm m 0)" "sm_state (sm (log_call c m) 0) = sm_state (sm m 0)"
  by (simp_all add: same_link_state)

lemma same_link_step_ok: "running m \<Longrightarrow> same_link m m' \<Longrightarrow> mgr_ok m'"
  using same_link_ok running_ok by blast

lemma step_init_ok:
  assumes "mgr_ok m" and "\<not> terminate (eloop m)" and "wvif_type (vif m 0) = WVIF_STA"
  shows "mgr_ok (step_init 0 m)"
  using assms unfolding step_init_def
  by (intro station_okI) (auto simp: mgr_ok_def common_ok_def station_ok_def Let_def prim mgmt_connect_retry_param_set_def
      zero_sm_def WIFI_MGMT_CONNECT_RETRY_LIMIT_def)

lemma auto_connect_ok:
  assumes "running m" and "sm_state (sm m 0) = IDLE"
  shows "mgr_ok (auto_connect env 0 m)"
proof (cases "loaded env")
  case None
  then show ?thesis using assms by (simp add: auto_connect_def idle_ok)
next
  case (Some l)
  have "same_link m (upd_vif 0 (\<lambda>w. (cfg_upd (\<lambda>c. (fst l c)\<lparr>conn_blocked := conn_blocked c\<rparr>) w)\<lparr>history_ip := snd l\<rparr>) m)"
    by (simp add: same_link_def prim cfg_upd_def)
  then show ?thesis
    using Some assms same_link_running same_link_state
    by (auto simp: auto_connect_def vx_def running_idx split_beta intro!: rescan_ok)
qed

lemma step_idle_ok:
  assumes "running m" and "sm_state (sm m 0) = IDLE"
  shows "mgr_ok (step_idle env 0 ev m)"
  using assms auto_connect_ok [OF assms] rescan_ok running_steps(4) same_link_step_ok
  by (auto simp: step_idle_def)

lemma step_scan_ok:
  assumes "running m" and "sm_state (sm m 0) = SCAN"
  shows "mgr_ok (step_scan env 0 ev m)"
  using assms idle_ok connect_ok retry_ok give_up_ok same_link_step_ok by (auto simp: step_scan_def)

lemma step_connect_ok:
  assumes "running m" and "sm_state (sm m 0) = CONNECT"
  shows "mgr_ok (step_connect env 0 ev m)"
  using assms idle_ok handshake_ok retry_or_give_up_ok running_steps same_link_step_ok
  by (auto simp: step_connect_def Let_def)

lemma link_lost_ok: "running m \<Longrightarrow> mgr_ok (link_lost env 0 b m)"
  by (auto simp: link_lost_def Let_def intro!: retry_or_give_up_ok running_steps)

lemma step_handshake_ok:
  assumes "running m" and "sm_state (sm m 0) = HANDSHAKE"
  shows "mgr_ok (step_handshake env 0 ev m)"
  using assms idle_ok dhcp_ok link_lost_ok same_link_step_ok by (auto simp: step_handshake_def Let_def)

lemma step_dhcp_ok:
  assumes "running m" and "sm_state (sm m 0) = DHCP"
  shows "mgr_ok (step_dhcp env 0 ev m)"
  using assms idle_ok connected_ok link_lost_ok same_link_step_ok running_steps(1)
  by (auto simp: step_dhcp_def Let_def)

lemma connection_lost_ok:
  assumes "running m" and "sm_state (sm m 0) = CONNECTED"
  shows "mgr_ok (connection_lost env 0 m)"
  using assms by (auto simp: connection_lost_def Let_def intro!: rescan_ok idle_ok running_steps)

lemma roaming_start_ok:
  assumes "running m" and "sm_state (sm m 0) = CONNECTED"
  shows "mgr_ok (roaming_start env 0 m)"
  using assms by (intro station_okI) (auto simp: roaming_start_def running_defs prim)

lemma running_idle: "running m \<Longrightarrow> running (sm_idle 0 m)"
  by (rule runningI [OF idle_ok]) (simp_all add: running_defs)

lemma idle_state: "running m \<Longrightarrow> sm_state (sm (sm_idle 0 m) 0) = IDLE"
  by (simp add: running_defs)

lemma step_connected_ok:
  assumes "running m" and "sm_state (sm m 0) = CONNECTED"
  shows "mgr_ok (step_connected env 0 ev m)"
proof -
  let ?m = "if polling_scan (sm m 0) then mgmt_connected_scan_done env 0 m else m"
  have "same_link m ?m" using same_link_roam(2) running_idx [OF assms(1)] by simp
  then have "same_link m (mgmt_post_scan_done v r (mgmt_post_scan_done v' r' ?m))" for v r v' r'
    using same_link_steps(4) same_link_trans by blast
  moreover have "mgr_ok (sm_scan env 0 (mgmt_connect_retry_param_set 0 False (sm_idle 0 (copy_cfg 0 m))))"
    using assms(1) by (intro rescan_ok running_idle running_steps) (simp_all add: idle_state running_steps)
  ultimately show ?thesis
    using assms idle_ok connection_lost_ok roaming_start_ok same_link_step_ok
    by (auto simp: step_connected_def Let_def)
qed

lemma maintain_connection_ok:
  assumes "mgr_ok m" and "\<not> terminate (eloop m)" and "wvif_type (vif m 0) = WVIF_STA"
  shows "mgr_ok (maintain_connection env 0 m)"
proof (cases "\<not> init (sm m 0) \<or> sm_event (sm m 0) = event_num EV_INIT")
  case True
  then show ?thesis using assms by (simp add: maintain_connection_def step_init_ok)
next
  case False
  then have "running m" using assms by (simp add: runningI)
  then show ?thesis
    using False assms(1) step_idle_ok step_scan_ok step_connect_ok step_handshake_ok step_dhcp_ok step_connected_ok
    by (auto simp: maintain_connection_def split: option.split conn_state.split)
qed

section \<open>The other modes\<close>

text \<open>The access point and the monitor change no timer, no message and no station state.\<close>

definition beside :: "nat \<Rightarrow> mgr \<Rightarrow> mgr \<Rightarrow> bool" where
  "beside i m m' \<longleftrightarrow> eloop m' = eloop m \<and> (\<forall>j. wvif_type (vif m' j) = wvif_type (vif m j) \<and> sta_state (vif m' j) = sta_state (vif m j))
     \<and> (\<forall>j. j \<noteq> i \<longrightarrow> sm m' j = sm m j) \<and> (vif_idx (sm m i) = 0 \<longrightarrow> vif_idx (sm m' i) = 0)
     \<and> (retry_count (sm m i) \<le> retry_limit (sm m i) \<longrightarrow> retry_count (sm m' i) \<le> retry_limit (sm m' i))
     \<and> (sm_state (sm m i) \<in> {IDLE, WPS} \<longrightarrow> sm_state (sm m' i) \<in> {IDLE, WPS})"

lemma beside_refl [simp]: "beside i m m"
  by (simp add: beside_def)

lemma beside_trans: "beside i m m' \<Longrightarrow> beside i m' m'' \<Longrightarrow> beside i m m''"
  by (simp add: beside_def del: insert_iff)

lemma beside_prim:
  "beside i m (log_call c m)" "beside i m (post_wait j w r m)" "beside i m (upd_vif j (\<lambda>w. w\<lparr>ap_state := st\<rparr>) m)"
  "beside i m (upd_vif j (\<lambda>w. w\<lparr>ap_cfg_of := a\<rparr>) m)" "beside i m (upd_vif j (\<lambda>w. w\<lparr>monitor_channel := k\<rparr>) m)"
  "beside i m (upd_vif j (\<lambda>w. w\<lparr>ap_state := st, ap_cfg_of := (ap_cfg_of w)\<lparr>ap_channel := k\<rparr>\<rparr>) m)"
  "cs \<in> {IDLE, WPS} \<Longrightarrow> beside i m (upd_sm i (\<lambda>s. s\<lparr>sm_state := cs\<rparr>) m)"
  "beside i m (upd_sm i (\<lambda>s. s\<lparr>scan_blocked := b\<rparr>) m)" "beside i m (upd_sm i (\<lambda>_. zero_sm\<lparr>init := b\<rparr>) m)"
  by (simp_all add: beside_def prim zero_sm_def)

lemmas beside_prim_then = beside_prim [THEN [2] beside_trans]

lemma beside_ap:
  "beside i m (snd (wifi_netlink_ap_start env v c m))" "beside i m (wifi_netlink_ap_stop env v m)"
  "beside i m (snd (wifi_netlink_monitor_start env v p m))"
  unfolding wifi_netlink_ap_start_def wifi_netlink_ap_stop_def wifi_netlink_monitor_start_def Let_def
  by (simp_all add: beside_prim_then split: option.split mgmt_param.split)

lemmas beside_then = beside_prim_then beside_ap [THEN [2] beside_trans]

lemma beside_softap:
  "beside i m (sm_softap_init env i m)" "beside i m (sm_softap_started i m)" "beside i m (switch_channel env i m)"
  unfolding sm_softap_init_def sm_softap_started_def switch_channel_def Let_def
  by (intro beside_then beside_refl; simp)+

lemmas beside_softap_then = beside_softap [THEN [2] beside_trans]

lemma beside_scan:
  assumes "vif_idx (sm m i) = i"
  shows "beside i m (mgmt_post_scan_done i r m)" and "beside i m (scan_cmd env i m)"
  using assms by (auto simp: beside_def mgr_defs prim split: option.split mgmt_param.split)

lemma beside_maintain_softap:
  assumes "vif_idx (sm m i) = i"
  shows "beside i m (maintain_softap env i m)"
proof -
  have "beside i m (mgmt_post_ap_start_done v r (sm_softap_started i (snd (wifi_netlink_ap_start env v' c m))))"
    "beside i m (mgmt_post_ap_start_done v r (sm_softap_init env i (snd (wifi_netlink_ap_start env v' c m))))"
    "beside i m (sm_softap_init env i (upd_sm i (\<lambda>_. zero_sm\<lparr>init := True\<rparr>) m))" for v r v' c
    unfolding mgmt_post_ap_start_done_def by (intro beside_then beside_softap_then beside_refl)+
  then show ?thesis
    using assms by (auto simp: maintain_softap_def Let_def vx_def split_beta beside_softap beside_prim beside_scan split: option.split)
qed

lemma beside_maintain_monitor:
  assumes "vif_idx (sm m i) = i"
  shows "beside i m (maintain_monitor env i m)"
proof -
  have "st \<in> {IDLE, WPS} \<Longrightarrow> beside i m (mgmt_post_monitor_start_done v r (sm_monitor st i (snd (wifi_netlink_monitor_start env v' p m))))"
    "beside i m (sm_monitor IDLE i (upd_sm i (\<lambda>_. zero_sm\<lparr>init := True\<rparr>) m))" for st v r v' p
    unfolding mgmt_post_monitor_start_done_def sm_monitor_def by (intro beside_then beside_refl; simp)+
  then show ?thesis
    using assms by (auto simp: maintain_monitor_def Let_def vx_def split_beta beside_prim beside_scan split: option.split)
qed

lemma same_loop:
  assumes "eloop m' = eloop m"
  shows "timers_ok m' = timers_ok m" and "queue_ok m' = queue_ok m" and "pending h m' = pending h m"
  using assms by (simp_all add: timers_ok_def queue_ok_def pending_def)

text \<open>The invariant of the station is one of its own data, its interface and the loop.\<close>

lemma same_station_ok:
  assumes "mgr_ok m" and "eloop m' = eloop m" and "sm m' 0 = sm m 0" and "wvif_type (vif m' 0) = wvif_type (vif m 0)"
    and "sta_state (vif m' 0) = sta_state (vif m 0)" and "wvif_type (vif m' 1) \<in> {WVIF_UNKNOWN, WVIF_AP}"
  shows "mgr_ok m'"
proof -
  have "station_ok m' = station_ok m" "no_station m' = no_station m" "common_ok m \<Longrightarrow> common_ok m'"
    using assms(2-6) same_loop [OF assms(2)] unfolding station_ok_def no_station_def common_ok_def by simp_all
  then show ?thesis using assms(1,4) by (simp add: mgr_ok_def)
qed

lemma beside_ok:
  assumes "beside i m m'" and "mgr_ok m" and "i = 0 \<Longrightarrow> wvif_type (vif m 0) \<noteq> WVIF_STA"
  shows "mgr_ok m'"
proof (cases "i = 0")
  case True
  then show ?thesis
    using assms same_loop [of m' m] unfolding beside_def by (auto simp: mgr_ok_def common_ok_def no_station_def)
next
  case False
  then show ?thesis
    using assms by (intro same_station_ok [OF assms(2)]) (auto simp: beside_def mgr_ok_def common_ok_def)
qed

section \<open>Changing the mode\<close>

lemma softap_init_state [simp]: "sm_state (sm (sm_softap_init env i m) i) = IDLE"
  by (simp add: sm_softap_init_def wifi_netlink_ap_stop_def Let_def prim)

lemma leave_mode_ok:
  assumes "mgr_ok m" and "\<not> terminate (eloop m)" and prev: "wvif_type (vif m 0) = prev"
  shows "common_ok (leave_mode env 0 prev m) \<and> no_station (leave_mode env 0 prev m)
    \<and> sm_state (sm (leave_mode env 0 prev m) 0) = IDLE \<and> (\<forall>j. wvif_type (vif (leave_mode env 0 prev m) j) = wvif_type (vif m j))"
proof (cases prev)
  case WVIF_UNKNOWN
  then show ?thesis using assms by (simp add: mgr_ok_def common_ok_def)
next
  case WVIF_STA
  then show ?thesis
    using assms by (simp add: leave_mode_def mgr_ok_def common_ok_def no_station_def prim)
next
  case WVIF_AP
  have b: "beside 0 m (sm_softap_init env 0 m)" by (rule beside_softap)
  then have t: "wvif_type (vif (sm_softap_init env 0 m) j) = wvif_type (vif m j)" for j by (simp add: beside_def)
  have "mgr_ok (sm_softap_init env 0 m)" by (rule beside_ok [OF b assms(1)]) (simp add: prev WVIF_AP)
  then show ?thesis using WVIF_AP t [of 0] prev by (simp add: leave_mode_def mgr_ok_def t)
next
  case WVIF_MONITOR
  then show ?thesis
    using assms by (simp add: leave_mode_def sm_monitor_def mgr_ok_def common_ok_def no_station_def prim)
qed

lemma wifi_vif_reset_effect [simp]:
  "sm (wifi_vif_reset v t m) = sm m" "eloop (wifi_vif_reset v t m) = eloop m"
  "wvif_type (vif (wifi_vif_reset v t m) j) = (if j = v then t else wvif_type (vif m j))"
  "sta_state (vif (wifi_vif_reset v t m) j) = (if j = v \<and> t = WVIF_STA then STA_IDLE else sta_state (vif m j))"
  by (cases t; simp add: wifi_vif_reset_def prim)+

lemma enter_mode_effect [simp]:
  "vif (enter_mode i prev t m) = vif m" "eloop (enter_mode i prev t m) = eloop m"
  "j \<noteq> i \<Longrightarrow> sm (enter_mode i prev t m) j = sm m j"
  "vif_idx (sm (enter_mode i prev t m) i) = vif_idx (sm m i)" "init (sm (enter_mode i prev t m) i) = init (sm m i)"
  "t \<noteq> WVIF_UNKNOWN \<Longrightarrow> sm_state (sm (enter_mode i prev t m) i) = IDLE"
  "retry_count (sm m i) \<le> retry_limit (sm m i) \<Longrightarrow>
     retry_count (sm (enter_mode i prev t m) i) \<le> retry_limit (sm (enter_mode i prev t m) i)"
  by (cases t; simp add: enter_mode_def prim mgmt_connect_retry_param_set_def WIFI_MGMT_CONNECT_RETRY_LIMIT_def)+

lemma switched_ok:
  assumes "common_ok m" and "no_station m" and "sm_state (sm m 0) = IDLE"
    and "eloop m' = eloop m" and "vif_idx (sm m' 0) = 0" and "sm_state (sm m' 0) = IDLE"
    and "retry_count (sm m' 0) \<le> retry_limit (sm m' 0)" and "sta_state (vif m' 0) = STA_IDLE"
    and "wvif_type (vif m' 0) \<noteq> WVIF_UNKNOWN" and "wvif_type (vif m' 1) = wvif_type (vif m 1)"
  shows "mgr_ok m'"
  using assms same_loop [OF assms(4)]
  by (simp add: mgr_ok_def common_ok_def station_ok_def no_station_def Let_def)

lemma switch_mode_default_ok:
  assumes "mgr_ok m" and "\<not> terminate (eloop m)" and "vif_type_of (sm_reason (sm m 0)) \<noteq> WVIF_UNKNOWN"
  shows "mgr_ok (snd (mgmt_switch_mode env 0 m))"
proof -
  have v: "vx 0 m = 0" using assms(1) by (simp add: vx_def mgr_ok_def common_ok_def)
  define prev t where "prev = wvif_type (vif m 0)" and "t = vif_type_of (sm_reason (sm m 0))"
  define m0 where "m0 = log_call (IF_DOWN 0) (log_call (IP_NONE 0) m)"
  have "mgr_ok m0" using assms(1) by (simp add: m0_def same_link_ok [OF same_link_steps(1)])
  then have l: "common_ok (leave_mode env 0 prev m0) \<and> no_station (leave_mode env 0 prev m0)
      \<and> sm_state (sm (leave_mode env 0 prev m0) 0) = IDLE \<and> (\<forall>j. wvif_type (vif (leave_mode env 0 prev m0) j) = wvif_type (vif m0 j))"
    using assms(2) by (intro leave_mode_ok) (simp_all add: m0_def prev_def prim)
  define m1 where "m1 = leave_mode env 0 prev m0"
  have m1: "common_ok m1" "no_station m1" "sm_state (sm m1 0) = IDLE" using l by (simp_all add: m1_def)
  then have "vif_idx (sm m1 0) = 0" "retry_count (sm m1 0) \<le> retry_limit (sm m1 0)" "sta_state (vif m1 0) = STA_IDLE"
    by (simp_all add: common_ok_def no_station_def)
  then have "prev = t \<or> mgr_ok (snd (mgmt_switch_mode env 0 m))"
    using m1 assms(3)
    by (auto simp: mgmt_switch_mode_def v Let_def prev_def [symmetric] t_def [symmetric] m0_def [symmetric] m1_def [symmetric] prim
        intro!: switched_ok [OF m1])
  then show ?thesis using assms(1) by (auto simp: mgmt_switch_mode_def v Let_def prev_def t_def)
qed

lemma switch_mode_softap_ok:
  assumes "mgr_ok m" and "vif_idx (sm m 1) = 1" and "vif_type_of (sm_reason (sm m 1)) \<in> {WVIF_UNKNOWN, WVIF_AP}"
  shows "mgr_ok (snd (mgmt_switch_mode env 1 m))"
proof -
  define prev t where "prev = wvif_type (vif m 1)" and "t = vif_type_of (sm_reason (sm m 1))"
  have v: "vx 1 m = 1" using assms(2) by (simp add: vx_def)
  have prev: "prev \<in> {WVIF_UNKNOWN, WVIF_AP}" using assms(1) by (simp add: prev_def mgr_ok_def common_ok_def)
  define m0 where "m0 = log_call (IF_DOWN 1) (log_call (IP_NONE 1) m)"
  have "beside 1 m m0" unfolding m0_def by (intro beside_prim_then beside_refl)
  then have "beside 1 m (leave_mode env 1 prev m0)"
    using prev beside_trans [OF _ beside_softap(1)] by (auto simp: leave_mode_def)
  define m1 where "m1 = leave_mode env 1 prev m0"
  have m1: "mgr_ok m1" by (rule beside_ok [OF \<open>beside 1 m (leave_mode env 1 prev m0)\<close> [folded m1_def] assms(1)]) simp
  have "mgr_ok m'" if "eloop m' = eloop m1" "sm m' 0 = sm m1 0" "wvif_type (vif m' 0) = wvif_type (vif m1 0)"
    "sta_state (vif m' 0) = sta_state (vif m1 0)" "wvif_type (vif m' 1) = t" for m'
    using same_station_ok [OF m1 that(1-4)] that(5) assms(3) by (simp add: t_def)
  then show ?thesis
    using assms(1)
    by (auto simp: mgmt_switch_mode_def v Let_def prev_def [symmetric] t_def [symmetric] m0_def [symmetric] m1_def [symmetric] prim
        simp del: One_nat_def)
qed

section \<open>Messages and timeouts\<close>

lemma message_ok:
  assumes "mgr_ok m" and "\<not> terminate (eloop m)" and "message_ok msg"
  shows "mgr_ok (wifi_mgmt_cb_run_state_machine env msg m)"
proof -
  define event i where "event = ELOOP_EVENT_GET_EV (event_id msg)" and "i = unat (ELOOP_EVENT_GET_VIF (event_id msg))"
  define m1 where "m1 = upd_sm i (\<lambda>s. s\<lparr>vif_idx := i, sm_event := event, sm_reason := msg_reason msg, sm_param := msg_param msg\<rparr>) m"
  have m1: "mgr_ok m1"
  proof (cases "i = 0")
    case True
    then have "same_link m m1" using assms(1) by (simp add: m1_def same_link_def prim mgr_ok_def common_ok_def)
    then show ?thesis using same_link_ok assms(1) by blast
  next
    case False
    then show ?thesis
      using assms(1) by (intro same_station_ok [OF assms(1)]) (auto simp: m1_def prim mgr_ok_def common_ok_def)
  qed
  have run: "\<not> terminate (eloop m1)" and idx: "vif_idx (sm m1 i) = i" and reason: "sm_reason (sm m1 i) = msg_reason msg"
    using assms(2) by (simp_all add: m1_def prim)
  define m2 where "m2 = (if event = event_num EV_SWITCH_MODE_CMD then snd (mgmt_switch_mode env i m1)
     else case wvif_type (vif m1 i) of WVIF_STA \<Rightarrow> maintain_connection env i m1 | WVIF_AP \<Rightarrow> maintain_softap env i m1
       | WVIF_MONITOR \<Rightarrow> maintain_monitor env i m1 | WVIF_UNKNOWN \<Rightarrow> m1)"
  have "mgr_ok m2" if "i = 0"
    using that assms(3) m1 run idx reason switch_mode_default_ok [OF m1 run] maintain_connection_ok [OF m1 run]
      beside_ok [OF beside_maintain_softap [OF idx] m1] beside_ok [OF beside_maintain_monitor [OF idx] m1]
    by (auto simp: m2_def message_ok_def Let_def event_def i_def unat_eq_0 split: wifi_vif_type.split)
  moreover have "mgr_ok m2" if i: "i = 1"
  proof (cases "event = event_num EV_SWITCH_MODE_CMD")
    case True
    have "vif_type_of (msg_reason msg) \<in> {WVIF_UNKNOWN, WVIF_AP}"
      using assms(3) True i by (auto simp: message_ok_def Let_def event_def [symmetric] i_def split: if_splits)
    then show ?thesis
      using True i switch_mode_softap_ok [OF m1] idx reason by (simp add: m2_def del: One_nat_def)
  next
    case False
    have "wvif_type (vif m1 1) = WVIF_UNKNOWN \<or> wvif_type (vif m1 1) = WVIF_AP" using m1 by (simp add: mgr_ok_def common_ok_def)
    then show ?thesis
      using False i m1 beside_ok [OF beside_maintain_softap [OF idx] m1] by (auto simp: m2_def)
  qed
  ultimately have "i < 2 \<Longrightarrow> mgr_ok m2" by (cases i) auto
  moreover have "same_link m2 (upd_sm i (\<lambda>s. s\<lparr>sm_param := None\<rparr>) m2)" by (simp add: same_link_def prim)
  ultimately show ?thesis
    using assms(1) same_link_ok
    by (auto simp: wifi_mgmt_cb_run_state_machine_def Let_def event_def [symmetric] i_def [symmetric] m1_def [symmetric]
        m2_def [symmetric] CFG_VIF_NUM_def)
qed

lemma terminate_ok: "mgr_ok (m\<lparr>eloop := (eloop m)\<lparr>terminate := True\<rparr>\<rparr>) = mgr_ok m"
proof -
  define m' where "m' = m\<lparr>eloop := (eloop m)\<lparr>terminate := True\<rparr>\<rparr>"
  have "common_ok m' = common_ok m" "station_ok m' = station_ok m" "no_station m' = no_station m"
    by (simp_all add: m'_def common_ok_def station_ok_def no_station_def pending_def timers_ok_def queue_ok_def)
  then show ?thesis by (simp add: mgr_ok_def m'_def [symmetric]) (simp add: m'_def)
qed

lemma take_message_ok:
  assumes "mgr_ok m" and "\<not> terminate (eloop m)"
  shows "mgr_ok (take_message env m)"
proof (cases "task_queue (eloop m)")
  case Nil
  then show ?thesis using assms by (simp add: take_message_def)
next
  case (Cons msg q)
  define m0 where "m0 = m\<lparr>eloop := (eloop m)\<lparr>task_queue := q\<rparr>\<rparr>"
  have "message_ok msg" and "queue_ok m0"
    using assms(1) Cons by (auto simp: mgr_ok_def common_ok_def queue_ok_def m0_def)
  have "same_link m m0" using \<open>queue_ok m0\<close> by (simp add: same_link_def m0_def pending_def timers_ok_def)
  then have m0: "mgr_ok m0" "\<not> terminate (eloop m0)" using assms same_link_ok by (auto simp: same_link_def)
  show ?thesis
    using m0 terminate_ok message_ok [OF m0 \<open>message_ok msg\<close>] Cons
    by (simp add: take_message_def eloop_event_dispatch_def Let_def m0_def [symmetric])
qed

text \<open>A timeout that is due is taken off the list before its handler runs.\<close>

lemma handled_timeout:
  assumes "mgr_ok m" and "eloop_timeout_handle t (eloop m) = (Some x, e)"
  shows "wvif_type (vif m 0) = WVIF_STA \<and> init (sm m 0) \<and> timeout_slot x = 0 \<and> pending (to_handler x) m > 0
    \<and> common_ok (m\<lparr>eloop := e\<rparr>) \<and> terminate e = terminate (eloop m)
    \<and> (\<forall>h. pending h (m\<lparr>eloop := e\<rparr>) = (if h = to_handler x then pending h m - 1 else pending h m))"
proof -
  obtain ts where ts: "timeouts (eloop m) = x # ts" "e = (eloop m)\<lparr>timeouts := ts\<rparr>"
    using assms(2) by (auto simp: eloop_timeout_handle_def split: list.splits if_splits)
  have p: "pending (to_handler x) m > 0" by (simp add: pending_def ts)
  then have "wvif_type (vif m 0) = WVIF_STA" using assms(1) by (auto simp: mgr_ok_def no_station_def split: if_splits)
  moreover from this have "init (sm m 0)"
    using assms(1) p by (cases "to_handler x") (auto simp: mgr_ok_def station_ok_def Let_def)
  moreover have "common_ok (m\<lparr>eloop := e\<rparr>)" "timeout_slot x = 0"
    using assms(1) ts by (simp_all add: mgr_ok_def common_ok_def timers_ok_def queue_ok_def timeout_slot_def sm_ctx_def)
  ultimately show ?thesis using p ts by (auto simp: pending_def)
qed

lemma take_timeout_ok:
  assumes "mgr_ok m" and "\<not> terminate (eloop m)"
  shows "mgr_ok (take_timeout env m)"
proof (cases "eloop_timeout_handle (now env) (eloop m)")
  case (Pair o1 e)
  show ?thesis
  proof (cases o1)
    case None
    then show ?thesis using Pair assms by (simp add: take_timeout_def)
  next
    case (Some x)
    note h = handled_timeout [OF assms(1) Pair [unfolded Some]]
    define m1 where "m1 = m\<lparr>eloop := e\<rparr>"
    have st: "station_ok m" using assms(1) h by (simp add: mgr_ok_def)
    have idx: "vif_idx (sm m1 0) = 0" using assms(1) by (simp add: m1_def mgr_ok_def common_ok_def)
    have p1: "pending k m1 = (if k = to_handler x then pending k m - 1 else pending k m)" for k using h by (simp add: m1_def)
    have r1: "running m1"
      using h st assms(2) p1 unfolding running_def station_ok_def by (auto simp: m1_def Let_def)
    have "mgr_ok (mgmt_dhcp_polling env 0 m1)" if "to_handler x = H_DHCP_POLLING"
      using that r1 p1 h st by (intro station_okI) (auto simp: mgmt_dhcp_polling_def vx_def running_defs prim m1_def)
    moreover have "mgr_ok (mgmt_link_status_polling env 0 m1)" if "to_handler x = H_LINK_STATUS_POLLING"
      using that r1 p1 h st by (intro station_okI) (auto simp: mgmt_link_status_polling_def vx_def running_defs prim m1_def)
    moreover have "mgr_ok (mgmt_connect_retry env 0 m1)" if "to_handler x = H_CONNECT_RETRY"
    proof -
      have "pending H_CONNECT_RETRY m1 = 0" "retry_count (sm m1 0) > 0"
        using that p1 [of H_CONNECT_RETRY] h st by (auto simp: station_ok_def Let_def m1_def)
      then have "running (upd_sm 0 (\<lambda>s. s\<lparr>retry_count := retry_count s - 1, delayed_connect_retry := False\<rparr>) m1)"
        using r1 by (auto simp: running_defs prim word_le_nat_alt word_less_nat_alt unat_sub)
      then show ?thesis unfolding mgmt_connect_retry_def by (rule scan_ok)
    qed
    ultimately show ?thesis
      using Pair Some h by (cases "to_handler x") (simp_all add: take_timeout_def m1_def)
  qed
qed

section \<open>Reachable states\<close>

text \<open>
  After the end of the loop has been requested no timer can be cancelled any more; until then
  the invariant holds.
\<close>

lemma take_timeout_terminate: "terminate (eloop m) \<Longrightarrow> terminate (eloop (take_timeout env m))"
  by (auto simp: take_timeout_def eloop_timeout_handle_def mgmt_dhcp_polling_def mgmt_link_status_polling_def
      mgmt_connect_retry_def sm_scan_def prim Let_def split: list.splits mgmt_handler.split)

lemma eloop_round_ok:
  assumes "mgr_ok m" and "\<not> terminate (eloop m)" and "\<not> terminate (eloop (eloop_round env env' m))"
  shows "mgr_ok (eloop_round env env' m)"
proof -
  define m1 where "m1 = (case loop_wait_of (now env) (eloop m) of Yield \<Rightarrow> m | _ \<Rightarrow> take_message env m)"
  have r: "eloop_round env env' m = take_timeout env' m1" using assms(2) by (simp add: eloop_round_def m1_def)
  have "mgr_ok m1" using assms take_message_ok by (auto simp: m1_def split: loop_wait.split)
  moreover have "\<not> terminate (eloop m1)"
    using assms(3) take_timeout_terminate [of m1 env'] by (auto simp: r)
  ultimately show ?thesis unfolding r by (rule take_timeout_ok)
qed

text \<open>
  The steps: rounds of the manager task, messages of other tasks and of the layers below, and
  what the functions for other tasks write themselves.
\<close>

definition post_message :: "mgmt_param eloop_message_t \<Rightarrow> mgr \<Rightarrow> mgr" where
  "post_message msg = upd_loop (\<lambda>e. if terminate e then (- 1, e) else sys_task_post msg e)"

inductive mgr_step :: "mgr \<Rightarrow> mgr \<Rightarrow> bool" where
  round: "\<not> terminate (eloop m) \<Longrightarrow> mgr_step m (eloop_round env env' m)"
| post: "message_ok msg \<Longrightarrow> mgr_step m (post_message msg m)"
| client_waits: "mgr_step m (m\<lparr>waitq := q\<rparr>)"
| client_writes: "mgr_step m (upd_vif 0 (\<lambda>w. w\<lparr>last_reason := r, history_ip := ip\<rparr>)
    (upd_sm 0 (\<lambda>s. s\<lparr>scan_blocked := b, preroam_enable := p\<rparr>) (m\<lparr>concurrent := c\<rparr>)))"

definition mgr_start :: "mgr \<Rightarrow> bool" where
  "mgr_start m \<longleftrightarrow> sm m = (\<lambda>_. zero_sm) \<and> timeouts (eloop m) = [] \<and> \<not> terminate (eloop m) \<and> queue_ok m
     \<and> wvif_type (vif m 0) = WVIF_STA \<and> sta_state (vif m 0) = STA_IDLE \<and> wvif_type (vif m 1) = WVIF_UNKNOWN"

definition reachable :: "mgr \<Rightarrow> bool" where
  "reachable m \<longleftrightarrow> (\<exists>m0. mgr_start m0 \<and> mgr_step\<^sup>*\<^sup>* m0 m)"

lemma start_ok: "mgr_start m \<Longrightarrow> mgr_ok m"
  by (intro station_okI) (simp add: mgr_start_def common_ok_def station_ok_def pending_def timers_ok_def zero_sm_def)

lemma mgr_step_ok:
  assumes "mgr_step m m'" and "terminate (eloop m) \<or> mgr_ok m"
  shows "terminate (eloop m') \<or> mgr_ok m'"
  using assms
proof cases
  case (round env env')
  then show ?thesis using assms(2) eloop_round_ok by blast
next
  case (post msg)
  have "same_link m m'" if "\<not> terminate (eloop m)"
    using post that by (auto simp: same_link_def post_message_def prim pending_def timers_ok_def queue_ok_def sys_task_post_def)
  then show ?thesis using assms(2) post same_link_ok by (auto simp: post_message_def prim)
next
  case (client_waits q)
  then have "same_link m m'" by (simp add: same_link_def pending_def timers_ok_def queue_ok_def)
  then show ?thesis using assms(2) same_link_ok by (auto simp: same_link_def)
next
  case (client_writes r ip b p c)
  then have "same_link m m'" by (simp add: same_link_def prim) (simp add: pending_def timers_ok_def queue_ok_def)
  then show ?thesis using assms(2) same_link_ok by (auto simp: same_link_def)
qed

lemma reachable_ok: "reachable m \<Longrightarrow> terminate (eloop m) \<or> mgr_ok m"
proof -
  assume "reachable m"
  then obtain m0 where "mgr_start m0" and steps: "mgr_step\<^sup>*\<^sup>* m0 m" by (auto simp: reachable_def)
  from steps show ?thesis
    by (induction rule: rtranclp_induct) (use \<open>mgr_start m0\<close> start_ok mgr_step_ok in blast)+
qed

end
