(* ===== verification/Wifi_Link.thy ===== *)
theory Wifi_Link
  imports Wifi_Manager_Inv
begin

text \<open>
  The station of the connection manager as an abstract machine: a state and the number of
  retries that are left. The machine of \<^verbatim>\<open>wifi_management.c\<close> implements it, and the number of
  scans one connection attempt makes is bounded by it.
\<close>

section \<open>The abstract machine\<close>

type_synonym link = "conn_state \<times> nat"

definition failed :: "link \<Rightarrow> link" where
  "failed l = (case l of (s, n) \<Rightarrow> if n = 0 then (IDLE, 0) else (SCAN, n))"

fun link_event :: "bool \<Rightarrow> u16 \<Rightarrow> mgmt_event \<Rightarrow> link \<Rightarrow> link" where
  "link_event stored r ev (IDLE, n) =
     (if ev = EV_CONNECT_CMD then (SCAN, 2)
      else if ev = EV_AUTO_CONNECT_CMD \<and> stored then (SCAN, 99) else (IDLE, n))"
| "link_event stored r ev (WPS, n) = (WPS, n)"
| "link_event stored r ev (SCAN, n) =
     (if ev = EV_SCAN_DONE then (CONNECT, n)
      else if ev = EV_SCAN_FAIL then failed (SCAN, n)
      else if ev = EV_DISCONNECT_CMD \<or> ev = EV_CONNECT_FAIL then (IDLE, n) else (SCAN, n))"
| "link_event stored r ev (CONNECT, n) =
     (if ev = EV_ASSOC_SUCCESS then (HANDSHAKE, n)
      else if ev = EV_CONNECT_FAIL \<or> ev = EV_DISCONNECT then failed (CONNECT, n)
      else if ev = EV_DISCONNECT_CMD then (IDLE, n) else (CONNECT, n))"
| "link_event stored r ev (HANDSHAKE, n) =
     (if ev = EV_DHCP_START then (DHCP, n)
      else if ev = EV_CONNECT_FAIL \<or> ev = EV_DISCONNECT then failed (HANDSHAKE, n)
      else if ev = EV_DISCONNECT_CMD then (IDLE, n) else (HANDSHAKE, n))"
| "link_event stored r ev (DHCP, n) =
     (if ev = EV_DHCP_SUCCESS then (CONNECTED, n)
      else if ev = EV_DHCP_FAIL \<or> ev = EV_CONNECT_FAIL \<or> ev = EV_DISCONNECT then failed (DHCP, n)
      else if ev = EV_DISCONNECT_CMD then (IDLE, n) else (DHCP, n))"
| "link_event stored r ev (CONNECTED, n) =
     (if ev = EV_CONNECT_CMD then (SCAN, 2)
      else if ev = EV_DISCONNECT then if reconnects r then (SCAN, 99) else (IDLE, n)
      else if ev = EV_DISCONNECT_CMD then (IDLE, n) else (CONNECTED, n))"

definition link_of :: "mgr \<Rightarrow> link" where
  "link_of m = (sm_state (sm m 0), unat (retry_count (sm m 0)))"

section \<open>The manager implements it\<close>

lemma same_link_of: "same_link m m' \<Longrightarrow> link_of m' = link_of m"
  by (simp add: same_link_def link_of_def)

lemma link_of_steps [simp]:
  "link_of (log_call c m) = link_of m" "link_of (set_last_reason i m) = link_of m" "link_of (stop_wpa v m) = link_of m"
  "link_of (copy_cfg i m) = link_of m" "link_of (mgmt_post_conn_done v r m) = link_of m"
  "link_of (mgmt_post_scan_done v r m) = link_of m" "link_of (mgmt_post_disconn_done v m) = link_of m"
  "link_of (mgmt_link_is_ongoing i m) = link_of m" "link_of (scan_cmd env i m) = link_of m"
  "link_of (cancel h m) = link_of m" "link_of (register env k h i m) = link_of m"
  "link_of (mgmt_register_delayed_connect_retry env i m) = link_of m"
  by (simp_all add: same_link_of) (simp_all add: link_of_def prim mgmt_register_delayed_connect_retry_def)

lemma link_of_enter:
  assumes "running m"
  shows "link_of (sm_idle 0 m) = (IDLE, snd (link_of m))" and "link_of (sm_scan env 0 m) = (SCAN, snd (link_of m))"
    and "link_of (sm_connect env 0 m) = (CONNECT, snd (link_of m))" and "link_of (sm_handshake 0 m) = (HANDSHAKE, snd (link_of m))"
    and "link_of (sm_dhcp env 0 m) = (DHCP, snd (link_of m))" and "link_of (sm_connected env 0 m) = (CONNECTED, snd (link_of m))"
  using assms by (simp_all add: link_of_def running_defs) (simp_all add: mgr_defs prim)

lemma link_of_give_up:
  assumes "running m"
  shows "link_of (give_up 0 m) = (IDLE, snd (link_of m))"
proof -
  define m1 where "m1 = mgmt_preroam_rollback 0 m"
  have s: "same_link m m1" unfolding m1_def using assms running_idx same_link_roam(1) by blast
  have "running (mgmt_post_conn_done v r m1)" for v r
    using same_link_running [OF same_link_steps(2) same_link_running [OF s assms]] .
  then show ?thesis
    using same_link_of [OF s] by (simp add: give_up_def Let_def m1_def [symmetric] link_of_enter(1))
qed

lemma link_of_retry:
  assumes "running m"
  shows "link_of (retry_or_give_up env 0 m) = failed (link_of m)"
proof (cases "retry_count (sm m 0) > 0")
  case True
  have "running (upd_sm 0 (\<lambda>s. s\<lparr>delayed_connect_retry := True\<rparr>) m)"
    by (rule same_link_running [OF same_link_delayed assms])
  then show ?thesis
    using True same_link_of [OF same_link_delayed [of m True]]
    by (simp add: retry_or_give_up_def link_of_enter(2) failed_def split_beta) (simp add: link_of_def word_less_nat_alt)
next
  case False
  then have "unat (retry_count (sm m 0)) = 0" by (simp add: word_less_nat_alt)
  then have "snd (link_of m) = 0" by (simp add: link_of_def)
  then show ?thesis using False assms by (simp add: retry_or_give_up_def link_of_give_up failed_def split_beta)
qed

lemma link_of_params: "link_of (mgmt_connect_retry_param_set 0 b m) = (fst (link_of m), if b then 99 else 2)"
  by (simp add: link_of_def mgmt_connect_retry_param_set_def prim WIFI_MGMT_ROAMING_RETRY_LIMIT_def WIFI_MGMT_CONNECT_RETRY_LIMIT_def)

lemma link_of_restart:
  assumes "running m" and "sm_state (sm m 0) \<in> {IDLE, CONNECTED}"
  shows "link_of (sm_scan env 0 (mgmt_connect_retry_param_set 0 b m)) = (SCAN, if b then 99 else 2)"
  using running_retry_params [OF assms(1) no_retry_pending [OF assms]]
  by (simp add: link_of_enter(2) link_of_params)

lemma link_of_auto_connect:
  assumes "running m" and "sm_state (sm m 0) = IDLE"
  shows "link_of (auto_connect env 0 m) = (if loaded env = None then link_of m else (SCAN, 99))"
proof (cases "loaded env")
  case None
  have "fst (link_of m) = IDLE" using assms(2) by (simp add: link_of_def)
  then show ?thesis using None link_of_enter(1) [OF assms(1)] by (cases "link_of m") (simp add: auto_connect_def)
next
  case (Some l)
  define m1 where
    "m1 = upd_vif 0 (\<lambda>w. (cfg_upd (\<lambda>c. (fst l c)\<lparr>conn_blocked := conn_blocked c\<rparr>) w)\<lparr>history_ip := snd l\<rparr>) m"
  have s: "same_link m m1" by (simp add: m1_def same_link_def prim cfg_upd_def)
  have "link_of (sm_scan env 0 (mgmt_connect_retry_param_set 0 True m1)) = (SCAN, 99)"
    using link_of_restart [OF same_link_running [OF s assms(1)]] same_link_state [OF s] assms(2) by simp
  then show ?thesis
    using Some assms by (simp add: auto_connect_def vx_def running_idx split_beta m1_def [symmetric])
qed

lemma link_of_fst: "fst (link_of m) = sm_state (sm m 0)"
  by (simp add: link_of_def)

lemma link_of_lost: "running m \<Longrightarrow> link_of (link_lost env 0 b m) = failed (link_of m)"
  by (simp add: link_lost_def Let_def link_of_retry running_steps)

lemma link_of_connection_lost:
  assumes "running m" and "sm_state (sm m 0) = CONNECTED"
  shows "link_of (connection_lost env 0 m) = (if reconnects (sm_reason (sm m 0)) then (SCAN, 99) else (IDLE, snd (link_of m)))"
  using assms by (simp add: connection_lost_def Let_def link_of_restart link_of_enter(1) running_steps)

lemma link_of_connected:
  assumes "running m" and "sm_state (sm m 0) = CONNECTED"
  shows "link_of (step_connected env 0 ev m) = link_event b (sm_reason (sm m 0)) ev (link_of m)"
proof -
  obtain n where n: "link_of m = (CONNECTED, n)" using assms(2) by (simp add: link_of_def)
  have "link_of (if polling_scan (sm m 0) then mgmt_connected_scan_done env 0 m else m) = link_of m"
    using same_link_of [OF same_link_roam(2) [OF running_idx [OF assms(1)]]] by simp
  moreover have "link_of (sm_scan env 0 (mgmt_connect_retry_param_set 0 False (sm_idle 0 (copy_cfg 0 m)))) = (SCAN, 2)"
    using assms(1) by (subst link_of_restart) (simp_all add: running_idle running_steps idle_state)
  moreover have "link_of (roaming_start env 0 m) = link_of m" by (simp add: roaming_start_def link_of_def prim)
  ultimately show ?thesis
    using assms by (simp add: step_connected_def Let_def n link_of_connection_lost link_of_enter(1))
qed

lemma maintain_connection_link:
  assumes "running m" and "num_event (sm_event (sm m 0)) = Some ev" and "ev \<noteq> EV_INIT"
  shows "link_of (maintain_connection env 0 m)
    = link_event (loaded env \<noteq> None) (sm_reason (sm m 0)) ev (link_of m)"
proof -
  have ne: "sm_event (sm m 0) \<noteq> event_num EV_INIT" using assms(2,3) by auto
  obtain n where n: "link_of m = (sm_state (sm m 0), n)" by (simp add: link_of_def)
  note r = assms(1)
  have "link_of (step_idle env 0 ev m) = link_event (loaded env \<noteq> None) (sm_reason (sm m 0)) ev (link_of m)"
    if "sm_state (sm m 0) = IDLE"
    using that r n by (simp add: step_idle_def link_of_auto_connect link_of_restart running_steps)
  moreover have "link_of (step_scan env 0 ev m) = link_event (loaded env \<noteq> None) (sm_reason (sm m 0)) ev (link_of m)"
    if "sm_state (sm m 0) = SCAN"
    using that r n link_of_def [of m]
    by (simp add: step_scan_def link_of_enter link_of_give_up failed_def word_less_nat_alt)
  moreover have "link_of (step_connect env 0 ev m) = link_event (loaded env \<noteq> None) (sm_reason (sm m 0)) ev (link_of m)"
    if "sm_state (sm m 0) = CONNECT"
    using that r n by (simp add: step_connect_def Let_def link_of_enter link_of_retry running_steps)
  moreover have "link_of (step_handshake env 0 ev m) = link_event (loaded env \<noteq> None) (sm_reason (sm m 0)) ev (link_of m)"
    if "sm_state (sm m 0) = HANDSHAKE"
    using that r n by (simp add: step_handshake_def Let_def link_of_enter link_of_lost)
  moreover have "link_of (step_dhcp env 0 ev m) = link_event (loaded env \<noteq> None) (sm_reason (sm m 0)) ev (link_of m)"
    if "sm_state (sm m 0) = DHCP"
    using that r n by (simp add: step_dhcp_def Let_def link_of_enter link_of_lost running_steps)
  ultimately show ?thesis
    using ne assms(2) r link_of_connected [OF r] n
    by (cases "sm_state (sm m 0)") (simp_all add: maintain_connection_def running_defs)
qed

lemma connect_retry_link:
  assumes "running m" and "pending H_CONNECT_RETRY m = 0" and "retry_count (sm m 0) > 0"
  shows "link_of (mgmt_connect_retry env 0 m) = (SCAN, snd (link_of m) - 1)"
proof -
  define m1 where "m1 = upd_sm 0 (\<lambda>s. s\<lparr>retry_count := retry_count s - 1, delayed_connect_retry := False\<rparr>) m"
  have "running m1"
    using assms by (auto simp: m1_def running_defs prim word_le_nat_alt word_less_nat_alt unat_sub)
  moreover have "snd (link_of m1) = snd (link_of m) - 1"
    using assms(3) by (simp add: m1_def link_of_def prim unat_sub word_le_nat_alt word_less_nat_alt)
  ultimately show ?thesis by (simp add: mgmt_connect_retry_def m1_def [symmetric] link_of_enter(2))
qed

text \<open>A message for the default interface, from the queue to the end of its handler.\<close>

definition message_for :: "nat \<Rightarrow> mgmt_event \<Rightarrow> u16 \<Rightarrow> mgmt_param option \<Rightarrow> mgmt_param eloop_message_t" where
  "message_for i ev r p = \<lparr>event_id = ELOOP_EVENT_ID (of_nat i) (event_num ev), msg_reason = r, msg_param = p\<rparr>"

definition loaded_message :: "mgmt_event \<Rightarrow> u16 \<Rightarrow> mgmt_param option \<Rightarrow> mgr \<Rightarrow> mgr" where
  "loaded_message ev r p = upd_sm 0 (\<lambda>s. s\<lparr>vif_idx := 0, sm_event := event_num ev, sm_reason := r, sm_param := p\<rparr>)"

lemma same_link_loaded: "vif_idx (sm m 0) = 0 \<Longrightarrow> same_link m (loaded_message ev r p m)"
  by (simp add: same_link_def loaded_message_def prim)

lemma event_num_init: "event_num ev < event_num EV_INIT \<longleftrightarrow> ev = EV_START"
  by (cases ev) (simp_all add: event_num_def all_events_def)

lemma run_message:
  assumes "wvif_type (vif m 0) = WVIF_STA" and "ev \<notin> {EV_START, EV_SWITCH_MODE_CMD}"
  shows "wifi_mgmt_cb_run_state_machine env (message_for 0 ev r p) m
    = upd_sm 0 (\<lambda>s. s\<lparr>sm_param := None\<rparr>) (maintain_connection env 0 (loaded_message ev r p m))"
  using assms
  by (simp add: wifi_mgmt_cb_run_state_machine_def message_for_def loaded_message_def CFG_VIF_NUM_def event_num_init prim Let_def)

lemma num_event_inv: "num_event n = Some ev \<Longrightarrow> event_num ev = n"
proof -
  assume n: "num_event n = Some ev"
  then have b: "4 \<le> n" "unat (n - 4) < length all_events" "ev = all_events ! unat (n - 4)"
    by (simp_all add: num_event_def split: if_splits)
  have d: "distinct all_events" by (simp add: all_events_def)
  have "index_of x xs = i" if "distinct xs" "i < length xs" "x = xs ! i" for x :: mgmt_event and xs i
    using that by (induction xs arbitrary: i) (auto simp: nth_Cons split: nat.splits)
  then have "index_of ev all_events = unat (n - 4)" using d b by blast
  then show ?thesis by (simp add: event_num_def)
qed

section \<open>The number of scans\<close>

fun is_scan :: "netcall \<Rightarrow> bool" where
  "is_scan (NET_SCAN v c) = (v = 0)"
| "is_scan (NET_SCAN_SSID v n c) = (v = 0)"
| "is_scan _ = False"

definition scans :: "mgr \<Rightarrow> nat" where
  "scans m = length (filter is_scan (calls m))"

lemma scans_prim [prim]:
  "scans (upd_sm i f m) = scans m" "scans (upd_vif i g m) = scans m" "scans (post_wait i w r m) = scans m"
  "scans (log_call c m) = scans m + (if is_scan c then 1 else 0)" "scans (cancel h m) = scans m" "scans (register env k h i m) = scans m"
  "scans (send_event i ev m) = scans m" "scans (send_message i ev r p m) = scans m"
  by (simp_all add: scans_def prim)

lemma scans_enter [simp]:
  "scans (sm_idle i m) = scans m" "scans (sm_connect env i m) = scans m" "scans (sm_handshake i m) = scans m"
  "scans (sm_dhcp env i m) = scans m" "scans (sm_connected env i m) = scans m" "scans (give_up i m) = scans m"
  "scans (mgmt_register_delayed_connect_retry env i m) = scans m" "scans (mgmt_link_is_ongoing i m) = scans m"
  "scans (set_last_reason i m) = scans m" "scans (stop_wpa v m) = scans m"
  by (simp_all add: mgr_defs prim mgmt_register_delayed_connect_retry_def)

lemma scans_scan: "scans (sm_scan env i m) \<le> scans m + 1"
  "delayed_connect_retry (sm m i) \<Longrightarrow> scans (sm_scan env i m) = scans m"
  by (simp_all add: mgr_defs prim)

lemma scans_retry [simp]: "scans (retry_or_give_up env i m) = scans m"
  by (simp add: retry_or_give_up_def scans_scan(2) prim)

text \<open>While a connection is being made, every scan is paid for by a retry.\<close>

definition connecting :: "mgr \<Rightarrow> bool" where
  "connecting m \<longleftrightarrow> wvif_type (vif m 0) = WVIF_STA \<and> sm_state (sm m 0) \<in> {SCAN, CONNECT, HANDSHAKE, DHCP}"

definition budget :: "mgr \<Rightarrow> nat" where
  "budget m = scans m + unat (retry_count (sm m 0))"

lemma budget_link: "budget m = scans m + snd (link_of m)"
  by (simp add: budget_def link_of_def)

lemma link_event_retries: "s \<in> {SCAN, CONNECT, HANDSHAKE, DHCP} \<Longrightarrow> snd (link_event b r ev (s, n)) \<le> n"
  by (auto simp: failed_def)

lemma scans_connecting:
  assumes "running m" and "connecting m"
  shows "scans (maintain_connection env 0 m) \<le> scans m"
  using assms(2) running_idx [OF assms(1)]
  by (auto simp: connecting_def maintain_connection_def step_init_def step_scan_def step_connect_def step_handshake_def step_dhcp_def
      link_lost_def Let_def prim mgmt_connect_retry_param_set_def split: option.split)

lemma budget_message:
  assumes "running m" and "connecting m" and "ev \<noteq> EV_INIT" and "num_event (sm_event (sm m 0)) = Some ev"
  shows "budget (maintain_connection env 0 m) \<le> budget m"
proof -
  obtain n where n: "link_of m = (sm_state (sm m 0), n)" by (simp add: link_of_def)
  have "snd (link_event (loaded env \<noteq> None) (sm_reason (sm m 0)) ev (link_of m)) \<le> n"
    unfolding n by (rule link_event_retries) (use assms(2) in \<open>simp add: connecting_def\<close>)
  then show ?thesis
    using maintain_connection_link [OF assms(1,4,3), of env] scans_connecting [OF assms(1,2), of env] n
    by (simp add: budget_link del: link_event.simps)
qed

lemma scans_ap [simp]:
  "scans (snd (wifi_netlink_ap_start env v c m)) = scans m" "scans (wifi_netlink_ap_stop env v m) = scans m"
  "scans (sm_softap_init env i m) = scans m" "scans (sm_softap_started i m) = scans m" "scans (switch_channel env i m) = scans m"
  by (simp_all add: wifi_netlink_ap_start_def wifi_netlink_ap_stop_def sm_softap_init_def sm_softap_started_def switch_channel_def
      Let_def prim split: option.split)

lemma scans_softap: "vif_idx (sm m 1) = 1 \<Longrightarrow> scans (maintain_softap env 1 m) = scans m"
  by (auto simp: maintain_softap_def mgmt_post_ap_start_done_def scan_cmd_def mgmt_post_scan_done_def Let_def vx_def split_beta prim
      split: option.split mgmt_param.split)

lemma scans_switch:
  assumes "wvif_type (vif m (vx i m)) \<in> {WVIF_UNKNOWN, WVIF_AP}"
  shows "scans (snd (mgmt_switch_mode env i m)) = scans m"
  using assms
  by (auto simp: mgmt_switch_mode_def leave_mode_def enter_mode_def wifi_vif_reset_def mgmt_connect_retry_param_set_def Let_def prim
      split: wifi_vif_type.split)

lemma switch_mode_type:
  assumes "\<not> terminate (eloop m)" and "mgr_ok m"
  shows "wvif_type (vif (snd (mgmt_switch_mode env 0 m)) 0) = vif_type_of (sm_reason (sm m 0))"
proof -
  have "vx 0 m = 0" using assms(2) by (simp add: vx_def mgr_ok_def common_ok_def)
  then show ?thesis by (simp add: mgmt_switch_mode_def Let_def prim)
qed

lemma switch_mode_other:
  assumes "vif_idx (sm m 1) = 1" and "wvif_type (vif m 1) \<in> {WVIF_UNKNOWN, WVIF_AP}"
  shows "sm (snd (mgmt_switch_mode env 1 m)) 0 = sm m 0"
proof -
  have v: "vx 1 m = 1" using assms(1) by (simp add: vx_def)
  have "sm (sm_softap_init env 1 m') 0 = sm m' 0" for m' using beside_softap(1) [of 1 m' env] by (simp add: beside_def)
  then show ?thesis
    using assms(2) by (auto simp: mgmt_switch_mode_def v leave_mode_def Let_def prim simp del: One_nat_def)
qed

lemma budget_softap:
  assumes "mgr_ok m" and "vif_idx (sm m 1) = 1"
  shows "budget (snd (mgmt_switch_mode env 1 m)) = budget m" and "budget (maintain_softap env 1 m) = budget m"
proof -
  have t: "wvif_type (vif m 1) \<in> {WVIF_UNKNOWN, WVIF_AP}" using assms(1) by (simp add: mgr_ok_def common_ok_def)
  have v: "vx 1 m = 1" using assms(2) by (simp add: vx_def)
  show "budget (snd (mgmt_switch_mode env 1 m)) = budget m"
    using switch_mode_other [OF assms(2) t] scans_switch [of m 1] t by (simp add: budget_def v del: One_nat_def)
  have "sm (maintain_softap env 1 m) 0 = sm m 0"
    using beside_maintain_softap [OF assms(2), of env] by (simp add: beside_def)
  then show "budget (maintain_softap env 1 m) = budget m"
    using scans_softap [OF assms(2)] by (simp add: budget_def del: One_nat_def)
qed

lemma budget_default:
  assumes "mgr_ok m" and "\<not> terminate (eloop m)" and "connecting m" and c: "connecting (maintain_connection env 0 m)"
  shows "budget (maintain_connection env 0 m) \<le> budget m"
proof -
  have r: "running m" using assms by (auto simp: mgr_ok_def running_def connecting_def station_ok_def Let_def)
  show ?thesis
  proof (cases "sm_event (sm m 0) = event_num EV_INIT")
    case True
    then have "sm_state (sm (maintain_connection env 0 m) 0) = IDLE"
      using assms(2) by (simp add: maintain_connection_def step_init_def mgmt_connect_retry_param_set_def zero_sm_def prim)
    then show ?thesis using c by (simp add: connecting_def)
  next
    case False
    then show ?thesis
    proof (cases "num_event (sm_event (sm m 0))")
      case None
      then show ?thesis using False r by (simp add: maintain_connection_def running_def)
    next
      case (Some ev)
      then have "ev \<noteq> EV_INIT" using False by (auto simp: num_event_inv)
      then show ?thesis using budget_message [OF r assms(3) _ Some] by blast
    qed
  qed
qed

lemma connecting_same: "same_link m m' \<Longrightarrow> connecting m' = connecting m"
  by (simp add: same_link_def connecting_def)

lemma budget_run:
  assumes "mgr_ok m" and "\<not> terminate (eloop m)" and "connecting m"
    and c: "connecting (wifi_mgmt_cb_run_state_machine env msg m)"
  shows "budget (wifi_mgmt_cb_run_state_machine env msg m) \<le> budget m"
proof -
  define event i where "event = ELOOP_EVENT_GET_EV (event_id msg)" and "i = unat (ELOOP_EVENT_GET_VIF (event_id msg))"
  define m1 where "m1 = upd_sm i (\<lambda>s. s\<lparr>vif_idx := i, sm_event := event, sm_reason := msg_reason msg, sm_param := msg_param msg\<rparr>) m"
  have s: "same_link m m1"
    using assms(1) by (simp add: m1_def same_link_def prim mgr_ok_def common_ok_def)
  then have m1: "mgr_ok m1" "\<not> terminate (eloop m1)" "connecting m1" "vif_idx (sm m1 i) = i" "budget m1 = budget m"
    using assms same_link_ok connecting_same by (auto simp: m1_def prim budget_def)
  define m2 where "m2 = (if event = event_num EV_SWITCH_MODE_CMD then snd (mgmt_switch_mode env i m1)
     else case wvif_type (vif m1 i) of WVIF_STA \<Rightarrow> maintain_connection env i m1 | WVIF_AP \<Rightarrow> maintain_softap env i m1
       | WVIF_MONITOR \<Rightarrow> maintain_monitor env i m1 | WVIF_UNKNOWN \<Rightarrow> m1)"
  have r: "wifi_mgmt_cb_run_state_machine env msg m
      = (if i \<ge> CFG_VIF_NUM \<or> event < event_num EV_INIT then m else upd_sm i (\<lambda>s. s\<lparr>sm_param := None\<rparr>) m2)"
    by (simp add: wifi_mgmt_cb_run_state_machine_def Let_def event_def [symmetric] i_def [symmetric] m1_def [symmetric] m2_def [symmetric])
  have "budget m2 \<le> budget m1" if "i = 0" "connecting m2"
    using that m1 budget_default [OF m1(1-3)] switch_mode_type [OF m1(2,1), of env]
    by (cases "event = event_num EV_SWITCH_MODE_CMD")
      (auto simp: m2_def connecting_def mgmt_switch_mode_def vx_def Let_def)
  moreover have "budget m2 \<le> budget m1" if "i = 1"
  proof -
    have "wvif_type (vif m1 1) = WVIF_UNKNOWN \<or> wvif_type (vif m1 1) = WVIF_AP" using m1(1) by (simp add: mgr_ok_def common_ok_def)
    then show ?thesis using budget_softap [OF m1(1)] m1(4) that by (auto simp: m2_def simp del: One_nat_def)
  qed
  moreover have "connecting (upd_sm i (\<lambda>s. s\<lparr>sm_param := None\<rparr>) m2) = connecting m2" "budget (upd_sm i (\<lambda>s. s\<lparr>sm_param := None\<rparr>) m2) = budget m2"
    by (simp_all add: connecting_def budget_def prim)
  moreover have "i < 2 \<Longrightarrow> i = 0 \<or> i = 1" by auto
  ultimately show ?thesis using c m1(5) by (auto simp: r CFG_VIF_NUM_def split: if_splits)
qed

lemma budget_take_message:
  assumes "mgr_ok m" and "\<not> terminate (eloop m)" and "connecting m" and c: "connecting (take_message env m)"
  shows "budget (take_message env m) \<le> budget m"
proof (cases "task_queue (eloop m)")
  case Nil
  then show ?thesis by (simp add: take_message_def)
next
  case (Cons msg q)
  define m0 where "m0 = m\<lparr>eloop := (eloop m)\<lparr>task_queue := q\<rparr>\<rparr>"
  have "same_link m m0"
    using assms(1) Cons by (simp add: same_link_def m0_def pending_def timers_ok_def queue_ok_def)
  then have m0: "mgr_ok m0" "\<not> terminate (eloop m0)" "connecting m0"
    using assms same_link_ok connecting_same by (auto simp: same_link_def)
  have "budget m0 = budget m" by (simp add: m0_def budget_def scans_def)
  moreover have "budget (m0\<lparr>eloop := e\<rparr>) = budget m0" for e by (simp add: budget_def scans_def)
  ultimately show ?thesis
    using budget_run [OF m0, of env msg] c Cons
    by (simp add: take_message_def eloop_event_dispatch_def Let_def m0_def [symmetric] split: if_splits)
qed

lemma budget_take_timeout:
  assumes "mgr_ok m" and "\<not> terminate (eloop m)" and "connecting m"
  shows "budget (take_timeout env m) \<le> budget m"
proof (cases "eloop_timeout_handle (now env) (eloop m)")
  case (Pair o1 e)
  show ?thesis
  proof (cases o1)
    case None
    then show ?thesis using Pair by (simp add: take_timeout_def)
  next
    case (Some x)
    note h = handled_timeout [OF assms(1) Pair [unfolded Some]]
    have st: "station_ok m" using assms(1) h by (simp add: mgr_ok_def)
    have nl: "to_handler x \<noteq> H_LINK_STATUS_POLLING" using st h assms(3) by (auto simp: station_ok_def connecting_def Let_def)
    have b: "budget (m\<lparr>eloop := e\<rparr>) = budget m" by (simp add: budget_def scans_def)
    have "budget (mgmt_dhcp_polling env 0 m') = budget m'" for m' by (simp add: mgmt_dhcp_polling_def Let_def budget_def prim)
    moreover have "budget (mgmt_connect_retry env 0 (m\<lparr>eloop := e\<rparr>)) \<le> budget m" if "to_handler x = H_CONNECT_RETRY"
    proof -
      have pos: "unat (retry_count (sm m 0)) > 0" using that st h by (auto simp: station_ok_def Let_def word_less_nat_alt)
      define m1 where "m1 = upd_sm 0 (\<lambda>s. s\<lparr>retry_count := retry_count s - 1, delayed_connect_retry := False\<rparr>) (m\<lparr>eloop := e\<rparr>)"
      have i: "vif_idx (sm m1 0) = 0" "\<not> terminate (eloop m1)"
        using assms h by (simp_all add: m1_def prim mgr_ok_def common_ok_def)
      have "unat (retry_count (sm m1 0)) = unat (retry_count (sm m 0)) - 1" "scans m1 = scans m"
        using pos by (simp_all add: m1_def prim unat_sub word_le_nat_alt) (simp add: scans_def)
      then show ?thesis
        using scans_scan(1) [of env 0 m1] pos i by (simp add: mgmt_connect_retry_def m1_def [symmetric] budget_def)
    qed
    ultimately show ?thesis
      using Pair Some h nl b by (cases "to_handler x") (simp_all add: take_timeout_def)
  qed
qed

lemma timeout_not_connecting:
  assumes "mgr_ok m" and "\<not> connecting m"
  shows "\<not> connecting (take_timeout env m)"
proof (cases "eloop_timeout_handle (now env) (eloop m)")
  case (Pair o1 e)
  show ?thesis
  proof (cases o1)
    case None
    then show ?thesis using Pair assms(2) by (simp add: take_timeout_def)
  next
    case (Some x)
    note h = handled_timeout [OF assms(1) Pair [unfolded Some]]
    have "to_handler x \<noteq> H_CONNECT_RETRY"
      using assms h by (auto simp: mgr_ok_def station_ok_def connecting_def Let_def)
    then show ?thesis
      using Pair Some h assms(2) by (cases "to_handler x")
        (simp_all add: take_timeout_def connecting_def mgmt_dhcp_polling_def mgmt_link_status_polling_def Let_def prim)
  qed
qed

lemma budget_round:
  assumes "mgr_ok m" and "\<not> terminate (eloop m)" and "connecting m"
    and "\<not> terminate (eloop (eloop_round env env' m))" and c: "connecting (eloop_round env env' m)"
  shows "budget (eloop_round env env' m) \<le> budget m"
proof -
  define m1 where "m1 = (case loop_wait_of (now env) (eloop m) of Yield \<Rightarrow> m | _ \<Rightarrow> take_message env m)"
  have r: "eloop_round env env' m = take_timeout env' m1" using assms(2) by (simp add: eloop_round_def m1_def)
  have ok: "mgr_ok m1" using assms take_message_ok by (auto simp: m1_def split: loop_wait.split)
  have "\<not> terminate (eloop m1)" using assms(4) take_timeout_terminate [of m1 env'] by (auto simp: r)
  moreover have "connecting m1" using c timeout_not_connecting [OF ok] by (auto simp: r)
  moreover from this have "budget m1 \<le> budget m"
    using budget_take_message [OF assms(1-3), of env] by (auto simp: m1_def split: loop_wait.splits)
  ultimately show ?thesis using budget_take_timeout [OF ok, of env'] by (simp add: r)
qed

text \<open>An attempt to connect: any steps of the system as long as the station is connecting.\<close>

definition attempt_step :: "mgr \<Rightarrow> mgr \<Rightarrow> bool" where
  "attempt_step m m' \<longleftrightarrow> mgr_step m m' \<and> connecting m' \<and> \<not> terminate (eloop m')"

lemma attempt_step_budget:
  assumes "attempt_step m m'" and "mgr_ok m" and "\<not> terminate (eloop m)" and "connecting m"
  shows "budget m' \<le> budget m"
proof -
  have "mgr_step m m'" using assms(1) by (simp add: attempt_step_def)
  then show ?thesis
  proof cases
    case (round env env')
    then show ?thesis using assms budget_round by (simp add: attempt_step_def)
  qed (simp_all add: budget_def prim post_message_def scans_def upd_loop_def)
qed

definition attempting :: "mgr \<Rightarrow> bool" where
  "attempting m \<longleftrightarrow> mgr_ok m \<and> \<not> terminate (eloop m) \<and> connecting m"

text \<open>Scans as a cost and retries as the reserve that pays for it.\<close>

interpretation retries: paid_steps attempt_step attempting scans "\<lambda>m. unat (retry_count (sm m 0))"
proof
  fix m m'
  assume a: "attempt_step m m'" "attempting m"
  then show "attempting m'"
    using mgr_step_ok [of m m'] by (auto simp: attempting_def attempt_step_def)
  show "scans m' + unat (retry_count (sm m' 0)) \<le> scans m + unat (retry_count (sm m 0))"
    using attempt_step_budget a by (simp add: attempting_def budget_def)
qed

text \<open>No step of the station ends the loop.\<close>

abbreviation ended :: "mgr \<Rightarrow> bool" where
  "ended m \<equiv> terminate (eloop m)"

lemma ended_enter [simp]:
  "ended (sm_idle i m) = ended m" "ended (sm_scan env i m) = ended m" "ended (sm_connect env i m) = ended m"
  "ended (sm_handshake i m) = ended m" "ended (sm_dhcp env i m) = ended m" "ended (sm_connected env i m) = ended m"
  "ended (stop_wpa v m) = ended m" "ended (set_last_reason i m) = ended m" "ended (copy_cfg i m) = ended m"
  "ended (scan_cmd env i m) = ended m" "ended (mgmt_link_is_ongoing i m) = ended m" "ended (give_up i m) = ended m"
  "ended (mgmt_post_scan_done v r m) = ended m" "ended (mgmt_post_disconn_done v m) = ended m"
  "ended (mgmt_connect_retry_param_set i b m) = ended m" "ended (mgmt_connected_scan_done env i m) = ended m"
  "ended (mgmt_register_delayed_connect_retry env i m) = ended m"
  by (simp_all add: mgr_defs prim mgmt_register_delayed_connect_retry_def mgmt_connected_scan_done_def
      split: option.split mgmt_param.split prod.split)

lemma ended_lost [simp]:
  "ended (retry_or_give_up env i m) = ended m" "ended (link_lost env i b m) = ended m" "ended (connection_lost env i m) = ended m"
  "ended (auto_connect env i m) = ended m" "ended (roaming_start env i m) = ended m" "ended (step_init i m) = ended m"
  by (simp_all add: retry_or_give_up_def link_lost_def connection_lost_def auto_connect_def roaming_start_def step_init_def Let_def
      prim split: option.split prod.split)

lemma maintain_terminate: "ended (maintain_connection env i m) = ended m"
  by (simp add: maintain_connection_def step_idle_def step_scan_def step_connect_def step_handshake_def step_dhcp_def
      step_connected_def Let_def prim split: option.split conn_state.split)

text \<open>Nor does one change the mode or end the initialisation.\<close>

definition mode :: "mgr \<Rightarrow> wifi_vif_type \<times> bool" where
  "mode m = (wvif_type (vif m 0), init (sm m 0))"

lemma mode_enter [simp]:
  "mode (sm_idle 0 m) = mode m" "mode (sm_scan env 0 m) = mode m" "mode (sm_connect env 0 m) = mode m"
  "mode (sm_handshake 0 m) = mode m" "mode (sm_dhcp env 0 m) = mode m" "mode (sm_connected env 0 m) = mode m"
  "mode (stop_wpa v m) = mode m" "mode (set_last_reason 0 m) = mode m" "mode (copy_cfg 0 m) = mode m"
  "mode (scan_cmd env 0 m) = mode m" "mode (mgmt_link_is_ongoing 0 m) = mode m" "mode (give_up 0 m) = mode m"
  "mode (mgmt_post_scan_done v r m) = mode m" "mode (mgmt_post_disconn_done v m) = mode m"
  "mode (mgmt_connect_retry_param_set 0 b m) = mode m" "mode (mgmt_connected_scan_done env 0 m) = mode m"
  "mode (mgmt_register_delayed_connect_retry env 0 m) = mode m" "mode (log_call c m) = mode m" "mode (cancel h m) = mode m"
  "mode (register env k h 0 m) = mode m" "mode (upd_sm 0 (\<lambda>s. s\<lparr>delayed_connect_retry := d\<rparr>) m) = mode m"
  by (simp_all add: mode_def mgr_defs prim mgmt_register_delayed_connect_retry_def mgmt_connected_scan_done_def
      split: option.split mgmt_param.split prod.split)

lemma mode_lost [simp]:
  "mode (retry_or_give_up env 0 m) = mode m" "mode (link_lost env 0 b m) = mode m" "mode (connection_lost env 0 m) = mode m"
  by (simp_all add: retry_or_give_up_def link_lost_def connection_lost_def Let_def)

lemma mode_start [simp]:
  "mode (auto_connect env 0 m) = mode m" "mode (roaming_start env 0 m) = mode m" "mode (step_init 0 m) = (wvif_type (vif m 0), True)"
proof -
  have "mode (upd_vif v (\<lambda>w. (cfg_upd f w)\<lparr>history_ip := ip\<rparr>) m) = mode m" for v f ip
    by (simp add: mode_def cfg_upd_def prim)
  then show "mode (auto_connect env 0 m) = mode m" by (simp add: auto_connect_def split: option.split prod.split)
  show "mode (roaming_start env 0 m) = mode m" by (simp add: roaming_start_def mode_def prim)
  show "mode (step_init 0 m) = (wvif_type (vif m 0), True)" by (simp add: step_init_def) (simp add: mode_def prim)
qed

lemma maintain_type:
  assumes "init (sm m 0)"
  shows "mode (maintain_connection env 0 m) = mode m"
  using assms
  by (simp add: maintain_connection_def step_idle_def step_scan_def step_connect_def step_handshake_def step_dhcp_def
      step_connected_def Let_def split: option.split conn_state.split) (simp add: mode_def)

lemma scans_start:
  assumes "running m" and "sm_state (sm m 0) \<in> {IDLE, CONNECTED}" and "ev \<in> {EV_CONNECT_CMD, EV_AUTO_CONNECT_CMD, EV_DISCONNECT}"
    and "sm_event (sm m 0) = event_num ev"
  shows "scans (maintain_connection env 0 m) \<le> scans m + 1"
  using assms scans_scan(1) [of env 0] running_idx [OF assms(1)]
  by (auto simp: maintain_connection_def running_def step_idle_def step_connected_def auto_connect_def connection_lost_def Let_def
      mgmt_connect_retry_param_set_def copy_cfg_def prim split: option.split mgmt_param.split intro!: order_trans [OF scans_scan(1)])

lemma start_attempt:
  assumes "running m" and "sm_state (sm m 0) \<in> {IDLE, CONNECTED}"
    and "ev \<in> {EV_CONNECT_CMD, EV_AUTO_CONNECT_CMD, EV_DISCONNECT}"
    and m1: "m1 = wifi_mgmt_cb_run_state_machine env (message_for 0 ev r p) m" and "connecting m1"
  shows "attempting m1 \<and> scans m1 \<le> scans m + 1 \<and> unat (retry_count (sm m1 0)) \<le> (if ev = EV_CONNECT_CMD then 2 else 99)"
proof -
  define ml where "ml = loaded_message ev r p m"
  have s: "same_link m ml" unfolding ml_def by (rule same_link_loaded [OF running_idx [OF assms(1)]])
  have m1': "m1 = upd_sm 0 (\<lambda>s. s\<lparr>sm_param := None\<rparr>) (maintain_connection env 0 ml)"
    using assms(1,3) unfolding m1 ml_def by (intro run_message) (auto simp: running_def)
  have rl: "running ml" by (rule same_link_running [OF s assms(1)])
  have sl: "same_link (maintain_connection env 0 ml) m1" by (simp add: m1' same_link_def prim)
  have "mgr_ok (maintain_connection env 0 ml)" by (rule maintain_connection_ok) (use rl in \<open>auto simp: running_def mgr_ok_def\<close>)
  then have ok: "mgr_ok m1" by (rule same_link_ok [OF sl])
  have run: "\<not> terminate (eloop m1)" using rl by (simp add: m1' prim maintain_terminate running_def)
  have "scans (maintain_connection env 0 ml) \<le> scans ml + 1"
    using assms(2,3) same_link_state [OF s] by (intro scans_start [OF rl, of ev]) (simp_all add: ml_def loaded_message_def prim)
  then have "scans m1 \<le> scans m + 1" by (simp add: m1' ml_def loaded_message_def prim)
  moreover have "link_of m1 = link_event (loaded env \<noteq> None) (sm_reason (sm ml 0)) ev (link_of ml)"
    using maintain_connection_link [OF rl, of ev env] assms(3) same_link_of [OF sl]
    by (auto simp: ml_def loaded_message_def prim)
  then have "unat (retry_count (sm m1 0)) \<le> (if ev = EV_CONNECT_CMD then 2 else 99)"
    using assms(2,3,5) same_link_of [OF s] by (auto simp: link_of_def connecting_def split: if_splits)
  ultimately show ?thesis using ok run assms(5) by (simp add: attempting_def)
qed

end
