(* ===== verification/Wifi_Session.thy ===== *)
theory Wifi_Session
  imports Wifi_Link
begin

text \<open>
  The calls of other tasks together with the manager task: what the state looks like at any time,
  how a blocked call to connect is answered, and when it is answered wrongly or not at all.
\<close>

section \<open>One message of the default interface\<close>

lemma loaded_prim [prim]:
  "vif (loaded_message ev r p m) = vif m" "eloop (loaded_message ev r p m) = eloop m" "waitq (loaded_message ev r p m) = waitq m"
  "calls (loaded_message ev r p m) = calls m" "concurrent (loaded_message ev r p m) = concurrent m"
  "sm (loaded_message ev r p m) = (sm m)(0 := (sm m 0)\<lparr>vif_idx := 0, sm_event := event_num ev, sm_reason := r, sm_param := p\<rparr>)"
  by (simp_all add: loaded_message_def prim)

lemma loaded_scans [prim]: "scans (loaded_message ev r p m) = scans m" "pending h (loaded_message ev r p m) = pending h m"
  by (simp_all add: loaded_message_def prim)

lemma running_loaded: "running m \<Longrightarrow> running (loaded_message ev r p m)"
  using same_link_loaded [OF running_idx] same_link_running by blast

lemma handled:
  assumes "running m" and "ev \<notin> {EV_START, EV_INIT, EV_SWITCH_MODE_CMD}"
  shows "wifi_mgmt_cb_run_state_machine env (message_for 0 ev r p) m
      = upd_sm 0 (\<lambda>s. s\<lparr>sm_param := None\<rparr>) (case sm_state (sm m 0) of
          IDLE \<Rightarrow> step_idle env 0 ev (loaded_message ev r p m)
        | WPS \<Rightarrow> loaded_message ev r p m
        | SCAN \<Rightarrow> step_scan env 0 ev (loaded_message ev r p m)
        | CONNECT \<Rightarrow> step_connect env 0 ev (loaded_message ev r p m)
        | HANDSHAKE \<Rightarrow> step_handshake env 0 ev (loaded_message ev r p m)
        | DHCP \<Rightarrow> step_dhcp env 0 ev (loaded_message ev r p m)
        | CONNECTED \<Rightarrow> step_connected env 0 ev (loaded_message ev r p m))"
  using assms by (simp add: run_message maintain_connection_def prim running_def)

lemma running_message:
  assumes "running m" and "ev \<notin> {EV_START, EV_INIT, EV_SWITCH_MODE_CMD}"
  shows "running (wifi_mgmt_cb_run_state_machine env (message_for 0 ev r p) m)"
proof -
  let ?m = "loaded_message ev r p m"
  have r: "running ?m" by (rule running_loaded [OF assms(1)])
  have e: "wifi_mgmt_cb_run_state_machine env (message_for 0 ev r p) m
      = upd_sm 0 (\<lambda>s. s\<lparr>sm_param := None\<rparr>) (maintain_connection env 0 ?m)"
    using assms by (intro run_message) (auto simp: running_def)
  have "mgr_ok (maintain_connection env 0 ?m)" using r by (intro maintain_connection_ok) (auto simp: running_def mgr_ok_def)
  moreover have "wvif_type (vif (maintain_connection env 0 ?m) 0) = WVIF_STA \<and> init (sm (maintain_connection env 0 ?m) 0)"
    using r maintain_type [of ?m env] by (simp add: running_def mode_def)
  ultimately have "running (maintain_connection env 0 ?m)" using r by (simp add: mgr_ok_def maintain_terminate running_def)
  moreover have "same_link (maintain_connection env 0 ?m) (upd_sm 0 (\<lambda>s. s\<lparr>sm_param := None\<rparr>) (maintain_connection env 0 ?m))"
    by (simp add: same_link_def prim)
  ultimately show ?thesis unfolding e by (rule same_link_running [rotated])
qed

section \<open>A connection that succeeds\<close>

text \<open>What a task waiting for a connection can see: the answers, and whether one is owed.\<close>

definition owed :: "mgr \<Rightarrow> bool" where
  "owed m = conn_blocked (sta_cfg_of (vif m 0))"

text \<open>The stages of a connection, each by its event.\<close>

lemma connect_cmd_stage:
  assumes "running m" and "sm_state (sm m 0) = IDLE"
    and m': "m' = wifi_mgmt_cb_run_state_machine env (message_for 0 EV_CONNECT_CMD r (Some (P_STA_CFG c))) m"
  shows "running m' \<and> sm_state (sm m' 0) = SCAN \<and> waitq m' = waitq m \<and> sta_cfg_of (vif m' 0) = c"
proof -
  have "running m'" unfolding m' by (rule running_message [OF assms(1)]) simp
  then show ?thesis
    using assms running_idx [OF assms(1)]
    by (simp add: handled step_idle_def mgr_defs prim)
qed

lemma scan_done_stage:
  assumes "running m" and "sm_state (sm m 0) = SCAN" and "connect_ret env = 0"
    and m': "m' = wifi_mgmt_cb_run_state_machine env (message_for 0 EV_SCAN_DONE r p) m"
  shows "running m' \<and> sm_state (sm m' 0) = CONNECT \<and> waitq m' = waitq m \<and> owed m' = owed m
    \<and> calls m' = calls m @ [NET_CONNECT_REQ 0 (sta_cfg_of (vif m 0))]"
proof -
  have "running m'" unfolding m' by (rule running_message [OF assms(1)]) simp
  then show ?thesis
    using assms running_idx [OF assms(1)]
    by (simp add: handled step_scan_def mgr_defs prim owed_def)
qed

lemma assoc_stage:
  assumes "running m" and "sm_state (sm m 0) = CONNECT"
    and m': "m' = wifi_mgmt_cb_run_state_machine env (message_for 0 EV_ASSOC_SUCCESS r p) m"
  shows "running m' \<and> sm_state (sm m' 0) = HANDSHAKE \<and> waitq m' = waitq m \<and> owed m' = owed m
    \<and> calls m' = calls m @ [NET_ASSOC_DONE 0 p]"
proof -
  have "running m'" unfolding m' by (rule running_message [OF assms(1)]) simp
  then show ?thesis
    using assms running_idx [OF assms(1)]
    by (simp add: handled step_connect_def mgr_defs prim owed_def)
qed

lemma dhcp_start_stage:
  assumes "running m" and "sm_state (sm m 0) = HANDSHAKE"
    and m': "m' = wifi_mgmt_cb_run_state_machine env (message_for 0 EV_DHCP_START r p) m"
  shows "running m' \<and> sm_state (sm m' 0) = DHCP \<and> waitq m' = waitq m \<and> owed m' = owed m
    \<and> calls m' = calls m @ (if is_static_ip env then [] else [IP_DHCP_CLIENT 0])"
proof -
  have "running m'" unfolding m' by (rule running_message [OF assms(1)]) simp
  then show ?thesis
    using assms running_idx [OF assms(1)]
    by (simp add: handled step_handshake_def mgr_defs prim owed_def)
qed

lemma dhcp_success_stage:
  assumes "running m" and "sm_state (sm m 0) = DHCP" and "owed m"
    and m': "m' = wifi_mgmt_cb_run_state_machine env (message_for 0 EV_DHCP_SUCCESS r p) m"
  shows "running m' \<and> sm_state (sm m' 0) = CONNECTED \<and> \<not> owed m' \<and> pending H_CONNECT_RETRY m' = 0
    \<and> waitq m' = (if length (waitq m) < MGMT_WAIT_QUEUE_MSG_SIZE then waitq m @ [(0, WAIT_CONN_DONE, MAC_ST_SUCCESSFUL)] else waitq m)"
proof -
  have r: "running m'" unfolding m' by (rule running_message [OF assms(1)]) simp
  then have "sm_state (sm m' 0) = CONNECTED \<and> \<not> owed m'
    \<and> waitq m' = (if length (waitq m) < MGMT_WAIT_QUEUE_MSG_SIZE then waitq m @ [(0, WAIT_CONN_DONE, MAC_ST_SUCCESSFUL)] else waitq m)"
    using assms running_idx [OF assms(1)]
    by (auto simp: handled step_dhcp_def mgr_defs prim owed_def post_wait_def)
  then show ?thesis using r no_retry_pending [OF r] by simp
qed

text \<open>A command to switch to the mode the interface has changes nothing.\<close>

lemma switch_stage:
  assumes "running m" and m': "m' = wifi_mgmt_cb_run_state_machine env (message_for 0 EV_SWITCH_MODE_CMD (type_num WVIF_STA) None) m"
  shows "running m' \<and> sm_state (sm m' 0) = sm_state (sm m 0) \<and> waitq m' = waitq m \<and> vif m' = vif m \<and> calls m' = calls m"
proof -
  have "vif_type_of (type_num WVIF_STA) = WVIF_STA" by (simp add: vif_type_of_def type_num_def)
  moreover have "wvif_type (vif m 0) = WVIF_STA" using assms(1) by (simp add: running_def)
  moreover have "\<not> event_num EV_SWITCH_MODE_CMD < event_num EV_INIT" by (simp add: event_num_init)
  ultimately have e: "m' = upd_sm 0 (\<lambda>s. s\<lparr>vif_idx := 0, sm_event := event_num EV_SWITCH_MODE_CMD, sm_reason := type_num WVIF_STA,
      sm_param := None\<rparr>) m"
    unfolding m' by (simp add: wifi_mgmt_cb_run_state_machine_def message_for_def CFG_VIF_NUM_def mgmt_switch_mode_def vx_def prim
        Let_def upd_sm_def)
  then have "same_link m m'" using running_idx [OF assms(1)] by (simp add: same_link_def prim)
  then show ?thesis using same_link_running [OF _ assms(1)] by (simp add: e prim)
qed

text \<open>The manager task works off its queue and the events that arrive after it.\<close>

definition serve :: "env \<Rightarrow> mgmt_event list \<Rightarrow> mgr \<Rightarrow> mgr" where
  "serve env evs m = fold (\<lambda>msg. wifi_mgmt_cb_run_state_machine env msg)
     (task_queue (eloop m) @ map (\<lambda>ev. message_for 0 ev 0 None) evs) (m\<lparr>eloop := (eloop m)\<lparr>task_queue := []\<rparr>\<rparr>)"

lemma send_empty:
  assumes "\<not> ended m" and "length (task_queue (eloop m)) < 24"
  shows "send 0 ev r p m = (0, m\<lparr>eloop := (eloop m)\<lparr>task_queue := task_queue (eloop m) @ [message_for 0 ev r p]\<rparr>\<rparr>)"
  using assms by (simp add: send_def send_message_def upd_loop_def eloop_message_send_def sys_task_post_def MGMT_TASK_QUEUE_SIZE_def
      message_for_def)

lemma connect_request_sent:
  assumes "\<not> ended m" and "task_queue (eloop m) = []"
  shows "connect_request True cfg new_ap flush m
    = (0, (if new_ap then upd_vif 0 (\<lambda>w. w\<lparr>history_ip := 0\<rparr>) m else m)\<lparr>waitq := [], eloop := (eloop m)\<lparr>task_queue :=
        [message_for 0 EV_SWITCH_MODE_CMD (type_num WVIF_STA) None,
         message_for 0 EV_CONNECT_CMD 0 (Some (P_STA_CFG (cfg\<lparr>flush_cache_req := flush\<rparr>)))]\<rparr>\<rparr>)"
  using assms by (simp add: connect_request_def switch_mode_cmd_def WIFI_VIF_INDEX_DEFAULT_def send_empty mgmt_wait_queue_flush_def
      Let_def upd_vif_def)

lemma served_connection:
  assumes "running m" and "sm_state (sm m 0) = IDLE" and "waitq m = []" and "conn_blocked c" and "connect_ret env = 0"
    and m': "m' = fold (\<lambda>msg. wifi_mgmt_cb_run_state_machine env msg)
      [message_for 0 EV_SWITCH_MODE_CMD (type_num WVIF_STA) None, message_for 0 EV_CONNECT_CMD 0 (Some (P_STA_CFG c)),
       message_for 0 EV_SCAN_DONE 0 None, message_for 0 EV_ASSOC_SUCCESS 0 None, message_for 0 EV_DHCP_START 0 None,
       message_for 0 EV_DHCP_SUCCESS 0 None] m"
  shows "running m' \<and> sm_state (sm m' 0) = CONNECTED \<and> \<not> owed m' \<and> pending H_CONNECT_RETRY m' = 0
    \<and> waitq m' = [(0, WAIT_CONN_DONE, MAC_ST_SUCCESSFUL)] \<and> NET_CONNECT_REQ 0 c \<in> set (calls m')"
proof -
  define handle where "handle = wifi_mgmt_cb_run_state_machine env"
  define m1 where "m1 = handle (message_for 0 EV_SWITCH_MODE_CMD (type_num WVIF_STA) None) m"
  define m2 where "m2 = handle (message_for 0 EV_CONNECT_CMD 0 (Some (P_STA_CFG c))) m1"
  define m3 where "m3 = handle (message_for 0 EV_SCAN_DONE 0 None) m2"
  define m4 where "m4 = handle (message_for 0 EV_ASSOC_SUCCESS 0 None) m3"
  define m5 where "m5 = handle (message_for 0 EV_DHCP_START 0 None) m4"
  have m'5: "m' = handle (message_for 0 EV_DHCP_SUCCESS 0 None) m5"
    by (simp add: m' m1_def m2_def m3_def m4_def m5_def handle_def)
  have 1: "running m1" "sm_state (sm m1 0) = IDLE" "waitq m1 = []"
    using switch_stage [OF assms(1) m1_def [unfolded handle_def]] assms(2,3) by simp_all
  have 2: "running m2" "sm_state (sm m2 0) = SCAN" "waitq m2 = []" "sta_cfg_of (vif m2 0) = c"
    using connect_cmd_stage [OF 1(1,2) m2_def [unfolded handle_def]] 1(3) by simp_all
  have 3: "running m3" "sm_state (sm m3 0) = CONNECT" "waitq m3 = []" "owed m3" "NET_CONNECT_REQ 0 c \<in> set (calls m3)"
    using scan_done_stage [OF 2(1,2) assms(5) m3_def [unfolded handle_def]] 2(3,4) assms(4) by (simp_all add: owed_def)
  have 4: "running m4" "sm_state (sm m4 0) = HANDSHAKE" "waitq m4 = []" "owed m4" "NET_CONNECT_REQ 0 c \<in> set (calls m4)"
    using assoc_stage [OF 3(1,2) m4_def [unfolded handle_def]] 3(3-5) by simp_all
  have 5: "running m5" "sm_state (sm m5 0) = DHCP" "waitq m5 = []" "owed m5" "NET_CONNECT_REQ 0 c \<in> set (calls m5)"
    using dhcp_start_stage [OF 4(1,2) m5_def [unfolded handle_def]] 4(3-5) by simp_all
  have "set (calls m5) \<subseteq> set (calls m')"
    using 5(1,2) unfolding m'5 handle_def by (auto simp: handled step_dhcp_def mgr_defs prim)
  then show ?thesis
    using dhcp_success_stage [OF 5(1,2,4) m'5 [unfolded handle_def]] 5(3,5)
    by (auto simp: MGMT_WAIT_QUEUE_MSG_SIZE_def)
qed

text \<open>
  C19: a blocked call to connect returns 0 when the access point is found, associates and gives an
  address: from the idle state with an empty queue, through the messages of the call and the
  events of the connection, the station is connected, its address has been asked for by the name
  and the password of the call, no retry is pending and nobody is left waiting.
\<close>

theorem connect_call_succeeds:
  assumes "running m" and "sm_state (sm m 0) = IDLE" and "task_queue (eloop m) = []" and "connect_ret env = 0"
    and "length n \<le> 32" and "pw = [] \<or> length pw = 5 \<or> 8 \<le> length pw \<and> length pw \<le> 63"
  shows "\<exists>m'. wifi_management_connect True True (serve env [EV_SCAN_DONE, EV_ASSOC_SUCCESS, EV_DHCP_START, EV_DHCP_SUCCESS]) run'
      (Some n) (Some pw) True m = (0, m')
    \<and> sm_state (sm m' 0) = CONNECTED \<and> sta_state (vif m' 0) = STA_CONNECTED \<and> waitq m' = [] \<and> \<not> owed m'
    \<and> pending H_CONNECT_RETRY m' = 0
    \<and> (\<exists>c. NET_CONNECT_REQ 0 c \<in> set (calls m') \<and> ssid c = n \<and> passphrase c = pw)"
proof -
  define prev where "prev = sta_cfg_of (vif m 0)"
  define c where "c = zero_cfg\<lparr>ssid := n, passphrase := pw, channel := 0xFF, conn_blocked := True,
    flush_cache_req := (n \<noteq> ssid prev \<or> pw \<noteq> passphrase prev)\<rparr>"
  define m0 where "m0 = (if n \<noteq> ssid prev then upd_vif 0 (\<lambda>w. w\<lparr>history_ip := 0\<rparr>) m else m)\<lparr>waitq := []\<rparr>"
  have loop: "eloop m0 = eloop m" "sm m0 = sm m" by (simp_all add: m0_def prim)
  have "same_link m m0" by (simp add: m0_def same_link_def prim) (simp add: pending_def timers_ok_def queue_ok_def prim)
  then have m0: "running m0" "sm_state (sm m0 0) = IDLE" "waitq m0 = []"
    using assms(1,2) loop same_link_running by (auto simp: m0_def)
  define evs where "evs = [EV_SCAN_DONE, EV_ASSOC_SUCCESS, EV_DHCP_START, EV_DHCP_SUCCESS]"
  define m1 where "m1 = m0\<lparr>eloop := (eloop m)\<lparr>task_queue := [message_for 0 EV_SWITCH_MODE_CMD (type_num WVIF_STA) None,
    message_for 0 EV_CONNECT_CMD 0 (Some (P_STA_CFG c))]\<rparr>\<rparr>"
  define m' where "m' = serve env evs m1"
  have "m1\<lparr>eloop := (eloop m1)\<lparr>task_queue := []\<rparr>\<rparr> = m0" using loop assms(3) by (simp add: m1_def)
  then have served: "running m' \<and> sm_state (sm m' 0) = CONNECTED \<and> \<not> owed m' \<and> pending H_CONNECT_RETRY m' = 0
      \<and> waitq m' = [(0, WAIT_CONN_DONE, MAC_ST_SUCCESSFUL)] \<and> NET_CONNECT_REQ 0 c \<in> set (calls m')"
    by (intro served_connection [OF m0 _ assms(4)]) (simp_all add: c_def m'_def serve_def m1_def evs_def)
  have "connect_request True (c\<lparr>flush_cache_req := False\<rparr>) (n \<noteq> ssid prev) (n \<noteq> ssid prev \<or> pw \<noteq> passphrase prev) m = (0, m1)"
    using assms(1,3) by (simp add: connect_request_sent running_def m1_def m0_def c_def)
  moreover have "zero_cfg\<lparr>ssid := n, passphrase := pw, channel := 0xFF, conn_blocked := True\<rparr> = c\<lparr>flush_cache_req := False\<rparr>"
    by (simp add: c_def zero_cfg_def)
  ultimately have "wifi_management_connect True True (serve env evs) run' (Some n) (Some pw) True m
      = (0, upd_vif 0 (\<lambda>w. w\<lparr>last_reason := 0\<rparr>) (m'\<lparr>waitq := []\<rparr>))"
    using assms(5,6) served
    by (auto simp: wifi_management_connect_def password_of_def WIFI_SSID_MAX_LEN_def WPAS_MAX_PASSPHRASE_LEN_def
        WPAS_MIN_PASSPHRASE_LEN_def WPAS_WEP40_ASCII_LEN_def WIFI_VIF_INDEX_DEFAULT_def prev_def wait_for_def m'_def MAC_ST_SUCCESSFUL_def
        Let_def)
  moreover have "sta_state (vif m' 0) = STA_CONNECTED" using served by (simp add: running_defs)
  moreover have "pending h (m'\<lparr>waitq := q\<rparr>) = pending h m'" for h q by (simp add: pending_def)
  ultimately show ?thesis using served unfolding evs_def by (auto simp: prim owed_def c_def)
qed

section \<open>States the manager can be in\<close>

text \<open>The state after start-up, as an instance for the theorems.\<close>

definition fresh_vif :: "wifi_vif_type \<Rightarrow> wvif" where
  "fresh_vif t = \<lparr>wvif_type = t, sta_cfg_of = zero_cfg, sta_state = STA_IDLE, last_reason = 0, history_ip = 0,
     ap_state = AP_STATE_INIT, ap_cfg_of = zero_ap_cfg, monitor_channel = 0\<rparr>"

definition powered_on :: mgr where
  "powered_on = wifi_management_init False \<lparr>sm = \<lambda>_. zero_sm, vif = \<lambda>i. fresh_vif (if i = 0 then WVIF_STA else WVIF_UNKNOWN),
     eloop = wifi_eloop_init [], waitq = [], concurrent = False, calls = []\<rparr>"

definition good_env :: env where
  "good_env = \<lparr>now = 0, mem = True, scan_fails = False, connect_ret = 0, connect_cfg = \<lambda>c. c, connect_last = None, loaded = None,
     is_static_ip = False, dhcp_obtained = True, if_ip = 0, auto_conn = False, candidate = None, sta_rssi = - 50,
     rssi_thresh = - 70, softap_chan = 0, mac_type_ok = True, ap_start_ok = True, monitor_ret = 0, type_set_ok = True\<rparr>"

definition ready :: mgr where
  "ready = serve good_env [] powered_on"

lemma powered_on_queue: "task_queue (eloop powered_on) = [message_for 0 EV_INIT 0 None]"
  by (simp add: powered_on_def wifi_management_init_def WIFI_VIF_INDEX_DEFAULT_def send_event_def upd_loop_def eloop_event_send_def
      sys_task_post_def wifi_eloop_init_def MGMT_TASK_QUEUE_SIZE_def message_for_def)

lemma powered_on_start: "mgr_start powered_on"
proof -
  have "sm powered_on = (\<lambda>_. zero_sm) \<and> timeouts (eloop powered_on) = [] \<and> \<not> ended powered_on
      \<and> vif powered_on = (\<lambda>i. fresh_vif (if i = 0 then WVIF_STA else WVIF_UNKNOWN))"
    by (simp add: powered_on_def wifi_management_init_def prim) (simp add: wifi_eloop_init_def)
  then show ?thesis
    by (simp add: mgr_start_def queue_ok_def powered_on_queue message_ok_def message_for_def fresh_vif_def)
qed

lemma ready_steps:
  shows "running ready" and "sm_state (sm ready 0) = IDLE" and "task_queue (eloop ready) = []"
proof -
  define m where "m = powered_on\<lparr>eloop := (eloop powered_on)\<lparr>task_queue := []\<rparr>\<rparr>"
  have ok: "mgr_ok m" "\<not> ended m" "wvif_type (vif m 0) = WVIF_STA" "\<not> init (sm m 0)"
    using powered_on_start start_ok [of m] by (auto simp: m_def mgr_start_def queue_ok_def zero_sm_def)
  have r: "ready = upd_sm 0 (\<lambda>s. s\<lparr>sm_param := None\<rparr>) (step_init 0 (loaded_message EV_INIT 0 None m))"
    using ok by (simp add: ready_def serve_def powered_on_queue m_def [symmetric] run_message maintain_connection_def prim)
  define l where "l = loaded_message EV_INIT 0 None m"
  have "same_link m l" using ok by (simp add: l_def same_link_loaded mgr_ok_def common_ok_def)
  then have l: "mgr_ok l" "\<not> ended l" "wvif_type (vif l 0) = WVIF_STA" using ok same_link_ok by (auto simp: same_link_def)
  have "mgr_ok (step_init 0 l)" by (rule step_init_ok [OF l])
  moreover have "mode (step_init 0 l) = (WVIF_STA, True)" using l by simp
  ultimately have "running (step_init 0 l)" using l by (simp add: running_def mgr_ok_def mode_def)
  moreover have "same_link (step_init 0 l) ready" by (simp add: r l_def same_link_def prim)
  ultimately show "running ready" using same_link_running by blast
  show "sm_state (sm ready 0) = IDLE" "task_queue (eloop ready) = []"
    using l by (simp_all add: r l_def [symmetric] step_init_def mgmt_connect_retry_param_set_def zero_sm_def prim)
      (simp add: mgr_defs prim l_def m_def)
qed

lemma no_pending: "(\<And>h. pending h m = 0) \<Longrightarrow> timeouts (eloop m) = []"
proof -
  assume p: "\<And>h. pending h m = 0"
  show ?thesis using p [of "to_handler (hd (timeouts (eloop m)))"] by (cases "timeouts (eloop m)") (simp_all add: pending_def)
qed

section \<open>Properties\<close>



text \<open>
  C7: the station of the manager implements the abstract machine. A message moves it by
  \<open>link_event\<close>, whatever the layers below answer, and a retry timer by counting one retry down: a
  failure leads to another scan exactly while retries are left, the loss of an established
  connection for one of four reasons starts 100 attempts, and \<open>CONNECTED\<close> is entered only from
  \<open>DHCP\<close> by \<^verbatim>\<open>WIFI_MGMT_EVENT_DHCP_SUCCESS\<close>.
\<close>

theorem station_refines_link_machine:
  assumes "running m" and "ev \<notin> {EV_START, EV_INIT, EV_SWITCH_MODE_CMD}"
  shows "link_of (wifi_mgmt_cb_run_state_machine env (message_for 0 ev r p) m)
      = link_event (loaded env \<noteq> None) r ev (link_of m)
    \<and> (0 < retry_count (sm m 0) \<and> pending H_CONNECT_RETRY m = 0 \<longrightarrow>
      link_of (mgmt_connect_retry env 0 m) = (SCAN, snd (link_of m) - 1))"
proof -
  define m1 where "m1 = loaded_message ev r p m"
  have s: "same_link m m1" unfolding m1_def by (rule same_link_loaded [OF running_idx [OF assms(1)]])
  have "link_of (maintain_connection env 0 m1) = link_event (loaded env \<noteq> None) (sm_reason (sm m1 0)) ev (link_of m1)"
    using assms(2) by (intro maintain_connection_link same_link_running [OF s assms(1)]) (simp_all add: m1_def loaded_message_def prim)
  moreover have "sm_reason (sm m1 0) = r" by (simp add: m1_def loaded_message_def prim)
  ultimately have "link_of (wifi_mgmt_cb_run_state_machine env (message_for 0 ev r p) m)
      = link_event (loaded env \<noteq> None) r ev (link_of m)"
    using assms same_link_of [OF s] by (simp add: run_message running_def m1_def [symmetric] link_of_def prim)
  then show ?thesis using connect_retry_link [OF assms(1)] by blast
qed

theorem station_refines_link_machine_witness:
  "link_of (wifi_mgmt_cb_run_state_machine good_env (message_for 0 EV_CONNECT_CMD 0 None) ready) = (SCAN, 2)"
  using station_refines_link_machine [OF ready_steps(1), of EV_CONNECT_CMD good_env 0 None] ready_steps(2)
  by (simp add: link_of_def [of ready])

text \<open>
  C8: connecting ends. From the command to connect, or from the loss of a connection, until the
  station is idle, connected or in another mode, the station starts at most
  \<open>WIFI_MGMT_CONNECT_RETRY_LIMIT\<close> (3) scans, respectively \<open>WIFI_MGMT_ROAMING_RETRY_LIMIT\<close> (100), under
  any order of messages of other tasks, answers of the network and timeouts.
\<close>

theorem connect_scans_bounded:
  assumes "running m" and "sm_state (sm m 0) \<in> {IDLE, CONNECTED}"
    and "ev \<in> {EV_CONNECT_CMD, EV_AUTO_CONNECT_CMD, EV_DISCONNECT}"
    and "m1 = wifi_mgmt_cb_run_state_machine env (message_for 0 ev r p) m" and "connecting m1"
    and "attempt_step\<^sup>*\<^sup>* m1 m2"
  shows "scans m2 - scans m
    \<le> unat (if ev = EV_CONNECT_CMD then WIFI_MGMT_CONNECT_RETRY_LIMIT else WIFI_MGMT_ROAMING_RETRY_LIMIT)"
  using start_attempt [OF assms(1-5)] retries.cost_bound [OF assms(6)]
  by (auto simp: WIFI_MGMT_CONNECT_RETRY_LIMIT_def WIFI_MGMT_ROAMING_RETRY_LIMIT_def split: if_splits)

theorem connect_scans_bounded_witness:
  "scans (wifi_mgmt_cb_run_state_machine good_env (message_for 0 EV_CONNECT_CMD 0 None) ready) - scans ready \<le> 3"
proof -
  define m1 where "m1 = wifi_mgmt_cb_run_state_machine good_env (message_for 0 EV_CONNECT_CMD 0 None) ready"
  have "running m1" unfolding m1_def by (rule running_message [OF ready_steps(1)]) simp
  moreover have "sm_state (sm m1 0) = SCAN"
    using running_idx [OF ready_steps(1)] ready_steps by (simp add: m1_def handled step_idle_def mgr_defs prim)
  ultimately have "connecting m1" by (simp add: connecting_def running_def)
  then show ?thesis
    using connect_scans_bounded [OF ready_steps(1), of EV_CONNECT_CMD m1 good_env 0 None m1] ready_steps(2)
    by (simp add: m1_def [symmetric] WIFI_MGMT_CONNECT_RETRY_LIMIT_def)
qed

theorem connect_call_succeeds_witness:
  "fst (wifi_management_connect True True (serve good_env [EV_SCAN_DONE, EV_ASSOC_SUCCESS, EV_DHCP_START, EV_DHCP_SUCCESS]) id
     (Some [0x61]) (Some [1, 2, 3, 4, 5, 6, 7, 8]) True ready) = 0"
  using connect_call_succeeds [OF ready_steps, of good_env "[0x61]" "[1, 2, 3, 4, 5, 6, 7, 8]" id]
  by (auto simp: good_env_def)

text \<open>
  C21: while a task waits for its connection, a request of another task to scan or to connect is
  answered to the first one: its call returns a failure although the connection is still being
  made, and when the connection is there, no task is told.
\<close>

theorem other_request_fails_blocked_connect:
  assumes "running m" and "connecting m" and "waitq m = []" and "ev \<in> {EV_SCAN_CMD, EV_CONNECT_CMD}"
    and "m' = wifi_mgmt_cb_run_state_machine env (message_for 0 ev r p) m"
  shows "fst (mgmt_wait_queue_fetch 0 WAIT_CONN_DONE (waitq m')) = MAC_ST_FAILURE \<and> link_of m' = link_of m
    \<and> running m' \<and> connecting m' \<and> \<not> owed m'"
proof -
  have r: "running m'" unfolding assms(5) by (rule running_message [OF assms(1)]) (use assms(4) in auto)
  have "m' = upd_sm 0 (\<lambda>s. s\<lparr>sm_param := None\<rparr>) (mgmt_link_is_ongoing 0 (loaded_message ev r p m))"
    using assms(1,2,4,5)
    by (auto simp: handled connecting_def step_scan_def step_connect_def step_handshake_def step_dhcp_def)
  then show ?thesis
    using r assms(2,3) running_idx [OF assms(1)]
    by (simp add: mgr_defs prim owed_def post_wait_def MGMT_WAIT_QUEUE_MSG_SIZE_def link_of_def connecting_def)
qed

text \<open>A connection under way, waited for.\<close>

definition dialling :: mgr where
  "dialling = wifi_mgmt_cb_run_state_machine good_env
     (message_for 0 EV_CONNECT_CMD 0 (Some (P_STA_CFG (zero_cfg\<lparr>ssid := [0x61], conn_blocked := True\<rparr>)))) (ready\<lparr>waitq := []\<rparr>)"

lemma dialling_steps: "running dialling" "sm_state (sm dialling 0) = SCAN" "waitq dialling = []"
proof -
  have "same_link ready (ready\<lparr>waitq := []\<rparr>)" by (simp add: same_link_def pending_def timers_ok_def queue_ok_def)
  then have r: "running (ready\<lparr>waitq := []\<rparr>)" "sm_state (sm (ready\<lparr>waitq := []\<rparr>) 0) = IDLE"
    using ready_steps same_link_running by auto
  show "running dialling" "sm_state (sm dialling 0) = SCAN" "waitq dialling = []"
    using connect_cmd_stage [OF r dialling_def] by simp_all
qed

theorem other_request_fails_blocked_connect_witness:
  "fst (mgmt_wait_queue_fetch 0 WAIT_CONN_DONE
     (waitq (wifi_mgmt_cb_run_state_machine good_env (message_for 0 EV_SCAN_CMD 0 None) dialling))) = MAC_ST_FAILURE"
  using other_request_fails_blocked_connect [OF dialling_steps(1) _ dialling_steps(3) _ refl, of EV_SCAN_CMD good_env 0 None] dialling_steps
  by (simp add: connecting_def running_def)

text \<open>
  C20: the mark that delays a retry is taken back by the retry timer and on the way to the idle
  state only. When a connection succeeds before the timer (a scan result in the meantime leads
  on), the timer is cancelled and the mark stays; the next time the connection is lost, the
  station waits for a timer that nobody has set: it does not scan, and no timer is left.
\<close>

theorem stale_delay_stops_reconnect:
  assumes "running m" and "sm_state (sm m 0) = DHCP" and "delayed_connect_retry (sm m 0)" and "reconnects r"
    and "m1 = wifi_mgmt_cb_run_state_machine env (message_for 0 EV_DHCP_SUCCESS 0 None) m"
    and "m2 = wifi_mgmt_cb_run_state_machine env' (message_for 0 EV_DISCONNECT r None) m1"
  shows "sm_state (sm m1 0) = CONNECTED \<and> sm_state (sm m2 0) = SCAN \<and> scans m2 = scans m \<and> timeouts (eloop m2) = []"
proof -
  have r1: "running m1" unfolding assms(5) by (rule running_message [OF assms(1)]) simp
  have "sm_state (sm m1 0) = CONNECTED" "delayed_connect_retry (sm m1 0)"
    using assms(1-3,5) by (simp_all add: handled step_dhcp_def mgr_defs prim)
  moreover have "scans m1 = scans m" using assms(1,2,5) by (simp add: handled step_dhcp_def Let_def prim)
  ultimately have 1: "sm_state (sm m1 0) = CONNECTED" "delayed_connect_retry (sm m1 0)" "scans m1 = scans m" .
  have p1: "pending H_CONNECT_RETRY m1 = 0" by (rule no_retry_pending [OF r1]) (simp add: 1)
  have t1: "\<not> ended m1" using r1 by (simp add: running_def)
  have m2: "m2 = upd_sm 0 (\<lambda>s. s\<lparr>sm_param := None\<rparr>) (connection_lost env' 0 (loaded_message EV_DISCONNECT r None m1))"
    using r1 1 unfolding assms(6) by (simp add: handled step_connected_def Let_def)
  have 2: "sm_state (sm m2 0) = SCAN" "scans m2 = scans m"
    using 1 assms(4) by (simp_all add: m2 connection_lost_def mgr_defs prim)
  have "pending h m2 = 0" for h
    using 1 t1 p1 assms(4) by (cases h; simp add: m2 connection_lost_def mgr_defs prim)
  then have "timeouts (eloop m2) = []" by (rule no_pending)
  then show ?thesis using 1 2 by simp
qed

text \<open>
  Such a state: the first attempt fails, and a scan result that arrives before the retry leads to
  the second one.
\<close>

definition revived :: mgr where
  "revived = fold (\<lambda>(ev, r). wifi_mgmt_cb_run_state_machine good_env (message_for 0 ev r None))
     [(EV_SCAN_DONE, 0), (EV_CONNECT_FAIL, 3), (EV_SCAN_DONE, 0), (EV_ASSOC_SUCCESS, 0), (EV_DHCP_START, 0)] dialling"

lemma connect_fail_stage:
  assumes "running m" and "sm_state (sm m 0) = CONNECT" and "retry_count (sm m 0) > 0"
    and "m' = wifi_mgmt_cb_run_state_machine env (message_for 0 EV_CONNECT_FAIL r p) m"
  shows "running m' \<and> sm_state (sm m' 0) = SCAN \<and> delayed_connect_retry (sm m' 0)"
proof -
  have "running m'" unfolding assms(4) by (rule running_message [OF assms(1)]) simp
  then show ?thesis
    using assms by (simp add: handled step_connect_def retry_or_give_up_def mgmt_register_delayed_connect_retry_def mgr_defs prim)
qed

lemma sm_advance:
  "sm (sm_connect env 0 m) = (sm m)(0 := (sm m 0)\<lparr>sm_state := CONNECT\<rparr>)"
  "sm (sm_handshake 0 m) = (sm m)(0 := (sm m 0)\<lparr>sm_state := HANDSHAKE\<rparr>)"
  "delayed_connect_retry (sm (sm_dhcp env 0 m) 0) = delayed_connect_retry (sm m 0)"
  "retry_count (sm (sm_dhcp env 0 m) 0) = retry_count (sm m 0)"
  by (simp_all add: sm_connect_def sm_handshake_def sm_dhcp_def netlink_connect_req_def Let_def prim)

lemma advance_keeps_retry:
  assumes "running m" and "(sm_state (sm m 0), ev) \<in> {(SCAN, EV_SCAN_DONE), (CONNECT, EV_ASSOC_SUCCESS), (HANDSHAKE, EV_DHCP_START)}"
    and "m' = wifi_mgmt_cb_run_state_machine env (message_for 0 ev r p) m"
  shows "delayed_connect_retry (sm m' 0) = delayed_connect_retry (sm m 0) \<and> retry_count (sm m' 0) = retry_count (sm m 0)"
  using assms by (auto simp: handled step_scan_def step_connect_def step_handshake_def sm_advance Let_def prim)

lemma dialling_retries: "retry_count (sm dialling 0) > 0"
proof -
  have r: "running (ready\<lparr>waitq := []\<rparr>)" "sm_state (sm (ready\<lparr>waitq := []\<rparr>) 0) = IDLE"
    using ready_steps same_link_running [of ready "ready\<lparr>waitq := []\<rparr>"]
    by (auto simp: same_link_def pending_def timers_ok_def queue_ok_def)
  then show ?thesis
    unfolding dialling_def
    by (simp add: handled step_idle_def mgr_defs prim WIFI_MGMT_CONNECT_RETRY_LIMIT_def)
qed

lemma revived_steps: "running revived" "sm_state (sm revived 0) = DHCP" "delayed_connect_retry (sm revived 0)"
proof -
  have c: "connect_ret good_env = 0" by (simp add: good_env_def)
  define handle where "handle = wifi_mgmt_cb_run_state_machine good_env"
  define m1 where "m1 = handle (message_for 0 EV_SCAN_DONE 0 None) dialling"
  define m2 where "m2 = handle (message_for 0 EV_CONNECT_FAIL 3 None) m1"
  define m3 where "m3 = handle (message_for 0 EV_SCAN_DONE 0 None) m2"
  define m4 where "m4 = handle (message_for 0 EV_ASSOC_SUCCESS 0 None) m3"
  have m5: "revived = handle (message_for 0 EV_DHCP_START 0 None) m4"
    by (simp add: revived_def m1_def m2_def m3_def m4_def handle_def)
  have 1: "running m1" "sm_state (sm m1 0) = CONNECT" "retry_count (sm m1 0) > 0"
    using scan_done_stage [OF dialling_steps(1,2) c m1_def [unfolded handle_def]] dialling_retries
      advance_keeps_retry [OF dialling_steps(1) _ m1_def [unfolded handle_def]] dialling_steps(2) by simp_all
  have 2: "running m2" "sm_state (sm m2 0) = SCAN" "delayed_connect_retry (sm m2 0)"
    using connect_fail_stage [OF 1 m2_def [unfolded handle_def]] by simp_all
  have 3: "running m3" "sm_state (sm m3 0) = CONNECT" "delayed_connect_retry (sm m3 0)"
    using scan_done_stage [OF 2(1,2) c m3_def [unfolded handle_def]] advance_keeps_retry [OF 2(1) _ m3_def [unfolded handle_def]] 2
    by simp_all
  have 4: "running m4" "sm_state (sm m4 0) = HANDSHAKE" "delayed_connect_retry (sm m4 0)"
    using assoc_stage [OF 3(1,2) m4_def [unfolded handle_def]] advance_keeps_retry [OF 3(1) _ m4_def [unfolded handle_def]] 3
    by simp_all
  show "running revived" "sm_state (sm revived 0) = DHCP" "delayed_connect_retry (sm revived 0)"
    using dhcp_start_stage [OF 4(1,2) m5 [unfolded handle_def]] advance_keeps_retry [OF 4(1) _ m5 [unfolded handle_def]] 4
    by simp_all
qed

theorem stale_delay_stops_reconnect_witness:
  "timeouts (eloop (wifi_mgmt_cb_run_state_machine good_env (message_for 0 EV_DISCONNECT WIFI_MGMT_DISCON_NO_BEACON None)
     (wifi_mgmt_cb_run_state_machine good_env (message_for 0 EV_DHCP_SUCCESS 0 None) revived))) = []"
  using stale_delay_stops_reconnect [OF revived_steps _ refl refl, of WIFI_MGMT_DISCON_NO_BEACON good_env good_env]
  by (simp add: reconnects_def)

end
