(* ===== verification/Spec2Isabelle.thy ===== *)
theory Spec2Isabelle
  imports Prelude Cyclic_Buffer Wakelock Crc Util_Strings Cmd_Shell Slist Dlinked
    Blue_Courier_Link Blue_Courier_Prot Raw_Flash Nvds_Layout Nvds_Store Nvds_Correct Nvds_Refine
    Boot Ota Firmware_Update Dfu_Session Dhcpd Fatfs_Restart Wifi_Session
begin

text \<open>
  \<^bold>\<open>GD32VW55x firmware: the verification library\<close>

  The repository is the software kit of the GD32VW55x, a RISC-V microcontroller with Wi-Fi and BLE:
  a boot loader (\<^verbatim>\<open>src/MBL\<close>), the declarations of the mask ROM (\<^verbatim>\<open>src/ROM-EXPORT\<close>) and the
  firmware proper (\<^verbatim>\<open>src/MSDK\<close>). This library models the parts that hold the kit's own logic, in
  seven groups; the vendored stacks they call are parameters of the models.

  \<^bold>\<open>Parts and how they interact\<close>

  \<^descr>[Shared utilities.] Byte ring, wake locks, checksums, linked lists and text parsers of
    \<^verbatim>\<open>MSDK/util\<close> and \<^verbatim>\<open>MSDK/plf\<close>. The shell keeps its lines in the ring, the storage takes its
    checksums from \<^verbatim>\<open>crc32\<close> and its page lists from \<^verbatim>\<open>slist.c\<close>, the event loop its timeouts from
    \<^verbatim>\<open>dlist.c\<close>.
  \<^descr>[Flash and storage.] \<^verbatim>\<open>raw_flash_api.c\<close> on the ROM routines; on it the key/value storage
    \<^verbatim>\<open>nvds_flash.c\<close> and the disk of the file system (\<^verbatim>\<open>fatfs.c\<close> on \<^verbatim>\<open>wear_levelling_flash.c\<close>).
  \<^descr>[Boot and update.] The loader chooses one of two images by the flags the download tasks set; a
    download, over HTTP or from another device over BLE, writes the image that is not running.
  \<^descr>[Shell.] The UART interrupt edits a line and hands it to the CLI task.
  \<^descr>[Provisioning over BLE.] A link layer cuts messages into fragments, a protocol layer turns them
    into calls of the Wi-Fi manager.
  \<^descr>[Wi-Fi manager.] State machines of the station, the access point and the monitor, run by an event
    loop in one task; other tasks send it messages and wait for the answer.
  \<^descr>[DHCP server.] Leases for the clients of the access point.

  \<^bold>\<open>Theories, sources and results\<close>

  \<^descr>[\<open>Prelude\<close>] C integers as words, buffers as byte lists, \<open>blit\<close> and \<open>window\<close> for copies, and three
    interfaces used by several components: \<open>checksum\<close> (a fold of a step that is injective in the
    state and in the byte detects every change of one byte), \<open>ordered_insert\<close> (insertion by a
    comparison callback keeps a list sorted) and \<open>paid_steps\<close> (steps that cost what a potential
    loses: a run costs no more than the potential it starts with).
  \<^descr>[\<open>Cyclic_Buffer\<close>] \<^verbatim>\<open>util/src/cyclic_buffer.c\<close>. Every operation refines an operation on the queued bytes;
    the locale \<open>byte_queue\<close>, interpreted as \<open>cb\<close>, is what the shell relies on.
  \<^descr>[\<open>Wakelock\<close>] \<^verbatim>\<open>plf/src/wakelock.c\<close>. After any interleaving a bit is set exactly when its owner acquired
    it last.
  \<^descr>[\<open>Crc\<close>] \<^verbatim>\<open>util/src/crc.c\<close>. Both checksums interpret \<open>checksum\<close>; \<open>crc16\<close> is the bit-serial CRC-16.
  \<^descr>[\<open>Util_Strings\<close>] Hex decoding of \<^verbatim>\<open>util/src/util.c\<close> and the address parsers of \<^verbatim>\<open>app/cmd_shell.c\<close>: printing
    and parsing round trips, and the prefix length for which the mask is wrong.
  \<^descr>[\<open>Cmd_Shell\<close>] \<^verbatim>\<open>app/cmd_shell.c\<close>. The line editor stays in its buffer; under every interleaving of
    interrupt and task each read returns the next line; command lookup and parameter splitting, with
    the number of parameters that overruns the vector.
  \<^descr>[\<open>Slist\<close>, \<open>Dlinked\<close>] \<^verbatim>\<open>util/src/slist.c\<close> and \<^verbatim>\<open>util/src/dlist.c\<close> on explicit pointer heaps. \<open>list_rep\<close> and
    \<open>dl_rep\<close> relate a heap to the sequence it stands for; every operation ends and does to the
    sequence what its name says. The locale \<open>fifo\<close> is interpreted as \<open>sl\<close>, \<open>ordered_insert\<close> as
    \<open>key_order\<close>.
  \<^descr>[\<open>Raw_Flash\<close>] \<^verbatim>\<open>plf/src/raw_flash/raw_flash_api.c\<close> on a ROM that satisfies \<open>nor_rom\<close>; \<open>nor_device\<close> does.
  \<^descr>[\<open>Nvds_Layout\<close>, \<open>Nvds_Store\<close>] \<^verbatim>\<open>plf/src/nvds/nvds_type.h\<close> and \<^verbatim>\<open>nvds_flash.c\<close>: the format and all
    operations of one storage area, loading at start-up included.
  \<^descr>[\<open>Nvds_Correct\<close>, \<open>Nvds_Refine\<close>] On a NOR flash (locale \<open>nvds_flash\<close>, interpreted as \<open>nor\<close>) the walk over
    a well-formed page ends, and put, get and delete refine a finite map from (namespace, key) to
    bytes.
  \<^descr>[\<open>Boot\<close>] \<^verbatim>\<open>MBL/mainboot/mbl.c\<close> and \<^verbatim>\<open>mbl_image_validate.c\<close>; the status area of the ROM is the locale
    \<open>image_status\<close>, interpreted as \<open>area\<close>. Only a verified image that is not older than the
    version counter is started.
  \<^descr>[\<open>Ota\<close>] \<^verbatim>\<open>app/ota_demo.c\<close>. Whatever the server sends, only the other slot is written; an honest
    server gets exactly its image stored; a short announced length overruns the buffer.
  \<^descr>[\<open>Firmware_Update\<close>] Boot and download as one transition system with power loss anywhere; the locale
    \<open>update_cycle\<close> (an extension of \<open>image_status\<close>), interpreted as \<open>area_cycle\<close>, shows that the
    device is never left without an image that starts.
  \<^descr>[\<open>Dfu\<close>, \<open>Dfu_Server\<close>] \<^verbatim>\<open>ble/app/app_dfu_srv.c\<close>, \<^verbatim>\<open>app_dfu_cli.c\<close> and the OTA profile \<^verbatim>\<open>ble/profile/ota\<close>: the
    update over BLE, both ends. Whatever a peer sends, the image flags change only after the digest of the
    received data was verified; pieces of the wrong size overrun the receive buffer.
  \<^descr>[\<open>Dfu_Session\<close>] Client and server on a link that keeps the order of messages (locale \<open>dfu_link\<close>, an
    extension of \<open>image_status\<close>, interpreted as \<open>over_ble\<close>): every interleaving ends with the image installed and
    chosen by the loader, and an image that fills the slot costs the running one its first sector.
  \<^descr>[\<open>Blue_Courier_Link\<close>, \<open>Blue_Courier_Prot\<close>] \<^verbatim>\<open>ble/app/app_blue_courier_link.c\<close> and
    \<^verbatim>\<open>app_blue_courier_prot.c\<close>. Fragmentation and reassembly are inverse; requests reach the Wi-Fi
    manager with the parameters sent; the overruns and endless loops that a peer can cause.
  \<^descr>[\<open>Dhcpd\<close>] \<^verbatim>\<open>lwip/lwip-2.2.0/port/dhcpd.c\<close>. No two leases share an address or a client; a reply carries
    what it should; what happens when no lease is free.
  \<^descr>[\<open>Wear_Levelling\<close>, \<open>Wear_Flash\<close>] \<^verbatim>\<open>FatFS/port/wear_levelling_flash.c\<close> on the locale \<open>block_flash\<close>, which the
    internal flash interprets (\<open>internal\<close>).
  \<^descr>[\<open>Fatfs_Disk\<close>, \<open>Fatfs_Restart\<close>] \<^verbatim>\<open>FatFS/port/fatfs.c\<close> and \<^verbatim>\<open>FatFS/src/diskio.c\<close>: the disk refines an array
    of sectors (locale \<open>sector_disk\<close>, interpreted as \<open>fat\<close>) through any sequence of writes and
    restarts; the moment at which a loss of power shifts it, and the sectors it reports without
    having them.
  \<^descr>[\<open>Wifi_Eloop\<close>] \<^verbatim>\<open>wifi_manager/wifi_eloop.c\<close>: events, messages and timeouts; insertion of a timeout interprets
    \<open>ordered_insert\<close> (\<open>by_time\<close>). The earliest timeout that is due is run while the clock does not
    wrap, and what happens when it does.
  \<^descr>[\<open>Wifi_Manager\<close>, \<open>Wifi_Api\<close>] \<^verbatim>\<open>wifi_manager/wifi_management.c\<close>: the state machines, one definition per
    state and event handler, and the functions for other tasks. A call that waits has the activity
    of the other tasks as an argument.
  \<^descr>[\<open>Wifi_Manager_Inv\<close>, \<open>Wifi_Link\<close>, \<open>Wifi_Session\<close>] The invariant of every reachable state, under any
    order of messages and timeouts; an abstract link machine the station refines, with its budget of
    scans (\<open>paid_steps\<close>, interpreted as \<open>retries\<close>); and whole sessions: a blocked call to connect
    succeeds when the network answers, and the two orders of events in which it is answered wrongly
    or the station stops trying.

  \<^bold>\<open>Conventions\<close>

  A C struct is a record, an enum a datatype or its numbers, an integer a word of its width wherever it
  can wrap. State is passed explicitly; the operations of tasks and interrupts are the steps of
  inductive relations, so that theorems about reachable states hold for every interleaving. Error
  codes are returned as in the code. \<open>None\<close>, \<open>Bad\<close> or \<open>OVERRUN\<close> is the value of an operation that does not
  return or that leaves the memory it may access, so that the theorems about returned values are
  also theorems about the absence of such accesses. Loops that are not structural are functions
  with a termination proof or, where the code may run forever, \<open>partial_function (option)\<close>, with
  theorems that say when they return. No model uses fuel. Code outside the repository, the ROM, the
  BLE and TLS libraries, the network stack and the allocator, appears as parameters with their result codes;
  what a theorem needs of them is a named hypothesis that a witness satisfies.

  \<^bold>\<open>Not modelled\<close>

  Vendored third-party code (wpa_supplicant, mbedtls, lwIP, FatFS, FreeRTOS and other kernels, cloud clients, cJSON, the BLE
  mesh) and binary libraries (the Wi-Fi MAC, the BLE stack), of which only headers are present; register-level
  drivers and start-up code; formatted output and trace; the AT and shell commands, argument checks
  and prints around calls of the manager and of the network stack; examples. Of the modelled parts: the
  list of NVDS storage areas with its set-up, the dump functions and the key derivation of the
  optional encryption, the option-byte registers of the flash, WPS, EAP-TLS and IPv6 in the Wi-Fi manager,
  the file operations of \<^verbatim>\<open>fatfs.c\<close>, which only call the file system.
\<close>

end
